(* ===== verification/C8s_Prelude.thy ===== *)
theory C8s_Prelude
  imports
    Main
    "HOL-Library.Char_ord"
    "HOL-Library.List_Lexorder"
    "HOL-Library.Sublist"
    "HOL-Library.AList"
begin

text \<open>
  The shared base of the development: results with errors as values, the functions of Go's
  \<^verbatim>\<open>strings\<close> and \<^verbatim>\<open>path\<close> packages that the sources call, Go maps as association lists with
  distinct keys, and the lemmas on them that every component uses.

  A Go string is a sequence of bytes and is modelled by \<^typ>\<open>string\<close>, whose characters are
  the 256 bytes; the order of \<^verbatim>\<open>HOL-Library.List_Lexorder\<close> over \<^verbatim>\<open>Char_ord\<close> is Go's
  byte-wise string comparison.
\<close>

section \<open>Collections of facts\<close>

named_theorems go_string \<open>equations of the Go string functions\<close>
named_theorems res_elim \<open>what a successful sequence of fallible calls says about each call\<close>

section \<open>Results\<close>

text \<open>\<^verbatim>\<open>(T, error)\<close> of the sources: \<^term>\<open>Inl e\<close> is a returned error, \<^term>\<open>Inr x\<close> a value.\<close>

definition bindE :: "'e + 'a \<Rightarrow> ('a \<Rightarrow> 'e + 'b) \<Rightarrow> 'e + 'b" where
  "bindE r f = (case r of Inl e \<Rightarrow> Inl e | Inr x \<Rightarrow> f x)"

definition guardE :: "bool \<Rightarrow> 'e \<Rightarrow> 'e + unit" where
  "guardE b e = (if b then Inr () else Inl e)"

text \<open>An error wrapped into an error of the caller.\<close>

definition wrapE :: "('e \<Rightarrow> 'f) \<Rightarrow> 'e + 'a \<Rightarrow> 'f + 'a" where
  "wrapE f r = (case r of Inl e \<Rightarrow> Inl (f e) | Inr x \<Rightarrow> Inr x)"

definition okE :: "'e + 'a \<Rightarrow> bool" where
  "okE r = (case r of Inl _ \<Rightarrow> False | Inr _ \<Rightarrow> True)"

text \<open>A loop over a slice that stops at the first error.\<close>

fun mapE :: "('a \<Rightarrow> 'e + 'b) \<Rightarrow> 'a list \<Rightarrow> 'e + 'b list" where
  "mapE f [] = Inr []"
| "mapE f (x # xs) = bindE (f x) (\<lambda>y. bindE (mapE f xs) (\<lambda>ys. Inr (y # ys)))"

lemma bindE_simps [simp]:
  "bindE (Inl e) f = Inl e"
  "bindE (Inr x) f = f x"
  by (simp_all add: bindE_def)

lemma bindE_assoc: "bindE (bindE r f) g = bindE r (\<lambda>x. bindE (f x) g)"
  by (cases r) auto

lemma bindE_Inr_iff [res_elim]:
  "bindE r f = Inr y \<longleftrightarrow> (\<exists>x. r = Inr x \<and> f x = Inr y)"
  by (cases r) auto

lemma guardE_Inr_iff [res_elim, simp]: "guardE b e = Inr u \<longleftrightarrow> b"
  by (simp add: guardE_def)

lemma wrapE_Inr_iff [res_elim, simp]: "wrapE f r = Inr x \<longleftrightarrow> r = Inr x"
  by (simp add: wrapE_def split: sum.split)

lemma guardE_simps [simp]:
  "guardE True e = Inr ()"
  "guardE False e = Inl e"
  by (simp_all add: guardE_def)

lemma guardE_Inl_iff: "guardE b e = Inl e' \<longleftrightarrow> \<not> b \<and> e' = e"
  by (auto simp: guardE_def)

lemma bindE_cong [fundef_cong]:
  "r = r' \<Longrightarrow> (\<And>x. r' = Inr x \<Longrightarrow> f x = g x) \<Longrightarrow> bindE r f = bindE r' g"
  by (cases r') auto

lemma okE_simps [simp]: "okE (Inl e) = False" "okE (Inr x) = True"
  by (simp_all add: okE_def)

lemma okE_iff: "okE r \<longleftrightarrow> (\<exists>x. r = Inr x)"
  by (cases r) auto

lemma mapE_Inr_iff: "mapE f xs = Inr ys \<longleftrightarrow> list_all2 (\<lambda>x y. f x = Inr y) xs ys"
  by (induction xs arbitrary: ys) (auto simp: bindE_Inr_iff list_all2_Cons1)

lemma mapE_cong [fundef_cong]:
  assumes "xs = ys" and "\<And>x. x \<in> set ys \<Longrightarrow> f x = g x"
  shows "mapE f xs = mapE g ys"
  using assms(2) unfolding assms(1) by (induction ys) auto

lemma mapE_id: "(\<And>x. x \<in> set xs \<Longrightarrow> f x = Inr x) \<Longrightarrow> mapE f xs = Inr xs"
  by (induction xs) auto

lemma mapE_append:
  "mapE f (xs @ ys) = bindE (mapE f xs) (\<lambda>as. bindE (mapE f ys) (\<lambda>bs. Inr (as @ bs)))"
  by (induction xs) (auto simp: bindE_def split: sum.splits)

lemma mapE_set: "mapE f xs = Inr ys \<Longrightarrow> y \<in> set ys \<Longrightarrow> \<exists>x\<in>set xs. f x = Inr y"
  unfolding mapE_Inr_iff by (induction xs ys rule: list_all2_induct) auto

text \<open>A loop that threads a state and stops at the first error.\<close>

fun foldE :: "('a \<Rightarrow> 's \<Rightarrow> 'e + 's) \<Rightarrow> 'a list \<Rightarrow> 's \<Rightarrow> 'e + 's" where
  "foldE f [] s = Inr s"
| "foldE f (x # xs) s = bindE (f x s) (foldE f xs)"

lemma foldE_append: "foldE f (xs @ ys) s = bindE (foldE f xs s) (foldE f ys)"
  by (induction xs arbitrary: s) (auto simp: bindE_def split: sum.splits)

lemma foldE_cong [fundef_cong]:
  assumes "xs = ys" and "s = t" and "\<And>x r. x \<in> set ys \<Longrightarrow> f x r = g x r"
  shows "foldE f xs s = foldE g ys t"
  using assms(3) unfolding assms(1,2)
  by (induction ys arbitrary: t) (auto simp: bindE_def split: sum.splits)

section \<open>Go strings\<close>

definition HasPrefix :: "string \<Rightarrow> string \<Rightarrow> bool" where
  "HasPrefix s p = prefix p s"

definition HasSuffix :: "string \<Rightarrow> string \<Rightarrow> bool" where
  "HasSuffix s p = suffix p s"

definition CutPrefix :: "string \<Rightarrow> string \<Rightarrow> string option" where
  "CutPrefix s p = (if prefix p s then Some (drop (length p) s) else None)"

definition CutSuffix :: "string \<Rightarrow> string \<Rightarrow> string option" where
  "CutSuffix s p = (if suffix p s then Some (take (length s - length p) s) else None)"

definition TrimPrefix :: "string \<Rightarrow> string \<Rightarrow> string" where
  "TrimPrefix s p = (case CutPrefix s p of Some r \<Rightarrow> r | None \<Rightarrow> s)"

definition TrimSuffix :: "string \<Rightarrow> string \<Rightarrow> string" where
  "TrimSuffix s p = (case CutSuffix s p of Some r \<Rightarrow> r | None \<Rightarrow> s)"

text \<open>\<^verbatim>\<open>strings.Cut(s, sep)\<close>: the text around the first occurrence of the separator.\<close>

fun Cut :: "string \<Rightarrow> string \<Rightarrow> (string \<times> string) option" where
  "Cut [] sep = (if sep = [] then Some ([], []) else None)"
| "Cut (c # s) sep =
     (case CutPrefix (c # s) sep of
        Some r \<Rightarrow> Some ([], r)
      | None \<Rightarrow> (case Cut s sep of Some (a, b) \<Rightarrow> Some (c # a, b) | None \<Rightarrow> None))"

definition Contains :: "string \<Rightarrow> string \<Rightarrow> bool" where
  "Contains s sub = sublist sub s"

text \<open>The part of a string after the last occurrence of a byte (\<^verbatim>\<open>s[strings.LastIndex(s, c)+1:]\<close>);
  the whole string when the byte does not occur.\<close>

definition after_last :: "char \<Rightarrow> string \<Rightarrow> string" where
  "after_last c s = rev (takeWhile (\<lambda>x. x \<noteq> c) (rev s))"

text \<open>\<^verbatim>\<open>strings.ToLower\<close> on the ASCII letters. Bytes of 0x80 and above are kept: the sources
  lower-case hex digits, header schemes and algorithm names only, and reject every other byte.\<close>

definition lower_char :: "char \<Rightarrow> char" where
  "lower_char c = (if CHR ''A'' \<le> c \<and> c \<le> CHR ''Z'' then char_of (of_char c + (32::nat)) else c)"

definition ToLower :: "string \<Rightarrow> string" where
  "ToLower s = map lower_char s"

text \<open>The UTF-8 encodings of the code points of \<^verbatim>\<open>unicode.IsSpace\<close>.\<close>

definition space_runes :: "string list" where
  "space_runes =
     [[CHR 0x09], [CHR 0x0A], [CHR 0x0B], [CHR 0x0C], [CHR 0x0D], [CHR 0x20],
      [CHR 0xC2, CHR 0x85], [CHR 0xC2, CHR 0xA0], [CHR 0xE1, CHR 0x9A, CHR 0x80],
      [CHR 0xE2, CHR 0x80, CHR 0x80], [CHR 0xE2, CHR 0x80, CHR 0x81], [CHR 0xE2, CHR 0x80, CHR 0x82],
      [CHR 0xE2, CHR 0x80, CHR 0x83], [CHR 0xE2, CHR 0x80, CHR 0x84], [CHR 0xE2, CHR 0x80, CHR 0x85],
      [CHR 0xE2, CHR 0x80, CHR 0x86], [CHR 0xE2, CHR 0x80, CHR 0x87], [CHR 0xE2, CHR 0x80, CHR 0x88],
      [CHR 0xE2, CHR 0x80, CHR 0x89], [CHR 0xE2, CHR 0x80, CHR 0x8A], [CHR 0xE2, CHR 0x80, CHR 0xA8],
      [CHR 0xE2, CHR 0x80, CHR 0xA9], [CHR 0xE2, CHR 0x80, CHR 0xAF], [CHR 0xE2, CHR 0x81, CHR 0x9F],
      [CHR 0xE3, CHR 0x80, CHR 0x80]]"

definition leading_space :: "string list \<Rightarrow> string \<Rightarrow> nat" where
  "leading_space runes s = (case find (\<lambda>w. prefix w s) runes of Some w \<Rightarrow> length w | None \<Rightarrow> 0)"

fun trim_left :: "nat \<Rightarrow> string list \<Rightarrow> string \<Rightarrow> string" where
  "trim_left 0 runes s = s"
| "trim_left (Suc k) runes s =
     (let n = leading_space runes s in if n = 0 then s else trim_left k runes (drop n s))"

text \<open>Each round removes at least one byte, so the length of the string is enough rounds.\<close>

definition TrimSpace :: "string \<Rightarrow> string" where
  "TrimSpace s =
     (let l = trim_left (length s) space_runes s
      in rev (trim_left (length l) (map rev space_runes) (rev l)))"

definition Join :: "string \<Rightarrow> string list \<Rightarrow> string" where
  "Join sep ss = concat (case ss of [] \<Rightarrow> [] | x # xs \<Rightarrow> x # map (\<lambda>y. sep @ y) xs)"

fun split_on :: "char \<Rightarrow> string \<Rightarrow> string list" where
  "split_on c [] = [[]]"
| "split_on c (x # xs) =
     (if x = c then [] # split_on c xs
      else (case split_on c xs of [] \<Rightarrow> [[x]] | y # ys \<Rightarrow> (x # y) # ys))"

subsection \<open>Prefixes and suffixes\<close>

lemma HasPrefix_append [simp]: "HasPrefix (p @ s) p"
  by (simp add: HasPrefix_def)

lemma CutPrefix_append [simp]: "CutPrefix (p @ s) p = Some s"
  by (simp add: CutPrefix_def)

lemma CutPrefix_Some_iff [go_string]: "CutPrefix s p = Some r \<longleftrightarrow> s = p @ r"
  by (auto simp: CutPrefix_def prefix_def)

lemma CutPrefix_None_iff [go_string]: "CutPrefix s p = None \<longleftrightarrow> \<not> HasPrefix s p"
  by (simp add: CutPrefix_def HasPrefix_def)

lemma CutSuffix_append [simp]: "CutSuffix (s @ p) p = Some s"
  by (simp add: CutSuffix_def suffix_def)

lemma CutSuffix_Some_iff [go_string]: "CutSuffix s p = Some r \<longleftrightarrow> s = r @ p"
  by (auto simp: CutSuffix_def suffix_def)

lemma CutSuffix_None_iff [go_string]: "CutSuffix s p = None \<longleftrightarrow> \<not> HasSuffix s p"
  by (simp add: CutSuffix_def HasSuffix_def)

lemma TrimPrefix_append [simp]: "TrimPrefix (p @ s) p = s"
  by (simp add: TrimPrefix_def)

lemma TrimPrefix_other: "\<not> HasPrefix s p \<Longrightarrow> TrimPrefix s p = s"
  by (simp add: TrimPrefix_def flip: CutPrefix_None_iff)

lemma TrimSuffix_append [simp]: "TrimSuffix (s @ p) p = s"
  by (simp add: TrimSuffix_def)

lemma Cut_SomeD: "Cut s sep = Some (a, b) \<Longrightarrow> s = a @ sep @ b"
  by (induction s arbitrary: a b)
    (auto simp: CutPrefix_Some_iff split: if_splits option.splits prod.splits)

lemma Contains_char: "Contains s [c] \<longleftrightarrow> c \<in> set s"
  by (auto simp: Contains_def sublist_def in_set_conv_decomp)

lemma after_last_suffix: "\<exists>pre. s = pre @ after_last c s"
  by (metis after_last_def rev_append rev_rev_ident takeWhile_dropWhile_id)

lemma after_last_fresh: "c \<notin> set (after_last c s)"
  by (auto simp: after_last_def dest: set_takeWhileD)

lemma after_last_append: "c \<notin> set b \<Longrightarrow> after_last c (a @ c # b) = b"
proof -
  assume "c \<notin> set b"
  hence "takeWhile (\<lambda>x. x \<noteq> c) (rev b @ c # rev a) = rev b"
    by (subst takeWhile_append2) auto
  thus ?thesis by (simp add: after_last_def)
qed

lemma after_last_absent:
  assumes "c \<notin> set s"
  shows "after_last c s = s"
proof -
  have "takeWhile (\<lambda>x. x \<noteq> c) (rev s) = rev s"
    using assms by (auto simp: takeWhile_eq_all_conv)
  thus ?thesis unfolding after_last_def by (simp only: rev_rev_ident)
qed

subsection \<open>Lower case\<close>

lemma lower_char_idem [simp]: "lower_char (lower_char c) = lower_char c"
  by (auto simp: lower_char_def less_eq_char_def)

lemma ToLower_idem [simp]: "ToLower (ToLower s) = ToLower s"
  by (simp add: ToLower_def)

lemma length_ToLower [simp]: "length (ToLower s) = length s"
  by (simp add: ToLower_def)

lemma ToLower_append: "ToLower (a @ b) = ToLower a @ ToLower b"
  by (simp add: ToLower_def)

subsection \<open>White space\<close>

lemma trim_left_suffix: "suffix (trim_left k runes s) s"
  by (induction k arbitrary: s) (auto simp: Let_def intro: suffix_order.trans suffix_drop)

lemma TrimSpace_sublist: "sublist (TrimSpace s) s"
proof -
  define l where "l = trim_left (length s) space_runes s"
  have "suffix (trim_left (length l) (map rev space_runes) (rev l)) (rev l)"
    by (rule trim_left_suffix)
  hence "prefix (rev (trim_left (length l) (map rev space_runes) (rev l))) l"
    by (simp add: suffix_to_prefix)
  moreover have "suffix l s" unfolding l_def by (rule trim_left_suffix)
  ultimately have "sublist (rev (trim_left (length l) (map rev space_runes) (rev l))) s"
    by (meson prefix_imp_sublist sublist_order.order.trans suffix_imp_sublist)
  thus ?thesis by (simp add: TrimSpace_def Let_def l_def)
qed

text \<open>A string whose first and last bytes occur in no white space encoding is left as it is.\<close>

definition plain_byte :: "char \<Rightarrow> bool" where
  "plain_byte c = (\<forall>w \<in> set space_runes. c \<notin> set w)"

lemma trim_left_plain:
  assumes "\<And>w. w \<in> set runes \<Longrightarrow> w \<noteq> [] \<and> c \<notin> set w"
  shows "trim_left k runes (c # s) = c # s"
proof (cases k)
  case (Suc n)
  have "find (\<lambda>w. prefix w (c # s)) runes = None"
    using assms by (fastforce simp: find_None_iff prefix_Cons)
  thus ?thesis using Suc by (simp add: leading_space_def)
qed simp

lemma space_runes_nonempty: "w \<in> set space_runes \<Longrightarrow> w \<noteq> []"
  by (auto simp: space_runes_def)

lemma TrimSpace_plain:
  assumes "s = [] \<or> plain_byte (hd s) \<and> plain_byte (last s)"
  shows "TrimSpace s = s"
proof (cases "s = []")
  case False
  then obtain c t where s: "s = c # t" by (cases s) auto
  obtain d u where r: "rev s = d # u" using False by (cases "rev s") auto
  have c: "plain_byte c" using assms s by simp
  have d: "plain_byte d" using assms False r by (metis hd_rev list.sel(1))
  have l: "trim_left (length s) space_runes s = s"
    unfolding s using c
    by (intro trim_left_plain) (auto simp: plain_byte_def dest: space_runes_nonempty)
  have "trim_left (length s) (map rev space_runes) (rev s) = rev s"
    unfolding r using d
    by (intro trim_left_plain) (auto simp: plain_byte_def dest: space_runes_nonempty)
  thus ?thesis by (simp add: TrimSpace_def Let_def l)
qed (simp add: TrimSpace_def)

lemma trim_left_stop:
  assumes "\<And>w. w \<in> set runes \<Longrightarrow> c \<notin> set w"
  shows "\<exists>a'. trim_left k runes (a @ c # b) = a' @ c # b"
proof (induction k arbitrary: a)
  case (Suc k)
  have le: "leading_space runes (a @ c # b) \<le> length a"
  proof (cases "find (\<lambda>w. prefix w (a @ c # b)) runes")
    case (Some w)
    hence w: "w \<in> set runes" "prefix w (a @ c # b)" by (auto simp: find_Some_iff)
    hence "length w \<le> length a"
      using assms[OF w(1)] by (auto simp: prefix_append prefix_Cons dest: prefix_length_le)
    thus ?thesis using Some by (simp add: leading_space_def)
  qed (simp add: leading_space_def)
  show ?case using Suc[of "drop (leading_space runes (a @ c # b)) a"] le by (simp add: Let_def)
qed auto

text \<open>Trimming stops at a byte of no white space encoding, and keeps a tail that ends in one.\<close>

lemma TrimSpace_stop:
  assumes "plain_byte c" and "plain_byte (last (c # b))"
  shows "\<exists>a'. TrimSpace (a @ c # b) = a' @ c # b"
proof -
  let ?s = "a @ c # b"
  obtain a' where a': "trim_left (length ?s) space_runes ?s = a' @ c # b"
    using trim_left_stop assms(1) unfolding plain_byte_def by metis
  have rev_plain: "w \<noteq> [] \<and> last (c # b) \<notin> set w" if "w \<in> set (map rev space_runes)" for w
    using that assms(2) by (auto simp: plain_byte_def dest: space_runes_nonempty)
  have "rev (a' @ c # b) = last (c # b) # tl (rev (a' @ c # b))"
    by (cases b rule: rev_cases) auto
  hence "trim_left k (map rev space_runes) (rev (a' @ c # b)) = rev (a' @ c # b)" for k
    using trim_left_plain[OF rev_plain] by metis
  thus ?thesis using a' by (auto simp: TrimSpace_def Let_def simp del: rev_append rev.simps)
qed

lemma TrimSpace_between:
  assumes "plain_byte c" and "plain_byte d"
  shows "\<exists>b'. prefix b' b \<and> TrimSpace (c # a @ d # b) = c # a @ d # b'"
proof -
  let ?s = "c # a @ d # b"
  have l: "trim_left (length ?s) space_runes ?s = ?s"
    using assms(1) by (intro trim_left_plain) (auto simp: plain_byte_def dest: space_runes_nonempty)
  have "\<And>w. w \<in> set (map rev space_runes) \<Longrightarrow> d \<notin> set w" using assms(2) by (auto simp: plain_byte_def)
  then obtain e where e: "trim_left (length ?s) (map rev space_runes) (rev b @ d # rev (c # a)) = e @ d # rev (c # a)"
    using trim_left_stop[of "map rev space_runes" d "length ?s" "rev b" "rev (c # a)"] by blast
  hence "suffix (e @ d # rev (c # a)) (rev b @ d # rev (c # a))" using trim_left_suffix by metis
  hence "suffix e (rev b)" by (simp add: suffix_def)
  hence "prefix (rev e) b" by (simp add: suffix_to_prefix)
  moreover have "TrimSpace ?s = c # a @ d # rev e"
    using e l by (simp add: TrimSpace_def Let_def)
  ultimately show ?thesis by blast
qed

section \<open>Go paths\<close>

text \<open>
  \<^verbatim>\<open>path.Clean\<close>: drop empty and \<^verbatim>\<open>.\<close> components, let \<^verbatim>\<open>..\<close> remove the component before it,
  drop a \<^verbatim>\<open>..\<close> at the root, keep a leading slash; the empty result is \<^verbatim>\<open>.\<close>. The stack holds the
  components kept so far, last first.
\<close>

definition dot :: string where "dot = ''.''"
definition dotdot :: string where "dotdot = ''..''"

fun clean_stack :: "bool \<Rightarrow> string list \<Rightarrow> string list \<Rightarrow> string list" where
  "clean_stack rooted st [] = st"
| "clean_stack rooted st (c # cs) =
     (if c = [] \<or> c = dot then clean_stack rooted st cs
      else if c = dotdot then
        (if st \<noteq> [] \<and> hd st \<noteq> dotdot then clean_stack rooted (tl st) cs
         else if rooted then clean_stack rooted st cs
         else clean_stack rooted (dotdot # st) cs)
      else clean_stack rooted (c # st) cs)"

definition rooted_path :: "string \<Rightarrow> bool" where
  "rooted_path p = (p \<noteq> [] \<and> hd p = CHR ''/'')"

definition path_comps :: "string \<Rightarrow> string list" where
  "path_comps p = rev (clean_stack (rooted_path p) [] (split_on (CHR ''/'') p))"

definition path_clean :: "string \<Rightarrow> string" where
  "path_clean p =
     (let body = Join ''/'' (path_comps p)
      in if rooted_path p then CHR ''/'' # body else if body = [] then dot else body)"

text \<open>A component of a clean rooted path.\<close>

definition plain_comp :: "string \<Rightarrow> bool" where
  "plain_comp c = (c \<noteq> [] \<and> c \<noteq> dot \<and> c \<noteq> dotdot \<and> CHR ''/'' \<notin> set c)"

lemma Join_simps [simp]:
  "Join sep [] = []"
  "Join sep [x] = x"
  "Join sep (x # y # zs) = x @ sep @ Join sep (y # zs)"
  by (simp_all add: Join_def)

lemma split_on_nonempty [simp]: "split_on c s \<noteq> []"
  by (cases s) (auto split: list.splits)

lemma split_on_fresh: "x \<in> set (split_on c s) \<Longrightarrow> c \<notin> set x"
  by (induction s arbitrary: x) (auto split: if_splits list.splits)

lemma Join_split_on: "Join [c] (split_on c s) = s"
proof (induction s)
  case (Cons a s)
  obtain y ys where y: "split_on c s = y # ys" by (cases "split_on c s") auto
  show ?case using Cons.IH by (cases ys) (auto simp: y)
qed simp

lemma split_on_append:
  "c \<notin> set x \<Longrightarrow> split_on c (x @ c # s) = x # split_on c s"
  by (induction x) auto

lemma split_on_id: "c \<notin> set x \<Longrightarrow> split_on c x = [x]"
  by (induction x) auto

lemma split_on_Join:
  assumes "cs \<noteq> []" and "\<And>x. x \<in> set cs \<Longrightarrow> c \<notin> set x"
  shows "split_on c (Join [c] cs) = cs"
  using assms
proof (induction cs rule: induct_list012)
  case (2 x)
  thus ?case by (simp add: split_on_id)
next
  case (3 x y zs)
  thus ?case by (simp add: split_on_append)
qed simp

lemma clean_stack_rooted:
  assumes "\<And>x. x \<in> set cs \<Longrightarrow> CHR ''/'' \<notin> set x" and "list_all plain_comp st"
  shows "list_all plain_comp (clean_stack True st cs)"
  using assms
proof (induction cs arbitrary: st)
  case (Cons c cs)
  have tl: "list_all plain_comp (tl st)" using Cons.prems(2) by (cases st) auto
  have "c \<noteq> [] \<Longrightarrow> c \<noteq> dot \<Longrightarrow> c \<noteq> dotdot \<Longrightarrow> plain_comp c"
    using Cons.prems(1) by (simp add: plain_comp_def)
  thus ?case using Cons tl by simp
qed simp

lemma clean_stack_plain:
  "list_all plain_comp cs \<Longrightarrow> clean_stack rooted st cs = rev cs @ st"
  by (induction cs arbitrary: st) (auto simp: plain_comp_def)

lemma path_comps_plain: "rooted_path p \<Longrightarrow> list_all plain_comp (path_comps p)"
  unfolding path_comps_def
  by (simp add: clean_stack_rooted split_on_fresh)

lemma path_clean_rooted: "rooted_path p \<Longrightarrow> path_clean p = CHR ''/'' # Join ''/'' (path_comps p)"
  by (simp add: path_clean_def Let_def)

lemma path_comps_build:
  assumes "list_all plain_comp cs"
  shows "path_comps (CHR ''/'' # Join ''/'' cs) = cs"
proof (cases "cs = []")
  case False
  have "split_on (CHR ''/'') (Join ''/'' cs) = cs"
    using assms False by (intro split_on_Join) (auto simp: list_all_iff plain_comp_def)
  thus ?thesis using assms
    by (simp add: path_comps_def rooted_path_def clean_stack_plain)
qed (simp add: path_comps_def rooted_path_def)

lemma path_clean_build:
  "list_all plain_comp cs \<Longrightarrow> path_clean (CHR ''/'' # Join ''/'' cs) = CHR ''/'' # Join ''/'' cs"
  by (subst path_clean_rooted) (auto simp: rooted_path_def path_comps_build)

lemma path_clean_idem: "rooted_path p \<Longrightarrow> path_clean (path_clean p) = path_clean p"
  by (simp add: path_clean_rooted path_clean_build path_comps_plain)

text \<open>The clean rooted paths are exactly the slash-joined lists of plain components.\<close>

lemma path_clean_fixed:
  assumes "rooted_path p" and "path_clean p = p"
  shows "p = CHR ''/'' # Join ''/'' (path_comps p)" and "list_all plain_comp (path_comps p)"
  using path_clean_rooted[OF assms(1)] path_comps_plain[OF assms(1)] assms(2) by metis+

lemma path_comps_inj:
  assumes "rooted_path p" "path_clean p = p" "rooted_path q" "path_clean q = q"
  shows "path_comps p = path_comps q \<longleftrightarrow> p = q"
  using path_clean_fixed(1)[OF assms(1,2)] path_clean_fixed(1)[OF assms(3,4)] by metis

section \<open>Go maps\<close>

text \<open>
  A Go map is an association list with distinct keys: \<^const>\<open>map_of\<close> looks up, \<^const>\<open>AList.update\<close>
  assigns, \<^const>\<open>AList.delete\<close> deletes, \<^const>\<open>length\<close> is \<^verbatim>\<open>len\<close>.
\<close>

abbreviation uniq_keys :: "('k \<times> 'v) list \<Rightarrow> bool" where
  "uniq_keys m \<equiv> distinct (map fst m)"

lemma map_of_update [simp]: "map_of (AList.update k v m) x = (if x = k then Some v else map_of m x)"
  by (simp add: update_conv')

lemma map_of_delete [simp]: "map_of (AList.delete k m) x = (if x = k then None else map_of m x)"
  by (simp add: delete_conv')

lemma update_set_cases: "e \<in> set (AList.update k v m) \<Longrightarrow> e = (k, v) \<or> e \<in> set m"
  by (induction m) (auto split: if_splits)

lemma delete_set_cases: "e \<in> set (AList.delete k m) \<Longrightarrow> e \<in> set m \<and> fst e \<noteq> k"
  by (auto simp: AList.delete_eq)

lemma uniq_keys_update [simp]: "uniq_keys m \<Longrightarrow> uniq_keys (AList.update k v m)"
  by (rule distinct_update)

lemma uniq_keys_delete [simp]: "uniq_keys m \<Longrightarrow> uniq_keys (AList.delete k m)"
  by (rule distinct_delete)

lemma uniq_keys_filter: "uniq_keys m \<Longrightarrow> uniq_keys (filter P m)"
  by (induction m) auto

lemma length_update:
  "length (AList.update k v m) = (if map_of m k = None then Suc (length m) else length m)"
  by (induction m) auto

lemma length_delete:
  "uniq_keys m \<Longrightarrow> length (AList.delete k m) = (if map_of m k = None then length m else length m - 1)"
proof (induction m)
  case (Cons e m)
  obtain x v where e: "e = (x, v)" by (cases e)
  have "x = k \<Longrightarrow> AList.delete k m = m"
    using Cons.prems e by (force simp: AList.delete_eq filter_id_conv)
  moreover have "map_of m k \<noteq> None \<Longrightarrow> m \<noteq> []" by auto
  ultimately show ?case using Cons e by (cases m) (auto simp: length_greater_0_conv split: if_splits)
qed simp

lemma set_update:
  "uniq_keys m \<Longrightarrow> set (AList.update k v m) = insert (k, v) {e \<in> set m. fst e \<noteq> k}"
proof (induction m)
  case (Cons e m)
  obtain x y where e: "e = (x, y)" by (cases e)
  have "x = k \<Longrightarrow> {e' \<in> set m. fst e' \<noteq> k} = set m" using Cons.prems e by force
  thus ?case using Cons e by auto
qed simp

lemma set_delete: "set (AList.delete k m) = {e \<in> set m. fst e \<noteq> k}"
  by (auto simp: AList.delete_eq)

lemma map_of_mem_snd: "map_of m k = Some v \<Longrightarrow> v \<in> snd ` set m"
  by (force dest: map_of_SomeD)

end
