(* ===== verification/Go_Json.thy ===== *)
theory Go_Json
  imports C8s_Prelude
begin

text \<open>
  The parts of Go's \<^verbatim>\<open>unicode/utf8\<close>, \<^verbatim>\<open>encoding/json\<close> and \<^verbatim>\<open>encoding/hex\<close> packages that the
  sources commit to with hashes: UTF-8 validity, the compact JSON text of a value, lower-case hex.
  The main fact is that the JSON text determines the value (\<^verbatim>\<open>encode_inj\<close>), for values whose
  strings are valid UTF-8; for other strings the encoder writes the replacement character and the
  text does not determine the value.
\<close>

section \<open>UTF-8\<close>

abbreviation byte :: "char \<Rightarrow> nat" where
  "byte c \<equiv> of_char c"

text \<open>The ranges of the bytes that follow a leading byte, or \<^const>\<open>None\<close> for a byte that leads
  no encoding (the table of \<^verbatim>\<open>utf8.DecodeRune\<close>).\<close>

definition utf8_bounds :: "nat \<Rightarrow> (nat \<times> nat) list option" where
  "utf8_bounds x =
     (if x < 128 then Some []
      else if x < 194 then None
      else if x \<le> 223 then Some [(128, 191)]
      else if x = 224 then Some [(160, 191), (128, 191)]
      else if x = 237 then Some [(128, 159), (128, 191)]
      else if x \<le> 239 then Some [(128, 191), (128, 191)]
      else if x = 240 then Some [(144, 191), (128, 191), (128, 191)]
      else if x \<le> 243 then Some [(128, 191), (128, 191), (128, 191)]
      else if x = 244 then Some [(128, 143), (128, 191), (128, 191)]
      else None)"

fun within :: "(nat \<times> nat) list \<Rightarrow> string \<Rightarrow> bool" where
  "within [] t = True"
| "within ((l, h) # bs) [] = False"
| "within ((l, h) # bs) (c # t) = (l \<le> byte c \<and> byte c \<le> h \<and> within bs t)"

text \<open>The number of bytes of the rune a string starts with; 0 where the encoding is invalid.\<close>

definition utf8_len :: "string \<Rightarrow> nat" where
  "utf8_len s =
     (case s of
        [] \<Rightarrow> 0
      | a # t \<Rightarrow> (case utf8_bounds (byte a) of
                    None \<Rightarrow> 0
                  | Some bs \<Rightarrow> if within bs t then Suc (length bs) else 0))"

function ValidString :: "string \<Rightarrow> bool" where
  "ValidString s =
     (if s = [] then True
      else if utf8_len s = 0 then False
      else ValidString (drop (utf8_len s) s))"
  by pat_completeness auto
termination
  by (relation "measure length") (auto simp: utf8_len_def split: list.splits)

declare ValidString.simps [simp del]

section \<open>JSON strings\<close>

definition hex_digit :: "nat \<Rightarrow> char" where
  "hex_digit n = (if n < 10 then char_of (48 + n) else char_of (87 + n))"

definition u_escape :: "nat \<Rightarrow> string" where
  "u_escape n = CHR 0x5C # ''u00'' @ [hex_digit (n div 16), hex_digit (n mod 16)]"

text \<open>\<^verbatim>\<open>encoding/json\<close> escapes the quote, the backslash, the control characters and, by default,
  the HTML characters; U+2028 and U+2029 are escaped too.\<close>

definition special_runes :: "(string \<times> string) list" where
  "special_runes =
     [([CHR 0x22], [CHR 0x5C, CHR 0x22]), ([CHR 0x5C], [CHR 0x5C, CHR 0x5C]),
      ([CHR 0x08], [CHR 0x5C, CHR ''b'']), ([CHR 0x0C], [CHR 0x5C, CHR ''f'']),
      ([CHR 0x0A], [CHR 0x5C, CHR ''n'']), ([CHR 0x0D], [CHR 0x5C, CHR ''r'']),
      ([CHR 0x09], [CHR 0x5C, CHR ''t'']),
      ([CHR 0xE2, CHR 0x80, CHR 0xA8], CHR 0x5C # ''u2028''),
      ([CHR 0xE2, CHR 0x80, CHR 0xA9], CHR 0x5C # ''u2029'')]"

definition escaped_byte :: "char \<Rightarrow> bool" where
  "escaped_byte c = (byte c < 32 \<or> c = CHR ''<'' \<or> c = CHR ''>'' \<or> c = CHR ''&'')"

definition esc_rune :: "string \<Rightarrow> string" where
  "esc_rune r =
     (case map_of special_runes r of
        Some e \<Rightarrow> e
      | None \<Rightarrow> if length r = 1 \<and> escaped_byte (hd r) then u_escape (byte (hd r)) else r)"

function json_escape :: "string \<Rightarrow> string" where
  "json_escape s =
     (if s = [] then []
      else if utf8_len s = 0 then (CHR 0x5C # ''ufffd'') @ json_escape (tl s)
      else esc_rune (take (utf8_len s) s) @ json_escape (drop (utf8_len s) s))"
  by pat_completeness auto
termination
  by (relation "measure length") (auto simp: utf8_len_def split: list.splits)

declare json_escape.simps [simp del]

text \<open>What a decoder reads back from an encoded string: each byte that is not part of an encoding has become U+FFFD.\<close>

function json_read :: "string \<Rightarrow> string" where
  "json_read s =
     (if s = [] then []
      else if utf8_len s = 0 then [CHR 0xEF, CHR 0xBF, CHR 0xBD] @ json_read (tl s)
      else take (utf8_len s) s @ json_read (drop (utf8_len s) s))"
  by pat_completeness auto
termination
  by (relation "measure length") (auto simp: utf8_len_def split: list.splits)

declare json_read.simps [simp del]

lemma json_read_valid: "ValidString s \<Longrightarrow> json_read s = s"
proof (induction s rule: ValidString.induct)
  case (1 s)
  show ?case
  proof (cases "s = []")
    case False
    hence "utf8_len s \<noteq> 0" "ValidString (drop (utf8_len s) s)" using "1.prems" ValidString.simps[of s] by (auto split: if_splits)
    thus ?thesis using "1.IH" False by (subst json_read.simps) simp
  qed (simp add: json_read.simps)
qed

definition json_quote :: "string \<Rightarrow> string" where
  "json_quote s = CHR 0x22 # json_escape s @ [CHR 0x22]"

section \<open>JSON values\<close>

datatype json = JNull | JBool bool | JStr string | JArr "json list" | JObj "(string \<times> json) list"

text \<open>\<^verbatim>\<open>json.Marshal\<close>: structs list their fields in order of declaration and maps their keys in
  sorted order, so the caller passes the members of an object in that order.\<close>

fun encode :: "json \<Rightarrow> string" where
  "encode JNull = ''null''"
| "encode (JBool b) = (if b then ''true'' else ''false'')"
| "encode (JStr s) = json_quote s"
| "encode (JArr js) = CHR ''['' # Join '','' (map encode js) @ [CHR '']'']"
| "encode (JObj kvs) =
     CHR ''{'' # Join '','' (map (\<lambda>(k, v). json_quote k @ CHR '':'' # encode v) kvs) @ [CHR ''}'']"

fun valid_json :: "json \<Rightarrow> bool" where
  "valid_json (JStr s) = ValidString s"
| "valid_json (JArr js) = (\<forall>j\<in>set js. valid_json j)"
| "valid_json (JObj kvs) = (\<forall>kv\<in>set kvs. ValidString (fst kv) \<and> valid_json (snd kv))"
| "valid_json _ = True"

section \<open>Hex\<close>

definition hex_encode :: "string \<Rightarrow> string" where
  "hex_encode bs = concat (map (\<lambda>b. [hex_digit (byte b div 16), hex_digit (byte b mod 16)]) bs)"

definition hex_val :: "char \<Rightarrow> nat option" where
  "hex_val c =
     (if CHR ''0'' \<le> c \<and> c \<le> CHR ''9'' then Some (byte c - 48)
      else if CHR ''a'' \<le> c \<and> c \<le> CHR ''f'' then Some (byte c - 87)
      else if CHR ''A'' \<le> c \<and> c \<le> CHR ''F'' then Some (byte c - 55)
      else None)"

fun hex_decode :: "string \<Rightarrow> string option" where
  "hex_decode [] = Some []"
| "hex_decode [c] = None"
| "hex_decode (c # d # s) =
     (case (hex_val c, hex_val d, hex_decode s) of
        (Some x, Some y, Some r) \<Rightarrow> Some (char_of (16 * x + y) # r)
      | _ \<Rightarrow> None)"

section \<open>Lemmas on runes\<close>

text \<open>A byte string that is exactly one encoded rune.\<close>

definition is_rune :: "string \<Rightarrow> bool" where
  "is_rune r = (r \<noteq> [] \<and> utf8_len r = length r)"

lemma within_length: "within bs t \<Longrightarrow> length bs \<le> length t"
  by (induction bs t rule: within.induct) auto

lemma within_append: "length bs \<le> length t \<Longrightarrow> within bs (t @ u) = within bs t"
  by (induction bs t rule: within.induct) auto

lemma within_take: "within bs t \<Longrightarrow> within bs (take (length bs) t)"
  by (induction bs t rule: within.induct) auto

lemma utf8_len_le: "utf8_len s \<le> length s"
  by (auto simp: utf8_len_def dest: within_length split: list.splits option.splits)

lemma utf8_len_append: "utf8_len s \<noteq> 0 \<Longrightarrow> utf8_len (s @ u) = utf8_len s"
  by (auto simp: utf8_len_def within_append within_length split: list.splits option.splits if_splits)

lemma utf8_len_take: "utf8_len s \<noteq> 0 \<Longrightarrow> is_rune (take (utf8_len s) s)"
  by (auto simp: is_rune_def utf8_len_def within_take min_absorb2 within_length
      split: list.splits option.splits if_splits)

lemma utf8_len_rune: "is_rune r \<Longrightarrow> utf8_len (r @ u) = length r"
  by (simp add: is_rune_def utf8_len_append)

lemma is_rune_ascii: "is_rune (c # r) \<Longrightarrow> byte c < 128 \<Longrightarrow> r = []"
  by (simp add: is_rune_def utf8_len_def utf8_bounds_def)

lemma ValidString_Nil [simp]: "ValidString []"
  by (simp add: ValidString.simps)

lemma ValidString_rune [simp]: "is_rune r \<Longrightarrow> ValidString (r @ u) = ValidString u"
  by (subst ValidString.simps) (auto simp: utf8_len_rune is_rune_def)

lemma json_escape_Nil [simp]: "json_escape [] = []"
  by (simp add: json_escape.simps)

lemma json_escape_rune [simp]: "is_rune r \<Longrightarrow> json_escape (r @ u) = esc_rune r @ json_escape u"
  by (subst json_escape.simps) (auto simp: utf8_len_rune is_rune_def)

text \<open>A valid string is empty or a rune followed by a valid string.\<close>

lemma ValidString_cases:
  assumes "ValidString s"
  obtains "s = []" | r u where "s = r @ u" "is_rune r" "ValidString u"
proof (cases "s = []")
  case False
  hence n: "utf8_len s \<noteq> 0" "ValidString (drop (utf8_len s) s)"
    using assms by (simp_all add: ValidString.simps[of s] split: if_splits)
  show thesis
    using that(2)[of "take (utf8_len s) s" "drop (utf8_len s) s"] n utf8_len_take[OF n(1)] by simp
qed (use that in simp)

lemma ValidString_induct [consumes 1, case_names Nil rune]:
  assumes "ValidString s" and "P []"
    and "\<And>r u. is_rune r \<Longrightarrow> ValidString u \<Longrightarrow> P u \<Longrightarrow> P (r @ u)"
  shows "P s"
  using assms(1)
proof (induction "length s" arbitrary: s rule: less_induct)
  case less
  from less.prems show ?case
  proof (cases rule: ValidString_cases)
    case (2 r u)
    hence "length u < length s" by (simp add: is_rune_def)
    thus ?thesis using 2 less.hyps assms(3) by blast
  qed (use assms(2) in simp)
qed

lemma ValidString_ascii: "list_all (\<lambda>c. byte c < 128) s \<Longrightarrow> ValidString s"
proof (induction s)
  case (Cons c s)
  hence "is_rune [c]" by (simp add: is_rune_def utf8_len_def utf8_bounds_def)
  thus ?case using ValidString_rune[of "[c]" s] Cons by simp
qed simp

section \<open>The escape of a rune determines it\<close>

definition unesc :: "string \<Rightarrow> string \<times> string" where
  "unesc t =
     (if hd t = CHR 0x5C then
        (let d = t ! 1 in
         if d = CHR ''u'' then
           (if take 4 (drop 2 t) = ''2028'' then ([CHR 0xE2, CHR 0x80, CHR 0xA8], drop 6 t)
            else if take 4 (drop 2 t) = ''2029'' then ([CHR 0xE2, CHR 0x80, CHR 0xA9], drop 6 t)
            else ([char_of (16 * the (hex_val (t ! 4)) + the (hex_val (t ! 5)))], drop 6 t))
         else ([if d = CHR ''b'' then CHR 0x08 else if d = CHR ''f'' then CHR 0x0C
                else if d = CHR ''n'' then CHR 0x0A else if d = CHR ''r'' then CHR 0x0D
                else if d = CHR ''t'' then CHR 0x09 else d], drop 2 t))
      else (take (utf8_len t) t, drop (utf8_len t) t))"

lemma hex_val_digit: "n < 16 \<Longrightarrow> hex_val (hex_digit n) = Some n"
  by (auto simp: hex_val_def hex_digit_def less_eq_char_def)

lemma unesc_plain: "is_rune r \<Longrightarrow> hd r \<noteq> CHR 0x5C \<Longrightarrow> unesc (r @ x) = (r, x)"
  by (cases "r = []") (auto simp: unesc_def utf8_len_rune is_rune_def utf8_len_append)

lemma unesc_u: "n < 256 \<Longrightarrow> unesc (u_escape n @ x) = ([char_of n], x)"
  by (simp add: unesc_def u_escape_def hex_val_digit)

lemma is_rune_hd_ascii: "is_rune r \<Longrightarrow> byte (hd r) < 128 \<Longrightarrow> r = [hd r]"
  using is_rune_ascii[of "hd r" "tl r"] by (cases r) (auto simp: is_rune_def)

lemma special_unesc: "map_of special_runes r = Some e \<Longrightarrow> unesc (e @ x) = (r, x)"
  by (auto simp: special_runes_def unesc_def split: if_splits)

lemma unesc_esc_rune:
  assumes "is_rune r"
  shows "unesc (esc_rune r @ x) = (r, x)"
proof (cases "map_of special_runes r")
  case (Some e)
  thus ?thesis by (simp add: esc_rune_def special_unesc)
next
  case None
  show ?thesis
  proof (cases "length r = 1 \<and> escaped_byte (hd r)")
    case True
    then obtain c where "r = [c]" by (auto simp: length_Suc_conv)
    thus ?thesis using True None by (simp add: esc_rune_def unesc_u)
  next
    case False
    have "hd r \<noteq> CHR 0x5C"
    proof
      assume "hd r = CHR 0x5C"
      hence "r = [CHR 0x5C]" using is_rune_hd_ascii[OF assms] by simp
      thus False using None by (simp add: special_runes_def)
    qed
    thus ?thesis using False None assms by (auto simp: esc_rune_def unesc_plain)
  qed
qed

lemma special_hd: "map_of special_runes r = Some e \<Longrightarrow> e \<noteq> [] \<and> hd e = CHR 0x5C"
  by (auto simp: special_runes_def split: if_splits)

lemma esc_rune_hd:
  assumes "is_rune r"
  shows "esc_rune r \<noteq> []" and "hd (esc_rune r) \<noteq> CHR 0x22"
proof -
  have "hd r = CHR 0x22 \<Longrightarrow> map_of special_runes r \<noteq> None"
    using is_rune_hd_ascii[OF assms] by (simp add: special_runes_def)
  thus "esc_rune r \<noteq> []" "hd (esc_rune r) \<noteq> CHR 0x22"
    using assms
    by (auto simp: esc_rune_def u_escape_def is_rune_def split: option.splits dest: special_hd)
qed

section \<open>The text of a value determines it\<close>

lemma json_escape_inj:
  assumes "ValidString s" and "ValidString t"
    and "json_escape s @ CHR 0x22 # x = json_escape t @ CHR 0x22 # y"
  shows "s = t \<and> x = y"
  using assms
proof (induction s arbitrary: t rule: ValidString_induct)
  case Nil
  from Nil.prems(1) show ?case
  proof (cases rule: ValidString_cases)
    case (2 r u)
    hence "hd (esc_rune r @ json_escape u @ CHR 0x22 # y) = CHR 0x22"
      using Nil.prems(2) by (metis append_assoc append_Nil json_escape_Nil json_escape_rune list.sel(1))
    thus ?thesis using esc_rune_hd[OF 2(2)] by simp
  qed (use Nil in simp)
next
  case (rune r u)
  from rune.prems(1) show ?case
  proof (cases rule: ValidString_cases)
    case 1
    hence "hd (esc_rune r @ json_escape u @ CHR 0x22 # x) = CHR 0x22"
      using rune.prems(2) rune.hyps(1) by simp
    thus ?thesis using esc_rune_hd[OF rune.hyps(1)] by simp
  next
    case (2 q v)
    have eq: "esc_rune r @ (json_escape u @ CHR 0x22 # x) = esc_rune q @ (json_escape v @ CHR 0x22 # y)"
      using rune.prems(2) rune.hyps(1) 2 by simp
    hence "unesc (esc_rune r @ (json_escape u @ CHR 0x22 # x)) =
           unesc (esc_rune q @ (json_escape v @ CHR 0x22 # y))" by simp
    hence "r = q" "json_escape u @ CHR 0x22 # x = json_escape v @ CHR 0x22 # y"
      using rune.hyps(1) 2(2) by (simp_all add: unesc_esc_rune)
    thus ?thesis using rune.IH 2 by blast
  qed
qed

lemma json_quote_inj:
  assumes "ValidString s" and "ValidString t" and "json_quote s @ x = json_quote t @ y"
  shows "s = t" and "x = y"
  using json_escape_inj[OF assms(1,2), of x y] assms(3) by (simp_all add: json_quote_def)

text \<open>Items that determine their own end, separated by a byte and closed by a bracket.\<close>

lemma items_sep_inj:
  assumes "\<And>a b x y. a \<in> set as \<Longrightarrow> b \<in> set bs \<Longrightarrow> f a @ x = f b @ y \<Longrightarrow> a = b \<and> x = y"
    and "\<And>a. a \<in> set as \<union> set bs \<Longrightarrow> f a \<noteq> [] \<and> hd (f a) \<noteq> e"
    and "e \<noteq> c"
    and "Join [c] (map f as) @ e # x = Join [c] (map f bs) @ e # y"
  shows "as = bs \<and> x = y"
  using assms
proof (induction as arbitrary: bs)
  case Nil
  show ?case
  proof (cases bs)
    case (Cons b bs')
    hence "f b \<noteq> [] \<and> hd (f b) \<noteq> e" using Nil.prems(2) by simp
    thus ?thesis using Nil.prems(4) Cons by (cases "f b"; cases bs') auto
  qed (use Nil in simp)
next
  case (Cons a as)
  have hd_a: "f a \<noteq> [] \<and> hd (f a) \<noteq> e" using Cons.prems(2) by simp
  show ?case
  proof (cases bs)
    case Nil
    thus ?thesis using Cons.prems(4) hd_a by (cases "f a"; cases as) auto
  next
    case bs: (Cons b bs')
    define ra where "ra = (if as = [] then e # x else c # Join [c] (map f as) @ e # x)"
    define rb where "rb = (if bs' = [] then e # y else c # Join [c] (map f bs') @ e # y)"
    have "f a @ ra = f b @ rb"
      using Cons.prems(4) bs by (cases as; cases bs') (auto simp: ra_def rb_def)
    hence "a = b \<and> ra = rb" using Cons.prems(1)[of a b ra rb] bs by simp
    moreover from this have "Join [c] (map f as) @ e # x = Join [c] (map f bs') @ e # y"
      using Cons.prems(3) by (auto simp: ra_def rb_def split: if_splits)
    hence "as = bs' \<and> x = y"
      using Cons.prems(1,2,3) bs by (intro Cons.IH) auto
    ultimately show ?thesis using bs by simp
  qed
qed

lemmas items_inj = items_sep_inj[where c = "CHR '',''"]

lemma encode_hd: "encode j \<noteq> []" "hd (encode j) \<noteq> CHR '']''" "hd (encode j) \<noteq> CHR ''}''"
  by (cases j; simp add: json_quote_def)+

lemma encode_prefix_inj:
  "valid_json j \<Longrightarrow> valid_json k \<Longrightarrow> encode j @ x = encode k @ y \<Longrightarrow> j = k \<and> x = y"
proof (induction j arbitrary: k x y)
  case (JStr s)
  thus ?case by (cases k) (auto simp: json_quote_def split: if_splits dest: json_escape_inj)
next
  case (JArr js)
  show ?case
  proof (cases k)
    case k: (JArr ks)
    have "js = ks \<and> x = y"
      using JArr k by (intro items_inj[of js ks encode "CHR '']''"]) (auto simp: encode_hd)
    thus ?thesis using k by simp
  qed (use JArr.prems in \<open>auto simp: json_quote_def split: if_splits\<close>)
next
  case (JObj kvs)
  show ?case
  proof (cases k)
    case k: (JObj kws)
    let ?f = "\<lambda>(k, v). json_quote k @ CHR '':'' # encode v"
    have item: "a = b \<and> u = w"
      if "a \<in> set kvs" "b \<in> set kws" "?f a @ u = ?f b @ w" for a b u w
    proof -
      obtain ka va kb vb where ab: "a = (ka, va)" "b = (kb, vb)" by (cases a; cases b)
      have v: "ValidString ka" "ValidString kb" "valid_json va" "valid_json vb"
        using JObj.prems(1,2) that(1,2) ab k by force+
      have eq: "json_quote ka @ (CHR '':'' # encode va @ u) = json_quote kb @ (CHR '':'' # encode vb @ w)"
        using that(3) ab by simp
      have "ka = kb" "encode va @ u = encode vb @ w"
        using json_quote_inj[OF v(1,2) eq] by simp_all
      thus ?thesis using JObj.IH[of a va vb u w] that(1) ab v by auto
    qed
    have "kvs = kws \<and> x = y"
      using JObj.prems(3) k
      by (intro items_inj[of kvs kws ?f "CHR ''}''"] item) (auto simp: json_quote_def)
    thus ?thesis using k by simp
  qed (use JObj.prems in \<open>auto simp: json_quote_def split: if_splits\<close>)
qed (case_tac k; auto simp: json_quote_def split: if_splits)+

theorem encode_inj:
  assumes "valid_json j" and "valid_json k" and "encode j = encode k"
  shows "j = k"
  using encode_prefix_inj[OF assms(1,2), of "[]" "[]"] assms(3) by simp

section \<open>Hex\<close>

lemma hex_encode_simps [simp]:
  "hex_encode [] = []"
  "hex_encode (b # bs) = hex_digit (byte b div 16) # hex_digit (byte b mod 16) # hex_encode bs"
  by (simp_all add: hex_encode_def)

lemma hex_decode_encode [simp]: "hex_decode (hex_encode bs) = Some bs"
proof (induction bs)
  case (Cons b bs)
  have "byte b div 16 < 16" by (rule less_mult_imp_div_less) simp
  thus ?case using Cons by (simp add: hex_val_digit)
qed simp

lemma hex_encode_inj: "hex_encode a = hex_encode b \<longleftrightarrow> a = b"
  by (metis hex_decode_encode option.inject)

lemma length_hex_encode [simp]: "length (hex_encode bs) = 2 * length bs"
  by (induction bs) auto

end
