(* ===== verification/Go_Quote.thy ===== *)
theory Go_Quote
  imports Go_Json
begin

text \<open>
  \<^verbatim>\<open>strconv.Quote\<close>, which the verb \<^verbatim>\<open>%q\<close> prints a string with. It works rune by rune: printable runes
  are copied, the others and the bytes that encode no rune are escaped. Which runes above ASCII are printable
  is a table of the Go library, the parameter \<open>pr\<close>; the text determines the string whatever the table says.
\<close>

section \<open>The quoted text\<close>

text \<open>The code point of an encoded rune.\<close>

fun rune_val :: "string \<Rightarrow> nat" where
  "rune_val [a] = byte a"
| "rune_val [a, b] = (byte a - 192) * 64 + (byte b - 128)"
| "rune_val [a, b, c] = ((byte a - 224) * 64 + (byte b - 128)) * 64 + (byte c - 128)"
| "rune_val [a, b, c, d] = (((byte a - 240) * 64 + (byte b - 128)) * 64 + (byte c - 128)) * 64 + (byte d - 128)"
| "rune_val _ = 0"

text \<open>\<open>n\<close> lower-case hex digits of a number.\<close>

fun hex_digits :: "nat \<Rightarrow> nat \<Rightarrow> string" where
  "hex_digits 0 v = []"
| "hex_digits (Suc n) v = hex_digits n (v div 16) @ [hex_digit (v mod 16)]"

definition is_print :: "(string \<Rightarrow> bool) \<Rightarrow> string \<Rightarrow> bool" where
  "is_print pr r = (if byte (hd r) < 128 then 32 \<le> byte (hd r) \<and> byte (hd r) < 127 else pr r)"

definition short_escapes :: "(char \<times> char) list" where
  "short_escapes =
     [(CHR 0x07, CHR ''a''), (CHR 0x08, CHR ''b''), (CHR 0x0C, CHR ''f''), (CHR 0x0A, CHR ''n''),
      (CHR 0x0D, CHR ''r''), (CHR 0x09, CHR ''t''), (CHR 0x0B, CHR ''v'')]"

text \<open>\<^verbatim>\<open>appendEscapedRune\<close> with the double quote as delimiter.\<close>

definition quote_rune :: "(string \<Rightarrow> bool) \<Rightarrow> string \<Rightarrow> string" where
  "quote_rune pr r =
     (if hd r = CHR 0x22 \<or> hd r = CHR 0x5C then [CHR 0x5C, hd r]
      else if is_print pr r then r
      else case map_of short_escapes (hd r) of
             Some e \<Rightarrow> [CHR 0x5C, e]
           | None \<Rightarrow>
               if byte (hd r) < 128 then CHR 0x5C # CHR ''x'' # hex_digits 2 (byte (hd r))
               else if rune_val r < 65536 then CHR 0x5C # CHR ''u'' # hex_digits 4 (rune_val r)
               else CHR 0x5C # CHR ''U'' # hex_digits 8 (rune_val r))"

function quote_body :: "(string \<Rightarrow> bool) \<Rightarrow> string \<Rightarrow> string" where
  "quote_body pr s =
     (if s = [] then []
      else if utf8_len s = 0 then CHR 0x5C # CHR ''x'' # hex_digits 2 (byte (hd s)) @ quote_body pr (tl s)
      else quote_rune pr (take (utf8_len s) s) @ quote_body pr (drop (utf8_len s) s))"
  by pat_completeness auto
termination
  by (relation "measure (\<lambda>(_, s). length s)") (auto simp: utf8_len_def split: list.splits)

declare quote_body.simps [simp del]

definition Quote :: "(string \<Rightarrow> bool) \<Rightarrow> string \<Rightarrow> string" where
  "Quote pr s = CHR 0x22 # quote_body pr s @ [CHR 0x22]"

text \<open>\<^verbatim>\<open>%q\<close> of a slice of strings and \<^verbatim>\<open>%t\<close> of a bool.\<close>

definition QuoteAll :: "(string \<Rightarrow> bool) \<Rightarrow> string list \<Rightarrow> string" where
  "QuoteAll pr ss = CHR ''['' # Join '' '' (map (Quote pr) ss) @ [CHR '']'']"

definition FormatBool :: "bool \<Rightarrow> string" where
  "FormatBool b = (if b then ''true'' else ''false'')"

section \<open>The text determines the string\<close>

fun hex_number :: "nat \<Rightarrow> string \<Rightarrow> nat" where
  "hex_number acc [] = acc"
| "hex_number acc (c # s) = hex_number (16 * acc + the (hex_val c)) s"

lemma length_hex_digits [simp]: "length (hex_digits n v) = n"
  by (induction n arbitrary: v) auto

lemma hex_number_append: "hex_number a (s @ t) = hex_number (hex_number a s) t"
  by (induction s arbitrary: a) auto

lemma hex_number_digits: "v < 16 ^ n \<Longrightarrow> hex_number 0 (hex_digits n v) = v"
proof (induction n arbitrary: v)
  case (Suc n)
  hence "v div 16 < 16 ^ n" by (simp add: less_mult_imp_div_less mult.commute)
  thus ?case using Suc.IH by (simp add: hex_number_append hex_val_digit)
qed simp

lemma hex_digits_inj:
  assumes "hex_digits n v @ x = hex_digits n w @ y" and "v < 16 ^ n" and "w < 16 ^ n"
  shows "v = w \<and> x = y"
proof -
  have eq: "hex_digits n v = hex_digits n w \<and> x = y" using assms(1) by simp
  hence "hex_number 0 (hex_digits n v) = hex_number 0 (hex_digits n w)" by simp
  hence "v = w" unfolding hex_number_digits[OF assms(2)] hex_number_digits[OF assms(3)] .
  thus ?thesis using eq by blast
qed

lemma is_rune_shape:
  assumes "is_rune r"
  obtains a where "r = [a]" "byte a < 128"
  | a b where "r = [a, b]" "194 \<le> byte a" "byte a \<le> 223" "128 \<le> byte b" "byte b \<le> 191"
  | a b c where "r = [a, b, c]" "224 \<le> byte a" "byte a \<le> 239" "128 \<le> byte b" "byte b \<le> 191"
      "128 \<le> byte c" "byte c \<le> 191" "byte a = 224 \<longrightarrow> 160 \<le> byte b"
  | a b c d where "r = [a, b, c, d]" "240 \<le> byte a" "byte a \<le> 244" "128 \<le> byte b" "byte b \<le> 191"
      "128 \<le> byte c" "byte c \<le> 191" "128 \<le> byte d" "byte d \<le> 191" "byte a = 240 \<longrightarrow> 144 \<le> byte b"
proof -
  obtain a t where r: "r = a # t" using assms by (cases r) (auto simp: is_rune_def)
  obtain bs where bs: "utf8_bounds (byte a) = Some bs" "within bs t" "length t = length bs"
    using assms by (auto simp: r is_rune_def utf8_len_def split: option.splits if_splits)
  consider "length bs = 0" | "length bs = 1" | "length bs = 2" | "length bs = 3"
    using bs(1) by (auto simp: utf8_bounds_def split: if_splits)
  thus thesis
    using bs that r
    by cases (auto simp: utf8_bounds_def length_Suc_conv numeral_eq_Suc split: if_splits)
qed

lemma rune_val_bounds:
  assumes "is_rune r"
  shows "length r = 1 \<Longrightarrow> rune_val r < 128"
    and "length r = 2 \<Longrightarrow> 128 \<le> rune_val r \<and> rune_val r < 2048"
    and "length r = 3 \<Longrightarrow> 2048 \<le> rune_val r \<and> rune_val r < 65536"
    and "length r = 4 \<Longrightarrow> 65536 \<le> rune_val r \<and> rune_val r < 16 ^ 8"
    and "length r \<in> {1, 2, 3, 4}"
  using assms by (auto elim!: is_rune_shape)

lemma rune_len:
  "is_rune r \<Longrightarrow> length r =
     (if rune_val r < 128 then 1 else if rune_val r < 2048 then 2 else if rune_val r < 65536 then 3 else 4)"
  using rune_val_bounds(5)[of r] rune_val_bounds(1-4)[of r] by auto

lemma byte_diff: "byte a - k = byte b - k \<Longrightarrow> k \<le> byte a \<Longrightarrow> k \<le> byte b \<Longrightarrow> a = b"
  by (metis eq_diff_iff of_char_eq_iff)

lemma base64_digits:
  fixes a b c d :: nat
  assumes "a * 64 + b = c * 64 + d" and "b < 64" and "d < 64"
  shows "a = c" and "b = d"
proof -
  have "(a * 64 + b) div 64 = (c * 64 + d) div 64" using assms(1) by simp
  thus "a = c" using assms(2,3) by simp
  thus "b = d" using assms(1) by simp
qed

lemma cont_less: "byte c \<le> 191 \<Longrightarrow> byte c - 128 < 64"
  by linarith

lemma rune_val_inj: "inj_on rune_val {r. is_rune r}"
proof (rule inj_onI)
  fix r q assume rq: "r \<in> {r. is_rune r}" "q \<in> {r. is_rune r}" and eq: "rune_val r = rune_val q"
  have len: "length r = length q" using rune_len[of r] rune_len[of q] rq eq by simp
  from rq have r: "is_rune r" and q: "is_rune q" by simp_all
  show "r = q"
    using r
  proof (cases rule: is_rune_shape)
    case r1: (1 a)
    show ?thesis using q by (cases rule: is_rune_shape) (use r1 eq len in simp_all)
  next
    case r2: (2 a b)
    show ?thesis using q
    proof (cases rule: is_rune_shape)
      case q2: (2 c d)
      have v: "(byte a - 192) * 64 + (byte b - 128) = (byte c - 192) * 64 + (byte d - 128)" using eq r2 q2 by simp
      have "byte a - 192 = byte c - 192" "byte b - 128 = byte d - 128"
        using base64_digits[OF v cont_less[OF r2(5)] cont_less[OF q2(5)]] .
      thus ?thesis using byte_diff[of a 192 c] byte_diff[of b 128 d] r2 q2 by simp
    qed (use r2 len in simp_all)
  next
    case r3: (3 a b c)
    show ?thesis using q
    proof (cases rule: is_rune_shape)
      case q3: (3 a' b' c')
      have v: "((byte a - 224) * 64 + (byte b - 128)) * 64 + (byte c - 128) =
               ((byte a' - 224) * 64 + (byte b' - 128)) * 64 + (byte c' - 128)" using eq r3 q3 by simp
      have w: "(byte a - 224) * 64 + (byte b - 128) = (byte a' - 224) * 64 + (byte b' - 128)"
        "byte c - 128 = byte c' - 128"
        using base64_digits[OF v cont_less[OF r3(7)] cont_less[OF q3(7)]] .
      have "byte a - 224 = byte a' - 224" "byte b - 128 = byte b' - 128"
        using base64_digits[OF w(1) cont_less[OF r3(5)] cont_less[OF q3(5)]] .
      thus ?thesis using w(2) byte_diff[of a 224 a'] byte_diff[of b 128 b'] byte_diff[of c 128 c'] r3 q3 by simp
    qed (use r3 len in simp_all)
  next
    case r4: (4 a b c d)
    show ?thesis using q
    proof (cases rule: is_rune_shape)
      case q4: (4 a' b' c' d')
      have v: "(((byte a - 240) * 64 + (byte b - 128)) * 64 + (byte c - 128)) * 64 + (byte d - 128) =
               (((byte a' - 240) * 64 + (byte b' - 128)) * 64 + (byte c' - 128)) * 64 + (byte d' - 128)"
        using eq r4 q4 by simp
      have w: "((byte a - 240) * 64 + (byte b - 128)) * 64 + (byte c - 128) =
               ((byte a' - 240) * 64 + (byte b' - 128)) * 64 + (byte c' - 128)"
        "byte d - 128 = byte d' - 128"
        using base64_digits[OF v cont_less[OF r4(9)] cont_less[OF q4(9)]] .
      have x: "(byte a - 240) * 64 + (byte b - 128) = (byte a' - 240) * 64 + (byte b' - 128)"
        "byte c - 128 = byte c' - 128"
        using base64_digits[OF w(1) cont_less[OF r4(7)] cont_less[OF q4(7)]] .
      have "byte a - 240 = byte a' - 240" "byte b - 128 = byte b' - 128"
        using base64_digits[OF x(1) cont_less[OF r4(5)] cont_less[OF q4(5)]] .
      thus ?thesis
        using w(2) x(2) byte_diff[of a 240 a'] byte_diff[of b 128 b'] byte_diff[of c 128 c'] byte_diff[of d 128 d'] r4 q4
        by simp
    qed (use r4 len in simp_all)
  qed
qed

text \<open>The decoder of one unit, a rune or a byte that starts none.\<close>

definition q_unit :: "string \<Rightarrow> bool" where
  "q_unit u = (is_rune u \<or> (\<exists>c. u = [c] \<and> 128 \<le> byte c))"

definition quote_unit :: "(string \<Rightarrow> bool) \<Rightarrow> string \<Rightarrow> string" where
  "quote_unit pr u = (if is_rune u then quote_rune pr u else CHR 0x5C # CHR ''x'' # hex_digits 2 (byte (hd u)))"

definition unquote :: "string \<Rightarrow> string \<times> string" where
  "unquote t =
     (if hd t \<noteq> CHR 0x5C then (take (utf8_len t) t, drop (utf8_len t) t)
      else if t ! 1 = CHR ''x'' then ([char_of (hex_number 0 (take 2 (drop 2 t)))], drop 4 t)
      else if t ! 1 = CHR ''u'' then (inv_into {r. is_rune r} rune_val (hex_number 0 (take 4 (drop 2 t))), drop 6 t)
      else if t ! 1 = CHR ''U'' then (inv_into {r. is_rune r} rune_val (hex_number 0 (take 8 (drop 2 t))), drop 10 t)
      else case map_of (map prod.swap short_escapes) (t ! 1) of
             Some c \<Rightarrow> ([c], drop 2 t)
           | None \<Rightarrow> ([t ! 1], drop 2 t))"

lemma byte_less: "byte c < 256"
  by (rule nat_of_char_less_256)

lemma unquote_x: "unquote (CHR 0x5C # CHR ''x'' # hex_digits 2 (byte c) @ x) = ([c], x)"
  using hex_number_digits[of "byte c" 2] byte_less[of c] by (simp add: unquote_def)

lemma unquote_short: "map_of short_escapes c = Some e \<Longrightarrow> unquote (CHR 0x5C # e # x) = ([c], x)"
  by (auto simp: short_escapes_def unquote_def split: if_splits)

lemma unquote_rune:
  assumes "is_rune r"
  shows "unquote (quote_rune pr r @ x) = (r, x)"
proof -
  have one: "byte (hd r) < 128 \<Longrightarrow> r = [hd r]" using is_rune_hd_ascii[OF assms] .
  have inv: "inv_into {r. is_rune r} rune_val (rune_val r) = r"
    using inv_into_f_f[OF rune_val_inj] assms by simp
  consider "hd r = CHR 0x22 \<or> hd r = CHR 0x5C"
    | "hd r \<noteq> CHR 0x22" "hd r \<noteq> CHR 0x5C" "is_print pr r"
    | e where "hd r \<noteq> CHR 0x22" "hd r \<noteq> CHR 0x5C" "\<not> is_print pr r" "map_of short_escapes (hd r) = Some e"
    | "hd r \<noteq> CHR 0x22" "hd r \<noteq> CHR 0x5C" "\<not> is_print pr r" "map_of short_escapes (hd r) = None" by blast
  thus ?thesis
  proof cases
    case 1
    hence "r = [hd r]" using one by auto
    thus ?thesis using 1 by (auto simp: quote_rune_def unquote_def short_escapes_def)
  next
    case 2
    moreover have "hd (r @ x) = hd r" using assms by (simp add: is_rune_def)
    ultimately show ?thesis using utf8_len_rune[OF assms, of x] by (simp add: quote_rune_def unquote_def)
  next
    case 3
    hence "byte (hd r) < 128" by (auto simp: short_escapes_def split: if_splits)
    thus ?thesis using 3 unquote_short[OF 3(4), of x] one by (simp add: quote_rune_def)
  next
    case 4
    show ?thesis
    proof (cases "byte (hd r) < 128")
      case True
      thus ?thesis using 4 unquote_x[of "hd r" x] one by (simp add: quote_rune_def)
    next
      case False
      have "rune_val r < 16 ^ 8" using rune_val_bounds[OF assms] by auto
      thus ?thesis using 4 False inv hex_number_digits[of "rune_val r" 4] hex_number_digits[of "rune_val r" 8]
        by (simp add: quote_rune_def unquote_def)
    qed
  qed
qed

lemma unquote_unit: "q_unit u \<Longrightarrow> unquote (quote_unit pr u @ x) = (u, x)"
  by (auto simp: q_unit_def quote_unit_def unquote_rune unquote_x)

lemma quote_unit_hd:
  assumes "q_unit u"
  shows "quote_unit pr u \<noteq> []" and "hd (quote_unit pr u) \<noteq> CHR 0x22"
  using assms by (auto simp: q_unit_def quote_unit_def quote_rune_def is_rune_def split: option.splits)

lemma quote_body_cases:
  obtains "s = []" "\<And>pr. quote_body pr s = []"
  | u t where "s = u @ t" "q_unit u" "length t < length s" "\<And>pr. quote_body pr s = quote_unit pr u @ quote_body pr t"
proof (cases "s = []")
  case True
  thus thesis using that(1) by (simp add: quote_body.simps)
next
  case False
  show thesis
  proof (cases "utf8_len s = 0")
    case True
    then obtain c t where s: "s = c # t" using False by (cases s) auto
    have "128 \<le> byte c" using True by (auto simp: s utf8_len_def utf8_bounds_def split: if_splits)
    moreover from this have "\<not> is_rune [c]" using is_rune_hd_ascii[of "[c]"] True s
      by (auto simp: is_rune_def utf8_len_append[of "[c]" t, simplified])
    ultimately show thesis using that(2)[of "[c]" t] True
      by (simp add: s q_unit_def quote_unit_def quote_body.simps[of _ "c # t"])
  next
    case n: False
    show thesis using that(2)[of "take (utf8_len s) s" "drop (utf8_len s) s"] n False utf8_len_take[OF n]
      by (simp add: q_unit_def quote_unit_def quote_body.simps[of _ s])
  qed
qed

lemma quote_body_inj:
  "quote_body pr s @ CHR 0x22 # x = quote_body pr t @ CHR 0x22 # y \<Longrightarrow> s = t \<and> x = y"
proof (induction "length s" arbitrary: s t rule: less_induct)
  case less
  show ?case
  proof (cases rule: quote_body_cases[of s])
    case s: 1
    show ?thesis
    proof (cases rule: quote_body_cases[of t])
      case t: (2 u r)
      have "hd (quote_unit pr u @ quote_body pr r @ CHR 0x22 # y) = CHR 0x22"
        using less.prems s t(4) by (metis append_Nil append_assoc list.sel(1))
      thus ?thesis using quote_unit_hd[OF t(2)] by simp
    qed (use less.prems s in simp)
  next
    case s: (2 v q)
    show ?thesis
    proof (cases rule: quote_body_cases[of t])
      case t: 1
      hence "hd (quote_unit pr v @ quote_body pr q @ CHR 0x22 # x) = CHR 0x22"
        using less.prems s(4) by (metis append_Nil append_assoc list.sel(1))
      thus ?thesis using quote_unit_hd[OF s(2)] by simp
    next
      case t: (2 u r)
      have "unquote (quote_unit pr v @ quote_body pr q @ CHR 0x22 # x) =
            unquote (quote_unit pr u @ quote_body pr r @ CHR 0x22 # y)"
        using less.prems s(4) t(4) by simp
      hence "v = u" "quote_body pr q @ CHR 0x22 # x = quote_body pr r @ CHR 0x22 # y"
        unfolding unquote_unit[OF s(2)] unquote_unit[OF t(2)] by simp_all
      thus ?thesis using less.hyps[OF s(3)] s(1) t(1) by blast
    qed
  qed
qed

lemma Quote_inj: "Quote pr s @ x = Quote pr t @ y \<Longrightarrow> s = t \<and> x = y"
  using quote_body_inj[of pr s x t y] by (simp add: Quote_def)

lemma QuoteAll_inj: "QuoteAll pr ss @ x = QuoteAll pr ts @ y \<Longrightarrow> ss = ts \<and> x = y"
  unfolding QuoteAll_def
  by (rule items_sep_inj[where f = "Quote pr" and e = "CHR '']''" and c = "CHR '' ''"])
    (auto dest: quote_body_inj simp: Quote_def)

lemma FormatBool_inj: "FormatBool a @ x = FormatBool b @ y \<Longrightarrow> a = b \<and> x = y"
  by (auto simp: FormatBool_def split: if_splits)

end
