(* ===== verification/Digest.thy ===== *)
theory Digest
  imports C8s_Prelude
begin

text \<open>
  Container image digests (\<^verbatim>\<open>src/pkg/types/digest.go\<close>): parsing and canonicalisation, the text
  codec and the hex accessor. \<^verbatim>\<open>wf_digest\<close> is the type invariant that \<^verbatim>\<open>ParseDigest\<close> is the
  only constructor for; the zero value of the struct does not satisfy it.
\<close>

section \<open>The type and its operations\<close>

datatype Digest = Digest (digest_string: string)

datatype digest_error = ErrInvalidDigest

definition algo :: string where
  "algo = ''sha256:''"

definition isHexDigit :: "char \<Rightarrow> bool" where
  "isHexDigit b =
     ((b \<ge> CHR ''0'' \<and> b \<le> CHR ''9'') \<or> (b \<ge> CHR ''a'' \<and> b \<le> CHR ''f'') \<or>
      (b \<ge> CHR ''A'' \<and> b \<le> CHR ''F''))"

definition ParseDigest :: "string \<Rightarrow> digest_error + Digest" where
  "ParseDigest s =
     (case CutPrefix s algo of
        None \<Rightarrow> Inl ErrInvalidDigest
      | Some hex \<Rightarrow>
          if length hex \<noteq> 64 then Inl ErrInvalidDigest
          else if \<not> list_all isHexDigit hex then Inl ErrInvalidDigest
          else Inr (Digest (algo @ ToLower hex)))"

definition NormalizeDigest :: "string \<Rightarrow> digest_error + Digest" where
  "NormalizeDigest s =
     (let s1 = ToLower (TrimSpace s);
          s2 = after_last (CHR ''@'') s1;
          s3 = TrimPrefix s2 algo
      in ParseDigest (algo @ s3))"

definition digest_Hex :: "Digest \<Rightarrow> string" where
  "digest_Hex d = TrimPrefix (digest_string d) algo"

definition digest_MarshalText :: "Digest \<Rightarrow> string" where
  "digest_MarshalText d = digest_string d"

text \<open>The receiver keeps its old contents when the text does not parse.\<close>

definition digest_UnmarshalText :: "Digest \<Rightarrow> string \<Rightarrow> digest_error option \<times> Digest" where
  "digest_UnmarshalText d data =
     (case ParseDigest data of Inl e \<Rightarrow> (Some e, d) | Inr parsed \<Rightarrow> (None, parsed))"

definition zero_digest :: Digest where
  "zero_digest = Digest []"

section \<open>The type invariant\<close>

definition lower_hex :: "char \<Rightarrow> bool" where
  "lower_hex b = ((b \<ge> CHR ''0'' \<and> b \<le> CHR ''9'') \<or> (b \<ge> CHR ''a'' \<and> b \<le> CHR ''f''))"

definition wf_digest :: "Digest \<Rightarrow> bool" where
  "wf_digest d =
     (case CutPrefix (digest_string d) algo of
        None \<Rightarrow> False
      | Some hex \<Rightarrow> length hex = 64 \<and> list_all lower_hex hex)"

instantiation Digest :: linorder
begin

definition less_eq_Digest :: "Digest \<Rightarrow> Digest \<Rightarrow> bool" where
  "less_eq_Digest d e = (digest_string d \<le> digest_string e)"

definition less_Digest :: "Digest \<Rightarrow> Digest \<Rightarrow> bool" where
  "less_Digest d e = (digest_string d < digest_string e)"

instance
  by standard (auto simp: less_eq_Digest_def less_Digest_def Digest.expand)

end

section \<open>Lemmas\<close>

lemma digest_string_inject [simp]: "digest_string d = digest_string e \<longleftrightarrow> d = e"
  by (cases d; cases e) simp

lemma lower_hex_isHexDigit: "lower_hex b \<Longrightarrow> isHexDigit b"
  by (auto simp: lower_hex_def isHexDigit_def)

lemma isHexDigit_lower: "isHexDigit b \<Longrightarrow> lower_hex (lower_char b)"
  by (auto simp: lower_hex_def isHexDigit_def lower_char_def less_eq_char_def)

lemma isHexDigit_lower_iff: "isHexDigit (lower_char b) \<longleftrightarrow> isHexDigit b"
  by (auto simp: isHexDigit_def lower_char_def less_eq_char_def)

lemma lower_char_lower_hex [simp]: "lower_hex b \<Longrightarrow> lower_char b = b"
  by (auto simp: lower_hex_def lower_char_def less_eq_char_def)

lemma ToLower_lower_hex: "list_all lower_hex hex \<Longrightarrow> ToLower hex = hex"
  by (induction hex) (auto simp: ToLower_def)

lemma wf_digest_iff:
  "wf_digest d \<longleftrightarrow> (\<exists>hex. d = Digest (algo @ hex) \<and> length hex = 64 \<and> list_all lower_hex hex)"
  by (cases d) (auto simp: wf_digest_def CutPrefix_Some_iff split: option.splits)

lemma wf_digest_algo:
  "length hex = 64 \<Longrightarrow> list_all lower_hex hex \<Longrightarrow> wf_digest (Digest (algo @ hex))"
  unfolding wf_digest_iff by blast

lemma wf_digest_replicate: "lower_hex c \<Longrightarrow> wf_digest (Digest (algo @ replicate 64 c))"
  by (rule wf_digest_algo) (simp_all only: length_replicate list_all_iff set_replicate_conv_if, simp)

lemma ParseDigest_Inr_iff:
  "ParseDigest s = Inr d \<longleftrightarrow>
     (\<exists>hex. s = algo @ hex \<and> length hex = 64 \<and> list_all isHexDigit hex \<and>
            d = Digest (algo @ ToLower hex))"
  by (auto simp: ParseDigest_def CutPrefix_Some_iff split: option.splits)

lemma ParseDigest_algo:
  "ParseDigest (algo @ hex) =
     (if length hex = 64 \<and> list_all isHexDigit hex then Inr (Digest (algo @ ToLower hex))
      else Inl ErrInvalidDigest)"
  by (simp add: ParseDigest_def)

lemma ParseDigest_wf [intro]: "ParseDigest s = Inr d \<Longrightarrow> wf_digest d"
  unfolding ParseDigest_Inr_iff wf_digest_iff
  by (force simp: ToLower_def list_all_iff intro: isHexDigit_lower)

lemma ParseDigest_String: "wf_digest d \<Longrightarrow> ParseDigest (digest_string d) = Inr d"
  unfolding ParseDigest_Inr_iff wf_digest_iff
  by (auto simp: ToLower_lower_hex list_all_iff lower_hex_isHexDigit)

lemma NormalizeDigest_wf [intro]: "NormalizeDigest s = Inr d \<Longrightarrow> wf_digest d"
  by (auto simp: NormalizeDigest_def Let_def)

lemma lower_hex_plain: "lower_hex c \<Longrightarrow> plain_byte c"
  by (auto simp: lower_hex_def plain_byte_def space_runes_def less_eq_char_def)

lemma isHexDigit_plain: "isHexDigit c \<Longrightarrow> plain_byte c"
  by (auto simp: isHexDigit_def plain_byte_def space_runes_def less_eq_char_def)

lemma hex_not_at: "isHexDigit c \<Longrightarrow> c \<noteq> CHR ''@'' \<and> c \<noteq> CHR '':''"
  by (auto simp: isHexDigit_def less_eq_char_def)

lemma at_plain: "plain_byte (CHR ''@'')" "plain_byte (CHR ''s'')" "plain_byte (CHR ''S'')"
  by (simp_all add: plain_byte_def space_runes_def)

lemma ToLower_hex_all: "list_all isHexDigit hex \<Longrightarrow> list_all isHexDigit (ToLower hex)"
  by (induction hex) (auto simp: ToLower_def isHexDigit_lower_iff)

lemma hex_no_algo_prefix: "list_all isHexDigit hex \<Longrightarrow> \<not> HasPrefix hex algo"
  by (auto simp: HasPrefix_def prefix_def algo_def isHexDigit_def less_eq_char_def)

lemma lower_char_at: "CHR ''@'' = lower_char c \<longleftrightarrow> c = CHR ''@''"
  by (auto simp: lower_char_def less_eq_char_def dest: arg_cong[where f = "of_char :: char \<Rightarrow> nat"])

lemma ToLower_fresh_at: "CHR ''@'' \<notin> set s \<Longrightarrow> CHR ''@'' \<notin> set (ToLower s)"
  by (simp add: ToLower_def image_iff lower_char_at)

text \<open>What \<^verbatim>\<open>NormalizeDigest\<close> does once the surrounding text is gone.\<close>

lemma NormalizeDigest_tail:
  assumes "TrimSpace s = pre @ t" and "pre = [] \<or> last pre = CHR ''@''" and "CHR ''@'' \<notin> set t"
  shows "NormalizeDigest s = ParseDigest (algo @ TrimPrefix (ToLower t) algo)"
proof -
  have "after_last (CHR ''@'') (ToLower (pre @ t)) = ToLower t"
  proof (cases "pre = []")
    case True
    thus ?thesis using assms(3) by (simp add: after_last_absent ToLower_fresh_at)
  next
    case False
    then obtain q where "pre = q @ [CHR ''@'']"
      using assms(2) by (metis append_butlast_last_id)
    moreover have "lower_char (CHR ''@'') = CHR ''@''"
      by (simp add: lower_char_def less_eq_char_def)
    ultimately show ?thesis
      using assms(3) after_last_append[OF ToLower_fresh_at, of t "ToLower q"]
      by (simp add: ToLower_def)
  qed
  thus ?thesis by (simp add: NormalizeDigest_def Let_def assms(1))
qed

lemma last_hex:
  assumes "length hex = 64" and "list_all isHexDigit hex"
  shows "hex \<noteq> []" and "plain_byte (hd hex)" and "plain_byte (last hex)"
    and "CHR ''@'' \<notin> set hex"
proof -
  have all: "\<And>c. c \<in> set hex \<Longrightarrow> isHexDigit c" using assms(2) by (simp add: list_all_iff)
  show ne: "hex \<noteq> []" using assms(1) by force
  show "plain_byte (hd hex)" "plain_byte (last hex)"
    using all isHexDigit_plain hd_in_set[OF ne] last_in_set[OF ne] by blast+
  show "CHR ''@'' \<notin> set hex" using all hex_not_at by blast
qed

lemma algo_no_at:
  assumes "ToLower a = algo"
  shows "CHR ''@'' \<notin> set a" and "a \<noteq> []" and "plain_byte (hd a)"
proof -
  have "CHR ''@'' \<notin> set (ToLower a)" using assms by (simp add: algo_def)
  thus "CHR ''@'' \<notin> set a" using lower_char_at by (force simp: ToLower_def)
  show ne: "a \<noteq> []" using assms by (auto simp: algo_def ToLower_def)
  have "lower_char (hd a) = CHR ''s''" using assms ne by (cases a) (auto simp: algo_def ToLower_def)
  moreover have "\<And>c. lower_char c = CHR ''s'' \<Longrightarrow> plain_byte c"
    by (auto simp: lower_char_def less_eq_char_def plain_byte_def space_runes_def split: if_splits)
  ultimately show "plain_byte (hd a)" by blast
qed

lemma NormalizeDigest_bare:
  assumes "length hex = 64" and "list_all isHexDigit hex"
  shows "NormalizeDigest hex = Inr (Digest (algo @ ToLower hex))"
proof -
  note h = last_hex[OF assms]
  have "NormalizeDigest hex = ParseDigest (algo @ TrimPrefix (ToLower hex) algo)"
    by (rule NormalizeDigest_tail[of hex "[]"]) (use h in \<open>auto simp: TrimSpace_plain\<close>)
  thus ?thesis using assms ToLower_hex_all[OF assms(2)]
    by (simp add: ParseDigest_algo TrimPrefix_other hex_no_algo_prefix)
qed

lemma NormalizeDigest_prefixed:
  assumes "length hex = 64" and "list_all isHexDigit hex" and "ToLower a = algo"
  shows "NormalizeDigest (a @ hex) = Inr (Digest (algo @ ToLower hex))"
proof -
  note h = last_hex[OF assms(1,2)]
  have "NormalizeDigest (a @ hex) = ParseDigest (algo @ TrimPrefix (ToLower (a @ hex)) algo)"
    by (rule NormalizeDigest_tail[of _ "[]"])
      (use h algo_no_at[OF assms(3)] in \<open>auto simp: TrimSpace_plain\<close>)
  thus ?thesis using assms ToLower_hex_all[OF assms(2)]
    by (simp add: ParseDigest_algo ToLower_append)
qed

lemma NormalizeDigest_ref:
  assumes "length hex = 64" and "list_all isHexDigit hex" and "ToLower a = algo"
  shows "NormalizeDigest (ref @ CHR ''@'' # a @ hex) = Inr (Digest (algo @ ToLower hex))"
proof -
  note h = last_hex[OF assms(1,2)]
  obtain p where "TrimSpace (ref @ CHR ''@'' # a @ hex) = p @ CHR ''@'' # a @ hex"
    using TrimSpace_stop[of "CHR ''@''" "a @ hex" ref] h at_plain(1) by auto
  hence "NormalizeDigest (ref @ CHR ''@'' # a @ hex) =
           ParseDigest (algo @ TrimPrefix (ToLower (a @ hex)) algo)"
    by (intro NormalizeDigest_tail[of _ "p @ [CHR ''@'']"])
      (use h algo_no_at[OF assms(3)] in auto)
  thus ?thesis using assms ToLower_hex_all[OF assms(2)]
    by (simp add: ParseDigest_algo ToLower_append)
qed

section \<open>Properties\<close>

text \<open>
  every form of a digest that the runtime reports (the bare hex, the hex under an algorithm
  prefix in any case, and an image reference pulled by digest, whatever the reference) normalises
  to the one canonical lower-case digest, and that digest is the one \<^verbatim>\<open>ParseDigest\<close> gives.
\<close>

theorem NormalizeDigest_forms:
  assumes "length hex = 64" and "list_all isHexDigit hex" and "ToLower a = algo"
  shows "NormalizeDigest hex = ParseDigest (algo @ hex)
       \<and> NormalizeDigest (a @ hex) = ParseDigest (algo @ hex)
       \<and> NormalizeDigest (ref @ CHR ''@'' # a @ hex) = ParseDigest (algo @ hex)
       \<and> ParseDigest (algo @ hex) = Inr (Digest (algo @ ToLower hex))"
  using assms NormalizeDigest_bare NormalizeDigest_prefixed NormalizeDigest_ref
  by (simp add: ParseDigest_algo)

theorem NormalizeDigest_forms_witness:
  "NormalizeDigest (''docker.io/app'' @ CHR ''@'' # ''SHA256:'' @ replicate 64 (CHR ''A'')) =
     Inr (Digest (algo @ replicate 64 (CHR ''a'')))"
proof -
  have len: "length (replicate 64 (CHR ''A'')) = 64" by (rule length_replicate)
  have hex: "list_all isHexDigit (replicate 64 (CHR ''A''))"
    by (simp add: list_all_iff isHexDigit_def less_eq_char_def)
  have alg: "ToLower ''SHA256:'' = algo"
    by (simp add: ToLower_def lower_char_def less_eq_char_def algo_def char_of_eq_iff)
  have low: "ToLower (replicate 64 (CHR ''A'')) = replicate 64 (CHR ''a'')"
    by (simp add: ToLower_def lower_char_def less_eq_char_def char_of_eq_iff)
  show ?thesis
    using NormalizeDigest_forms[OF len hex alg, of "''docker.io/app''"] unfolding low by metis
qed

text \<open>
  the parser and the text codec are inverse on parsed digests: a digest that parsed satisfies
  the type invariant, is the parse of its own text and of its normalisation, is stored lower-case
  and is its algorithm prefix followed by its hex; text that does not parse leaves the receiver of
  \<^verbatim>\<open>UnmarshalText\<close> unchanged.
\<close>

theorem ParseDigest_roundtrip:
  assumes "ParseDigest s = Inr d"
  shows "wf_digest d
       \<and> digest_UnmarshalText e (digest_MarshalText d) = (None, d)
       \<and> NormalizeDigest (digest_MarshalText d) = Inr d
       \<and> digest_MarshalText d = algo @ digest_Hex d
       \<and> digest_MarshalText d = ToLower s"
proof -
  obtain hex where s: "s = algo @ hex" "length hex = 64" "list_all isHexDigit hex"
      and d: "d = Digest (algo @ ToLower hex)"
    using assms unfolding ParseDigest_Inr_iff by blast
  have low: "ToLower algo = algo"
    by (simp add: ToLower_def lower_char_def less_eq_char_def algo_def)
  have wf: "wf_digest d" using assms by blast
  have "NormalizeDigest (algo @ ToLower hex) = Inr (Digest (algo @ ToLower (ToLower hex)))"
    using s(2,3) low by (intro NormalizeDigest_prefixed) (auto intro: ToLower_hex_all)
  thus ?thesis using wf ParseDigest_String[OF wf] s(1) low
    by (simp add: digest_UnmarshalText_def digest_MarshalText_def digest_Hex_def d ToLower_append)
qed

theorem ParseDigest_roundtrip_witness:
  "\<exists>d. ParseDigest (algo @ replicate 64 (CHR ''B'')) = Inr d \<and> wf_digest d"
proof -
  have "ParseDigest (algo @ replicate 64 (CHR ''B'')) = Inr (Digest (algo @ ToLower (replicate 64 (CHR ''B''))))"
    by (simp add: ParseDigest_algo list_all_iff isHexDigit_def less_eq_char_def)
  thus ?thesis using ParseDigest_roundtrip by blast
qed

end
