(* ===== verification/Allowlist.thy ===== *)
theory Allowlist
  imports Digest Go_Json "HOL-Library.Product_Lexorder"
begin

text \<open>
  The allowlist document of \<^verbatim>\<open>src/pkg/allowlist\<close>: its types (\<^verbatim>\<open>allowlist.go\<close>), the constraints of a
  container (\<^verbatim>\<open>constraints.go\<close>, \<^verbatim>\<open>env.go\<close>, \<^verbatim>\<open>mount_rule.go\<close>, \<^verbatim>\<open>host_mount.go\<close>) and the normalisation
  every document passes through before it is stored or enforced.

  A Go map is an association list in some iteration order: a theorem about every list is a theorem
  about every order. A slice or map whose \<^verbatim>\<open>nil\<close> the code tells apart from an empty one is an
  optional list. SHA-256 is the argument \<^verbatim>\<open>H\<close> of the definitions that hash.
\<close>

section \<open>Types\<close>

type_synonym 'a slice = "'a list option"
type_synonym hash = "string \<Rightarrow> string"

definition elems :: "'a slice \<Rightarrow> 'a list" where
  "elems s = (case s of None \<Rightarrow> [] | Some xs \<Rightarrow> xs)"

definition PolicyDeny :: string where "PolicyDeny = ''deny''"
definition PolicyAny :: string where "PolicyAny = ''any''"
definition PolicyExact :: string where "PolicyExact = ''exact''"
definition PolicyAllow :: string where "PolicyAllow = ''allow''"

lemmas policy_defs = PolicyDeny_def PolicyAny_def PolicyExact_def PolicyAllow_def

lemma policy_distinct [simp]:
  "PolicyDeny \<noteq> PolicyAny" "PolicyAny \<noteq> PolicyDeny" "PolicyDeny \<noteq> PolicyExact"
  "PolicyExact \<noteq> PolicyDeny" "PolicyAny \<noteq> PolicyExact" "PolicyExact \<noteq> PolicyAny"
  "PolicyAllow \<noteq> PolicyDeny" "PolicyDeny \<noteq> PolicyAllow"
  "PolicyDeny \<noteq> []" "PolicyAny \<noteq> []" "PolicyExact \<noteq> []" "PolicyAllow \<noteq> []"
  "[] \<noteq> PolicyDeny" "[] \<noteq> PolicyAny" "[] \<noteq> PolicyExact" "[] \<noteq> PolicyAllow"
  by (simp_all add: policy_defs)

record ArgvPolicy =
  ap_Policy :: string
  ap_Argv :: "string list"

record MountRule =
  mr_Destination :: string
  mr_Kind :: string
  mr_Source :: string
  mr_ReadOnly :: bool

record MountPolicy =
  mp_Policy :: string
  mp_Rules :: "MountRule list"

record EnvPolicy =
  ep_Policy :: string
  ep_Values :: "(string \<times> string) slice"

record SecretsPolicy =
  sp_Policy :: string
  sp_Read :: "string list"
  sp_Write :: "string list"

record Container =
  c_Digest :: Digest
  c_Image :: string
  c_Command :: ArgvPolicy
  c_Args :: ArgvPolicy
  c_Mounts :: MountPolicy
  c_Env :: EnvPolicy

record Workload =
  w_Label :: string
  w_InitContainers :: "Container slice"
  w_Containers :: "Container slice"
  w_Secrets :: "SecretsPolicy option"

record Allowlist =
  al_Schema :: string
  al_Workloads :: "(string \<times> Workload) slice"

definition Schema :: string where "Schema = ''c8s.allowlist/v1''"

definition MountPlatform :: string where "MountPlatform = ''platform''"
definition MountEmptyDir :: string where "MountEmptyDir = ''emptyDir''"
definition MountData :: string where "MountData = ''data''"
definition MountHost :: string where "MountHost = ''host''"

abbreviation MountMemory :: string where "MountMemory \<equiv> ''memory''"
abbreviation MountEncrypted :: string where "MountEncrypted \<equiv> ''encrypted''"
abbreviation MountUnknown :: string where "MountUnknown \<equiv> ''unknown''"

abbreviation DataMountPrefix :: string where "DataMountPrefix \<equiv> ''/mnt/c8s-data/''"

lemmas mount_class_defs = MountPlatform_def MountEmptyDir_def MountData_def MountHost_def

lemma mount_class_distinct [simp]:
  "MountPlatform \<noteq> MountEmptyDir" "MountPlatform \<noteq> MountData" "MountPlatform \<noteq> MountHost"
  "MountEmptyDir \<noteq> MountPlatform" "MountEmptyDir \<noteq> MountData" "MountEmptyDir \<noteq> MountHost"
  "MountData \<noteq> MountPlatform" "MountData \<noteq> MountEmptyDir" "MountData \<noteq> MountHost"
  "MountHost \<noteq> MountPlatform" "MountHost \<noteq> MountEmptyDir" "MountHost \<noteq> MountData"
  by (simp_all add: mount_class_defs)

text \<open>What an enforcer observed of a running container. A missing mount table or environment is
  missing evidence, not an empty one.\<close>

record EnvObservation =
  eo_Format :: string
  eo_Digest :: string

record ObservedMount =
  om_Destination :: string
  om_Source :: string
  om_Class :: string
  om_Storage :: string
  om_HostSourceDigest :: string
  om_ReadOnly :: bool

record RunningContainer =
  rc_Digest :: string
  rc_Argv :: "string list"
  rc_Mounts :: "ObservedMount slice"
  rc_Env :: "EnvObservation option"

section \<open>Environment evidence (env.go)\<close>

datatype env_error = ErrMalformedEnv | ErrDuplicateEnv

abbreviation EnvFormat :: string where "EnvFormat \<equiv> ''c8s.env/v1''"

definition validEnvPair :: "string \<Rightarrow> string \<Rightarrow> bool" where
  "validEnvPair name v =
     (name \<noteq> [] \<and> CHR ''='' \<notin> set name \<and> CHR 0x00 \<notin> set name \<and> CHR 0x00 \<notin> set v \<and>
      ValidString name \<and> ValidString v)"

text \<open>The hashed bytes: the domain string, a NUL, the compact JSON object with sorted keys.\<close>

definition env_preimage :: "(string \<times> string) list \<Rightarrow> string" where
  "env_preimage vs =
     EnvFormat @ CHR 0x00 # encode (JObj (map (\<lambda>(n, v). (n, JStr v)) (sort_key fst vs)))"

definition fingerprintEnv :: "hash \<Rightarrow> (string \<times> string) slice \<Rightarrow> EnvObservation" where
  "fingerprintEnv H vs =
     \<lparr>eo_Format = EnvFormat, eo_Digest = hex_encode (H (env_preimage (elems vs)))\<rparr>"

fun observe_loop ::
    "(string \<times> string) list \<Rightarrow> string list \<Rightarrow> env_error + (string \<times> string) list" where
  "observe_loop vs [] = Inr vs"
| "observe_loop vs (e # es) =
     (case Cut e ''='' of
        None \<Rightarrow> Inl ErrMalformedEnv
      | Some (n, v) \<Rightarrow>
          if \<not> validEnvPair n v then Inl ErrMalformedEnv
          else if map_of vs n \<noteq> None then Inl ErrDuplicateEnv
          else observe_loop (vs @ [(n, v)]) es)"

definition ObserveEnv :: "hash \<Rightarrow> string list \<Rightarrow> env_error + EnvObservation" where
  "ObserveEnv H es = bindE (observe_loop [] es) (\<lambda>vs. Inr (fingerprintEnv H (Some vs)))"

text \<open>The loop of \<^verbatim>\<open>ObserveLaunchEnv\<close> runs from the last entry to the first.\<close>

fun launch_loop :: "string list \<Rightarrow> string list \<Rightarrow> string list" where
  "launch_loop seen [] = []"
| "launch_loop seen (e # es) =
     (case Cut e ''='' of
        None \<Rightarrow> e # launch_loop seen es
      | Some (n, v) \<Rightarrow>
          if n \<in> set seen then launch_loop seen es
          else e # launch_loop (n # seen) es)"

definition ObserveLaunchEnv :: "hash \<Rightarrow> string list \<Rightarrow> env_error + EnvObservation" where
  "ObserveLaunchEnv H es = ObserveEnv H (rev (launch_loop [] (rev es)))"

definition env_Valid :: "EnvObservation option \<Rightarrow> bool" where
  "env_Valid ob =
     (case ob of
        None \<Rightarrow> False
      | Some o1 \<Rightarrow>
          if eo_Format o1 \<noteq> EnvFormat \<or> length (eo_Digest o1) \<noteq> 64 then False
          else (case hex_decode (eo_Digest o1) of
                  None \<Rightarrow> False
                | Some b \<Rightarrow> hex_encode b = eo_Digest o1))"

definition admitsObservation :: "hash \<Rightarrow> EnvPolicy \<Rightarrow> EnvObservation option \<Rightarrow> bool" where
  "admitsObservation H p ob =
     (if ep_Policy p = PolicyAny \<or> ep_Policy p = [] then True
      else if ep_Policy p = PolicyDeny then env_Valid ob \<and> ob = Some (fingerprintEnv H None)
      else if ep_Policy p = PolicyExact then
        ep_Values p \<noteq> None \<and> env_Valid ob \<and> ob = Some (fingerprintEnv H (ep_Values p))
      else False)"

section \<open>Mount rules (host\_mount.go, mount\_rule.go)\<close>

datatype norm_error =
    ErrArgvNotTaken | ErrArgvMissing | ErrUnknownArgvPolicy
  | ErrRulesNotTaken | ErrRulesMissing | ErrUnknownMountPolicy | ErrMountDestination
  | ErrDuplicateDestination | ErrMountKind | ErrMountSource | ErrDataDestination | ErrHostSource
  | ErrEnvNotTaken | ErrEnvMissing | ErrEnvPair | ErrUnknownEnvPolicy
  | ErrDenyGrantsPaths | ErrGlobAbsolute | ErrGlobWildcard | ErrGlobClean | ErrNoReadPath
  | ErrUnknownSecretsPolicy | ErrGrantUnpinned
  | ErrDigestRequired | ErrSchema | ErrNameGrammar | ErrNameLength

definition clean_abs :: "string \<Rightarrow> bool" where
  "clean_abs p = (rooted_path p \<and> path_clean p = p)"

definition HostSourceDigest :: "hash \<Rightarrow> string \<Rightarrow> norm_error + string" where
  "HostSourceDigest H source =
     (if \<not> clean_abs source \<or> CHR 0x00 \<in> set source then Inl ErrHostSource
      else Inr (hex_encode (H source)))"

datatype mountRuleBehavior = emptyDirRule MountRule | dataRule MountRule | hostRule MountRule

definition behavior :: "MountRule \<Rightarrow> mountRuleBehavior option" where
  "behavior r =
     (if mr_Kind r = MountEmptyDir then Some (emptyDirRule r)
      else if mr_Kind r = MountData then Some (dataRule r)
      else if mr_Kind r = MountHost then Some (hostRule r)
      else None)"

definition emptyDir_validate :: "MountRule \<Rightarrow> norm_error + unit" where
  "emptyDir_validate r = guardE (\<not> (mr_Source r \<noteq> [] \<or> mr_ReadOnly r)) ErrMountSource"

definition data_validate :: "MountRule \<Rightarrow> norm_error + unit" where
  "data_validate r =
     bindE (emptyDir_validate r)
       (\<lambda>_. guardE (HasPrefix (mr_Destination r) DataMountPrefix) ErrDataDestination)"

definition host_validate :: "hash \<Rightarrow> MountRule \<Rightarrow> norm_error + unit" where
  "host_validate H r = bindE (HostSourceDigest H (mr_Source r)) (\<lambda>_. Inr ())"

fun rule_validate :: "hash \<Rightarrow> mountRuleBehavior \<Rightarrow> norm_error + unit" where
  "rule_validate H (emptyDirRule r) = emptyDir_validate r"
| "rule_validate H (dataRule r) = data_validate r"
| "rule_validate H (hostRule r) = host_validate H r"

definition emptyDir_admits :: "ObservedMount \<Rightarrow> bool" where
  "emptyDir_admits m = (om_Storage m = MountMemory \<or> om_Storage m = MountEncrypted)"

definition host_admits :: "hash \<Rightarrow> MountRule \<Rightarrow> ObservedMount \<Rightarrow> bool" where
  "host_admits H r m =
     (case HostSourceDigest H (mr_Source r) of
        Inl _ \<Rightarrow> False
      | Inr d \<Rightarrow> om_HostSourceDigest m = d \<and> om_ReadOnly m = mr_ReadOnly r)"

text \<open>\<^verbatim>\<open>dataRule\<close> embeds \<^verbatim>\<open>emptyDirRule\<close> and inherits its admission and host independence.\<close>

fun rule_admits :: "hash \<Rightarrow> mountRuleBehavior \<Rightarrow> ObservedMount \<Rightarrow> bool" where
  "rule_admits H (emptyDirRule r) m = emptyDir_admits m"
| "rule_admits H (dataRule r) m = emptyDir_admits m"
| "rule_admits H (hostRule r) m = host_admits H r m"

fun rule_hostIndependent :: "mountRuleBehavior \<Rightarrow> bool" where
  "rule_hostIndependent (emptyDirRule r) = True"
| "rule_hostIndependent (dataRule r) = True"
| "rule_hostIndependent (hostRule r) = False"

section \<open>Process and mount policies (policy.go, match.go)\<close>

definition matchCommand :: "ArgvPolicy \<Rightarrow> string list \<Rightarrow> string list option" where
  "matchCommand p argv =
     (if ap_Policy p = PolicyAny then Some argv
      else if ap_Policy p = PolicyDeny then (if length argv = 0 then Some argv else None)
      else if ap_Policy p = PolicyExact then
        (if length argv < length (ap_Argv p) then None
         else if take (length (ap_Argv p)) argv \<noteq> ap_Argv p then None
         else Some (drop (length (ap_Argv p)) argv))
      else None)"

fun equalStrings :: "string list \<Rightarrow> string list \<Rightarrow> bool" where
  "equalStrings [] [] = True"
| "equalStrings (a # as) (b # bs) = (a = b \<and> equalStrings as bs)"
| "equalStrings _ _ = False"

definition matchArgs :: "ArgvPolicy \<Rightarrow> string list \<Rightarrow> bool" where
  "matchArgs p rest =
     (if ap_Policy p = PolicyAny then True
      else if ap_Policy p = PolicyDeny then length rest = 0
      else if ap_Policy p = PolicyExact then equalStrings rest (ap_Argv p)
      else False)"

definition admitsMount :: "hash \<Rightarrow> MountPolicy \<Rightarrow> ObservedMount \<Rightarrow> bool" where
  "admitsMount H p m =
     (case find (\<lambda>r. mr_Destination r = om_Destination m \<and> mr_Kind r = om_Class m) (mp_Rules p) of
        None \<Rightarrow> False
      | Some r \<Rightarrow> (case behavior r of None \<Rightarrow> False | Some b \<Rightarrow> rule_admits H b m))"

text \<open>The loop of the exact policy: the destinations seen, or \<^const>\<open>None\<close> for the early refusal.\<close>

fun mounts_loop :: "hash \<Rightarrow> MountPolicy \<Rightarrow> string list \<Rightarrow> ObservedMount list \<Rightarrow> string list option" where
  "mounts_loop H p seen [] = Some seen"
| "mounts_loop H p seen (m # ms) =
     (if om_Class m = MountPlatform then mounts_loop H p seen ms
      else if om_Destination m \<in> set seen \<or> \<not> admitsMount H p m then None
      else mounts_loop H p (om_Destination m # seen) ms)"

definition mount_policy_admits :: "hash \<Rightarrow> MountPolicy \<Rightarrow> ObservedMount slice \<Rightarrow> bool" where
  "mount_policy_admits H p mounts =
     (if mp_Policy p = PolicyAny then True
      else case mounts of
        None \<Rightarrow> False
      | Some ms \<Rightarrow>
          if mp_Policy p = PolicyDeny \<or> mp_Policy p = [] then
            \<not> list_ex (\<lambda>m. om_Class m \<noteq> MountPlatform) ms
          else if mp_Policy p \<noteq> PolicyExact then False
          else (case mounts_loop H p [] ms of
                  None \<Rightarrow> False
                | Some seen \<Rightarrow> length seen = length (mp_Rules p)))"

section \<open>Constraints of a container (constraints.go)\<close>

datatype containerConstraint =
    processConstraint (pc_command: ArgvPolicy) (pc_args: ArgvPolicy)
  | mountConstraint (mc_policy: MountPolicy)
  | envConstraint (ec_policy: EnvPolicy)

definition constraints :: "Container \<Rightarrow> containerConstraint list" where
  "constraints c =
     [processConstraint (c_Command c) (c_Args c), mountConstraint (c_Mounts c), envConstraint (c_Env c)]"

definition process_admits :: "ArgvPolicy \<Rightarrow> ArgvPolicy \<Rightarrow> RunningContainer \<Rightarrow> bool" where
  "process_admits cmd args r =
     (case matchCommand cmd (rc_Argv r) of None \<Rightarrow> False | Some rest \<Rightarrow> matchArgs args rest)"

definition argvHostIndependent :: "string \<Rightarrow> bool" where
  "argvHostIndependent p = (p = [] \<or> p = PolicyDeny \<or> p = PolicyExact)"

definition mount_hostIndependent :: "MountPolicy \<Rightarrow> bool" where
  "mount_hostIndependent p =
     (if list_ex (\<lambda>r. case behavior r of None \<Rightarrow> True | Some b \<Rightarrow> \<not> rule_hostIndependent b) (mp_Rules p)
      then False
      else mp_Policy p = PolicyDeny \<or> mp_Policy p = PolicyExact \<or> mp_Policy p = [])"

fun constraint_admits :: "hash \<Rightarrow> containerConstraint \<Rightarrow> RunningContainer \<Rightarrow> bool" where
  "constraint_admits H (processConstraint cmd args) r = process_admits cmd args r"
| "constraint_admits H (mountConstraint p) r = mount_policy_admits H p (rc_Mounts r)"
| "constraint_admits H (envConstraint p) r = admitsObservation H p (rc_Env r)"

fun hostIndependent :: "containerConstraint \<Rightarrow> bool" where
  "hostIndependent (processConstraint cmd args) =
     (argvHostIndependent (ap_Policy cmd) \<and> argvHostIndependent (ap_Policy args))"
| "hostIndependent (mountConstraint p) = mount_hostIndependent p"
| "hostIndependent (envConstraint p) = (ep_Policy p = PolicyDeny \<or> ep_Policy p = PolicyExact)"

fun isUnconstrained :: "containerConstraint \<Rightarrow> bool" where
  "isUnconstrained (processConstraint cmd args) = (ap_Policy cmd = PolicyAny \<and> ap_Policy args = PolicyAny)"
| "isUnconstrained (mountConstraint p) = (mp_Policy p = PolicyAny)"
| "isUnconstrained (envConstraint p) = (ep_Policy p = PolicyAny \<or> ep_Policy p = [])"

section \<open>Containers and entries (allowlist.go)\<close>

definition container_AnyArgv :: "Container \<Rightarrow> bool" where
  "container_AnyArgv c = isUnconstrained (processConstraint (c_Command c) (c_Args c))"

definition container_IsUnconstrained :: "Container \<Rightarrow> bool" where
  "container_IsUnconstrained c = list_all isUnconstrained (constraints c)"

definition w_containers :: "Workload \<Rightarrow> Container list" where
  "w_containers w = elems (w_InitContainers w) @ elems (w_Containers w)"

definition w_Digests :: "Workload \<Rightarrow> Digest list" where
  "w_Digests w = map c_Digest (elems (w_InitContainers w)) @ map c_Digest (elems (w_Containers w))"

definition ArgvPinned :: "Workload \<Rightarrow> bool" where
  "ArgvPinned w = list_all (\<lambda>c. hostIndependent (processConstraint (c_Command c) (c_Args c))) (w_containers w)"

definition HostIndependent :: "Workload \<Rightarrow> bool" where
  "HostIndependent w = list_all (\<lambda>c. list_all hostIndependent (constraints c)) (w_containers w)"

definition container_admits :: "hash \<Rightarrow> Container \<Rightarrow> RunningContainer \<Rightarrow> bool" where
  "container_admits H c r =
     (if digest_string (c_Digest c) \<noteq> rc_Digest r then False
      else list_all (\<lambda>k. constraint_admits H k r) (constraints c))"

definition admitsProcess :: "hash \<Rightarrow> Container \<Rightarrow> RunningContainer \<Rightarrow> bool" where
  "admitsProcess H c r =
     (if digest_string (c_Digest c) \<noteq> rc_Digest r then False
      else constraint_admits H (processConstraint (c_Command c) (c_Args c)) r)"

definition AdmitsAnyArgv :: "Allowlist \<Rightarrow> string \<Rightarrow> bool" where
  "AdmitsAnyArgv a digest =
     (case ParseDigest digest of
        Inl _ \<Rightarrow> False
      | Inr d \<Rightarrow>
          list_ex (\<lambda>(_, w). list_ex (\<lambda>c. c_Digest c = d \<and> container_AnyArgv c) (w_containers w))
            (elems (al_Workloads a)))"

definition DigestEntry :: "Digest \<Rightarrow> string \<Rightarrow> Workload" where
  "DigestEntry digest img =
     \<lparr>w_Label = img,
      w_InitContainers = Some [],
      w_Containers = Some [\<lparr>
        c_Digest = digest,
        c_Image = img,
        c_Command = \<lparr>ap_Policy = PolicyAny, ap_Argv = []\<rparr>,
        c_Args = \<lparr>ap_Policy = PolicyAny, ap_Argv = []\<rparr>,
        c_Mounts = \<lparr>mp_Policy = PolicyAny, mp_Rules = []\<rparr>,
        c_Env = \<lparr>ep_Policy = PolicyAny, ep_Values = None\<rparr>\<rparr>],
      w_Secrets = None\<rparr>"

section \<open>Lemmas on process policies\<close>

lemma elems_simps [simp]: "elems None = []" "elems (Some xs) = xs"
  by (simp_all add: elems_def)

lemma equalStrings_iff [simp]: "equalStrings a b \<longleftrightarrow> a = b"
  by (induction a b rule: equalStrings.induct) auto

text \<open>The argv a policy pins: the listed tokens for exact, nothing for deny.\<close>

definition pinned_argv :: "ArgvPolicy \<Rightarrow> string list" where
  "pinned_argv p = (if ap_Policy p = PolicyExact then ap_Argv p else [])"

lemma matchCommand_pinned:
  assumes "argvHostIndependent (ap_Policy p)" and "matchCommand p argv = Some rest"
  shows "argv = pinned_argv p @ rest"
  using assms
  by (auto simp: matchCommand_def argvHostIndependent_def pinned_argv_def split: if_splits)
    (metis append_take_drop_id)

lemma matchArgs_pinned:
  assumes "argvHostIndependent (ap_Policy p)" and "matchArgs p rest"
  shows "rest = pinned_argv p"
  using assms by (auto simp: matchArgs_def argvHostIndependent_def pinned_argv_def split: if_splits)

lemma process_admits_pinned:
  assumes "hostIndependent (processConstraint cmd args)" and "process_admits cmd args r"
  shows "rc_Argv r = pinned_argv cmd @ pinned_argv args"
proof -
  obtain rest where r: "matchCommand cmd (rc_Argv r) = Some rest" "matchArgs args rest"
    using assms(2) by (auto simp: process_admits_def split: option.splits)
  show ?thesis
    using matchCommand_pinned[OF _ r(1)] matchArgs_pinned[OF _ r(2)] assms(1) by simp
qed

lemma container_admits_iff:
  "container_admits H c r \<longleftrightarrow>
     digest_string (c_Digest c) = rc_Digest r \<and> process_admits (c_Command c) (c_Args c) r \<and>
     mount_policy_admits H (c_Mounts c) (rc_Mounts r) \<and> admitsObservation H (c_Env c) (rc_Env r)"
  by (simp add: container_admits_def constraints_def)

lemma container_admits_process: "container_admits H c r \<Longrightarrow> admitsProcess H c r"
  by (simp add: container_admits_iff admitsProcess_def)

lemma IsUnconstrained_admits:
  assumes "container_IsUnconstrained c" and "digest_string (c_Digest c) = rc_Digest r"
  shows "container_admits H c r"
  using assms
  by (auto simp: container_IsUnconstrained_def constraints_def container_admits_iff process_admits_def
      matchCommand_def matchArgs_def mount_policy_admits_def admitsObservation_def)

lemma DigestEntry_containers [simp]:
  "elems (w_InitContainers (DigestEntry d img)) = []"
  "map c_Digest (elems (w_Containers (DigestEntry d img))) = [d]"
  "w_containers (DigestEntry d img) = elems (w_Containers (DigestEntry d img))"
  by (simp_all add: DigestEntry_def w_containers_def)

text \<open>The entry of a digest admits the image whatever it runs.\<close>

lemma DigestEntry_admits:
  "c \<in> set (elems (w_Containers (DigestEntry d img))) \<Longrightarrow>
     container_admits H c r \<longleftrightarrow> digest_string d = rc_Digest r"
  by (auto simp: DigestEntry_def container_admits_iff process_admits_def matchCommand_def matchArgs_def
      mount_policy_admits_def admitsObservation_def)

section \<open>Lemmas on mount policies\<close>

definition foreign_mounts :: "ObservedMount list \<Rightarrow> ObservedMount list" where
  "foreign_mounts ms = filter (\<lambda>m. om_Class m \<noteq> MountPlatform) ms"

lemma foreign_mounts_simps [simp]:
  "foreign_mounts [] = []"
  "foreign_mounts (m # ms) = (if om_Class m = MountPlatform then foreign_mounts ms else m # foreign_mounts ms)"
  by (simp_all add: foreign_mounts_def)

lemma mounts_loop_Some_iff:
  "mounts_loop H p seen ms = Some out \<longleftrightarrow>
     list_all (admitsMount H p) (foreign_mounts ms) \<and>
     distinct (map om_Destination (foreign_mounts ms)) \<and>
     set (map om_Destination (foreign_mounts ms)) \<inter> set seen = {} \<and>
     out = rev (map om_Destination (foreign_mounts ms)) @ seen"
  by (induction H p seen ms rule: mounts_loop.induct) auto

lemma admitsMount_dest:
  "admitsMount H p m \<Longrightarrow> om_Destination m \<in> mr_Destination ` set (mp_Rules p)"
  by (auto simp: admitsMount_def find_Some_iff image_iff split: option.splits) (metis nth_mem)

lemma mount_policy_admits_exact:
  assumes "mp_Policy p = PolicyExact" and "distinct (map mr_Destination (mp_Rules p))"
  shows "mount_policy_admits H p (Some ms) \<longleftrightarrow>
           list_all (admitsMount H p) (foreign_mounts ms) \<and>
           distinct (map om_Destination (foreign_mounts ms)) \<and>
           om_Destination ` set (foreign_mounts ms) = mr_Destination ` set (mp_Rules p)"
    (is "?l \<longleftrightarrow> ?a \<and> ?d \<and> ?s")
proof -
  have l: "?l \<longleftrightarrow> ?a \<and> ?d \<and> length (foreign_mounts ms) = length (mp_Rules p)"
    using assms(1) by (auto simp: mount_policy_admits_def mounts_loop_Some_iff split: option.splits)
      (metis mounts_loop_Some_iff inf_bot_right list.set(1) option.distinct(1))
  have "?s \<longleftrightarrow> length (foreign_mounts ms) = length (mp_Rules p)" if "?a" "?d"
  proof -
    have sub: "set (map om_Destination (foreign_mounts ms)) \<subseteq> set (map mr_Destination (mp_Rules p))"
      using that(1) admitsMount_dest by (force simp: list_all_iff)
    have "card (set (map om_Destination (foreign_mounts ms))) = length (foreign_mounts ms)"
      "card (set (map mr_Destination (mp_Rules p))) = length (mp_Rules p)"
      using that(2) assms(2) by (metis distinct_card length_map)+
    thus ?thesis using sub card_subset_eq[OF _ sub] by (metis List.finite_set list.set_map)
  qed
  thus ?thesis using l by blast
qed

section \<open>Lemmas on environment evidence\<close>

text \<open>A map of valid name/value pairs, as an association list.\<close>

definition wf_env :: "(string \<times> string) list \<Rightarrow> bool" where
  "wf_env vs = (distinct (map fst vs) \<and> list_all (\<lambda>(n, v). validEnvPair n v) vs)"

lemma sort_key_fst_unique:
  fixes vs ws :: "(string \<times> string) list"
  assumes "distinct (map fst vs)" and "distinct (map fst ws)" and "map_of vs = map_of ws"
  shows "sort_key fst vs = sort_key fst ws"
proof (rule map_sorted_distinct_set_unique[of fst])
  have set_eq: "set vs = set ws"
    using assms by (metis map_of_eq_Some_iff subsetI subset_antisym surj_pair)
  thus "set (sort_key fst vs) = set (sort_key fst ws)" by simp
  show "inj_on fst (set (sort_key fst vs) \<union> set (sort_key fst ws))"
    using assms(1) set_eq by (simp add: distinct_map)
  show "distinct (map fst (sort_key fst vs))" "distinct (map fst (sort_key fst ws))"
    using assms(1,2) by (simp_all add: distinct_map)
qed simp_all

lemma map_of_sort_key:
  fixes vs :: "(string \<times> string) list"
  assumes "distinct (map fst vs)"
  shows "map_of (sort_key fst vs) = map_of vs"
  using assms by (intro map_of_eqI) (auto simp: distinct_map map_of_eq_Some_iff)

lemma env_preimage_eq_iff:
  assumes "wf_env vs" and "wf_env ws"
  shows "env_preimage vs = env_preimage ws \<longleftrightarrow> map_of vs = map_of ws"
proof
  let ?j = "\<lambda>us. JObj (map (\<lambda>(n, v). (n, JStr v)) (sort_key fst us))"
  have valid: "valid_json (?j us)" if "wf_env us" for us
    using that by (auto simp: wf_env_def list_all_iff validEnvPair_def)
  assume "env_preimage vs = env_preimage ws"
  hence "encode (?j vs) = encode (?j ws)" unfolding env_preimage_def by (simp only: same_append_eq list.inject)
  hence "?j vs = ?j ws" by (rule encode_inj[OF valid[OF assms(1)] valid[OF assms(2)]])
  moreover have "inj (\<lambda>(n :: string, v). (n, JStr v))" by (auto simp: inj_def)
  ultimately have "sort_key fst vs = sort_key fst ws" by (simp add: inj_map_eq_map)
  thus "map_of vs = map_of ws" using assms map_of_sort_key by (metis wf_env_def)
next
  assume "map_of vs = map_of ws"
  thus "env_preimage vs = env_preimage ws"
    using assms sort_key_fst_unique[of vs ws] by (simp add: env_preimage_def wf_env_def)
qed

lemma fingerprintEnv_Valid:
  assumes "\<And>x. length (H x) = 32"
  shows "env_Valid (Some (fingerprintEnv H vs))"
  by (simp add: env_Valid_def fingerprintEnv_def assms)

lemma observe_loop_Inr:
  assumes "observe_loop vs es = Inr out" and "wf_env vs"
  shows "\<exists>ps. map (\<lambda>e. Cut e ''='') es = map Some ps \<and> out = vs @ ps \<and> wf_env out"
  using assms
proof (induction vs es rule: observe_loop.induct)
  case (2 vs e es)
  obtain n v where c: "Cut e ''='' = Some (n, v)" and ok: "validEnvPair n v" "map_of vs n = None"
      and rest: "observe_loop (vs @ [(n, v)]) es = Inr out"
    using 2(2) by (auto split: option.splits prod.splits if_splits)
  have "wf_env (vs @ [(n, v)])" using 2(3) ok by (auto simp: wf_env_def map_of_eq_None_iff)
  from 2(1)[OF c refl _ _ rest this] ok obtain ps where
    "map (\<lambda>e. Cut e ''='') es = map Some ps" "out = vs @ [(n, v)] @ ps" "wf_env out" by auto
  thus ?case using c by (intro exI[of _ "(n, v) # ps"]) simp
qed simp

lemma launch_loop_pairs:
  assumes "map (\<lambda>e. Cut e ''='') (launch_loop seen es) = map Some qs"
  shows "\<exists>ps. map (\<lambda>e. Cut e ''='') es = map Some ps
           \<and> distinct (map fst qs) \<and> (\<forall>n \<in> set seen. n \<notin> fst ` set qs)
           \<and> (\<forall>n. n \<notin> set seen \<longrightarrow> map_of qs n = map_of ps n)"
  using assms
proof (induction seen es arbitrary: qs rule: launch_loop.induct)
  case (2 seen e es)
  show ?case
  proof (cases "Cut e ''=''")
    case None
    thus ?thesis using 2(4) by (cases qs) auto
  next
    case (Some nv)
    obtain n v where nv: "nv = (n, v)" by (cases nv)
    show ?thesis
    proof (cases "n \<in> set seen")
      case True
      hence "map (\<lambda>e. Cut e ''='') (launch_loop seen es) = map Some qs" using 2(4) Some nv by simp
      from 2(2)[OF Some nv[symmetric] True this] obtain ps where ps:
        "map (\<lambda>e. Cut e ''='') es = map Some ps" "distinct (map fst qs)"
        "\<forall>m \<in> set seen. m \<notin> fst ` set qs" "\<forall>m. m \<notin> set seen \<longrightarrow> map_of qs m = map_of ps m" by blast
      thus ?thesis using True Some nv by (intro exI[of _ "(n, v) # ps"]) auto
    next
      case False
      then obtain qs' where qs: "qs = (n, v) # qs'"
          and q': "map (\<lambda>e. Cut e ''='') (launch_loop (n # seen) es) = map Some qs'"
        using 2(4) Some nv by (cases qs) auto
      from 2(3)[OF Some nv[symmetric] False q'] obtain ps where
        "map (\<lambda>e. Cut e ''='') es = map Some ps" "distinct (map fst qs')"
        "\<forall>m \<in> set (n # seen). m \<notin> fst ` set qs'"
        "\<forall>m. m \<notin> set (n # seen) \<longrightarrow> map_of qs' m = map_of ps m" by blast
      thus ?thesis using False Some nv qs by (intro exI[of _ "(n, v) # ps"]) auto
    qed
  qed
qed simp

text \<open>The environment a process starts with: the last value of each name.\<close>

definition launch_env :: "string list \<Rightarrow> string \<Rightarrow> string option" where
  "launch_env es = map_of (List.map_filter (\<lambda>e. Cut e ''='') (rev es))"

lemma map_filter_Some: "map f xs = map Some ys \<Longrightarrow> List.map_filter f xs = ys"
  by (induction xs arbitrary: ys) (auto simp: map_filter_simps)

text \<open>The pairs that the observation of the launch environment encodes.\<close>

definition launch_pairs :: "string list \<Rightarrow> (string \<times> string) list" where
  "launch_pairs es = List.map_filter (\<lambda>e. Cut e ''='') (rev (launch_loop [] (rev es)))"

lemma ObserveLaunchEnv_Inr:
  assumes "ObserveLaunchEnv H es = Inr ob"
  shows "wf_env (launch_pairs es)" and "ob = fingerprintEnv H (Some (launch_pairs es))"
    and "map_of (launch_pairs es) = launch_env es"
proof -
  obtain vs where vs: "observe_loop [] (rev (launch_loop [] (rev es))) = Inr vs"
      and ob: "ob = fingerprintEnv H (Some vs)"
    using assms by (auto simp: ObserveLaunchEnv_def ObserveEnv_def bindE_Inr_iff)
  have cut: "map (\<lambda>e. Cut e ''='') (rev (launch_loop [] (rev es))) = map Some vs" and wf: "wf_env vs"
    using observe_loop_Inr[OF vs] by (auto simp: wf_env_def)
  have "map (\<lambda>e. Cut e ''='') (launch_loop [] (rev es)) = map Some (rev vs)"
    using cut by (metis rev_map rev_rev_ident)
  from launch_loop_pairs[OF this] obtain ps where
    ps: "map (\<lambda>e. Cut e ''='') (rev es) = map Some ps" "\<And>n. map_of (rev vs) n = map_of ps n"
    by auto
  have "map_of vs = map_of (rev vs)"
    using wf by (intro map_of_eqI) (auto simp: wf_env_def map_of_eq_Some_iff rev_map[symmetric])
  hence "map_of vs = launch_env es"
    unfolding launch_env_def map_filter_Some[OF ps(1)] using ps(2) by auto
  moreover have "launch_pairs es = vs"
    unfolding launch_pairs_def by (rule map_filter_Some[OF cut])
  ultimately show "wf_env (launch_pairs es)" "ob = fingerprintEnv H (Some (launch_pairs es))"
    "map_of (launch_pairs es) = launch_env es" using wf ob by simp_all
qed

section \<open>Properties\<close>

text \<open>
  C28: evidence of the launch environment is exact. When an environment observation comes from the
  launch entries of a container, a policy that pins the environment admits it exactly when the
  last value of every launched name is the pinned one and nothing else is set, and the deny policy
  admits it exactly when nothing is set; for a hash of 32 bytes that does not collide on the two
  encoded environments.
\<close>

theorem env_policy_exact:
  assumes "ObserveLaunchEnv H es = Inr ob"
    and "ep_Policy p = PolicyExact \<and> ep_Values p = Some vs \<or> ep_Policy p = PolicyDeny \<and> vs = []"
    and "wf_env vs"
    and "\<And>x. length (H x) = 32"
    and "H (env_preimage (launch_pairs es)) = H (env_preimage vs) \<Longrightarrow>
           env_preimage (launch_pairs es) = env_preimage vs"
  shows "admitsObservation H p (Some ob) \<longleftrightarrow> launch_env es = map_of vs"
proof -
  note ws = ObserveLaunchEnv_Inr[OF assms(1)]
  have valid: "env_Valid (Some ob)" using fingerprintEnv_Valid[of H] assms(4) ws(2) by simp
  have "admitsObservation H p (Some ob) \<longleftrightarrow> H (env_preimage (launch_pairs es)) = H (env_preimage vs)"
    using assms(2) valid
    by (auto simp: admitsObservation_def ws(2) fingerprintEnv_def hex_encode_inj)
  also have "\<dots> \<longleftrightarrow> env_preimage (launch_pairs es) = env_preimage vs" using assms(5) by auto
  also have "\<dots> \<longleftrightarrow> launch_env es = map_of vs"
    using env_preimage_eq_iff[OF ws(1) assms(3)] ws(3) by simp
  finally show ?thesis .
qed

theorem env_policy_exact_witness:
  "admitsObservation (\<lambda>_. replicate 32 (CHR ''h''))
     \<lparr>ep_Policy = PolicyExact, ep_Values = Some [(''A'', ''1'')]\<rparr>
     (Some (fingerprintEnv (\<lambda>_. replicate 32 (CHR ''h'')) (Some [(''A'', ''1'')])))"
proof -
  let ?H = "\<lambda>_ :: string. replicate 32 (CHR ''h'')"
  let ?es = "[''A=0'', ''A=1'']"
  have cut: "Cut ''A=0'' ''='' = Some (''A'', ''0'')" "Cut ''A=1'' ''='' = Some (''A'', ''1'')"
    by (simp_all add: CutPrefix_def)
  have valid: "validEnvPair ''A'' ''1''"
    by (simp add: validEnvPair_def ValidString.simps utf8_len_def utf8_bounds_def)
  have loop: "rev (launch_loop [] (rev ?es)) = [''A=1'']" using cut by simp
  have ob: "ObserveLaunchEnv ?H ?es = Inr (fingerprintEnv ?H (Some [(''A'', ''1'')]))"
    unfolding ObserveLaunchEnv_def loop using cut valid by (simp add: ObserveEnv_def)
  have pairs: "launch_pairs ?es = [(''A'', ''1'')]"
    unfolding launch_pairs_def loop using cut by (simp add: map_filter_simps)
  have env: "launch_env ?es = map_of [(''A'', ''1'')]"
    using cut by (auto simp: launch_env_def map_filter_simps)
  show ?thesis
    using env_policy_exact[OF ob, of "\<lparr>ep_Policy = PolicyExact, ep_Values = Some [(''A'', ''1'')]\<rparr>"
        "[(''A'', ''1'')]"] valid pairs env
    by (simp add: wf_env_def)
qed

text \<open>
  an exact mount policy with distinct destinations admits a mount table exactly when the mounts
  that the node did not classify as platform mounts are in one-to-one correspondence with the rules
  by destination, each satisfying the rule of its destination and kind; without evidence it admits
  nothing, and the deny policy admits platform mounts only.
\<close>

theorem mount_policy_exact:
  assumes "distinct (map mr_Destination (mp_Rules p))"
  shows "(mp_Policy p = PolicyExact \<longrightarrow>
            mount_policy_admits H p (Some ms) =
              (list_all (admitsMount H p) (foreign_mounts ms) \<and>
               distinct (map om_Destination (foreign_mounts ms)) \<and>
               om_Destination ` set (foreign_mounts ms) = mr_Destination ` set (mp_Rules p)))
       \<and> (mp_Policy p = PolicyDeny \<longrightarrow> mount_policy_admits H p (Some ms) = (foreign_mounts ms = []))
       \<and> (mp_Policy p \<noteq> PolicyAny \<longrightarrow> \<not> mount_policy_admits H p None)"
  using mount_policy_admits_exact[OF _ assms]
  by (auto simp: mount_policy_admits_def foreign_mounts_def list_ex_iff filter_empty_conv)

theorem mount_policy_exact_witness:
  "mount_policy_admits (\<lambda>_. [])
     \<lparr>mp_Policy = PolicyExact,
      mp_Rules = [\<lparr>mr_Destination = ''/cache'', mr_Kind = MountEmptyDir, mr_Source = [], mr_ReadOnly = False\<rparr>]\<rparr>
     (Some [\<lparr>om_Destination = ''/cache'', om_Source = ''/var/x'', om_Class = MountEmptyDir,
             om_Storage = MountMemory, om_HostSourceDigest = [], om_ReadOnly = False\<rparr>])"
  using mount_policy_exact[of "\<lparr>mp_Policy = PolicyExact, mp_Rules =
      [\<lparr>mr_Destination = ''/cache'', mr_Kind = MountEmptyDir, mr_Source = [], mr_ReadOnly = False\<rparr>]\<rparr>"
      "\<lambda>_. []" "[\<lparr>om_Destination = ''/cache'', om_Source = ''/var/x'', om_Class = MountEmptyDir,
             om_Storage = MountMemory, om_HostSourceDigest = [], om_ReadOnly = False\<rparr>]"]
  by (simp add: admitsMount_def behavior_def emptyDir_admits_def)

end
