(* ===== verification/Admission_History.thy ===== *)
theory Admission_History
  imports Go_Quote Allowlist "HOL-Library.Multiset"
begin

text \<open>
  The cumulative inventory of a sandbox: the key of an admission
  (\<^verbatim>\<open>src/pkg/workloadclaims/container_key.go\<close>) and the history that an enforcer keeps per sandbox
  (\<^verbatim>\<open>src/internal/admissionhistory/history.go\<close>). The table of printable runes behind \<^verbatim>\<open>%q\<close> is the
  parameter \<open>pr\<close>. A Go map is an association list with distinct keys.
\<close>

section \<open>Admissions and their key\<close>

record SandboxContainer =
  sc_Env :: "EnvObservation option"
  sc_Mounts :: "ObservedMount slice"
  sc_Digest :: string
  sc_Argv :: "string slice"

definition mount_key :: "(string \<Rightarrow> bool) \<Rightarrow> ObservedMount \<Rightarrow> string" where
  "mount_key pr m =
     CHR ''{'' # Quote pr (om_Destination m) @ '' '' @ Quote pr (om_Class m) @ '' '' @ Quote pr (om_Storage m) @ '' '' @
       Quote pr (om_HostSourceDigest m) @ '' '' @ FormatBool (om_ReadOnly m) @ ''}''"

definition env_key :: "(string \<Rightarrow> bool) \<Rightarrow> EnvObservation option \<Rightarrow> string" where
  "env_key pr e =
     (case e of
        None \<Rightarrow> ''nil''
      | Some o' \<Rightarrow> CHR ''{'' # Quote pr (eo_Format o') @ '' '' @ Quote pr (eo_Digest o') @ ''}'')"

definition mounts_key :: "(string \<Rightarrow> bool) \<Rightarrow> ObservedMount slice \<Rightarrow> string" where
  "mounts_key pr ms =
     (case ms of None \<Rightarrow> ''nil'' | Some l \<Rightarrow> CHR ''['' # concat (map (mount_key pr) l) @ '']'')"

definition Key :: "(string \<Rightarrow> bool) \<Rightarrow> SandboxContainer \<Rightarrow> string" where
  "Key pr c =
     ''digest='' @ Quote pr (sc_Digest c) @ '' argv='' @ QuoteAll pr (elems (sc_Argv c)) @ '' env='' @
     env_key pr (sc_Env c) @ '' mounts='' @ mounts_key pr (sc_Mounts c)"

text \<open>\<^verbatim>\<open>Compare\<close> as the key it orders by.\<close>

definition Compare_key :: "(string \<Rightarrow> bool) \<Rightarrow> SandboxContainer \<Rightarrow> string \<times> string list \<times> string" where
  "Compare_key pr c = (sc_Digest c, elems (sc_Argv c), Key pr c)"

section \<open>The history\<close>

record History =
  hi_byKey :: "(string \<times> SandboxContainer) list"
  hi_unresolved :: "(string \<times> unit) list"

definition empty_history :: History where
  "empty_history = \<lparr>hi_byKey = [], hi_unresolved = []\<rparr>"

text \<open>\<^verbatim>\<open>compareObservedMounts\<close> as the key it orders by: a read-only mount comes last. Mounts it
  calls equal differ in the local source path alone, which is no part of the evidence.\<close>

definition mount_order :: "ObservedMount \<Rightarrow> string \<times> string \<times> string \<times> string \<times> bool" where
  "mount_order m = (om_Destination m, om_Class m, om_Storage m, om_HostSourceDigest m, om_ReadOnly m)"

definition admitted_container :: "string \<Rightarrow> string slice \<Rightarrow> EnvObservation option \<Rightarrow> ObservedMount slice \<Rightarrow> SandboxContainer" where
  "admitted_container digest argv env mounts =
     \<lparr>sc_Env = env, sc_Mounts = map_option (sort_key mount_order) mounts, sc_Digest = digest, sc_Argv = argv\<rparr>"

definition history_Record ::
  "(string \<Rightarrow> bool) \<Rightarrow> string \<Rightarrow> string \<Rightarrow> string slice \<Rightarrow> EnvObservation option \<Rightarrow> ObservedMount slice \<Rightarrow> History \<Rightarrow> History" where
  "history_Record pr id' digest argv env mounts h =
     (if digest = [] then h\<lparr>hi_unresolved := AList.update id' () (hi_unresolved h)\<rparr>
      else
        let c = admitted_container digest argv env mounts in
        h\<lparr>hi_unresolved := AList.delete id' (hi_unresolved h), hi_byKey := AList.update (Key pr c) c (hi_byKey h)\<rparr>)"

datatype history_error = ErrUnresolved

definition Snapshot :: "(string \<Rightarrow> bool) \<Rightarrow> History \<Rightarrow> history_error + (string list \<times> SandboxContainer list)" where
  "Snapshot pr h =
     (if 0 < length (hi_unresolved h) then Inl ErrUnresolved
      else
        let containers = map snd (hi_byKey h) in
        Inr (remdups_adj (sort (map sc_Digest containers)), sort_key (Compare_key pr) containers))"

section \<open>The key determines the evidence\<close>

text \<open>What an admission proves: everything but the local source paths of its mounts, a nil argument
  vector being an empty one.\<close>

definition mount_evidence :: "ObservedMount \<Rightarrow> ObservedMount" where
  "mount_evidence m = m\<lparr>om_Source := []\<rparr>"

definition evidence :: "SandboxContainer \<Rightarrow> SandboxContainer" where
  "evidence c = c\<lparr>sc_Mounts := map_option (map mount_evidence) (sc_Mounts c), sc_Argv := Some (elems (sc_Argv c))\<rparr>"

lemma Key_evidence: "Key pr (evidence c) = Key pr c"
proof -
  have "mount_key pr (mount_evidence m) = mount_key pr m" for m
    by (simp add: mount_key_def mount_evidence_def)
  hence "mounts_key pr (map_option (map mount_evidence) ms) = mounts_key pr ms" for ms
    by (simp add: mounts_key_def comp_def split: option.splits)
  thus ?thesis by (simp add: Key_def evidence_def elems_def)
qed

lemma mount_key_inj:
  assumes "mount_key pr m @ x = mount_key pr n @ y"
  shows "mount_evidence m = mount_evidence n \<and> x = y"
proof -
  have "om_Destination m = om_Destination n \<and> om_Class m = om_Class n \<and> om_Storage m = om_Storage n \<and>
        om_HostSourceDigest m = om_HostSourceDigest n \<and> om_ReadOnly m = om_ReadOnly n \<and> x = y"
    using assms by (auto simp: mount_key_def dest!: Quote_inj FormatBool_inj)
  thus ?thesis by (simp add: mount_evidence_def)
qed

lemma mount_keys_inj:
  "concat (map (mount_key pr) ms) @ CHR '']'' # x = concat (map (mount_key pr) ns) @ CHR '']'' # y \<Longrightarrow>
     map mount_evidence ms = map mount_evidence ns \<and> x = y"
proof (induction ms arbitrary: ns)
  case Nil
  thus ?case by (cases ns) (auto simp: mount_key_def)
next
  case (Cons m ms)
  show ?case
  proof (cases ns)
    case Nil
    thus ?thesis using Cons.prems by (simp add: mount_key_def)
  next
    case ns: (Cons n ns')
    have "mount_key pr m @ (concat (map (mount_key pr) ms) @ CHR '']'' # x) =
          mount_key pr n @ (concat (map (mount_key pr) ns') @ CHR '']'' # y)"
      using Cons.prems ns by simp
    from mount_key_inj[OF this] show ?thesis using Cons.IH[of ns'] ns by simp
  qed
qed

lemma env_key_inj: "env_key pr a @ '' '' @ x = env_key pr b @ '' '' @ y \<Longrightarrow> a = b \<and> x = y"
  by (cases a; cases b) (auto simp: env_key_def dest!: Quote_inj)

lemma mounts_key_inj:
  "mounts_key pr a = mounts_key pr b \<Longrightarrow> map_option (map mount_evidence) a = map_option (map mount_evidence) b"
  using mount_keys_inj[of pr "the a" "[]" "the b" "[]"] by (cases a; cases b) (simp_all add: mounts_key_def)

lemma Key_inj:
  assumes "Key pr a = Key pr b"
  shows "evidence a = evidence b"
proof -
  have e: "sc_Digest a = sc_Digest b"
    "elems (sc_Argv a) = elems (sc_Argv b) \<and> env_key pr (sc_Env a) @ '' '' @ (''mounts='' @ mounts_key pr (sc_Mounts a)) =
       env_key pr (sc_Env b) @ '' '' @ (''mounts='' @ mounts_key pr (sc_Mounts b))"
    using assms by (auto simp: Key_def dest!: Quote_inj QuoteAll_inj)
  have "sc_Env a = sc_Env b" "mounts_key pr (sc_Mounts a) = mounts_key pr (sc_Mounts b)"
    using env_key_inj[OF conjunct2[OF e(2)]] by simp_all
  thus ?thesis using e mounts_key_inj[of pr "sc_Mounts a" "sc_Mounts b"] by (simp add: evidence_def)
qed

section \<open>What a history reports\<close>

record admission_event =
  ev_id :: string
  ev_digest :: string
  ev_argv :: "string slice"
  ev_env :: "EnvObservation option"
  ev_mounts :: "ObservedMount slice"

definition record_event :: "(string \<Rightarrow> bool) \<Rightarrow> admission_event \<Rightarrow> History \<Rightarrow> History" where
  "record_event pr e h = history_Record pr (ev_id e) (ev_digest e) (ev_argv e) (ev_env e) (ev_mounts e) h"

definition event_admission :: "admission_event \<Rightarrow> SandboxContainer" where
  "event_admission e = admitted_container (ev_digest e) (ev_argv e) (ev_env e) (ev_mounts e)"

definition history_of :: "(string \<Rightarrow> bool) \<Rightarrow> admission_event list \<Rightarrow> History" where
  "history_of pr es = fold (record_event pr) es empty_history"

text \<open>The containers whose last record named no digest.\<close>

definition unresolved_ids :: "admission_event list \<Rightarrow> string set" where
  "unresolved_ids es = {i. i \<in> ev_id ` set es \<and> ev_digest (last (filter (\<lambda>e. ev_id e = i) es)) = []}"

lemma history_of_snoc: "history_of pr (es @ [e]) = record_event pr e (history_of pr es)"
  by (simp add: history_of_def)

lemma unresolved_ids_snoc:
  "unresolved_ids (es @ [e]) =
     (if ev_digest e = [] then insert (ev_id e) (unresolved_ids es) else unresolved_ids es - {ev_id e})"
  by (auto simp: unresolved_ids_def)

lemma history_unresolved:
  "uniq_keys (hi_unresolved (history_of pr es)) \<and> fst ` set (hi_unresolved (history_of pr es)) = unresolved_ids es"
proof (induction es rule: rev_induct)
  case Nil
  show ?case by (simp add: history_of_def empty_history_def unresolved_ids_def)
next
  case (snoc e es)
  thus ?case
    by (auto simp: history_of_snoc record_event_def history_Record_def Let_def unresolved_ids_snoc set_update set_delete
        image_iff)
qed

text \<open>Every entry of the map is filed under its own key and comes from a resolved record.\<close>

abbreviation resolved :: "admission_event list \<Rightarrow> admission_event set" where
  "resolved es \<equiv> {e \<in> set es. ev_digest e \<noteq> []}"

lemma history_byKey_snoc:
  "hi_byKey (history_of pr (es @ [e])) =
     (if ev_digest e = [] then hi_byKey (history_of pr es)
      else AList.update (Key pr (event_admission e)) (event_admission e) (hi_byKey (history_of pr es)))"
  by (simp add: history_of_snoc record_event_def history_Record_def event_admission_def Let_def)

lemma history_byKey_uniq: "uniq_keys (hi_byKey (history_of pr es))"
  by (induction es rule: rev_induct) (simp_all add: history_byKey_snoc, simp add: history_of_def empty_history_def)

lemma history_byKey_sound:
  "(k, c) \<in> set (hi_byKey (history_of pr es)) \<Longrightarrow> k = Key pr c \<and> c \<in> event_admission ` resolved es"
proof (induction es rule: rev_induct)
  case Nil
  thus ?case by (simp add: history_of_def empty_history_def)
next
  case (snoc e es)
  thus ?case by (auto simp: history_byKey_snoc set_update history_byKey_uniq split: if_splits)
qed

lemma history_byKey_complete:
  "e \<in> resolved es \<Longrightarrow> \<exists>c. (Key pr (event_admission e), c) \<in> set (hi_byKey (history_of pr es))"
proof (induction es rule: rev_induct)
  case (snoc f es)
  show ?case
  proof (cases "e \<in> resolved es")
    case True
    then obtain c where "(Key pr (event_admission e), c) \<in> set (hi_byKey (history_of pr es))" using snoc.IH by blast
    thus ?thesis
      by (cases "Key pr (event_admission e) = Key pr (event_admission f)")
        (auto simp: history_byKey_snoc set_update history_byKey_uniq)
  next
    case False
    hence "e = f" "ev_digest f \<noteq> []" using snoc.prems by auto
    thus ?thesis by (auto simp: history_byKey_snoc set_update history_byKey_uniq)
  qed
qed simp

lemma distinct_remdups_adj_sorted: "sorted xs \<Longrightarrow> distinct (remdups_adj xs)"
  by (induction xs rule: remdups_adj.induct) (auto simp: less_le)

lemma Snapshot_Inr:
  assumes "Snapshot pr h = Inr (ds, cs)"
  shows "set cs = snd ` set (hi_byKey h)" and "set ds = sc_Digest ` snd ` set (hi_byKey h)" and "sorted ds" and "distinct ds"
    and "distinct (map (Key pr) cs) = distinct (map (Key pr \<circ> snd) (hi_byKey h))"
    and "sorted (map (Compare_key pr) cs)"
proof -
  have *: "ds = remdups_adj (sort (map sc_Digest (map snd (hi_byKey h))))" "cs = sort_key (Compare_key pr) (map snd (hi_byKey h))"
    using assms by (auto simp: Snapshot_def Let_def split: if_splits)
  show "set cs = snd ` set (hi_byKey h)" "set ds = sc_Digest ` snd ` set (hi_byKey h)" "sorted ds" "distinct ds"
    "sorted (map (Compare_key pr) cs)"
    using * by (simp_all add: image_image comp_def sorted_remdups_adj distinct_remdups_adj_sorted)
  show "distinct (map (Key pr) cs) = distinct (map (Key pr \<circ> snd) (hi_byKey h))"
    using * mset_eq_imp_distinct_iff[of "map (Key pr) cs" "map (Key pr \<circ> snd) (hi_byKey h)"]
    by (simp add: multiset.map_comp)
qed

section \<open>Properties\<close>

text \<open>\<^bold>\<open>The framing of an admission key is injective.\<close> Two admissions have the same key exactly
  when they are the same evidence: equal digest, equal argument vector, equal environment commitment (an absent one
  only equals an absent one) and equal mount tables in everything but the local source path (an unavailable table
  only equals an unavailable one). So filing admissions by key never lets one erase a different one, whatever bytes
  the strings hold.\<close>

theorem Key_injective:
  "Key pr a = Key pr b \<longleftrightarrow> evidence a = evidence b"
  using Key_inj[of pr a b] Key_evidence[of pr a] Key_evidence[of pr b] by metis

text \<open>\<^bold>\<open>A snapshot is the whole history or nothing.\<close> After any sequence of records, \<^verbatim>\<open>Snapshot\<close>
  fails exactly when some container's last record had no resolved digest. Otherwise it reports the digest of every
  record, without repetition and in order, and one container for every distinct admission ever recorded: nothing
  recorded is missing, nothing is invented and no two reported containers are the same evidence.\<close>

theorem Snapshot_complete:
  "case Snapshot pr (history_of pr es) of
     Inl _ \<Rightarrow> unresolved_ids es \<noteq> {}
   | Inr (ds, cs) \<Rightarrow>
       unresolved_ids es = {} \<and>
       set ds = ev_digest ` {e \<in> set es. ev_digest e \<noteq> []} \<and> sorted ds \<and> distinct ds \<and>
       evidence ` set cs = evidence ` event_admission ` {e \<in> set es. ev_digest e \<noteq> []} \<and>
       set cs \<subseteq> event_admission ` {e \<in> set es. ev_digest e \<noteq> []} \<and> distinct (map evidence cs) \<and>
       sorted (map (Compare_key pr) cs)"
proof (cases "Snapshot pr (history_of pr es)")
  case (Inl e)
  hence "hi_unresolved (history_of pr es) \<noteq> []" by (simp add: Snapshot_def Let_def split: if_splits)
  thus ?thesis using Inl history_unresolved[of pr es] by auto
next
  case (Inr r)
  obtain ds cs where r: "r = (ds, cs)" by (cases r)
  let ?h = "history_of pr es"
  note snap = Snapshot_Inr[OF Inr[unfolded r]]
  have none: "unresolved_ids es = {}"
    using Inr history_unresolved[of pr es] by (auto simp: Snapshot_def Let_def split: if_splits)
  have sub: "set cs \<subseteq> event_admission ` resolved es" using history_byKey_sound snap(1) by fastforce
  have ev: "evidence (event_admission e) \<in> evidence ` set cs" if e: "e \<in> resolved es" for e
  proof -
    obtain c where c: "(Key pr (event_admission e), c) \<in> set (hi_byKey ?h)" using history_byKey_complete[OF e] by blast
    hence "evidence c = evidence (event_admission e)" using history_byKey_sound Key_inj by metis
    moreover have "c \<in> set cs" using c snap(1) by force
    ultimately show ?thesis by (rule image_eqI[OF sym])
  qed
  have digest: "sc_Digest (event_admission e) = ev_digest e" "sc_Digest (evidence c) = sc_Digest c" for e c
    by (simp_all add: event_admission_def admitted_container_def evidence_def)
  have "set ds = sc_Digest ` set cs" using snap(1,2) by simp
  also have "\<dots> = ev_digest ` resolved es"
  proof (rule set_eqI)
    fix d
    have "d \<in> sc_Digest ` set cs \<longleftrightarrow> d \<in> sc_Digest ` evidence ` set cs" by (simp add: image_image digest)
    also have "evidence ` set cs = evidence ` event_admission ` resolved es" using sub ev by blast
    finally show "d \<in> sc_Digest ` set cs \<longleftrightarrow> d \<in> ev_digest ` resolved es" by (simp add: image_image digest)
  qed
  finally have ds: "set ds = ev_digest ` resolved es" .
  have "map (Key pr \<circ> snd) (hi_byKey ?h) = map fst (hi_byKey ?h)"
    using history_byKey_sound by (fastforce intro: map_cong)
  hence "distinct (map (Key pr) cs)" using snap(5) history_byKey_uniq by metis
  hence "distinct (map evidence cs)" by (auto simp: distinct_map inj_on_def) (metis Key_evidence)
  moreover have "evidence ` set cs = evidence ` event_admission ` resolved es" using sub ev by blast
  ultimately show ?thesis using Inr r none sub ds snap(3,4,6) by simp
qed

end
