(* ===== verification/Go_Net.thy ===== *)
theory Go_Net
  imports C8s_Prelude
begin

text \<open>
  What the sources use of package \<^verbatim>\<open>net\<close>: textual IP addresses, the classes of an address and address blocks.
  An address is its 16 bytes, an IPv4 address being \<^verbatim>\<open>::ffff:a.b.c.d\<close> as \<^verbatim>\<open>net.ParseIP\<close> returns it.
\<close>

type_synonym ip = "nat list"

section \<open>Parsing\<close>

definition is_digit :: "char \<Rightarrow> bool" where
  "is_digit c = (48 \<le> (of_char c :: nat) \<and> (of_char c :: nat) \<le> 57)"

definition digit_val :: "char \<Rightarrow> nat" where
  "digit_val c = of_char c - 48"

text \<open>One decimal field of an IPv4 address: no empty field, no leading zero, at most 255.\<close>

definition octet :: "string \<Rightarrow> nat option" where
  "octet f =
     (if f \<noteq> [] \<and> list_all is_digit f \<and> (length f = 1 \<or> hd f \<noteq> CHR ''0'') \<and> length f \<le> 3 then
        let v = fold (\<lambda>c n. 10 * n + digit_val c) f 0 in if v \<le> 255 then Some v else None
      else None)"

definition parse_v4 :: "string \<Rightarrow> nat list option" where
  "parse_v4 s =
     (case map octet (split_on (CHR ''.'') s) of
        [Some a, Some b, Some c, Some d] \<Rightarrow> Some [a, b, c, d]
      | _ \<Rightarrow> None)"

definition hex_digit_val :: "char \<Rightarrow> nat option" where
  "hex_digit_val c =
     (let n = of_char c :: nat in
      if 48 \<le> n \<and> n \<le> 57 then Some (n - 48) else if 97 \<le> n \<and> n \<le> 102 then Some (n - 87)
      else if 65 \<le> n \<and> n \<le> 70 then Some (n - 55) else None)"

definition is_hex :: "char \<Rightarrow> bool" where
  "is_hex c = (hex_digit_val c \<noteq> None)"

definition hextet :: "string \<Rightarrow> nat" where
  "hextet ds = fold (\<lambda>c n. 16 * n + the (hex_digit_val c)) ds 0"

text \<open>The loop of the IPv6 parser: the bytes so far, where \<^verbatim>\<open>::\<close> stood, and the unread rest.\<close>

function v6_loop :: "string \<Rightarrow> nat list \<Rightarrow> nat option \<Rightarrow> (string \<times> nat list \<times> nat option) option" where
  "v6_loop s bs ell =
     (if length bs \<ge> 16 then Some (s, bs, ell)
      else
        let ds = takeWhile is_hex s; rest = dropWhile is_hex s in
        if length ds = 0 \<or> length ds > 4 then None
        else if rest \<noteq> [] \<and> hd rest = CHR ''.'' then
          (if ell = None \<and> length bs \<noteq> 12 then None
           else if length bs + 4 > 16 then None
           else case parse_v4 s of None \<Rightarrow> None | Some v \<Rightarrow> Some ([], bs @ v, ell))
        else
          let bs' = bs @ [hextet ds div 256, hextet ds mod 256] in
          if rest = [] then Some ([], bs', ell)
          else if hd rest \<noteq> CHR '':'' \<or> length rest = 1 then None
          else
            let s' = tl rest in
            if hd s' = CHR '':'' then
              (if ell \<noteq> None then None
               else if length s' = 1 then Some ([], bs', Some (length bs'))
               else v6_loop (tl s') bs' (Some (length bs')))
            else v6_loop s' bs' ell)"
  by pat_completeness auto
termination
proof (relation "measure (\<lambda>(s, _, _). length s)", goal_cases)
  case (2 s bs ell ds rest bs' s')
  have "length (tl (tl rest)) < length rest" using 2 by (cases rest) auto
  also have "length rest \<le> length s" using 2 by (simp add: length_dropWhile_le)
  finally show ?case using 2 by simp
next
  case (3 s bs ell ds rest bs' s')
  have "length (tl rest) < length rest" using 3 by (cases rest) auto
  also have "length rest \<le> length s" using 3 by (simp add: length_dropWhile_le)
  finally show ?case using 3 by simp
qed simp

declare v6_loop.simps [simp del]

definition v6_finish :: "string \<times> nat list \<times> nat option \<Rightarrow> nat list option" where
  "v6_finish r =
     (case r of (s, bs, ell) \<Rightarrow>
        if s \<noteq> [] then None
        else if length bs < 16 then
          (case ell of None \<Rightarrow> None
           | Some e \<Rightarrow> Some (take e bs @ replicate (16 - length bs) 0 @ drop e bs))
        else if ell \<noteq> None then None
        else Some bs)"

definition parse_v6 :: "string \<Rightarrow> nat list option" where
  "parse_v6 s =
     (if take 2 s = ''::'' then
        (if length s = 2 then Some (replicate 16 0) else Option.bind (v6_loop (drop 2 s) [] (Some 0)) v6_finish)
      else Option.bind (v6_loop s [] None) v6_finish)"

definition v4_in_6 :: "nat list \<Rightarrow> ip" where
  "v4_in_6 v = replicate 10 0 @ [255, 255] @ v"

text \<open>\<^verbatim>\<open>net.ParseIP\<close>. The first dot, colon or percent sign decides; a zone makes the address invalid here.\<close>

definition ParseIP :: "string \<Rightarrow> ip option" where
  "ParseIP s =
     (case dropWhile (\<lambda>c. c \<noteq> CHR ''.'' \<and> c \<noteq> CHR '':'' \<and> c \<noteq> CHR ''%'') s of
        [] \<Rightarrow> None
      | c # _ \<Rightarrow>
          if c = CHR ''.'' then map_option v4_in_6 (parse_v4 s)
          else if c = CHR '':'' then (if CHR ''%'' \<in> set s then None else parse_v6 s)
          else None)"

section \<open>Classes of an address\<close>

definition To4 :: "ip \<Rightarrow> nat list option" where
  "To4 ip =
     (if length ip = 4 then Some ip
      else if length ip = 16 \<and> take 10 ip = replicate 10 0 \<and> ip ! 10 = 255 \<and> ip ! 11 = 255 then Some (drop 12 ip)
      else None)"

definition IsUnspecified :: "ip \<Rightarrow> bool" where
  "IsUnspecified ip = (To4 ip = Some [0, 0, 0, 0] \<or> ip = replicate 16 0)"

definition IsLoopback :: "ip \<Rightarrow> bool" where
  "IsLoopback ip = (case To4 ip of Some v \<Rightarrow> hd v = 127 | None \<Rightarrow> ip = replicate 15 0 @ [1])"

definition IsMulticast :: "ip \<Rightarrow> bool" where
  "IsMulticast ip = (case To4 ip of Some v \<Rightarrow> hd v div 16 = 14 | None \<Rightarrow> length ip = 16 \<and> hd ip = 255)"

definition IsLinkLocalUnicast :: "ip \<Rightarrow> bool" where
  "IsLinkLocalUnicast ip =
     (case To4 ip of Some v \<Rightarrow> v ! 0 = 169 \<and> v ! 1 = 254
      | None \<Rightarrow> length ip = 16 \<and> ip ! 0 = 254 \<and> ip ! 1 div 64 = 2)"

definition IsGlobalUnicast :: "ip \<Rightarrow> bool" where
  "IsGlobalUnicast ip =
     ((length ip = 4 \<or> length ip = 16) \<and> To4 ip \<noteq> Some [255, 255, 255, 255] \<and> \<not> IsUnspecified ip \<and> \<not> IsLoopback ip \<and>
      \<not> IsMulticast ip \<and> \<not> IsLinkLocalUnicast ip)"

section \<open>Printing\<close>

text \<open>\<^verbatim>\<open>IP.String\<close>: dotted decimal for IPv4, otherwise the groups in hex with the first longest run of at least
  two zero groups as \<^verbatim>\<open>::\<close>.\<close>

fun dec_octet :: "nat \<Rightarrow> string" where
  "dec_octet n =
     (if n < 10 then [char_of (48 + n)]
      else if n < 100 then [char_of (48 + n div 10), char_of (48 + n mod 10)]
      else [char_of (48 + n div 100), char_of (48 + n div 10 mod 10), char_of (48 + n mod 10)])"

definition dotted :: "nat list \<Rightarrow> string" where
  "dotted v = Join ''.'' (map dec_octet v)"

definition hex_char :: "nat \<Rightarrow> char" where
  "hex_char n = (if n < 10 then char_of (48 + n) else char_of (87 + n))"

definition hex_group :: "nat \<Rightarrow> string" where
  "hex_group g =
     (if g < 16 then [hex_char g]
      else if g < 256 then [hex_char (g div 16), hex_char (g mod 16)]
      else if g < 4096 then [hex_char (g div 256), hex_char (g div 16 mod 16), hex_char (g mod 16)]
      else [hex_char (g div 4096), hex_char (g div 256 mod 16), hex_char (g div 16 mod 16), hex_char (g mod 16)])"

fun groups :: "nat list \<Rightarrow> nat list" where
  "groups (a # b # r) = (256 * a + b) # groups r"
| "groups _ = []"

text \<open>The start and length of the first longest run of zero groups.\<close>

definition zero_run :: "nat list \<Rightarrow> nat \<Rightarrow> nat" where
  "zero_run gs i = length (takeWhile (\<lambda>g. g = 0) (drop i gs))"

definition best_run :: "nat list \<Rightarrow> nat \<times> nat" where
  "best_run gs = fold (\<lambda>i (s, l). if zero_run gs i > l \<and> zero_run gs i \<ge> 2 then (i, zero_run gs i) else (s, l)) [0..<8] (0, 0)"

definition IP_String :: "ip \<Rightarrow> string" where
  "IP_String ip =
     (case To4 ip of
        Some v \<Rightarrow> dotted v
      | None \<Rightarrow>
          (let gs = groups ip in
           case best_run gs of (s, l) \<Rightarrow>
             if l = 0 then Join '':'' (map hex_group gs)
             else Join '':'' (map hex_group (take s gs)) @ ''::'' @ Join '':'' (map hex_group (drop (s + l) gs))))"

section \<open>Address blocks\<close>

text \<open>A block: its address and its mask, \<open>n_ones\<close> leading ones of \<open>n_bits\<close> (32 or 128) bits.\<close>

record IPNet =
  n_IP :: ip
  n_ones :: nat
  n_bits :: nat

fun mask_bytes :: "nat list \<Rightarrow> nat \<Rightarrow> nat list" where
  "mask_bytes [] n = []"
| "mask_bytes (b # bs) n = (if n \<ge> 8 then b # mask_bytes bs (n - 8) else (b div 2 ^ (8 - n) * 2 ^ (8 - n)) # mask_bytes bs 0)"

definition short_ip :: "ip \<Rightarrow> nat list" where
  "short_ip ip = (case To4 ip of Some v \<Rightarrow> v | None \<Rightarrow> ip)"

text \<open>\<^verbatim>\<open>networkNumberAndMask\<close>: a block over an IPv4 address uses the last four bytes of a long mask.\<close>

definition network_number :: "IPNet \<Rightarrow> (nat list \<times> nat) option" where
  "network_number n =
     (case To4 (n_IP n) of
        Some v \<Rightarrow> Some (v, if n_bits n = 128 then n_ones n - 96 else n_ones n)
      | None \<Rightarrow> if length (n_IP n) \<noteq> 16 \<or> n_bits n \<noteq> 128 then None else Some (n_IP n, n_ones n))"

definition net_Contains :: "IPNet \<Rightarrow> ip \<Rightarrow> bool" where
  "net_Contains n ip =
     (case network_number n of
        None \<Rightarrow> False
      | Some (nn, ones) \<Rightarrow> length (short_ip ip) = length nn \<and> mask_bytes (short_ip ip) ones = mask_bytes nn ones)"

definition ParseCIDR :: "string \<Rightarrow> IPNet option" where
  "ParseCIDR s =
     (case Cut s ''/'' of
        None \<Rightarrow> None
      | Some (addr, len) \<Rightarrow> (case ParseIP addr of
          None \<Rightarrow> None
        | Some ip \<Rightarrow>
            let v6 = CHR '':'' \<in> set addr;
                bitlen = (if v6 then 128 else 32 :: nat);
                n = fold (\<lambda>c k. 10 * k + digit_val c) len 0
            in if len = [] \<or> \<not> list_all is_digit len \<or> n > bitlen then None
               else Some \<lparr>n_IP = mask_bytes (if v6 then ip else drop 12 ip) n, n_ones = n, n_bits = bitlen\<rparr>))"

section \<open>Decimal numbers\<close>

function Itoa :: "nat \<Rightarrow> string" where
  "Itoa n = (if n < 10 then [char_of (48 + n)] else Itoa (n div 10) @ [char_of (48 + n mod 10)])"
  by pat_completeness auto
termination
  by (relation "measure id") auto

declare Itoa.simps [simp del]

text \<open>The value of a digit string, for the proof that the printed number determines the number.\<close>

definition dec_value :: "string \<Rightarrow> nat" where
  "dec_value s = fold (\<lambda>c n. 10 * n + (of_char c - 48)) s 0"

lemma dec_value_Itoa: "dec_value (Itoa n) = n"
proof (induction n rule: Itoa.induct)
  case (1 n)
  show ?case
  proof (cases "n < 10")
    case True
    thus ?thesis by (simp add: Itoa.simps[of n] dec_value_def)
  next
    case False
    hence "dec_value (Itoa (n div 10)) = n div 10" using 1 by simp
    thus ?thesis using False by (simp add: Itoa.simps[of n] dec_value_def)
  qed
qed

lemma Itoa_inj: "Itoa m = Itoa n \<longleftrightarrow> m = n"
  by (metis dec_value_Itoa)

section \<open>Lemmas\<close>

lemma parse_v4_length: "parse_v4 s = Some v \<Longrightarrow> length v = 4"
  by (auto simp: parse_v4_def split: list.splits option.splits)

lemma v6_loop_step:
  assumes "v6_loop s bs ell = Some (t, cs, e)" and "length bs < 16"
  obtains (stop) "length cs = length bs + 2 \<or> length cs = length bs + 4 \<and> length cs \<le> 16" "e = ell \<or> e = Some (length cs)"
  | (more) s' bs' ell' where "v6_loop s' bs' ell' = Some (t, cs, e)" "length s' < length s" "length bs' = length bs + 2"
      "ell' = ell \<or> ell' = Some (length bs')"
proof -
  let ?ds = "takeWhile is_hex s" and ?rest = "dropWhile is_hex s"
  let ?bs = "bs @ [hextet ?ds div 256, hextet ?ds mod 256]"
  have eq: "v6_loop s bs ell =
     (if length ?ds = 0 \<or> length ?ds > 4 then None
      else if ?rest \<noteq> [] \<and> hd ?rest = CHR ''.'' then
        (if ell = None \<and> length bs \<noteq> 12 then None
         else if length bs + 4 > 16 then None
         else case parse_v4 s of None \<Rightarrow> None | Some v \<Rightarrow> Some ([], bs @ v, ell))
      else if ?rest = [] then Some ([], ?bs, ell)
      else if hd ?rest \<noteq> CHR '':'' \<or> length ?rest = 1 then None
      else if hd (tl ?rest) = CHR '':'' then
        (if ell \<noteq> None then None
         else if length (tl ?rest) = 1 then Some ([], ?bs, Some (length ?bs))
         else v6_loop (tl (tl ?rest)) ?bs (Some (length ?bs)))
      else v6_loop (tl ?rest) ?bs ell)"
    using assms(2) unfolding v6_loop.simps[of s bs ell] Let_def by (simp only: not_le[symmetric] if_False)
  have l2: "length ?bs = length bs + 2" by simp
  have len: "length (tl (tl ?rest)) < length s" "length (tl ?rest) < length s" if "?rest \<noteq> []"
    using that length_dropWhile_le[of is_hex s] by (cases ?rest; simp)+
  from assms(1)[unfolded eq] show thesis
    using stop more[OF _ len(1) l2] more[OF _ len(2) l2] by (auto split: if_splits option.splits dest: parse_v4_length)
qed

lemma v6_loop_bounds:
  "v6_loop s bs ell = Some (t, cs, e) \<Longrightarrow> length bs \<le> 16 \<Longrightarrow> even (length bs) \<Longrightarrow>
     (\<forall>i. ell = Some i \<longrightarrow> i \<le> length bs) \<Longrightarrow> length cs \<le> 16 \<and> (\<forall>i. e = Some i \<longrightarrow> i \<le> length cs)"
proof (induction "length s" arbitrary: s bs ell rule: less_induct)
  case less
  show ?case
  proof (cases "length bs < 16")
    case True
    hence two: "length bs + 2 \<le> 16" using less.prems(3) by presburger
    from less.prems(1) True show ?thesis
    proof (cases rule: v6_loop_step)
      case stop
      thus ?thesis using two less.prems(4) by fastforce
    next
      case (more s' bs' ell')
      have "\<forall>i. ell' = Some i \<longrightarrow> i \<le> length bs'" using more(3,4) less.prems(4) by fastforce
      thus ?thesis using less.hyps[OF more(2,1)] more(3) two less.prems(3) by simp
    qed
  next
    case False
    hence "(t, cs, e) = (s, bs, ell)" using less.prems(1) by (simp add: v6_loop.simps[of s bs ell])
    thus ?thesis using less.prems by simp
  qed
qed

lemma v6_finish_length:
  "v6_finish (s, bs, ell) = Some ip \<Longrightarrow> length bs \<le> 16 \<Longrightarrow> (\<forall>i. ell = Some i \<longrightarrow> i \<le> length bs) \<Longrightarrow> length ip = 16"
  by (auto simp: v6_finish_def split: if_splits option.splits)

lemma ParseIP_length: "ParseIP s = Some ip \<Longrightarrow> length ip = 16"
proof -
  have v6: "length ip = 16" if "Option.bind (v6_loop t [] ell) v6_finish = Some ip" "\<forall>i. ell = Some i \<longrightarrow> i = 0" for t ell ip
    using that v6_loop_bounds[of t "[]" ell] v6_finish_length by (cases "v6_loop t [] ell") auto
  assume "ParseIP s = Some ip"
  thus ?thesis using v6[of _ "Some 0"] v6[of _ None]
    by (auto simp: ParseIP_def parse_v6_def v4_in_6_def dest: parse_v4_length split: list.splits if_splits)
qed

end
