(* ===== verification/Allowlist_Match.thy ===== *)
theory Allowlist_Match
  imports Allowlist "HOL-Library.Multiset"
begin

text \<open>
  Admission against an allowlist (\<^verbatim>\<open>src/pkg/allowlist/match.go\<close> and \<^verbatim>\<open>policy.go\<close>): resolving a running
  container set to the one entry that describes it, and the digest index that node enforcers query.
  The locale \<^verbatim>\<open>admission\<close> is what an enforcer relies on; the index of an allowlist is its model.
\<close>

section \<open>Matching a running set to an entry\<close>

datatype match_error = ErrNoMatch | ErrAmbiguous

record EntryDiff =
  ed_Foreign :: "RunningContainer list"
  ed_MissingMains :: "Container list"

definition Describes :: "EntryDiff \<Rightarrow> bool" where
  "Describes d = (length (ed_Foreign d) = 0 \<and> length (ed_MissingMains d) = 0)"

definition admittedBy :: "hash \<Rightarrow> Container list \<Rightarrow> RunningContainer \<Rightarrow> bool" where
  "admittedBy H declared r = list_ex (\<lambda>c. container_admits H c r) declared"

definition anyRunning :: "hash \<Rightarrow> RunningContainer list \<Rightarrow> Container \<Rightarrow> bool" where
  "anyRunning H running c = list_ex (\<lambda>r. container_admits H c r) running"

definition w_Diff :: "hash \<Rightarrow> Workload \<Rightarrow> RunningContainer list \<Rightarrow> EntryDiff" where
  "w_Diff H w running =
     (let declared = elems (w_Containers w) @ elems (w_InitContainers w)
      in \<lparr>ed_Foreign = filter (\<lambda>r. \<not> admittedBy H declared r) running,
          ed_MissingMains = filter (\<lambda>c. \<not> anyRunning H running c) (elems (w_Containers w))\<rparr>)"

definition describes :: "hash \<Rightarrow> Workload \<Rightarrow> RunningContainer list \<Rightarrow> bool" where
  "describes H w running = Describes (w_Diff H w running)"

text \<open>The loop over the entries: \<^verbatim>\<open>found\<close> is the entry matched so far, a second match is refused.\<close>

fun match_loop ::
    "hash \<Rightarrow> RunningContainer list \<Rightarrow> (string \<times> Workload) option \<Rightarrow> (string \<times> Workload) list
      \<Rightarrow> match_error + (string \<times> Workload)" where
  "match_loop H running found [] = (case found of None \<Rightarrow> Inl ErrNoMatch | Some e \<Rightarrow> Inr e)"
| "match_loop H running found ((name, w) # es) =
     (if \<not> describes H w running then match_loop H running found es
      else case found of
             Some _ \<Rightarrow> Inl ErrAmbiguous
           | None \<Rightarrow> match_loop H running (Some (name, w)) es)"

definition MatchWorkload ::
    "hash \<Rightarrow> Allowlist \<Rightarrow> RunningContainer list \<Rightarrow> match_error + (string \<times> Workload)" where
  "MatchWorkload H a running =
     (if length running = 0 then Inl ErrNoMatch
      else match_loop H running None (elems (al_Workloads a)))"

section \<open>The admission index\<close>

type_synonym byDigest = "(string \<times> Container list) list"
type_synonym Index = "byDigest option"

definition index_add :: "Container \<Rightarrow> byDigest \<Rightarrow> byDigest" where
  "index_add c idx =
     (let d = digest_string (c_Digest c)
      in AList.update d ((case map_of idx d of None \<Rightarrow> [] | Some cs \<Rightarrow> cs) @ [c]) idx)"

definition BuildIndex :: "Allowlist \<Rightarrow> Index" where
  "BuildIndex a =
     Some (fold (\<lambda>(_, w) idx.
                   fold index_add (elems (w_Containers w)) (fold index_add (elems (w_InitContainers w)) idx))
             (elems (al_Workloads a)) [])"

definition index_Size :: "Index \<Rightarrow> nat" where
  "index_Size i = (case i of None \<Rightarrow> 0 | Some m \<Rightarrow> length m)"

definition AdmitsDigest :: "Index \<Rightarrow> string \<Rightarrow> bool" where
  "AdmitsDigest i digest =
     (case i of
        None \<Rightarrow> False
      | Some m \<Rightarrow> (case ParseDigest digest of
                     Inl _ \<Rightarrow> False
                   | Inr d \<Rightarrow> map_of m (digest_string d) \<noteq> None))"

definition index_lookup :: "byDigest \<Rightarrow> string \<Rightarrow> Container list" where
  "index_lookup m d = (case map_of m d of None \<Rightarrow> [] | Some cs \<Rightarrow> cs)"

definition AdmitsContainer :: "hash \<Rightarrow> Index \<Rightarrow> RunningContainer \<Rightarrow> bool" where
  "AdmitsContainer H i r =
     (case i of
        None \<Rightarrow> False
      | Some m \<Rightarrow> (case ParseDigest (rc_Digest r) of
                     Inl _ \<Rightarrow> False
                   | Inr d \<Rightarrow> list_ex (\<lambda>c. container_admits H c (r\<lparr>rc_Digest := digest_string d\<rparr>))
                                (index_lookup m (digest_string d))))"

definition AdmitsProcess :: "hash \<Rightarrow> Index \<Rightarrow> RunningContainer \<Rightarrow> bool" where
  "AdmitsProcess H i r =
     (case i of
        None \<Rightarrow> False
      | Some m \<Rightarrow> (case ParseDigest (rc_Digest r) of
                     Inl _ \<Rightarrow> False
                   | Inr d \<Rightarrow> list_ex (\<lambda>c. admitsProcess H c (r\<lparr>rc_Digest := digest_string d\<rparr>))
                                (index_lookup m (digest_string d))))"

section \<open>What an enforcer relies on\<close>

text \<open>
  An enforcer asks three questions of a policy, from the coarsest to the finest, and skips the finer
  one when the coarser one refuses. That is sound because each refines the one before, and an
  absent policy admits nothing.
\<close>

locale admission =
  fixes digest_ok :: "'i \<Rightarrow> string \<Rightarrow> bool"
    and process_ok :: "'i \<Rightarrow> RunningContainer \<Rightarrow> bool"
    and container_ok :: "'i \<Rightarrow> RunningContainer \<Rightarrow> bool"
    and absent :: 'i
  assumes container_process: "container_ok i r \<Longrightarrow> process_ok i r"
    and process_digest: "process_ok i r \<Longrightarrow> digest_ok i (rc_Digest r)"
    and absent_digest: "\<not> digest_ok absent d"
begin

lemma container_digest: "container_ok i r \<Longrightarrow> digest_ok i (rc_Digest r)"
  using container_process process_digest by blast

lemma absent_refuses: "\<not> process_ok absent r" "\<not> container_ok absent r"
  using process_digest container_digest absent_digest by blast+

lemma union_refines:
  "list_ex (\<lambda>i. container_ok i r) is \<Longrightarrow>
     list_ex (\<lambda>i. process_ok i r) is \<and> list_ex (\<lambda>i. digest_ok i (rc_Digest r)) is"
  by (auto simp: list_ex_iff dest: container_process container_digest)

end

lemma admitsProcess_digest: "admitsProcess H c r \<Longrightarrow> digest_string (c_Digest c) = rc_Digest r"
  by (simp add: admitsProcess_def split: if_splits)

interpretation idx: admission AdmitsDigest "AdmitsProcess H" "AdmitsContainer H" "None :: Index" for H
proof
  show "AdmitsContainer H i r \<Longrightarrow> AdmitsProcess H i r" for i r
    by (auto simp: AdmitsContainer_def AdmitsProcess_def list_ex_iff split: option.splits sum.splits
        dest: container_admits_process)
  show "AdmitsProcess H i r \<Longrightarrow> AdmitsDigest i (rc_Digest r)" for i r
    by (auto simp: AdmitsDigest_def AdmitsProcess_def list_ex_iff index_lookup_def intro: sym
        split: option.splits sum.splits)
  show "\<not> AdmitsDigest None d" for d by (simp add: AdmitsDigest_def)
qed

section \<open>Lemmas on matching\<close>

definition all_containers :: "Allowlist \<Rightarrow> Container list" where
  "all_containers a = concat (map (\<lambda>(_, w). w_containers w) (elems (al_Workloads a)))"

lemma describes_iff:
  "describes H w running \<longleftrightarrow>
     (\<forall>r\<in>set running. \<exists>c\<in>set (w_containers w). container_admits H c r) \<and>
     (\<forall>c\<in>set (elems (w_Containers w)). \<exists>r\<in>set running. container_admits H c r)"
  by (auto simp: describes_def Describes_def w_Diff_def Let_def filter_empty_conv admittedBy_def
      anyRunning_def list_ex_iff w_containers_def)

definition matching :: "hash \<Rightarrow> Allowlist \<Rightarrow> RunningContainer list \<Rightarrow> (string \<times> Workload) list" where
  "matching H a running = filter (\<lambda>(n, w). describes H w running) (elems (al_Workloads a))"

lemma match_loop_eq:
  "match_loop H running found es =
     (case (case found of None \<Rightarrow> [] | Some e \<Rightarrow> [e]) @ filter (\<lambda>(n, w). describes H w running) es of
        [] \<Rightarrow> Inl ErrNoMatch
      | [e] \<Rightarrow> Inr e
      | _ \<Rightarrow> Inl ErrAmbiguous)"
  by (induction H running found es rule: match_loop.induct) (auto split: option.splits)

lemma MatchWorkload_eq:
  "MatchWorkload H a running =
     (if running = [] then Inl ErrNoMatch
      else case matching H a running of
             [] \<Rightarrow> Inl ErrNoMatch | [e] \<Rightarrow> Inr e | _ \<Rightarrow> Inl ErrAmbiguous)"
  by (simp add: MatchWorkload_def match_loop_eq matching_def)

lemma MatchWorkload_Inr_iff:
  "MatchWorkload H a running = Inr e \<longleftrightarrow> running \<noteq> [] \<and> matching H a running = [e]"
  by (auto simp: MatchWorkload_eq split: list.splits)

section \<open>Lemmas on the index\<close>

lemma index_lookup_add:
  "index_lookup (index_add c idx) d =
     (if d = digest_string (c_Digest c) then index_lookup idx d @ [c] else index_lookup idx d)"
  by (simp add: index_lookup_def index_add_def Let_def update_conv')

lemma index_lookup_fold:
  "index_lookup (fold index_add cs idx) d =
     index_lookup idx d @ filter (\<lambda>c. digest_string (c_Digest c) = d) cs"
  by (induction cs arbitrary: idx) (auto simp: index_lookup_add)

text \<open>No list of the index is empty, so a digest is a key exactly when some container has it.\<close>

definition index_inv :: "byDigest \<Rightarrow> bool" where
  "index_inv idx = (distinct (map fst idx) \<and> [] \<notin> snd ` set idx)"

lemma index_add_inv: "index_inv idx \<Longrightarrow> index_inv (index_add c idx)"
  by (auto simp: index_inv_def index_add_def Let_def dest!: update_set_cases)

lemma fold_index_add_inv: "index_inv idx \<Longrightarrow> index_inv (fold index_add cs idx)"
  by (induction cs arbitrary: idx) (auto intro: index_add_inv)

lemma index_inv_mem: "index_inv idx \<Longrightarrow> (\<exists>cs. map_of idx d = Some cs) \<longleftrightarrow> index_lookup idx d \<noteq> []"
  by (force simp: index_inv_def index_lookup_def split: option.splits dest: map_of_mem_snd)

lemma BuildIndex_fold: "BuildIndex a = Some (fold index_add (all_containers a) [])"
proof -
  have "fold (\<lambda>(_, w) idx. fold index_add (elems (w_Containers w)) (fold index_add (elems (w_InitContainers w)) idx)) es idx
      = fold index_add (concat (map (\<lambda>(_, w). w_containers w) es)) idx" for es :: "(string \<times> Workload) list" and idx
    by (induction es arbitrary: idx) (auto simp: w_containers_def)
  thus ?thesis by (simp add: BuildIndex_def all_containers_def)
qed

lemma BuildIndex_lookup:
  obtains m where "BuildIndex a = Some m" "index_inv m"
    "\<And>d. index_lookup m d = filter (\<lambda>c. digest_string (c_Digest c) = d) (all_containers a)"
proof -
  let ?m = "fold index_add (all_containers a) []"
  have "index_inv ?m" by (rule fold_index_add_inv) (simp add: index_inv_def)
  moreover have "index_lookup ?m d = filter (\<lambda>c. digest_string (c_Digest c) = d) (all_containers a)" for d
    by (simp add: index_lookup_fold) (simp add: index_lookup_def)
  ultimately show thesis using that BuildIndex_fold by blast
qed

lemma AdmitsDigest_BuildIndex:
  "AdmitsDigest (BuildIndex a) digest \<longleftrightarrow>
     (\<exists>d. ParseDigest digest = Inr d \<and> (\<exists>c\<in>set (all_containers a). c_Digest c = d))"
proof -
  obtain m where m: "BuildIndex a = Some m" "index_inv m"
    "\<And>d. index_lookup m d = filter (\<lambda>c. digest_string (c_Digest c) = d) (all_containers a)"
    using BuildIndex_lookup[of a] by blast
  show ?thesis
    by (auto simp: AdmitsDigest_def m(1,3) index_inv_mem[OF m(2)] filter_empty_conv Digest.expand
        split: sum.splits)
qed

lemma AdmitsContainer_BuildIndex:
  "AdmitsContainer H (BuildIndex a) r \<longleftrightarrow>
     (\<exists>d. ParseDigest (rc_Digest r) = Inr d \<and>
          (\<exists>c\<in>set (all_containers a). container_admits H c (r\<lparr>rc_Digest := digest_string d\<rparr>)))"
proof -
  obtain m where m: "BuildIndex a = Some m"
    "\<And>d. index_lookup m d = filter (\<lambda>c. digest_string (c_Digest c) = d) (all_containers a)"
    using BuildIndex_lookup[of a] by blast
  show ?thesis
    by (auto simp: AdmitsContainer_def m list_ex_iff container_admits_iff split: sum.splits)
qed

lemma AdmitsProcess_BuildIndex:
  "AdmitsProcess H (BuildIndex a) r \<longleftrightarrow>
     (\<exists>d. ParseDigest (rc_Digest r) = Inr d \<and>
          (\<exists>c\<in>set (all_containers a). admitsProcess H c (r\<lparr>rc_Digest := digest_string d\<rparr>)))"
proof -
  obtain m where m: "BuildIndex a = Some m"
    "\<And>d. index_lookup m d = filter (\<lambda>c. digest_string (c_Digest c) = d) (all_containers a)"
    using BuildIndex_lookup[of a] by blast
  show ?thesis
    by (auto simp: AdmitsProcess_def m list_ex_iff admitsProcess_def split: sum.splits)
qed

lemma distinct_singleton_set: "distinct xs \<Longrightarrow> xs = [x] \<longleftrightarrow> set xs = {x}"
  by (cases xs; cases "tl xs") auto

lemma matching_mset:
  assumes "mset (elems (al_Workloads a)) = mset (elems (al_Workloads b))"
  shows "mset (matching H a running) = mset (matching H b running)"
  by (simp add: matching_def assms)

lemma MatchWorkload_mset:
  assumes "mset (elems (al_Workloads a)) = mset (elems (al_Workloads b))"
  shows "MatchWorkload H a running = MatchWorkload H b running"
proof -
  have m: "mset (matching H a running) = mset (matching H b running)"
    using matching_mset[OF assms] .
  show ?thesis
  proof (cases "matching H a running")
    case (Cons e es)
    show ?thesis
    proof (cases "es = []")
      case True
      hence "matching H b running = [e]" using m Cons by (simp add: mset_single_iff_right)
      thus ?thesis using Cons True by (simp add: MatchWorkload_eq)
    next
      case False
      then obtain f fs where es: "es = f # fs" by (cases es) auto
      have "length (matching H b running) = Suc (Suc (length fs))"
        using mset_eq_length[OF m] Cons es by simp
      then obtain x y zs where "matching H b running = x # y # zs"
        by (metis Suc_length_conv)
      thus ?thesis using Cons es by (simp add: MatchWorkload_eq)
    qed
  qed (use m in \<open>simp add: MatchWorkload_eq\<close>)
qed

section \<open>Properties\<close>

text \<open>
  C11: \<^verbatim>\<open>MatchWorkload\<close> names an entry exactly when the running set is not empty, every running
  container is admitted by a container the entry declares, every main container of the entry is
  running, and no other entry has both properties.
\<close>

theorem MatchWorkload_unique:
  assumes "uniq_keys (elems (al_Workloads a))"
  shows "MatchWorkload H a running = Inr (n, w) \<longleftrightarrow>
           running \<noteq> [] \<and> map_of (elems (al_Workloads a)) n = Some w
         \<and> (\<forall>r\<in>set running. \<exists>c\<in>set (w_containers w). container_admits H c r)
         \<and> (\<forall>c\<in>set (elems (w_Containers w)). \<exists>r\<in>set running. container_admits H c r)
         \<and> (\<forall>m v. map_of (elems (al_Workloads a)) m = Some v \<and> describes H v running \<longrightarrow> m = n)"
    (is "?l \<longleftrightarrow> ?r")
proof -
  let ?es = "elems (al_Workloads a)"
  have mem: "(m, v) \<in> set ?es \<longleftrightarrow> map_of ?es m = Some v" for m v using assms by simp
  have "distinct (matching H a running)"
    using assms by (auto simp: matching_def distinct_map)
  hence one: "matching H a running = [(n, w)] \<longleftrightarrow> set (matching H a running) = {(n, w)}"
    by (rule distinct_singleton_set)
  have el: "(m, v) \<in> set (matching H a running) \<longleftrightarrow> map_of ?es m = Some v \<and> describes H v running" for m v
    by (simp add: matching_def mem)
  have "set (matching H a running) = {(n, w)} \<longleftrightarrow>
      (\<forall>m v. (m, v) \<in> set (matching H a running) \<longleftrightarrow> m = n \<and> v = w)" by auto
  also have "\<dots> \<longleftrightarrow> map_of ?es n = Some w \<and> describes H w running \<and>
      (\<forall>m v. map_of ?es m = Some v \<and> describes H v running \<longrightarrow> m = n)"
    unfolding el by (metis option.inject)
  finally have "set (matching H a running) = {(n, w)} \<longleftrightarrow> map_of ?es n = Some w \<and> describes H w running \<and>
      (\<forall>m v. map_of ?es m = Some v \<and> describes H v running \<longrightarrow> m = n)" .
  thus ?thesis unfolding MatchWorkload_Inr_iff one by (simp add: describes_iff)
qed

theorem MatchWorkload_unique_witness:
  "MatchWorkload (\<lambda>_. [])
     \<lparr>al_Schema = Schema,
      al_Workloads = Some [(''web'', DigestEntry (Digest ''d'') []), (''db'', DigestEntry (Digest ''e'') [])]\<rparr>
     [\<lparr>rc_Digest = ''d'', rc_Argv = [''run''], rc_Mounts = None, rc_Env = None\<rparr>]
   = Inr (''web'', DigestEntry (Digest ''d'') [])"
proof -
  let ?r = "\<lparr>rc_Digest = ''d'', rc_Argv = [''run''], rc_Mounts = None, rc_Env = None\<rparr>"
  let ?a = "\<lparr>al_Schema = Schema, al_Workloads =
      Some [(''web'', DigestEntry (Digest ''d'') []), (''db'', DigestEntry (Digest ''e'') [])]\<rparr>"
  have uniq: "uniq_keys (elems (al_Workloads ?a))" by simp
  have desc: "describes (\<lambda>_. []) (DigestEntry d []) [?r] \<longleftrightarrow> digest_string d = ''d''" for d
    by (auto simp: describes_iff DigestEntry_admits) (simp_all add: DigestEntry_def)
  have others: "\<forall>m v. map_of (elems (al_Workloads ?a)) m = Some v \<and> describes (\<lambda>_. []) v [?r] \<longrightarrow> m = ''web''"
    by (auto simp: desc split: if_splits)
  have "describes (\<lambda>_. []) (DigestEntry (Digest ''d'') []) [?r]" by (simp add: desc)
  note d = this[unfolded describes_iff]
  show ?thesis
    unfolding MatchWorkload_unique[OF uniq]
    by (intro conjI; (rule conjunct1[OF d] | rule conjunct2[OF d] | rule others | simp))
qed

text \<open>
  the verdict of \<^verbatim>\<open>MatchWorkload\<close>, its error included, does not depend on the order in which the
  entries of the document are visited.
\<close>

theorem MatchWorkload_order:
  assumes "mset (elems (al_Workloads a)) = mset (elems (al_Workloads b))"
  shows "MatchWorkload H a running = MatchWorkload H b running"
  by (rule MatchWorkload_mset[OF assms])

theorem MatchWorkload_order_witness:
  "MatchWorkload (\<lambda>_. [])
     \<lparr>al_Schema = Schema,
      al_Workloads = Some [(''web'', DigestEntry (Digest ''d'') []), (''db'', DigestEntry (Digest ''e'') [])]\<rparr>
     [\<lparr>rc_Digest = ''d'', rc_Argv = [''run''], rc_Mounts = None, rc_Env = None\<rparr>]
   = MatchWorkload (\<lambda>_. [])
     \<lparr>al_Schema = Schema,
      al_Workloads = Some [(''db'', DigestEntry (Digest ''e'') []), (''web'', DigestEntry (Digest ''d'') [])]\<rparr>
     [\<lparr>rc_Digest = ''d'', rc_Argv = [''run''], rc_Mounts = None, rc_Env = None\<rparr>]"
  by (rule MatchWorkload_order) (simp add: add_mset_commute)

text \<open>
  admission refines matching. When an entry is named for a running set whose digests are
  canonical, the node's index of the same document admits each of the containers at start, at
  create and by digest, and each runs an argv the entry pins when the entry pins its argvs.
\<close>

theorem MatchWorkload_admitted:
  assumes "MatchWorkload H a running = Inr (n, w)" and "r \<in> set running"
    and "wf_digest (Digest (rc_Digest r))"
  shows "AdmitsContainer H (BuildIndex a) r \<and> AdmitsProcess H (BuildIndex a) r
       \<and> AdmitsDigest (BuildIndex a) (rc_Digest r)
       \<and> (ArgvPinned w \<longrightarrow> (\<exists>c\<in>set (w_containers w). digest_string (c_Digest c) = rc_Digest r
             \<and> rc_Argv r = pinned_argv (c_Command c) @ pinned_argv (c_Args c)))"
proof -
  have m: "matching H a running = [(n, w)]" using assms(1) by (simp add: MatchWorkload_Inr_iff)
  hence "(n, w) \<in> set (matching H a running)" by simp
  hence w: "(n, w) \<in> set (elems (al_Workloads a))" "describes H w running"
    by (auto simp: matching_def)
  then obtain c where c: "c \<in> set (w_containers w)" "container_admits H c r"
    using assms(2) by (auto simp: describes_iff)
  have "c \<in> set (all_containers a)" using w(1) c(1) by (auto simp: all_containers_def)
  moreover have "ParseDigest (rc_Digest r) = Inr (Digest (rc_Digest r))"
    using ParseDigest_String[OF assms(3)] by simp
  ultimately have adm: "AdmitsContainer H (BuildIndex a) r"
    using c(2) by (auto simp: AdmitsContainer_BuildIndex)
  have "rc_Argv r = pinned_argv (c_Command c) @ pinned_argv (c_Args c)" if "ArgvPinned w"
    using that c by (intro process_admits_pinned) (auto simp: ArgvPinned_def list_all_iff container_admits_iff)
  thus ?thesis
    using adm idx.container_process[OF adm] idx.container_digest[OF adm] c
    by (auto simp: container_admits_iff)
qed

theorem MatchWorkload_admitted_witness:
  "AdmitsContainer (\<lambda>_. [])
     (BuildIndex \<lparr>al_Schema = Schema,
        al_Workloads = Some [(''web'', DigestEntry (Digest (algo @ replicate 64 (CHR ''0''))) [])]\<rparr>)
     \<lparr>rc_Digest = algo @ replicate 64 (CHR ''0''), rc_Argv = [''run''], rc_Mounts = None, rc_Env = None\<rparr>"
proof -
  let ?d = "algo @ replicate 64 (CHR ''0'')"
  let ?r = "\<lparr>rc_Digest = ?d, rc_Argv = [''run''], rc_Mounts = None, rc_Env = None\<rparr>"
  let ?a = "\<lparr>al_Schema = Schema, al_Workloads = Some [(''web'', DigestEntry (Digest ?d) [])]\<rparr>"
  have "describes (\<lambda>_. []) (DigestEntry (Digest ?d) []) [?r]"
    by (auto simp: describes_iff DigestEntry_admits) (simp add: DigestEntry_def)
  hence "MatchWorkload (\<lambda>_. []) ?a [?r] = Inr (''web'', DigestEntry (Digest ?d) [])"
    by (simp add: MatchWorkload_Inr_iff matching_def)
  moreover have "wf_digest (Digest ?d)"
    by (rule wf_digest_replicate) (simp add: lower_hex_def)
  ultimately have "AdmitsContainer (\<lambda>_. []) (BuildIndex ?a) ?r"
    by (intro MatchWorkload_admitted[THEN conjunct1, of _ _ "[?r]"])
      (simp_all only: RunningContainer.select_convs list.set insertI1)
  thus ?thesis .
qed

end
