(* ===== verification/Allowlist_Normalize.thy ===== *)
theory Allowlist_Normalize
  imports Allowlist_Match
begin

text \<open>
  Validation and canonicalisation of allowlist documents (\<^verbatim>\<open>src/pkg/allowlist/allowlist.go\<close>), and
  their canonical bytes. \<^verbatim>\<open>wf_allowlist\<close> is the invariant of a normalised document; normalisation
  establishes it and leaves a document that satisfies it as it is.
\<close>

section \<open>Policies\<close>

definition normalizeArgv :: "ArgvPolicy \<Rightarrow> norm_error + ArgvPolicy" where
  "normalizeArgv p =
     (if ap_Policy p = PolicyDeny \<or> ap_Policy p = PolicyAny then
        (if length (ap_Argv p) \<noteq> 0 then Inl ErrArgvNotTaken else Inr (p\<lparr>ap_Argv := []\<rparr>))
      else if ap_Policy p = PolicyExact then
        (if length (ap_Argv p) = 0 then Inl ErrArgvMissing else Inr p)
      else if ap_Policy p = [] then Inr (p\<lparr>ap_Policy := PolicyDeny, ap_Argv := []\<rparr>)
      else Inl ErrUnknownArgvPolicy)"

definition validateMountRuleKind :: "hash \<Rightarrow> MountRule \<Rightarrow> norm_error + unit" where
  "validateMountRuleKind H r =
     (case behavior r of None \<Rightarrow> Inl ErrMountKind | Some b \<Rightarrow> rule_validate H b)"

fun rules_loop :: "hash \<Rightarrow> string list \<Rightarrow> MountRule list \<Rightarrow> norm_error + unit" where
  "rules_loop H seen [] = Inr ()"
| "rules_loop H seen (r # rs) =
     (if \<not> clean_abs (mr_Destination r) then Inl ErrMountDestination
      else if mr_Destination r \<in> set seen then Inl ErrDuplicateDestination
      else bindE (validateMountRuleKind H r) (\<lambda>_. rules_loop H (mr_Destination r # seen) rs))"

definition normalizeMountRules :: "hash \<Rightarrow> MountRule list \<Rightarrow> norm_error + MountRule list" where
  "normalizeMountRules H rules =
     (if length rules = 0 then Inl ErrRulesMissing
      else bindE (rules_loop H [] rules) (\<lambda>_. Inr (sort_key mr_Destination rules)))"

definition normalizeMounts :: "hash \<Rightarrow> MountPolicy \<Rightarrow> norm_error + MountPolicy" where
  "normalizeMounts H p =
     (if mp_Policy p = PolicyAny \<or> mp_Policy p = PolicyDeny \<or> mp_Policy p = [] then
        (if length (mp_Rules p) \<noteq> 0 then Inl ErrRulesNotTaken
         else Inr \<lparr>mp_Policy = (if mp_Policy p = [] then PolicyDeny else mp_Policy p), mp_Rules = []\<rparr>)
      else if mp_Policy p = PolicyExact then
        bindE (normalizeMountRules H (mp_Rules p)) (\<lambda>rs. Inr (p\<lparr>mp_Rules := rs\<rparr>))
      else Inl ErrUnknownMountPolicy)"

definition normalizeEnv :: "EnvPolicy \<Rightarrow> norm_error + EnvPolicy" where
  "normalizeEnv p =
     (if ep_Policy p = PolicyAny \<or> ep_Policy p = [] \<or> ep_Policy p = PolicyDeny then
        (if ep_Values p \<noteq> None then Inl ErrEnvNotTaken
         else Inr (if ep_Policy p = [] then p\<lparr>ep_Policy := PolicyAny\<rparr> else p))
      else if ep_Policy p = PolicyExact then
        (case ep_Values p of
           None \<Rightarrow> Inl ErrEnvMissing
         | Some vs \<Rightarrow>
             if \<not> list_all (\<lambda>(n, v). validEnvPair n v) vs then Inl ErrEnvPair
             else if length vs = 0 then Inr \<lparr>ep_Policy = PolicyDeny, ep_Values = None\<rparr>
             else Inr p)
      else Inl ErrUnknownEnvPolicy)"

definition subtreeSuffix :: string where "subtreeSuffix = ''/**''"

fun globs_loop :: "string list \<Rightarrow> string list \<Rightarrow> norm_error + string list" where
  "globs_loop seen [] = Inr []"
| "globs_loop seen (g # gs) =
     (if \<not> HasPrefix g ''/'' then Inl ErrGlobAbsolute
      else let trimmed = TrimSuffix g subtreeSuffix;
               base = (if trimmed = [] then ''/'' else trimmed)
           in if Contains base ''*'' then Inl ErrGlobWildcard
              else if path_clean base \<noteq> base then Inl ErrGlobClean
              else if g \<in> set seen then globs_loop seen gs
              else bindE (globs_loop (g # seen) gs) (\<lambda>out. Inr (g # out)))"

definition normalizeGlobs :: "string list \<Rightarrow> norm_error + string list" where
  "normalizeGlobs globs = bindE (globs_loop [] globs) (\<lambda>out. Inr (sort out))"

definition normalizeSecrets :: "SecretsPolicy option \<Rightarrow> norm_error + SecretsPolicy option" where
  "normalizeSecrets pp =
     (case pp of
        None \<Rightarrow> Inr None
      | Some p \<Rightarrow>
          if sp_Policy p = PolicyDeny \<or> sp_Policy p = [] then
            (if length (sp_Read p) \<noteq> 0 \<or> length (sp_Write p) \<noteq> 0 then Inl ErrDenyGrantsPaths
             else Inr None)
          else if sp_Policy p = PolicyAllow then
            bindE (normalizeGlobs (sp_Read p)) (\<lambda>read.
            bindE (normalizeGlobs (sp_Write p)) (\<lambda>wr.
              if length read = 0 then Inl ErrNoReadPath
              else Inr (Some (p\<lparr>sp_Read := read, sp_Write := wr\<rparr>))))
          else Inl ErrUnknownSecretsPolicy)"

section \<open>Canonical bytes\<close>

definition argv_json :: "ArgvPolicy \<Rightarrow> json" where
  "argv_json p =
     JObj ([(''policy'', JStr (ap_Policy p))] @
           (if ap_Argv p = [] then [] else [(''argv'', JArr (map JStr (ap_Argv p)))]))"

definition rule_json :: "MountRule \<Rightarrow> json" where
  "rule_json r =
     JObj ([(''destination'', JStr (mr_Destination r)), (''kind'', JStr (mr_Kind r))] @
           (if mr_Source r = [] then [] else [(''source'', JStr (mr_Source r))]) @
           (if mr_ReadOnly r then [(''readOnly'', JBool True)] else []))"

definition mounts_json :: "MountPolicy \<Rightarrow> json" where
  "mounts_json p =
     JObj ([(''policy'', JStr (mp_Policy p))] @
           (if mp_Rules p = [] then [] else [(''rules'', JArr (map rule_json (mp_Rules p)))]))"

definition env_json :: "EnvPolicy \<Rightarrow> json" where
  "env_json p =
     JObj ([(''policy'', JStr (ep_Policy p))] @
           (if elems (ep_Values p) = [] then []
            else [(''values'', JObj (map (\<lambda>(n, v). (n, JStr v)) (sort_key fst (elems (ep_Values p)))))]))"

definition secrets_json :: "SecretsPolicy \<Rightarrow> json" where
  "secrets_json p =
     JObj ([(''policy'', JStr (sp_Policy p))] @
           (if sp_Read p = [] then [] else [(''read'', JArr (map JStr (sp_Read p)))]) @
           (if sp_Write p = [] then [] else [(''write'', JArr (map JStr (sp_Write p)))]))"

definition container_json :: "Container \<Rightarrow> json" where
  "container_json c =
     JObj ([(''digest'', JStr (digest_string (c_Digest c)))] @
           (if c_Image c = [] then [] else [(''image'', JStr (c_Image c))]) @
           [(''command'', argv_json (c_Command c)), (''args'', argv_json (c_Args c)),
            (''mounts'', mounts_json (c_Mounts c)), (''env'', env_json (c_Env c))])"

definition containers_json :: "Container slice \<Rightarrow> json" where
  "containers_json cs = (case cs of None \<Rightarrow> JNull | Some l \<Rightarrow> JArr (map container_json l))"

definition workload_json :: "Workload \<Rightarrow> json" where
  "workload_json w =
     JObj ((if w_Label w = [] then [] else [(''label'', JStr (w_Label w))]) @
           [(''initContainers'', containers_json (w_InitContainers w)),
            (''containers'', containers_json (w_Containers w))] @
           (case w_Secrets w of None \<Rightarrow> [] | Some p \<Rightarrow> [(''secrets'', secrets_json p)]))"

definition allowlist_json :: "Allowlist \<Rightarrow> json" where
  "allowlist_json a =
     JObj [(''schema'', JStr (al_Schema a)),
           (''workloads'', case al_Workloads a of
              None \<Rightarrow> JNull
            | Some es \<Rightarrow> JObj (map (\<lambda>(n, w). (n, workload_json w)) (sort_key fst es)))]"

definition Canonical :: "Allowlist \<Rightarrow> string" where
  "Canonical a = encode (allowlist_json a)"

definition CanonicalDigest :: "hash \<Rightarrow> Allowlist \<Rightarrow> string" where
  "CanonicalDigest H a = H (Canonical a)"

section \<open>Containers, entries, documents\<close>

definition policyKey :: "Container \<Rightarrow> string" where
  "policyKey c =
     encode (JArr [argv_json (c_Command c), argv_json (c_Args c), mounts_json (c_Mounts c), env_json (c_Env c)])"

definition sort_pair :: "Container \<Rightarrow> string \<times> string" where
  "sort_pair c = (digest_string (c_Digest c), policyKey c)"

definition sortContainers :: "Container list \<Rightarrow> Container list" where
  "sortContainers cs = sort_key sort_pair cs"

text \<open>\<^verbatim>\<open>normalize\<close> of a constraint writes through the pointers it holds; here it returns the policies.\<close>

fun constraint_normalize :: "hash \<Rightarrow> containerConstraint \<Rightarrow> norm_error + containerConstraint" where
  "constraint_normalize H (processConstraint cmd args) =
     bindE (normalizeArgv cmd) (\<lambda>cmd'. bindE (normalizeArgv args) (\<lambda>args'. Inr (processConstraint cmd' args')))"
| "constraint_normalize H (mountConstraint p) = bindE (normalizeMounts H p) (\<lambda>p'. Inr (mountConstraint p'))"
| "constraint_normalize H (envConstraint p) = bindE (normalizeEnv p) (\<lambda>p'. Inr (envConstraint p'))"

fun set_constraint :: "containerConstraint \<Rightarrow> Container \<Rightarrow> Container" where
  "set_constraint (processConstraint cmd args) c = c\<lparr>c_Command := cmd, c_Args := args\<rparr>"
| "set_constraint (mountConstraint p) c = c\<lparr>c_Mounts := p\<rparr>"
| "set_constraint (envConstraint p) c = c\<lparr>c_Env := p\<rparr>"

definition normalizeContainer :: "hash \<Rightarrow> Container \<Rightarrow> norm_error + Container" where
  "normalizeContainer H c =
     (if digest_string (c_Digest c) = [] then Inl ErrDigestRequired
      else bindE (mapE (constraint_normalize H) (constraints c)) (\<lambda>ks. Inr (fold set_constraint ks c)))"

definition normalizeContainers :: "hash \<Rightarrow> Container slice \<Rightarrow> norm_error + Container slice" where
  "normalizeContainers H cs =
     (case cs of None \<Rightarrow> Inr None | Some l \<Rightarrow> bindE (mapE (normalizeContainer H) l) (\<lambda>l'. Inr (Some l')))"

definition normalizeWorkload :: "hash \<Rightarrow> bool \<Rightarrow> Workload \<Rightarrow> norm_error + Workload" where
  "normalizeWorkload H strict w =
     bindE (normalizeContainers H (w_InitContainers w)) (\<lambda>ics.
     bindE (normalizeContainers H (w_Containers w)) (\<lambda>cs.
     bindE (normalizeSecrets (w_Secrets w)) (\<lambda>sec.
       let w' = w\<lparr>w_InitContainers := ics, w_Containers := cs, w_Secrets := sec\<rparr>
       in if strict \<and> sec \<noteq> None \<and> \<not> ArgvPinned w' then Inl ErrGrantUnpinned
          else Inr (w'\<lparr>w_InitContainers := map_option sortContainers ics,
                       w_Containers := map_option sortContainers cs\<rparr>))))"

definition MaxWorkloadNameLen :: nat where "MaxWorkloadNameLen = 63"

definition name_byte :: "char \<Rightarrow> bool" where
  "name_byte b =
     (CHR ''a'' \<le> b \<and> b \<le> CHR ''z'' \<or> CHR ''A'' \<le> b \<and> b \<le> CHR ''Z'' \<or> CHR ''0'' \<le> b \<and> b \<le> CHR ''9'')"

fun grammar_loop :: "bool \<Rightarrow> string \<Rightarrow> bool" where
  "grammar_loop first [] = True"
| "grammar_loop first (b # bs) =
     (if name_byte b then grammar_loop False bs
      else if (b = CHR ''.'' \<or> b = CHR ''_'' \<or> b = CHR ''-'') \<and> \<not> first then grammar_loop False bs
      else False)"

definition workloadNameGrammarOK :: "string \<Rightarrow> bool" where
  "workloadNameGrammarOK name = (if name = [] then False else grammar_loop True name)"

definition ValidWorkloadName :: "string \<Rightarrow> bool" where
  "ValidWorkloadName name = (workloadNameGrammarOK name \<and> length name \<le> MaxWorkloadNameLen)"

fun normalize_entries ::
    "hash \<Rightarrow> bool \<Rightarrow> (string \<times> Workload) list \<Rightarrow> norm_error + (string \<times> Workload) list" where
  "normalize_entries H strict [] = Inr []"
| "normalize_entries H strict ((name, w) # es) =
     (if \<not> workloadNameGrammarOK name then Inl ErrNameGrammar
      else if length name > MaxWorkloadNameLen then
        (if strict then Inl ErrNameLength else normalize_entries H strict es)
      else bindE (normalizeWorkload H strict w) (\<lambda>w'.
           bindE (normalize_entries H strict es) (\<lambda>es'. Inr ((name, w') # es'))))"

definition normalizeAllowlist :: "hash \<Rightarrow> bool \<Rightarrow> Allowlist \<Rightarrow> norm_error + Allowlist" where
  "normalizeAllowlist H strict a =
     (if al_Schema a \<noteq> Schema then Inl ErrSchema
      else case al_Workloads a of
        None \<Rightarrow> Inr a
      | Some es \<Rightarrow> bindE (normalize_entries H strict es) (\<lambda>es'. Inr (a\<lparr>al_Workloads := Some es'\<rparr>)))"

text \<open>The slice of the first 12 digits panics on a digest whose hex is shorter: \<^const>\<open>None\<close>.\<close>

definition DigestEntryName :: "Digest \<Rightarrow> string \<Rightarrow> string option" where
  "DigestEntryName digest img =
     (let base0 = (case Cut img ''@'' of Some (b, _) \<Rightarrow> b | None \<Rightarrow> img);
          base1 = after_last (CHR ''/'') base0;
          base2 = (case Cut base1 '':'' of Some (b, _) \<Rightarrow> b | None \<Rightarrow> base1);
          base3 = (if length base2 > 50 then take 50 base2 else base2);
          base = (if \<not> ValidWorkloadName base3 then ''image'' else base3)
      in if length (digest_Hex digest) < 12 then None
         else Some (base @ ''-'' @ take 12 (digest_Hex digest)))"

section \<open>The invariant of a normalised document\<close>

definition wf_argv :: "ArgvPolicy \<Rightarrow> bool" where
  "wf_argv p =
     ((ap_Policy p = PolicyDeny \<or> ap_Policy p = PolicyAny) \<and> ap_Argv p = [] \<or>
      ap_Policy p = PolicyExact \<and> ap_Argv p \<noteq> [])"

definition wf_rules :: "hash \<Rightarrow> MountRule list \<Rightarrow> bool" where
  "wf_rules H rs =
     (distinct (map mr_Destination rs) \<and>
      list_all (\<lambda>r. clean_abs (mr_Destination r) \<and> okE (validateMountRuleKind H r)) rs)"

definition wf_mounts :: "hash \<Rightarrow> MountPolicy \<Rightarrow> bool" where
  "wf_mounts H p =
     ((mp_Policy p = PolicyAny \<or> mp_Policy p = PolicyDeny) \<and> mp_Rules p = [] \<or>
      mp_Policy p = PolicyExact \<and> mp_Rules p \<noteq> [] \<and> wf_rules H (mp_Rules p) \<and>
      sorted (map mr_Destination (mp_Rules p)))"

definition wf_envp :: "EnvPolicy \<Rightarrow> bool" where
  "wf_envp p =
     ((ep_Policy p = PolicyAny \<or> ep_Policy p = PolicyDeny) \<and> ep_Values p = None \<or>
      ep_Policy p = PolicyExact \<and> elems (ep_Values p) \<noteq> [] \<and>
      list_all (\<lambda>(n, v). validEnvPair n v) (elems (ep_Values p)))"

definition wf_glob :: "string \<Rightarrow> bool" where
  "wf_glob g =
     (HasPrefix g ''/'' \<and>
      (let trimmed = TrimSuffix g subtreeSuffix;
           base = (if trimmed = [] then ''/'' else trimmed)
       in \<not> Contains base ''*'' \<and> path_clean base = base))"

definition wf_globs :: "string list \<Rightarrow> bool" where
  "wf_globs gs = (distinct gs \<and> sorted gs \<and> list_all wf_glob gs)"

definition wf_secrets :: "SecretsPolicy option \<Rightarrow> bool" where
  "wf_secrets sec =
     (case sec of
        None \<Rightarrow> True
      | Some p \<Rightarrow> sp_Policy p = PolicyAllow \<and> sp_Read p \<noteq> [] \<and> wf_globs (sp_Read p) \<and> wf_globs (sp_Write p))"

definition wf_container :: "hash \<Rightarrow> Container \<Rightarrow> bool" where
  "wf_container H c =
     (digest_string (c_Digest c) \<noteq> [] \<and> wf_argv (c_Command c) \<and> wf_argv (c_Args c) \<and>
      wf_mounts H (c_Mounts c) \<and> wf_envp (c_Env c))"

definition wf_workload :: "hash \<Rightarrow> bool \<Rightarrow> Workload \<Rightarrow> bool" where
  "wf_workload H strict w =
     (list_all (wf_container H) (w_containers w) \<and>
      sorted (map sort_pair (elems (w_InitContainers w))) \<and>
      sorted (map sort_pair (elems (w_Containers w))) \<and>
      wf_secrets (w_Secrets w) \<and> (strict \<and> w_Secrets w \<noteq> None \<longrightarrow> ArgvPinned w))"

definition wf_allowlist :: "hash \<Rightarrow> bool \<Rightarrow> Allowlist \<Rightarrow> bool" where
  "wf_allowlist H strict a =
     (al_Schema a = Schema \<and>
      list_all (\<lambda>(n, w). ValidWorkloadName n \<and> wf_workload H strict w) (elems (al_Workloads a)))"

section \<open>Lemmas on policies\<close>

lemma normalizeArgv_wf: "normalizeArgv p = Inr q \<Longrightarrow> wf_argv q"
  by (auto simp: normalizeArgv_def wf_argv_def split: if_splits)

lemma normalizeArgv_id: "wf_argv p \<Longrightarrow> normalizeArgv p = Inr p"
  by (cases p) (auto simp: normalizeArgv_def wf_argv_def)

lemma rules_loop_iff:
  "rules_loop H seen rs = Inr u \<longleftrightarrow>
     wf_rules H rs \<and> set (map mr_Destination rs) \<inter> set seen = {}"
  by (induction H seen rs rule: rules_loop.induct)
    (auto simp: wf_rules_def bindE_Inr_iff okE_iff)

lemma wf_rules_sort [simp]: "wf_rules H (sort_key f rs) = wf_rules H rs"
  by (simp add: wf_rules_def distinct_map list_all_iff)

lemma normalizeMounts_wf: "normalizeMounts H p = Inr q \<Longrightarrow> wf_mounts H q"
  by (auto simp: normalizeMounts_def normalizeMountRules_def wf_mounts_def bindE_Inr_iff rules_loop_iff
      split: if_splits dest: arg_cong[where f = length])

lemma normalizeMounts_id: "wf_mounts H p \<Longrightarrow> normalizeMounts H p = Inr p"
  by (cases p)
    (auto simp: normalizeMounts_def normalizeMountRules_def wf_mounts_def bindE_Inr_iff rules_loop_iff
      sort_key_id_if_sorted)

lemma normalizeEnv_wf: "normalizeEnv p = Inr q \<Longrightarrow> wf_envp q"
  by (auto simp: normalizeEnv_def wf_envp_def split: if_splits option.splits)

lemma normalizeEnv_id: "wf_envp p \<Longrightarrow> normalizeEnv p = Inr p"
  by (cases p) (auto simp: normalizeEnv_def wf_envp_def split: option.splits)

lemma globs_loop_Cons:
  "globs_loop seen (g # gs) = Inr out \<longleftrightarrow>
     wf_glob g \<and>
     (if g \<in> set seen then globs_loop seen gs = Inr out
      else \<exists>rest. globs_loop (g # seen) gs = Inr rest \<and> out = g # rest)"
  by (auto simp: wf_glob_def Let_def bindE_Inr_iff)

declare globs_loop.simps(2) [simp del]

lemma globs_loop_wf:
  "globs_loop seen gs = Inr out \<Longrightarrow>
     list_all wf_glob out \<and> distinct out \<and> set out \<inter> set seen = {} \<and> set out = set gs - set seen"
proof (induction gs arbitrary: seen out)
  case (Cons g gs)
  show ?case
  proof (cases "g \<in> set seen")
    case True
    hence "globs_loop seen gs = Inr out" using Cons.prems by (simp add: globs_loop_Cons)
    thus ?thesis using Cons.IH True by auto
  next
    case False
    then obtain rest where r: "globs_loop (g # seen) gs = Inr rest" "out = g # rest" "wf_glob g"
      using Cons.prems by (auto simp: globs_loop_Cons)
    show ?thesis using Cons.IH[OF r(1)] r(2,3) False by auto
  qed
qed simp

lemma globs_loop_id:
  "list_all wf_glob gs \<Longrightarrow> distinct gs \<Longrightarrow> set gs \<inter> set seen = {} \<Longrightarrow> globs_loop seen gs = Inr gs"
  by (induction gs arbitrary: seen) (auto simp: globs_loop_Cons)

lemma normalizeGlobs_wf: "normalizeGlobs gs = Inr out \<Longrightarrow> wf_globs out \<and> set out = set gs"
  by (auto simp: normalizeGlobs_def bindE_Inr_iff wf_globs_def list_all_iff dest!: globs_loop_wf)

lemma normalizeGlobs_id: "wf_globs gs \<Longrightarrow> normalizeGlobs gs = Inr gs"
  by (simp add: normalizeGlobs_def wf_globs_def globs_loop_id sorted_sort_id)

lemma normalizeSecrets_wf: "normalizeSecrets pp = Inr q \<Longrightarrow> wf_secrets q"
  by (auto simp: normalizeSecrets_def wf_secrets_def bindE_Inr_iff split: option.splits if_splits
      dest: normalizeGlobs_wf)

lemma normalizeSecrets_id: "wf_secrets pp \<Longrightarrow> normalizeSecrets pp = Inr pp"
  by (auto simp: normalizeSecrets_def wf_secrets_def normalizeGlobs_id split: option.splits)

section \<open>Lemmas on containers, entries and documents\<close>

lemma normalizeContainer_eq:
  "normalizeContainer H c =
     (if digest_string (c_Digest c) = [] then Inl ErrDigestRequired
      else bindE (normalizeArgv (c_Command c)) (\<lambda>cmd.
           bindE (normalizeArgv (c_Args c)) (\<lambda>args.
           bindE (normalizeMounts H (c_Mounts c)) (\<lambda>ms.
           bindE (normalizeEnv (c_Env c)) (\<lambda>env.
             Inr (c\<lparr>c_Command := cmd, c_Args := args, c_Mounts := ms, c_Env := env\<rparr>))))))"
  by (simp add: normalizeContainer_def constraints_def bindE_assoc)

lemma normalizeContainer_wf: "normalizeContainer H c = Inr d \<Longrightarrow> wf_container H d"
  by (auto simp: normalizeContainer_eq bindE_Inr_iff wf_container_def split: if_splits
      dest: normalizeArgv_wf normalizeMounts_wf normalizeEnv_wf)

lemma normalizeContainer_id: "wf_container H c \<Longrightarrow> normalizeContainer H c = Inr c"
  by (simp add: normalizeContainer_eq wf_container_def normalizeArgv_id normalizeMounts_id normalizeEnv_id)

lemma normalizeContainers_wf:
  "normalizeContainers H cs = Inr ds \<Longrightarrow> list_all (wf_container H) (elems ds)"
  by (auto simp: normalizeContainers_def bindE_Inr_iff list_all_iff split: option.splits
      dest: mapE_set normalizeContainer_wf)

lemma normalizeContainers_id:
  "list_all (wf_container H) (elems cs) \<Longrightarrow> normalizeContainers H cs = Inr cs"
  by (auto simp: normalizeContainers_def list_all_iff mapE_id normalizeContainer_id split: option.splits)

lemma set_sortContainers [simp]: "set (sortContainers cs) = set cs"
  by (simp add: sortContainers_def)

lemma elems_map_option [simp]: "elems (map_option f cs) = f (elems cs)" if "f [] = []"
  using that by (cases cs) auto

lemma sortContainers_Nil [simp]: "sortContainers [] = []"
  by (simp add: sortContainers_def)

lemma ArgvPinned_set: "set (w_containers v) = set (w_containers w) \<Longrightarrow> ArgvPinned v = ArgvPinned w"
  by (simp add: ArgvPinned_def list_all_iff)

lemma sortContainers_sorted [simp]: "sorted (map sort_pair (sortContainers cs))"
  by (simp add: sortContainers_def)

lemma sortContainers_id: "sorted (map sort_pair cs) \<Longrightarrow> sortContainers cs = cs"
  by (simp add: sortContainers_def sort_key_id_if_sorted)

lemma normalizeWorkload_wf: "normalizeWorkload H strict w = Inr v \<Longrightarrow> wf_workload H strict v"
  by (auto simp: normalizeWorkload_def bindE_Inr_iff Let_def wf_workload_def w_containers_def list_all_iff
      ArgvPinned_def split: if_splits dest!: normalizeContainers_wf normalizeSecrets_wf)

lemma normalizeWorkload_id:
  assumes "wf_workload H strict w"
  shows "normalizeWorkload H strict w = Inr w"
proof -
  have "map_option sortContainers (w_InitContainers w) = w_InitContainers w"
    "map_option sortContainers (w_Containers w) = w_Containers w"
    using assms by (cases "w_InitContainers w"; cases "w_Containers w";
        simp add: wf_workload_def sortContainers_id)+
  thus ?thesis using assms
    by (auto simp: normalizeWorkload_def wf_workload_def w_containers_def normalizeContainers_id
        normalizeSecrets_id Let_def)
qed

lemma normalizeWorkload_served:
  "normalizeWorkload H True w = Inr v \<Longrightarrow> normalizeWorkload H False w = Inr v"
  by (auto simp: normalizeWorkload_def bindE_Inr_iff Let_def split: if_splits)

lemma normalize_entries_wf:
  "normalize_entries H strict es = Inr out \<Longrightarrow>
     list_all (\<lambda>(n, w). ValidWorkloadName n \<and> wf_workload H strict w) out"
  by (induction H strict es arbitrary: out rule: normalize_entries.induct)
    (auto simp: bindE_Inr_iff ValidWorkloadName_def normalizeWorkload_wf split: if_splits)

lemma normalize_entries_id:
  "list_all (\<lambda>(n, w). ValidWorkloadName n \<and> wf_workload H strict w) es \<Longrightarrow>
     normalize_entries H strict es = Inr es"
  by (induction es) (auto simp: ValidWorkloadName_def normalizeWorkload_id)

lemma normalize_entries_served:
  "normalize_entries H True es = Inr out \<Longrightarrow> normalize_entries H False es = Inr out"
  by (induction es arbitrary: out)
    (auto simp: bindE_Inr_iff normalizeWorkload_served split: if_splits)

lemma normalizeAllowlist_wf: "normalizeAllowlist H strict a = Inr b \<Longrightarrow> wf_allowlist H strict b"
  by (auto simp: normalizeAllowlist_def wf_allowlist_def bindE_Inr_iff normalize_entries_wf
      split: if_splits option.splits)

lemma normalizeAllowlist_id: "wf_allowlist H strict a \<Longrightarrow> normalizeAllowlist H strict a = Inr a"
  by (cases a) (auto simp: normalizeAllowlist_def wf_allowlist_def normalize_entries_id split: option.splits)

section \<open>The canonical bytes determine the decisions\<close>

lemma inj_JStr: "inj JStr"
  by (simp add: inj_def)

lemma argv_json_inj: "argv_json p = argv_json q \<Longrightarrow> p = q"
  by (cases p; cases q) (auto simp: argv_json_def inj_map_eq_map[OF inj_JStr] split: if_splits)

lemma rule_json_inj: "rule_json p = rule_json q \<Longrightarrow> p = q"
  by (cases p; cases q) (auto simp: rule_json_def split: if_splits)

lemma inj_rule_json: "inj rule_json"
  using rule_json_inj by (rule injI)

lemma mounts_json_inj: "mounts_json p = mounts_json q \<Longrightarrow> p = q"
  by (cases p; cases q) (auto simp: mounts_json_def inj_map_eq_map[OF inj_rule_json] split: if_splits)

lemma secrets_json_inj: "secrets_json p = secrets_json q \<Longrightarrow> p = q"
  by (cases p; cases q) (auto simp: secrets_json_def inj_map_eq_map[OF inj_JStr] split: if_splits)

definition env_same :: "EnvPolicy \<Rightarrow> EnvPolicy \<Rightarrow> bool" where
  "env_same p q = (ep_Policy p = ep_Policy q \<and>
     sort_key fst (elems (ep_Values p)) = sort_key fst (elems (ep_Values q)))"

lemma sort_key_Nil_iff [simp]: "sort_key f xs = [] \<longleftrightarrow> xs = []"
  by (metis length_0_conv length_sort)

lemma env_json_same: "env_json p = env_json q \<Longrightarrow> env_same p q"
proof -
  have inj: "inj (\<lambda>(n :: string, v). (n, JStr v))" by (auto simp: inj_def)
  assume "env_json p = env_json q"
  thus ?thesis
    by (auto simp: env_json_def env_same_def inj_map_eq_map[OF inj] split: if_splits)
qed

lemma env_same_admits:
  assumes "env_same p q" and "wf_envp p" and "wf_envp q"
  shows "admitsObservation H p ob = admitsObservation H q ob"
proof -
  have "fingerprintEnv H (ep_Values p) = fingerprintEnv H (ep_Values q)"
    using assms(1) by (simp add: fingerprintEnv_def env_preimage_def env_same_def)
  moreover have "ep_Policy p = PolicyExact \<Longrightarrow> ep_Values p \<noteq> None \<and> ep_Values q \<noteq> None"
    using assms by (cases "ep_Values p"; cases "ep_Values q") (auto simp: wf_envp_def env_same_def)
  ultimately show ?thesis using assms(1) by (auto simp: admitsObservation_def env_same_def)
qed

lemma container_json_same:
  "container_json c = container_json d \<Longrightarrow>
     c_Digest c = c_Digest d \<and> c_Command c = c_Command d \<and> c_Args c = c_Args d \<and>
     c_Mounts c = c_Mounts d \<and> env_same (c_Env c) (c_Env d)"
  by (auto simp: container_json_def split: if_splits
      dest: argv_json_inj mounts_json_inj env_json_same)

lemma container_json_admits:
  assumes "container_json c = container_json d" and "wf_container H c" and "wf_container H d"
  shows "container_admits H c r = container_admits H d r"
  using container_json_same[OF assms(1)] assms(2,3) env_same_admits
  by (auto simp: container_admits_iff wf_container_def)

lemma containers_json_list:
  "containers_json cs = containers_json ds \<Longrightarrow> map container_json (elems cs) = map container_json (elems ds)"
  by (auto simp: containers_json_def split: option.splits)

lemma workload_json_same:
  "workload_json v = workload_json w \<Longrightarrow>
     map container_json (elems (w_InitContainers v)) = map container_json (elems (w_InitContainers w)) \<and>
     map container_json (elems (w_Containers v)) = map container_json (elems (w_Containers w)) \<and>
     w_Secrets v = w_Secrets w"
  by (auto simp: workload_json_def split: if_splits option.splits
      dest: secrets_json_inj intro: containers_json_list)

lemma list_all2_bex:
  "list_all2 (\<lambda>x y. P x = Q y) xs ys \<Longrightarrow> (\<exists>x\<in>set xs. P x) = (\<exists>y\<in>set ys. Q y)"
  by (induction rule: list_all2_induct) auto

lemma list_all2_ball:
  "list_all2 (\<lambda>x y. P x = Q y) xs ys \<Longrightarrow> (\<forall>x\<in>set xs. P x) = (\<forall>y\<in>set ys. Q y)"
  by (induction rule: list_all2_induct) auto

lemma map_eq_list_all2: "map f xs = map f ys \<longleftrightarrow> list_all2 (\<lambda>x y. f x = f y) xs ys"
  by (simp add: list_all2_map1 list_all2_map2 flip: list.rel_eq)

lemma list_all2_filter_same:
  "list_all2 R xs ys \<Longrightarrow> (\<And>x y. x \<in> set xs \<Longrightarrow> y \<in> set ys \<Longrightarrow> R x y \<Longrightarrow> P x = P y) \<Longrightarrow>
     list_all2 R (filter P xs) (filter P ys)"
  by (induction rule: list_all2_induct) auto

lemma containers_same_admits:
  assumes "map container_json cs = map container_json ds"
    and "list_all (wf_container H) cs" and "list_all (wf_container H) ds"
  shows "list_all2 (\<lambda>c d. container_admits H c r = container_admits H d r) cs ds"
  by (rule list.rel_mono_strong[OF assms(1)[unfolded map_eq_list_all2]], rule container_json_admits)
    (use assms(2,3) in \<open>auto simp: list_all_iff\<close>)

lemma workload_same_bex:
  assumes "workload_json v = workload_json w" and "wf_workload H s v" and "wf_workload H t w"
  shows "(\<exists>c\<in>set (w_containers v). container_admits H c r) = (\<exists>c\<in>set (w_containers w). container_admits H c r)"
  using assms workload_json_same[OF assms(1)]
  by (intro list_all2_bex containers_same_admits) (auto simp: wf_workload_def w_containers_def)

lemma workload_same_describes:
  assumes "workload_json v = workload_json w" and "wf_workload H s v" and "wf_workload H t w"
  shows "describes H v running = describes H w running"
proof -
  have "list_all2 (\<lambda>c d. container_admits H c r = container_admits H d r)
      (elems (w_Containers v)) (elems (w_Containers w))" for r
    using assms workload_json_same[OF assms(1)]
    by (intro containers_same_admits) (auto simp: wf_workload_def w_containers_def)
  hence "list_all2 (\<lambda>c d. (\<exists>r\<in>set running. container_admits H c r) = (\<exists>r\<in>set running. container_admits H d r))
      (elems (w_Containers v)) (elems (w_Containers w))"
    by (simp add: list_all2_conv_all_nth)
  from list_all2_ball[OF this] show ?thesis
    unfolding describes_iff by (simp add: workload_same_bex[OF assms])
qed

definition entry_same :: "string \<times> Workload \<Rightarrow> string \<times> Workload \<Rightarrow> bool" where
  "entry_same e f = (fst e = fst f \<and> workload_json (snd e) = workload_json (snd f))"

lemma allowlist_json_entries:
  assumes "allowlist_json a = allowlist_json b"
  shows "list_all2 entry_same (sort_key fst (elems (al_Workloads a))) (sort_key fst (elems (al_Workloads b)))"
proof -
  let ?f = "\<lambda>(n :: string, w). (n, workload_json w)"
  have "map ?f (sort_key fst (elems (al_Workloads a))) = map ?f (sort_key fst (elems (al_Workloads b)))"
    using assms by (auto simp: allowlist_json_def split: option.splits)
  hence "list_all2 (\<lambda>e f. ?f e = ?f f) (sort_key fst (elems (al_Workloads a))) (sort_key fst (elems (al_Workloads b)))"
    by (simp only: map_eq_list_all2)
  thus ?thesis by (rule list_all2_mono) (auto simp: entry_same_def)
qed

lemma MatchWorkload_sorted:
  "MatchWorkload H a running = MatchWorkload H \<lparr>al_Schema = s, al_Workloads = Some (sort_key fst (elems (al_Workloads a)))\<rparr> running"
  by (rule MatchWorkload_mset) simp

lemma wf_allowlist_entry:
  "wf_allowlist H s a \<Longrightarrow> e \<in> set (elems (al_Workloads a)) \<Longrightarrow> wf_workload H s (snd e)"
  by (auto simp: wf_allowlist_def list_all_iff)

lemma MatchWorkload_json:
  assumes "allowlist_json a = allowlist_json b" and "wf_allowlist H s a" and "wf_allowlist H t b"
  shows "map_sum id (\<lambda>(n, w). (n, w_Secrets w)) (MatchWorkload H a running) =
         map_sum id (\<lambda>(n, w). (n, w_Secrets w)) (MatchWorkload H b running)"
proof -
  let ?as = "sort_key fst (elems (al_Workloads a))" and ?bs = "sort_key fst (elems (al_Workloads b))"
  let ?A = "\<lparr>al_Schema = [], al_Workloads = Some ?as\<rparr>" and ?B = "\<lparr>al_Schema = [], al_Workloads = Some ?bs\<rparr>"
  have "list_all2 entry_same (matching H ?A running) (matching H ?B running)"
    unfolding matching_def using allowlist_json_entries[OF assms(1)]
    by (simp, intro list_all2_filter_same)
      (use workload_same_describes[OF _ wf_allowlist_entry[OF assms(2)] wf_allowlist_entry[OF assms(3)]]
        in \<open>fastforce simp: entry_same_def\<close>)+
  hence "map_sum id (\<lambda>(n, w). (n, w_Secrets w)) (MatchWorkload H ?A running) =
         map_sum id (\<lambda>(n, w). (n, w_Secrets w)) (MatchWorkload H ?B running)"
    unfolding MatchWorkload_eq
    by (auto simp: list_all2_Cons1 list_all2_Cons2 entry_same_def split: list.splits dest: workload_json_same)
  thus ?thesis using MatchWorkload_sorted by metis
qed

lemma AdmitsContainer_json:
  assumes "allowlist_json a = allowlist_json b" and "wf_allowlist H s a" and "wf_allowlist H t b"
  shows "AdmitsContainer H (BuildIndex a) r = AdmitsContainer H (BuildIndex b) r"
proof -
  have all: "(\<exists>c\<in>set (all_containers d). P c) \<longleftrightarrow>
      (\<exists>e\<in>set (sort_key fst (elems (al_Workloads d))). \<exists>c\<in>set (w_containers (snd e)). P c)" for d P
    by (force simp: all_containers_def)
  have "list_all2 (\<lambda>e f. (\<exists>c\<in>set (w_containers (snd e)). container_admits H c q) =
                        (\<exists>c\<in>set (w_containers (snd f)). container_admits H c q))
      (sort_key fst (elems (al_Workloads a))) (sort_key fst (elems (al_Workloads b)))" for q
  proof -
    have "workload_json (snd e) = workload_json (snd f) \<Longrightarrow> e \<in> set (elems (al_Workloads a)) \<Longrightarrow>
        f \<in> set (elems (al_Workloads b)) \<Longrightarrow>
        (\<exists>c\<in>set (w_containers (snd e)). container_admits H c q) =
        (\<exists>c\<in>set (w_containers (snd f)). container_admits H c q)" for e f
      by (rule workload_same_bex[OF _ wf_allowlist_entry[OF assms(2)] wf_allowlist_entry[OF assms(3)]])
    thus ?thesis using allowlist_json_entries[OF assms(1)]
      by (intro list.rel_mono_strong[OF allowlist_json_entries[OF assms(1)]]) (auto simp: entry_same_def)
  qed
  from list_all2_bex[OF this] show ?thesis by (simp add: AdmitsContainer_BuildIndex all)
qed

section \<open>Entry names\<close>

lemma grammar_loop_append:
  "grammar_loop first (a @ b) = (grammar_loop first a \<and> grammar_loop (first \<and> a = []) b)"
  by (induction first a rule: grammar_loop.induct) auto

lemma grammar_loop_hex: "list_all lower_hex s \<Longrightarrow> grammar_loop first s"
  by (induction s arbitrary: first) (auto simp: name_byte_def lower_hex_def less_eq_char_def)

lemma ValidWorkloadName_suffix:
  assumes "ValidWorkloadName base" and "length base \<le> 50" and "list_all lower_hex hex" and "length hex = 12"
  shows "ValidWorkloadName (base @ ''-'' @ hex)"
  using assms
  by (auto simp: ValidWorkloadName_def workloadNameGrammarOK_def MaxWorkloadNameLen_def grammar_loop_append
      grammar_loop_hex split: if_splits)

section \<open>Properties\<close>

text \<open>
  normalisation is canonical. A document that normalises satisfies the invariant of normalised
  documents (known policies only, clean mount destinations without duplicates, valid grant globs,
  bounded names, and in the strict posture no secrets grant on an entry that leaves an argv to the
  host), is a fixed point of normalisation, and, when the strict parse accepts it, the lenient
  parse of served documents gives the same result.
\<close>

theorem normalize_canonical:
  assumes "normalizeAllowlist H strict a = Inr b"
  shows "wf_allowlist H strict b \<and> normalizeAllowlist H strict b = Inr b
       \<and> (strict \<longrightarrow> normalizeAllowlist H False a = Inr b)"
proof -
  have "normalizeAllowlist H False a = Inr b" if "strict"
    using assms that
    by (auto simp: normalizeAllowlist_def bindE_Inr_iff normalize_entries_served split: option.splits if_splits)
  thus ?thesis using normalizeAllowlist_wf[OF assms] normalizeAllowlist_id by blast
qed

theorem normalize_canonical_witness:
  "wf_allowlist (\<lambda>_. []) True
     \<lparr>al_Schema = Schema, al_Workloads = Some [(''web'', DigestEntry (Digest ''d'') ''img'')]\<rparr>"
proof -
  have "normalizeAllowlist (\<lambda>_. []) True
     \<lparr>al_Schema = Schema, al_Workloads = Some [(''web'', DigestEntry (Digest ''d'') ''img'')]\<rparr> =
     Inr \<lparr>al_Schema = Schema, al_Workloads = Some [(''web'', DigestEntry (Digest ''d'') ''img'')]\<rparr>"
    by (simp add: normalizeAllowlist_def workloadNameGrammarOK_def name_byte_def less_eq_char_def
        MaxWorkloadNameLen_def normalizeWorkload_def DigestEntry_def normalizeContainers_def
        normalizeContainer_eq normalizeArgv_def normalizeMounts_def normalizeEnv_def normalizeSecrets_def
        sortContainers_def)
  from normalize_canonical[OF this] show ?thesis by blast
qed

text \<open>
  C12: the policy digest pins the decisions. Two normalised documents with equal canonical digests,
  under a hash that does not collide on their canonical bytes, name the same entry with the same
  secrets grant for every running set (or refuse with the same error) and admit the same
  containers on a node.
\<close>

theorem CanonicalDigest_pins:
  assumes "wf_allowlist H s a" and "wf_allowlist H t b"
    and "valid_json (allowlist_json a)" and "valid_json (allowlist_json b)"
    and "CanonicalDigest H a = CanonicalDigest H b"
    and "H (Canonical a) = H (Canonical b) \<Longrightarrow> Canonical a = Canonical b"
  shows "map_sum id (\<lambda>(n, w). (n, w_Secrets w)) (MatchWorkload H a running) =
         map_sum id (\<lambda>(n, w). (n, w_Secrets w)) (MatchWorkload H b running)
       \<and> AdmitsContainer H (BuildIndex a) r = AdmitsContainer H (BuildIndex b) r"
proof -
  have eq: "allowlist_json a = allowlist_json b"
    using assms(3-6) encode_inj by (auto simp: CanonicalDigest_def Canonical_def)
  show ?thesis
    by (intro conjI MatchWorkload_json[OF eq assms(1,2)] AdmitsContainer_json[OF eq assms(1,2)])
qed

theorem CanonicalDigest_pins_witness:
  "\<exists>a b. a \<noteq> b \<and> CanonicalDigest (\<lambda>x. x) a = CanonicalDigest (\<lambda>x. x) b
       \<and> map_sum id (\<lambda>(n, w). (n, w_Secrets w)) (MatchWorkload (\<lambda>x. x) a []) =
         map_sum id (\<lambda>(n, w). (n, w_Secrets w)) (MatchWorkload (\<lambda>x. x) b [])"
proof -
  let ?w = "\<lparr>w_Label = [], w_InitContainers = None, w_Containers = None, w_Secrets = None\<rparr>"
  let ?a = "\<lparr>al_Schema = Schema, al_Workloads = Some [(''a'', ?w), (''b'', ?w)]\<rparr>"
  let ?b = "\<lparr>al_Schema = Schema, al_Workloads = Some [(''b'', ?w), (''a'', ?w)]\<rparr>"
  have eq: "allowlist_json ?a = allowlist_json ?b"
    by (simp add: allowlist_json_def less_eq_char_def)
  have wf: "wf_allowlist (\<lambda>x. x) True ?a" "wf_allowlist (\<lambda>x. x) True ?b"
    by (simp_all add: wf_allowlist_def ValidWorkloadName_def workloadNameGrammarOK_def name_byte_def
        less_eq_char_def MaxWorkloadNameLen_def wf_workload_def w_containers_def wf_secrets_def)
  have "valid_json (allowlist_json ?a)"
    by (auto simp: allowlist_json_def workload_json_def containers_json_def Schema_def intro!: ValidString_ascii)
  hence valid: "valid_json (allowlist_json ?a)" "valid_json (allowlist_json ?b)" by (simp_all only: eq)
  have dig: "CanonicalDigest (\<lambda>x. x) ?a = CanonicalDigest (\<lambda>x. x) ?b"
    by (simp only: CanonicalDigest_def Canonical_def eq)
  have ne: "?a \<noteq> ?b" by simp
  show ?thesis
    by (intro exI[of _ ?a] exI[of _ ?b] conjI ne dig CanonicalDigest_pins[OF wf valid dig, THEN conjunct1])
qed

text \<open>
  an entry name built from an image reference and a well-formed digest is always a legal entry
  name, whatever the reference: it never panics, keeps the grammar and fits the bound of 63 bytes.
\<close>

theorem DigestEntryName_valid:
  assumes "wf_digest d"
  shows "\<exists>name. DigestEntryName d img = Some name \<and> ValidWorkloadName name"
proof -
  obtain hex where hex: "digest_Hex d = hex" "length hex = 64" "list_all lower_hex hex"
    using assms by (auto simp: wf_digest_iff digest_Hex_def)
  have h12: "length (take 12 hex) = 12" "list_all lower_hex (take 12 hex)"
    using hex by (auto simp: list_all_iff dest: in_set_takeD)
  have img: "ValidWorkloadName ''image''"
    by (simp add: ValidWorkloadName_def workloadNameGrammarOK_def name_byte_def less_eq_char_def
        MaxWorkloadNameLen_def)
  show ?thesis
    using ValidWorkloadName_suffix[OF _ _ h12(2,1)] img hex(1,2)
    by (auto simp: DigestEntryName_def Let_def)
qed

theorem DigestEntryName_valid_witness:
  "\<exists>name. DigestEntryName (Digest (algo @ replicate 64 (CHR ''0''))) ''docker.io/library/nginx:1.27'' = Some name
        \<and> ValidWorkloadName name"
  by (rule DigestEntryName_valid, rule wf_digest_replicate) (simp add: lower_hex_def)

section \<open>Where the canonical order depends on the input\<close>

text \<open>
  \<^verbatim>\<open>sortContainers\<close> compares digests and policies, not the informational image reference: two
  containers that differ in it only keep the order they were written in. When no two containers
  agree on digest and policies, the order is a function of the set.
\<close>

lemma sortContainers_mset:
  "mset cs = mset ds \<Longrightarrow> inj_on sort_pair (set cs) \<Longrightarrow> sortContainers cs = sortContainers ds"
  unfolding sortContainers_def by (rule sort_key_eq_sort_key)

text \<open>One entry of a document replaced by another value.\<close>

definition put_workload :: "string \<Rightarrow> Workload \<Rightarrow> Allowlist \<Rightarrow> Allowlist" where
  "put_workload n w a = a\<lparr>al_Workloads := map_option (map (\<lambda>e. if fst e = n then (n, w) else e)) (al_Workloads a)\<rparr>"

lemma sort_key_map_fst:
  assumes "\<And>e. fst (f e) = fst e"
  shows "sort_key fst (map f es) = map f (sort_key fst es)"
proof -
  have "insort_key fst (f e) (map f es) = map f (insort_key fst e es)" for e es
    by (induction es) (simp_all add: assms)
  thus ?thesis by (induction es) simp_all
qed

lemma put_workload_json:
  assumes "(n, w) \<in> set (elems (al_Workloads a))" and "allowlist_json (put_workload n v a) = allowlist_json a"
  shows "workload_json v = workload_json w"
proof -
  let ?f = "\<lambda>e. if fst e = n then (n, v) else e"
  obtain es where es: "al_Workloads a = Some es" "(n, w) \<in> set es" using assms(1) by (cases "al_Workloads a") auto
  have "map (\<lambda>(n, w). (n, workload_json w)) (map ?f (sort_key fst es)) = map (\<lambda>(n, w). (n, workload_json w)) (sort_key fst es)"
    using assms(2) sort_key_map_fst[of ?f es] by (simp add: allowlist_json_def put_workload_def es(1))
  from map_eq_conv[THEN iffD1, OF this[unfolded map_map]] have "(\<lambda>(n, w). (n, workload_json w)) (?f (n, w)) = (n, workload_json w)"
    using es(2) by fastforce
  thus ?thesis by simp
qed

lemma put_workload_valid:
  assumes "valid_json (allowlist_json a)" and "(n, w) \<in> set (elems (al_Workloads a))" and "valid_json (workload_json v)"
  shows "valid_json (allowlist_json (put_workload n v a))"
proof -
  obtain es where es: "al_Workloads a = Some es" "(n, w) \<in> set es" using assms(2) by (cases "al_Workloads a") auto
  have "sort_key fst (map (\<lambda>e. if fst e = n then (n, v) else e) es) = map (\<lambda>e. if fst e = n then (n, v) else e) (sort_key fst es)"
    by (rule sort_key_map_fst) simp
  thus ?thesis using assms(1,3) es by (fastforce simp: allowlist_json_def put_workload_def split: if_splits)
qed

lemma put_workload_wf:
  "wf_allowlist H s a \<Longrightarrow> (n, w) \<in> set (elems (al_Workloads a)) \<Longrightarrow> wf_workload H s v \<Longrightarrow> wf_allowlist H s (put_workload n v a)"
  by (cases "al_Workloads a") (auto simp: wf_allowlist_def put_workload_def list_all_iff)

text \<open>Two neighbours of an entry that differ in their image reference only, exchanged.\<close>

definition image_twin :: "Container list \<Rightarrow> Container \<Rightarrow> string \<Rightarrow> Container list \<Rightarrow> Workload \<Rightarrow> Workload" where
  "image_twin cs c i ds w = w\<lparr>w_Containers := Some (cs @ [c, c\<lparr>c_Image := i\<rparr>] @ ds)\<rparr>"

abbreviation image_twin_swapped :: "Container list \<Rightarrow> Container \<Rightarrow> string \<Rightarrow> Container list \<Rightarrow> Workload \<Rightarrow> Workload" where
  "image_twin_swapped cs c i ds w \<equiv> image_twin cs (c\<lparr>c_Image := i\<rparr>) (c_Image c) ds w"

lemma image_twin_set: "set (w_containers (image_twin_swapped cs c i ds w)) = set (w_containers (image_twin cs c i ds w))"
  by (auto simp: image_twin_def w_containers_def)

lemma image_twin_wf:
  assumes "wf_workload H s (image_twin cs c i ds w)"
  shows "wf_workload H s (image_twin_swapped cs c i ds w)"
proof -
  have "sort_pair (c\<lparr>c_Image := i\<rparr>) = sort_pair c" by (simp add: sort_pair_def policyKey_def)
  moreover have "list_all P (w_containers (image_twin_swapped cs c i ds w)) = list_all P (w_containers (image_twin cs c i ds w))" for P
    unfolding list_all_iff image_twin_set ..
  ultimately show ?thesis
    using assms ArgvPinned_set[OF image_twin_set[where cs=cs and c=c and i=i and ds=ds and w=w]] by (simp add: wf_workload_def) (simp add: image_twin_def)
qed

lemma image_twin_json:
  assumes "c_Image c \<noteq> i"
  shows "workload_json (image_twin_swapped cs c i ds w) \<noteq> workload_json (image_twin cs c i ds w)"
    and "valid_json (workload_json (image_twin cs c i ds w)) \<Longrightarrow> valid_json (workload_json (image_twin_swapped cs c i ds w))"
  using assms by (auto simp: image_twin_def workload_json_def containers_json_def container_json_def split: option.splits if_splits)

lemma put_workload_admits:
  assumes "(n, w) \<in> set (elems (al_Workloads a))" and "uniq_keys (elems (al_Workloads a))" and "set (w_containers v) = set (w_containers w)"
  shows "AdmitsContainer H (BuildIndex (put_workload n v a)) r = AdmitsContainer H (BuildIndex a) r"
proof -
  obtain es where es: "al_Workloads a = Some es" "(n, w) \<in> set es" using assms(1) by (cases "al_Workloads a") auto
  have u: "e = (n, w)" if "e \<in> set es" "fst e = n" for e
    using that es assms(2) eq_key_imp_eq_value[of es n w "snd e"] by (simp add: prod_eq_iff) (metis prod.collapse)
  define f where "f = (\<lambda>e. if fst e = n then (n, v) else e)"
  have "(\<Union>e\<in>set es. set (w_containers (snd (f e)))) = (\<Union>e\<in>set es. set (w_containers (snd e)))"
    using assms(3) u by (intro SUP_cong) (auto simp: f_def)
  moreover have "set (all_containers d) = (\<Union>e\<in>set (elems (al_Workloads d)). set (w_containers (snd e)))" for d
    by (force simp: all_containers_def)
  ultimately have "set (all_containers (put_workload n v a)) = set (all_containers a)"
    by (simp add: put_workload_def es(1) flip: f_def)
  thus ?thesis by (simp add: AdmitsContainer_BuildIndex)
qed

text \<open>
  C39: the canonical bytes are not a function of what an entry says. Take any normalised document with an entry that has two neighbouring containers
  with the same digest and policies and different image references. Exchanging the two gives a document that has the same
  containers, that normalises to itself, that admits the same containers, and whose canonical bytes differ.
\<close>

theorem Canonical_image_order:
  assumes "normalizeAllowlist H True a = Inr a" and "valid_json (allowlist_json a)" and "uniq_keys (elems (al_Workloads a))"
    and "(n, image_twin cs c i ds w) \<in> set (elems (al_Workloads a))" and "c_Image c \<noteq> i"
  shows "normalizeAllowlist H True (put_workload n (image_twin_swapped cs c i ds w) a) = Inr (put_workload n (image_twin_swapped cs c i ds w) a)
    \<and> AdmitsContainer H (BuildIndex (put_workload n (image_twin_swapped cs c i ds w) a)) r = AdmitsContainer H (BuildIndex a) r
    \<and> Canonical (put_workload n (image_twin_swapped cs c i ds w) a) \<noteq> Canonical a"
proof (intro conjI)
  let ?b = "put_workload n (image_twin_swapped cs c i ds w) a"
  have wf: "wf_allowlist H True a" by (rule normalizeAllowlist_wf[OF assms(1)])
  have "wf_workload H True (image_twin cs c i ds w)" using wf_allowlist_entry[OF wf assms(4)] by simp
  thus "normalizeAllowlist H True ?b = Inr ?b"
    by (intro normalizeAllowlist_id put_workload_wf[OF wf assms(4)] image_twin_wf)
  show "AdmitsContainer H (BuildIndex ?b) r = AdmitsContainer H (BuildIndex a) r"
    by (rule put_workload_admits[OF assms(4,3) image_twin_set])
  have "valid_json (workload_json (image_twin cs c i ds w))"
    using assms(2,4) by (cases "al_Workloads a") (force simp: allowlist_json_def)+
  hence "valid_json (allowlist_json ?b)" by (rule put_workload_valid[OF assms(2,4) image_twin_json(2)[OF assms(5)]])
  moreover have "allowlist_json ?b \<noteq> allowlist_json a"
    using put_workload_json[OF assms(4)] image_twin_json(1)[OF assms(5)] by metis
  ultimately show "Canonical ?b \<noteq> Canonical a"
    unfolding Canonical_def using encode_inj[OF _ assms(2)] by blast
qed

definition image_doc :: "string list \<Rightarrow> Allowlist" where
  "image_doc imgs =
     \<lparr>al_Schema = Schema,
      al_Workloads = Some [(''web'', \<lparr>w_Label = [], w_InitContainers = None,
        w_Containers = Some (concat (map (\<lambda>i. elems (w_Containers (DigestEntry (Digest ''d'') i))) imgs)),
        w_Secrets = None\<rparr>)]\<rparr>"

theorem Canonical_image_order_witness:
  "Canonical (image_doc [''b'', ''a'']) \<noteq> Canonical (image_doc [''a'', ''b''])"
proof -
  let ?c = "hd (elems (w_Containers (DigestEntry (Digest ''d'') ''a'')))"
  let ?w = "\<lparr>w_Label = [], w_InitContainers = None, w_Containers = None, w_Secrets = None\<rparr>"
  have "wf_allowlist H True (image_doc [''a'', ''b''])" for H
    by (simp add: wf_allowlist_def image_doc_def ValidWorkloadName_def workloadNameGrammarOK_def
        name_byte_def less_eq_char_def MaxWorkloadNameLen_def wf_workload_def w_containers_def
        wf_secrets_def DigestEntry_def wf_container_def wf_argv_def wf_mounts_def wf_envp_def
        sort_pair_def policyKey_def)
  moreover have "valid_json (allowlist_json (image_doc [''a'', ''b'']))"
    by (auto simp: allowlist_json_def image_doc_def workload_json_def containers_json_def Schema_def
        DigestEntry_def container_json_def argv_json_def mounts_json_def env_json_def policy_defs
        list_all_iff intro!: ValidString_ascii)
  moreover have "(''web'', image_twin [] ?c ''b'' [] ?w) \<in> set (elems (al_Workloads (image_doc [''a'', ''b''])))"
    by (simp add: image_doc_def image_twin_def DigestEntry_def)
  moreover have "put_workload ''web'' (image_twin_swapped [] ?c ''b'' [] ?w) (image_doc [''a'', ''b'']) = image_doc [''b'', ''a'']"
    by (simp add: put_workload_def image_doc_def image_twin_def DigestEntry_def)
  moreover have "c_Image ?c \<noteq> ''b''" by (simp add: DigestEntry_def)
  moreover have "uniq_keys (elems (al_Workloads (image_doc [''a'', ''b''])))" by (simp add: image_doc_def)
  ultimately show ?thesis
    using Canonical_image_order[OF normalizeAllowlist_id[of "\<lambda>_. []"], where a="image_doc [''a'', ''b'']" and n="''web''" and cs="[]" and c="?c" and i="''b''" and ds="[]" and w="?w"] by simp
qed

end
