(* ===== verification/Sandbox_Claims.thy ===== *)
theory Sandbox_Claims
  imports Go_Net Admission_History Allowlist_Normalize
begin

text \<open>
  Sandbox identity: the certificate extensions that CDS stamps (\<^verbatim>\<open>src/pkg/ratls/sandbox.go\<close>,
  \<^verbatim>\<open>matchedworkload.go\<close>), the signed sandbox token (\<^verbatim>\<open>src/pkg/workloadclaims/sandboxtoken.go\<close>) and the
  addresses an inventory may be reached at (\<^verbatim>\<open>nodehosts.go\<close>, \<^verbatim>\<open>digests.go\<close>). DER encoding is modelled; the
  decoder \<^verbatim>\<open>asn1.Unmarshal\<close>, ECDSA, the DER form of a public key and SHA-256 are parameters. A decoder returns the
  value and the bytes it did not use.
\<close>

section \<open>DER\<close>

definition der_byte :: "int \<Rightarrow> char" where
  "der_byte i = char_of (nat (i mod 256))"

function der_int :: "int \<Rightarrow> string" where
  "der_int i = (if -128 \<le> i \<and> i \<le> 127 then [der_byte i] else der_int (i div 256) @ [der_byte i])"
  by pat_completeness auto
termination
proof (relation "measure (\<lambda>i. nat \<bar>i\<bar>)", goal_cases)
  case (2 i)
  thus ?case by (cases "0 \<le> i") (auto simp: nat_less_iff abs_if div_less_dividend intro: le_less_trans)
qed simp

declare der_int.simps [simp del]

fun base256 :: "nat \<Rightarrow> string" where
  "base256 n = (if n < 256 then [char_of n] else base256 (n div 256) @ [char_of (n mod 256)])"

declare base256.simps [simp del]

definition der_length :: "nat \<Rightarrow> string" where
  "der_length n = (if n < 128 then [char_of n] else char_of (128 + length (base256 n)) # base256 n)"

definition tlv :: "nat \<Rightarrow> string \<Rightarrow> string" where
  "tlv tag content = char_of tag # der_length (length content) @ content"

definition der_INTEGER :: "int \<Rightarrow> string" where
  "der_INTEGER i = tlv 2 (der_int i)"

definition der_OCTETS :: "string \<Rightarrow> string" where
  "der_OCTETS bs = tlv 4 bs"

text \<open>\<^verbatim>\<open>asn1:"ia5"\<close>: a byte outside ASCII is an error.\<close>

definition der_IA5 :: "string \<Rightarrow> string option" where
  "der_IA5 s = (if list_all (\<lambda>c. byte c < 128) s then Some (tlv 22 s) else None)"

definition der_SEQUENCE :: "string list \<Rightarrow> string" where
  "der_SEQUENCE fs = tlv 48 (concat fs)"

section \<open>Certificates and the sandbox ID\<close>

text \<open>The object identifiers of the extensions, as their last arc.\<close>

datatype oid = OIDSandboxID | OIDMatchedWorkload | OIDOther nat

record 'p cert =
  ct_PublicKey :: 'p
  ct_Extensions :: "(oid \<times> string) list"

definition sandbox_id_char :: "char \<Rightarrow> bool" where
  "sandbox_id_char c = (name_byte c \<or> c = CHR ''.'' \<or> c = CHR ''_'' \<or> c = CHR ''-'')"

definition ValidateSandboxID :: "string \<Rightarrow> bool" where
  "ValidateSandboxID id' = (list_all sandbox_id_char id' \<and> 1 \<le> length id' \<and> length id' \<le> 128)"

datatype claims_error = ErrSandboxID | ErrDER | ErrTrailing | ErrVersion | ErrNotCanonical | ErrMatchedWorkload | ErrDuplicateExt
  | ErrNoInventoryKey | ErrNoChallenge | ErrSignature | ErrNonce | ErrRequesterKeyDER | ErrRequesterKey | ErrInventoryHost | ErrNonceLength
  | ErrSign | ErrPolicyViolation | ErrNoContainers | ErrContainersUnsupported | ErrNoDigest | ErrNoPeer | ErrUnverifiedPeer

type_synonym 'a asn1_decoder = "string \<Rightarrow> ('a \<times> string) option"

definition MarshalSandboxIDExtension :: "string \<Rightarrow> claims_error + (oid \<times> string)" where
  "MarshalSandboxIDExtension id' =
     (if \<not> ValidateSandboxID id' then Inl ErrSandboxID
      else case der_IA5 id' of None \<Rightarrow> Inl ErrDER | Some v \<Rightarrow> Inr (OIDSandboxID, v))"

fun sandbox_id_loop :: "string asn1_decoder \<Rightarrow> (oid \<times> string) list \<Rightarrow> claims_error + string" where
  "sandbox_id_loop ia5 [] = Inr []"
| "sandbox_id_loop ia5 ((oid, val) # exts) =
     (if oid \<noteq> OIDSandboxID then sandbox_id_loop ia5 exts
      else case ia5 val of
             None \<Rightarrow> Inl ErrDER
           | Some (id', rest) \<Rightarrow>
               if rest \<noteq> [] then Inl ErrTrailing
               else if \<not> ValidateSandboxID id' then Inl ErrSandboxID
               else Inr id')"

definition SandboxIDFromCert :: "string asn1_decoder \<Rightarrow> 'p cert \<Rightarrow> claims_error + string" where
  "SandboxIDFromCert ia5 ct = sandbox_id_loop ia5 (ct_Extensions ct)"

definition CheckSandboxPin :: "string asn1_decoder \<Rightarrow> 'p cert \<Rightarrow> string \<Rightarrow> claims_error + unit" where
  "CheckSandboxPin ia5 ct expectedID =
     (if expectedID = [] then Inr ()
      else case SandboxIDFromCert ia5 ct of
             Inl _ \<Rightarrow> Inl ErrPolicyViolation
           | Inr id' \<Rightarrow>
               if id' = [] then Inl ErrPolicyViolation
               else if id' \<noteq> expectedID then Inl ErrPolicyViolation
               else Inr ())"

section \<open>The matched workload\<close>

record MatchedWorkload =
  mw_Name :: string
  mw_AllowlistVersion :: string
  mw_AllowlistDigest :: string

record matchedWorkloadASN1 =
  ma_FormatVersion :: int
  ma_Name :: string
  ma_AllowlistVersion :: string
  ma_AllowlistDigest :: string

abbreviation (input) matchedWorkloadVersion :: int where "matchedWorkloadVersion \<equiv> 1"
abbreviation (input) allowlistDigestSize :: nat where "allowlistDigestSize \<equiv> 32"

definition allowlistVersionPattern :: "string \<Rightarrow> bool" where
  "allowlistVersionPattern s =
     (s \<noteq> [] \<and> is_digit (hd s) \<and> hd s \<noteq> CHR ''0'' \<and> list_all is_digit (tl s) \<and> length (tl s) \<le> 19)"

definition mw_Validate :: "MatchedWorkload \<Rightarrow> bool" where
  "mw_Validate m =
     (ValidWorkloadName (mw_Name m) \<and> allowlistVersionPattern (mw_AllowlistVersion m) \<and>
      length (mw_AllowlistDigest m) = allowlistDigestSize)"

definition marshal_matched :: "matchedWorkloadASN1 \<Rightarrow> string option" where
  "marshal_matched raw =
     (case (der_IA5 (ma_Name raw), der_IA5 (ma_AllowlistVersion raw)) of
        (Some n, Some v) \<Rightarrow>
          Some (der_SEQUENCE [der_INTEGER (ma_FormatVersion raw), n, v, der_OCTETS (ma_AllowlistDigest raw)])
      | _ \<Rightarrow> None)"

definition mw_raw :: "MatchedWorkload \<Rightarrow> matchedWorkloadASN1" where
  "mw_raw m = \<lparr>ma_FormatVersion = matchedWorkloadVersion, ma_Name = mw_Name m, ma_AllowlistVersion = mw_AllowlistVersion m,
     ma_AllowlistDigest = mw_AllowlistDigest m\<rparr>"

definition MarshalMatchedWorkloadExtension :: "MatchedWorkload \<Rightarrow> claims_error + (oid \<times> string)" where
  "MarshalMatchedWorkloadExtension m =
     (if \<not> mw_Validate m then Inl ErrMatchedWorkload
      else case marshal_matched (mw_raw m) of
             None \<Rightarrow> Inl ErrDER
           | Some v \<Rightarrow> Inr (OIDMatchedWorkload, v))"

definition UnmarshalMatchedWorkload :: "matchedWorkloadASN1 asn1_decoder \<Rightarrow> string \<Rightarrow> claims_error + MatchedWorkload" where
  "UnmarshalMatchedWorkload dec der =
     (case dec der of
        None \<Rightarrow> Inl ErrDER
      | Some (raw, rest) \<Rightarrow>
          if rest \<noteq> [] then Inl ErrTrailing
          else if ma_FormatVersion raw \<noteq> matchedWorkloadVersion then Inl ErrVersion
          else (case marshal_matched raw of
            None \<Rightarrow> Inl ErrDER
          | Some reencoded \<Rightarrow>
              if reencoded \<noteq> der then Inl ErrNotCanonical
              else
                let m = \<lparr>mw_Name = ma_Name raw, mw_AllowlistVersion = ma_AllowlistVersion raw,
                         mw_AllowlistDigest = ma_AllowlistDigest raw\<rparr> in
                if \<not> mw_Validate m then Inl ErrMatchedWorkload else Inr m))"

fun matched_loop :: "matchedWorkloadASN1 asn1_decoder \<Rightarrow> (oid \<times> string) list \<Rightarrow> MatchedWorkload option \<Rightarrow>
    claims_error + MatchedWorkload option" where
  "matched_loop dec [] found = Inr found"
| "matched_loop dec ((oid, val) # exts) found =
     (if oid \<noteq> OIDMatchedWorkload then matched_loop dec exts found
      else if found \<noteq> None then Inl ErrDuplicateExt
      else bindE (UnmarshalMatchedWorkload dec val) (\<lambda>m. matched_loop dec exts (Some m)))"

definition MatchedWorkloadFromCert :: "matchedWorkloadASN1 asn1_decoder \<Rightarrow> 'p cert \<Rightarrow> claims_error + MatchedWorkload option" where
  "MatchedWorkloadFromCert dec ct = matched_loop dec (ct_Extensions ct) None"

definition CheckWorkloadPin :: "matchedWorkloadASN1 asn1_decoder \<Rightarrow> 'p cert \<Rightarrow> string \<Rightarrow> claims_error + unit" where
  "CheckWorkloadPin dec ct expectedName =
     (if expectedName = [] then Inr ()
      else case MatchedWorkloadFromCert dec ct of
             Inl _ \<Rightarrow> Inl ErrPolicyViolation
           | Inr None \<Rightarrow> Inl ErrPolicyViolation
           | Inr (Some m) \<Rightarrow> if mw_Name m \<noteq> expectedName then Inl ErrPolicyViolation else Inr ())"

text \<open>The TLS state of a connection: the certificates the peer presented and how many chains were verified.\<close>

record 'p tls_state =
  tls_PeerCertificates :: "'p cert list"
  tls_VerifiedChains :: nat

definition PeerMatchedWorkload ::
  "matchedWorkloadASN1 asn1_decoder \<Rightarrow> 'p tls_state \<Rightarrow> claims_error + MatchedWorkload option" where
  "PeerMatchedWorkload dec cs =
     (case tls_PeerCertificates cs of
        [] \<Rightarrow> Inl ErrNoPeer
      | leaf # _ \<Rightarrow> if tls_VerifiedChains cs = 0 then Inl ErrUnverifiedPeer else MatchedWorkloadFromCert dec leaf)"

section \<open>Where an inventory may live\<close>

definition parseInventoryHost :: "string \<Rightarrow> claims_error + string" where
  "parseInventoryHost host =
     (case ParseIP host of
        None \<Rightarrow> Inl ErrInventoryHost
      | Some ip \<Rightarrow> if \<not> IsGlobalUnicast ip then Inl ErrInventoryHost else Inr (IP_String ip))"

definition ValidateInventoryHost :: "string \<Rightarrow> claims_error + unit" where
  "ValidateInventoryHost host = bindE (parseInventoryHost host) (\<lambda>_. Inr ())"

definition cidr_contains :: "IPNet list \<Rightarrow> string \<Rightarrow> bool" where
  "cidr_contains s host = (case ParseIP host of None \<Rightarrow> False | Some ip \<Rightarrow> list_ex (\<lambda>n. net_Contains n ip) s)"

definition ParseInventoryHosts :: "string list \<Rightarrow> IPNet list option" where
  "ParseInventoryHosts cidrs = those (map (\<lambda>c. ParseCIDR (TrimSpace c)) cidrs)"

record Node =
  nd_Name :: string
  nd_PodCIDR :: string
  nd_PodCIDRs :: "string list"
  nd_InternalIPs :: "string list"

definition pod_ranges :: "Node list \<Rightarrow> IPNet list" where
  "pod_ranges nodes =
     concat (map (\<lambda>n. List.map_filter (\<lambda>c. if c = [] then None else ParseCIDR c) (nd_PodCIDR n # nd_PodCIDRs n)) nodes)"

text \<open>\<^verbatim>\<open>IPNet.String\<close>, by which repeated hosts are recognised.\<close>

definition net_String :: "IPNet \<Rightarrow> string" where
  "net_String n =
     (case network_number n of None \<Rightarrow> ''<nil>'' | Some (nn, ones) \<Rightarrow> IP_String nn @ ''/'' @ Itoa ones)"

definition host_route :: "ip \<Rightarrow> IPNet" where
  "host_route ip = (let bits = (if To4 ip = None then 128 else 32) in \<lparr>n_IP = ip, n_ones = bits, n_bits = bits\<rparr>)"

text \<open>One node address: the accumulated hosts and excluded addresses.\<close>

definition add_address :: "IPNet list \<Rightarrow> string \<Rightarrow> string \<Rightarrow> IPNet list \<times> string list \<Rightarrow> IPNet list \<times> string list" where
  "add_address ranges name addr st =
     (case ParseIP addr of
        None \<Rightarrow> st
      | Some ip \<Rightarrow>
          if \<not> IsGlobalUnicast ip then st
          else if list_ex (\<lambda>r. net_Contains r ip) ranges then (fst st, snd st @ [name @ ''/'' @ addr])
          else if net_String (host_route ip) \<in> net_String ` set (fst st) then st
          else (fst st @ [host_route ip], snd st))"

definition NodeHostCIDRs :: "Node list \<Rightarrow> IPNet list \<times> string list" where
  "NodeHostCIDRs nodes =
     fold (\<lambda>n. fold (add_address (pod_ranges nodes) (nd_Name n)) (nd_InternalIPs n)) nodes ([], [])"

type_synonym NodeHosts = "IPNet list option"

definition SetNodes :: "Node list \<Rightarrow> NodeHosts \<Rightarrow> NodeHosts \<times> string list" where
  "SetNodes nodes h = (Some (fst (NodeHostCIDRs nodes)), snd (NodeHostCIDRs nodes))"

definition nodehosts_Contains :: "NodeHosts \<Rightarrow> string \<Rightarrow> bool" where
  "nodehosts_Contains h host = (case h of None \<Rightarrow> False | Some snap \<Rightarrow> cidr_contains snap host)"

definition nodehosts_Empty :: "NodeHosts \<Rightarrow> bool" where
  "nodehosts_Empty h = (case h of None \<Rightarrow> True | Some snap \<Rightarrow> length snap = 0)"

section \<open>The sandbox token\<close>

abbreviation (input) maxNonceLen :: nat where "maxNonceLen \<equiv> 128"

definition sandboxTokenDomainSep :: string where
  "sandboxTokenDomainSep = ''c8s/sandbox-token/v1'' @ [CHR 0x00]"

abbreviation (input) sandboxTokenVersion :: int where "sandboxTokenVersion \<equiv> 2"

record sandboxTokenASN1 =
  tk_Version :: int
  tk_SandboxID :: string
  tk_KeyDigest :: string
  tk_Nonce :: string
  tk_InventoryHost :: string

record SignedSandboxToken =
  st_Token :: string
  st_Signature :: string

record VerifiedSandbox =
  vs_SandboxID :: string
  vs_InventoryHost :: string

definition sandboxTokenSigningHash :: "hash \<Rightarrow> string \<Rightarrow> string" where
  "sandboxTokenSigningHash H tokenDER = H (sandboxTokenDomainSep @ tokenDER)"

definition RequesterKeyDigest :: "hash \<Rightarrow> ('p \<Rightarrow> string option) \<Rightarrow> 'p \<Rightarrow> claims_error + string" where
  "RequesterKeyDigest H pkix pub = (case pkix pub of None \<Rightarrow> Inl ErrRequesterKeyDER | Some der \<Rightarrow> Inr (H der))"

definition UnverifiedInventoryHost :: "sandboxTokenASN1 asn1_decoder \<Rightarrow> string \<Rightarrow> claims_error + string" where
  "UnverifiedInventoryHost dec tokenDER =
     (case dec tokenDER of None \<Rightarrow> Inl ErrDER | Some (tok, _) \<Rightarrow> Inr (tk_InventoryHost tok))"

definition token_Verify ::
  "hash \<Rightarrow> ('p \<Rightarrow> string option) \<Rightarrow> ('k \<Rightarrow> string \<Rightarrow> string \<Rightarrow> bool) \<Rightarrow> sandboxTokenASN1 asn1_decoder \<Rightarrow>
   SignedSandboxToken \<Rightarrow> 'k option \<Rightarrow> 'p \<Rightarrow> string \<Rightarrow> claims_error + VerifiedSandbox" where
  "token_Verify H pkix verify dec s inventoryPub requesterPub nonce =
     (case inventoryPub of
        None \<Rightarrow> Inl ErrNoInventoryKey
      | Some ikey \<Rightarrow>
          if length nonce = 0 then Inl ErrNoChallenge
          else if \<not> verify ikey (sandboxTokenSigningHash H (st_Token s)) (st_Signature s) then Inl ErrSignature
          else (case dec (st_Token s) of
            None \<Rightarrow> Inl ErrDER
          | Some (tok, rest) \<Rightarrow>
              if length rest > 0 then Inl ErrTrailing
              else if tk_Version tok \<noteq> sandboxTokenVersion then Inl ErrVersion
              else if tk_Nonce tok \<noteq> nonce then Inl ErrNonce
              else bindE (RequesterKeyDigest H pkix requesterPub) (\<lambda>want.
                if tk_KeyDigest tok \<noteq> want then Inl ErrRequesterKey
                else bindE (ValidateInventoryHost (tk_InventoryHost tok)) (\<lambda>_.
                  Inr \<lparr>vs_SandboxID = tk_SandboxID tok, vs_InventoryHost = tk_InventoryHost tok\<rparr>))))"

definition marshal_token :: "sandboxTokenASN1 \<Rightarrow> string option" where
  "marshal_token t =
     (case (der_IA5 (tk_SandboxID t), der_IA5 (tk_InventoryHost t)) of
        (Some i, Some h) \<Rightarrow>
          Some (der_SEQUENCE [der_INTEGER (tk_Version t), i, der_OCTETS (tk_KeyDigest t), der_OCTETS (tk_Nonce t), h])
      | _ \<Rightarrow> None)"

definition token_body :: "string \<Rightarrow> string \<Rightarrow> string \<Rightarrow> string \<Rightarrow> sandboxTokenASN1" where
  "token_body host sandboxID requesterKeyDigest nonce =
     \<lparr>tk_Version = sandboxTokenVersion, tk_SandboxID = sandboxID, tk_KeyDigest = requesterKeyDigest, tk_Nonce = nonce,
      tk_InventoryHost = host\<rparr>"

definition token_Sign ::
  "hash \<Rightarrow> (string \<Rightarrow> string option) \<Rightarrow> string \<Rightarrow> string \<Rightarrow> string \<Rightarrow> string \<Rightarrow> claims_error + SignedSandboxToken" where
  "token_Sign H sign host sandboxID requesterKeyDigest nonce =
     (if length nonce = 0 \<or> length nonce > maxNonceLen then Inl ErrNonceLength
      else case marshal_token (token_body host sandboxID requesterKeyDigest nonce) of
             None \<Rightarrow> Inl ErrDER
           | Some der \<Rightarrow> (case sign (sandboxTokenSigningHash H der) of
               None \<Rightarrow> Inl ErrSign
             | Some sig \<Rightarrow> Inr \<lparr>st_Token = der, st_Signature = sig\<rparr>))"

definition NewSandboxTokenSigner :: "string \<Rightarrow> claims_error + string" where
  "NewSandboxTokenSigner host = bindE (ValidateInventoryHost host) (\<lambda>_. Inr host)"

section \<open>What an inventory reports\<close>

record SandboxDigestsResponse =
  sd_Digests :: "string list"
  sd_Containers :: "SandboxContainer list"

text \<open>The JSON of an answer, by the tags of its structs: the local source of a mount is left out, and so are an empty argv, an absent environment and an empty
  containers view; mounts are written even when they are absent.\<close>

definition mount_json :: "ObservedMount \<Rightarrow> json" where
  "mount_json m =
     JObj ([(''destination'', JStr (om_Destination m)), (''class'', JStr (om_Class m)), (''storage'', JStr (om_Storage m))] @
           (if om_HostSourceDigest m = [] then [] else [(''hostSourceDigest'', JStr (om_HostSourceDigest m))]) @
           (if om_ReadOnly m then [(''readOnly'', JBool True)] else []))"

definition reported_json :: "SandboxContainer \<Rightarrow> json" where
  "reported_json c =
     JObj ((case sc_Env c of None \<Rightarrow> [] | Some e \<Rightarrow> [(''env'', JObj [(''format'', JStr (eo_Format e)), (''digest'', JStr (eo_Digest e))])]) @
           [(''mounts'', case sc_Mounts c of None \<Rightarrow> JNull | Some ms \<Rightarrow> JArr (map mount_json ms)), (''digest'', JStr (sc_Digest c))] @
           (if elems (sc_Argv c) = [] then [] else [(''argv'', JArr (map JStr (elems (sc_Argv c))))]))"

definition digests_json :: "SandboxDigestsResponse \<Rightarrow> json" where
  "digests_json r =
     JObj ([(''digests'', JArr (map JStr (sd_Digests r)))] @
           (if sd_Containers r = [] then [] else [(''containers'', JArr (map reported_json (sd_Containers r)))]))"

text \<open>What the client decodes from it.\<close>

definition mount_read :: "ObservedMount \<Rightarrow> ObservedMount" where
  "mount_read m = \<lparr>om_Destination = json_read (om_Destination m), om_Source = [], om_Class = json_read (om_Class m), om_Storage = json_read (om_Storage m),
     om_HostSourceDigest = json_read (om_HostSourceDigest m), om_ReadOnly = om_ReadOnly m\<rparr>"

definition reported_read :: "SandboxContainer \<Rightarrow> SandboxContainer" where
  "reported_read c = \<lparr>sc_Env = map_option (\<lambda>e. \<lparr>eo_Format = json_read (eo_Format e), eo_Digest = json_read (eo_Digest e)\<rparr>) (sc_Env c),
     sc_Mounts = map_option (map mount_read) (sc_Mounts c), sc_Digest = json_read (sc_Digest c),
     sc_Argv = (if elems (sc_Argv c) = [] then None else Some (map json_read (elems (sc_Argv c))))\<rparr>"

abbreviation maxResponseBytes :: int where "maxResponseBytes \<equiv> 1048576"

text \<open>The client's call. What the host answers, a status or a report, is the parameter \<open>get\<close>; it gives nothing when no answer comes.\<close>

definition FetchSandbox :: "(string \<Rightarrow> string \<Rightarrow> (nat + SandboxDigestsResponse) option) \<Rightarrow> string \<Rightarrow> string \<Rightarrow> SandboxDigestsResponse option" where
  "FetchSandbox get host sandboxID =
     (if \<not> ValidateSandboxID sandboxID then None
      else case get host sandboxID of
             None \<Rightarrow> None
           | Some (Inl _) \<Rightarrow> None
           | Some (Inr r) \<Rightarrow>
               if int (length (encode (digests_json r))) > maxResponseBytes then None
               else Some \<lparr>sd_Digests = map json_read (sd_Digests r), sd_Containers = map reported_read (sd_Containers r)\<rparr>)"

lemma reported_read_json: "valid_json (reported_json c) \<Longrightarrow> reported_json (reported_read c) = reported_json c"
  by (cases "sc_Env c"; cases "sc_Mounts c")
    (auto simp: reported_json_def reported_read_def mount_json_def mount_read_def json_read_valid split: if_splits)

text \<open>The evidence survives the way: an exact report for strings that are valid UTF-8.\<close>

lemma reported_read_evidence: "evidence c = evidence d \<Longrightarrow> reported_read c = reported_read d"
proof -
  have "mount_read (mount_evidence m) = mount_read m" for m by (simp add: mount_read_def mount_evidence_def)
  hence "map_option (map mount_read) (map_option (map mount_evidence) ms) = map_option (map mount_read) ms" for ms by (cases ms) simp_all
  hence "reported_read (evidence c) = reported_read c" for c by (simp add: reported_read_def evidence_def)
  thus "evidence c = evidence d \<Longrightarrow> reported_read c = reported_read d" by metis
qed

lemma evidence_reported_read:
  assumes "valid_json (reported_json c)"
  shows "evidence (reported_read c) = evidence c"
proof -
  have m: "mount_evidence (mount_read m) = mount_evidence m" if "valid_json (mount_json m)" for m
    using that by (auto simp: mount_json_def mount_read_def mount_evidence_def json_read_valid json_read.simps[of "[]"] split: if_splits)
  have "map_option (map mount_evidence) (map_option (map mount_read) (sc_Mounts c)) = map_option (map mount_evidence) (sc_Mounts c)"
    using assms m by (cases "sc_Mounts c") (auto simp: reported_json_def)
  moreover have "sc_Env (reported_read c) = sc_Env c" "sc_Digest (reported_read c) = sc_Digest c" "elems (sc_Argv (reported_read c)) = elems (sc_Argv c)"
    using assms by (cases "sc_Env c"; cases "sc_Mounts c"; auto simp: reported_read_def reported_json_def json_read_valid map_idI split: if_splits)+
  ultimately show ?thesis by (cases c) (simp add: evidence_def reported_read_def)
qed

definition RequireContainers :: "SandboxDigestsResponse \<Rightarrow> claims_error + SandboxContainer list" where
  "RequireContainers r =
     (if length (sd_Containers r) = 0 then
        (if length (sd_Digests r) = 0 then Inl ErrNoContainers else Inl ErrContainersUnsupported)
      else if list_ex (\<lambda>c. sc_Digest c = []) (sd_Containers r) then Inl ErrNoDigest
      else Inr (sd_Containers r))"

section \<open>Lemmas\<close>

lemma ValidWorkloadName_ascii: "ValidWorkloadName n \<Longrightarrow> list_all (\<lambda>c. byte c < 128) n"
proof -
  have "list_all (\<lambda>c. byte c < 128) s" if "grammar_loop first s" for first s
    using that by (induction first s rule: grammar_loop.induct) (auto simp: name_byte_def less_eq_char_def split: if_splits)
  thus "ValidWorkloadName n \<Longrightarrow> list_all (\<lambda>c. byte c < 128) n"
    by (auto simp: ValidWorkloadName_def workloadNameGrammarOK_def split: if_splits)
qed

lemma version_ascii: "allowlistVersionPattern v \<Longrightarrow> list_all (\<lambda>c. byte c < 128) v"
  by (cases v) (auto simp: allowlistVersionPattern_def is_digit_def list_all_iff)

lemma Unmarshal_Inr:
  assumes "UnmarshalMatchedWorkload dec der = Inr m"
  shows "MarshalMatchedWorkloadExtension m = Inr (OIDMatchedWorkload, der)"
proof -
  from assms obtain raw where raw: "ma_FormatVersion raw = matchedWorkloadVersion" "marshal_matched raw = Some der" "mw_Validate m"
      "m = \<lparr>mw_Name = ma_Name raw, mw_AllowlistVersion = ma_AllowlistVersion raw, mw_AllowlistDigest = ma_AllowlistDigest raw\<rparr>"
    by (auto simp: UnmarshalMatchedWorkload_def Let_def split: option.splits if_splits)
  have "mw_raw m = raw" using raw(1,4) by (simp add: mw_raw_def)
  thus ?thesis using raw(2,3) by (simp add: MarshalMatchedWorkloadExtension_def)
qed

lemma Marshal_Inr_Unmarshal:
  assumes "MarshalMatchedWorkloadExtension m = Inr (OIDMatchedWorkload, der)"
    and "marshal_matched (mw_raw m) = Some der \<Longrightarrow> dec der = Some (mw_raw m, [])"
  shows "UnmarshalMatchedWorkload dec der = Inr m"
proof -
  from assms(1) have m: "mw_Validate m" "marshal_matched (mw_raw m) = Some der"
    by (auto simp: MarshalMatchedWorkloadExtension_def split: if_splits option.splits)
  have d: "dec der = Some (mw_raw m, [])" by (rule assms(2)[OF m(2)])
  have "\<lparr>mw_Name = ma_Name (mw_raw m), mw_AllowlistVersion = ma_AllowlistVersion (mw_raw m),
      mw_AllowlistDigest = ma_AllowlistDigest (mw_raw m)\<rparr> = m" by (simp add: mw_raw_def)
  moreover have "ma_FormatVersion (mw_raw m) = matchedWorkloadVersion" by (simp add: mw_raw_def)
  ultimately show ?thesis using m d by (simp add: UnmarshalMatchedWorkload_def Let_def)
qed

text \<open>A valid stamp can always be encoded.\<close>

lemma Marshal_valid:
  assumes "mw_Validate m"
  obtains der where "MarshalMatchedWorkloadExtension m = Inr (OIDMatchedWorkload, der)"
  using assms ValidWorkloadName_ascii version_ascii that
  by (auto simp: MarshalMatchedWorkloadExtension_def mw_Validate_def marshal_matched_def der_IA5_def mw_raw_def)

lemma token_Verify_Inr:
  assumes "token_Verify H pkix verify dec s key pub nonce = Inr v"
  obtains ikey tok der where "key = Some ikey" "nonce \<noteq> []"
    "verify ikey (sandboxTokenSigningHash H (st_Token s)) (st_Signature s)" "dec (st_Token s) = Some (tok, [])"
    "tk_Version tok = sandboxTokenVersion" "tk_Nonce tok = nonce" "pkix pub = Some der" "tk_KeyDigest tok = H der"
    "v = \<lparr>vs_SandboxID = tk_SandboxID tok, vs_InventoryHost = tk_InventoryHost tok\<rparr>"
    "ValidateInventoryHost (tk_InventoryHost tok) = Inr ()"
  using assms
  by (auto simp: token_Verify_def RequesterKeyDigest_def bindE_Inr_iff split: option.splits if_splits)

lemma mask_all: "mask_bytes bs (8 * length bs) = bs"
  by (induction bs) (auto simp: algebra_simps)

lemma To4_length: "To4 ip = Some v \<Longrightarrow> length v = 4"
  by (auto simp: To4_def split: if_splits)

lemma To4_inj:
  assumes "To4 ip = Some v" and "To4 ip' = Some v" and "length ip = 16" and "length ip' = 16"
  shows "ip' = ip"
proof -
  have form: "q = replicate 10 0 @ [255, 255] @ v" if "To4 q = Some v" "length q = 16" for q
  proof -
    have q: "take 10 q = replicate 10 0" "q ! 10 = 255" "q ! 11 = 255" "v = drop 12 q"
      using that by (auto simp: To4_def split: if_splits)
    have "drop 10 q = q ! 10 # q ! 11 # drop 12 q" using that(2) by (simp add: Cons_nth_drop_Suc numeral_eq_Suc)
    thus ?thesis using q append_take_drop_id[of 10 q] by simp
  qed
  show ?thesis using form[of ip] form[of ip'] assms by simp
qed

lemma host_route_Contains:
  assumes "length ip = 16" and "length ip' = 16" and "net_Contains (host_route ip) ip'"
  shows "ip' = ip"
proof (cases "To4 ip")
  case (Some v)
  hence v: "length (short_ip ip') = length v" "mask_bytes (short_ip ip') 32 = mask_bytes v 32" "length v = 4"
    using assms(3) To4_length by (auto simp: net_Contains_def network_number_def host_route_def)
  hence "short_ip ip' = v" using mask_all[of v] mask_all[of "short_ip ip'"] by simp
  moreover have "To4 ip' \<noteq> None" using v(1,3) assms(2) by (auto simp: short_ip_def split: option.splits)
  ultimately have "To4 ip' = Some v" by (auto simp: short_ip_def split: option.splits)
  thus ?thesis using To4_inj[OF Some _ assms(1,2)] by simp
next
  case None
  hence v: "length (short_ip ip') = 16" "mask_bytes (short_ip ip') 128 = mask_bytes ip 128"
    using assms by (auto simp: net_Contains_def network_number_def host_route_def)
  hence "To4 ip' = None" using To4_length by (cases "To4 ip'") (auto simp: short_ip_def)
  thus ?thesis using v mask_all[of ip] mask_all[of ip'] assms(1,2) by (simp add: short_ip_def)
qed

lemma host_route_self: "length ip = 16 \<Longrightarrow> net_Contains (host_route ip) ip"
  by (cases "To4 ip") (auto simp: net_Contains_def network_number_def host_route_def short_ip_def)

text \<open>Every host of the bound is the route to a usable node address outside the pod ranges.\<close>

definition node_address :: "Node list \<Rightarrow> ip \<Rightarrow> bool" where
  "node_address nodes ip =
     ((\<exists>n\<in>set nodes. \<exists>a\<in>set (nd_InternalIPs n). ParseIP a = Some ip) \<and> IsGlobalUnicast ip \<and>
      (\<forall>r\<in>set (pod_ranges nodes). \<not> net_Contains r ip))"

lemma add_addresses_sound:
  assumes "\<forall>h\<in>set (fst st). \<exists>ip. h = host_route ip \<and> node_address nodes ip" and "n \<in> set nodes" and "set as \<subseteq> set (nd_InternalIPs n)"
  shows "\<forall>h\<in>set (fst (fold (add_address (pod_ranges nodes) (nd_Name n)) as st)). \<exists>ip. h = host_route ip \<and> node_address nodes ip"
  using assms(1,3)
proof (induction as arbitrary: st)
  case (Cons a as)
  have "\<forall>h\<in>set (fst (add_address (pod_ranges nodes) (nd_Name n) a st)). \<exists>ip. h = host_route ip \<and> node_address nodes ip"
    using Cons.prems assms(2) by (auto simp: add_address_def node_address_def list_ex_iff split: option.splits)
  thus ?case using Cons.IH Cons.prems(2) by simp
qed simp

lemma NodeHostCIDRs_sound:
  "h \<in> set (fst (NodeHostCIDRs nodes)) \<Longrightarrow> \<exists>ip. h = host_route ip \<and> node_address nodes ip"
proof -
  have "\<forall>h\<in>set (fst (fold (\<lambda>n. fold (add_address (pod_ranges nodes) (nd_Name n)) (nd_InternalIPs n)) ns st)).
      \<exists>ip. h = host_route ip \<and> node_address nodes ip"
    if "set ns \<subseteq> set nodes" "\<forall>h\<in>set (fst st). \<exists>ip. h = host_route ip \<and> node_address nodes ip" for ns st
    using that
  proof (induction ns arbitrary: st)
    case (Cons n ns)
    have "n \<in> set nodes" "set ns \<subseteq> set nodes" using Cons.prems(1) by simp_all
    from Cons.IH[OF this(2) add_addresses_sound[OF Cons.prems(2) this(1) subset_refl]]
    show ?case by (simp only: fold_Cons comp_apply)
  qed simp
  from this[of nodes "([], [])"] show "h \<in> set (fst (NodeHostCIDRs nodes)) \<Longrightarrow> \<exists>ip. h = host_route ip \<and> node_address nodes ip"
    by (simp add: NodeHostCIDRs_def)
qed

section \<open>Properties\<close>

text \<open>C38: \<^bold>\<open>One encoding per stamp.\<close> Whatever the DER decoder does, bytes that \<^verbatim>\<open>UnmarshalMatchedWorkload\<close>
  accepts are exactly the bytes \<^verbatim>\<open>MarshalMatchedWorkloadExtension\<close> writes for the value it returns, so no two extension
  values name the same matched workload; and if the decoder inverts the encoder on a stamp, every valid stamp comes back.\<close>

theorem matched_workload_canonical:
  assumes "marshal_matched (mw_raw m) = Some der \<Longrightarrow> dec der = Some (mw_raw m, [])"
  shows "UnmarshalMatchedWorkload dec der = Inr m \<longleftrightarrow> MarshalMatchedWorkloadExtension m = Inr (OIDMatchedWorkload, der)"
proof
  assume "UnmarshalMatchedWorkload dec der = Inr m"
  thus "MarshalMatchedWorkloadExtension m = Inr (OIDMatchedWorkload, der)" by (rule Unmarshal_Inr)
next
  assume "MarshalMatchedWorkloadExtension m = Inr (OIDMatchedWorkload, der)"
  thus "UnmarshalMatchedWorkload dec der = Inr m" by (rule Marshal_Inr_Unmarshal) (rule assms)
qed

text \<open>\<^bold>\<open>A sandbox token is good for one request of one key.\<close> If one envelope verifies twice, whatever inventory keys are
  used, then both times it was for the same challenge and the same requester key (unless SHA-256 collides on the two key encodings)
  and it established the same sandbox and host; the signature covers the token under the token domain.\<close>

theorem sandbox_token_binds:
  assumes "token_Verify H pkix verify dec s k1 p1 n1 = Inr v1" and "token_Verify H pkix verify dec s k2 p2 n2 = Inr v2"
    and "pkix p1 = Some d1" and "pkix p2 = Some d2" and "H d1 = H d2 \<longrightarrow> d1 = d2"
  shows "n1 = n2 \<and> d1 = d2 \<and> v1 = v2 \<and> n1 \<noteq> [] \<and>
    (\<exists>ik. k1 = Some ik \<and> verify ik (H (sandboxTokenDomainSep @ st_Token s)) (st_Signature s))"
proof -
  from assms(1) obtain ik t where 1: "k1 = Some ik" "n1 \<noteq> []" "verify ik (sandboxTokenSigningHash H (st_Token s)) (st_Signature s)"
      "dec (st_Token s) = Some (t, [])" "tk_Nonce t = n1" "tk_KeyDigest t = H d1"
      "v1 = \<lparr>vs_SandboxID = tk_SandboxID t, vs_InventoryHost = tk_InventoryHost t\<rparr>"
    using assms(3) by (elim token_Verify_Inr) simp
  from assms(2) obtain t' where 2: "dec (st_Token s) = Some (t', [])" "tk_Nonce t' = n2" "tk_KeyDigest t' = H d2"
      "v2 = \<lparr>vs_SandboxID = tk_SandboxID t', vs_InventoryHost = tk_InventoryHost t'\<rparr>"
    using assms(4) by (elim token_Verify_Inr) simp
  show ?thesis using 1 2 assms(5) by (auto simp: sandboxTokenSigningHash_def)
qed

text \<open>\<^bold>\<open>What the inventory signs, CDS verifies.\<close> A token that a signer on a usable host issues for a requester key and a
  challenge verifies under the signer's public key for exactly that key and challenge, and yields the signed sandbox and the signer's
  own host, if the DER decoder inverts the encoder on the token and the signature scheme is correct.\<close>

theorem sandbox_token_roundtrip:
  assumes "NewSandboxTokenSigner host = Inr h" and "RequesterKeyDigest H pkix pub = Inr kd"
    and "token_Sign H sign h sid kd nonce = Inr s"
    and "marshal_token (token_body h sid kd nonce) = Some (st_Token s) \<Longrightarrow> dec (st_Token s) = Some (token_body h sid kd nonce, [])"
    and "\<And>m sig. sign m = Some sig \<Longrightarrow> verify ikey m sig"
  shows "token_Verify H pkix verify dec s (Some ikey) pub nonce = Inr \<lparr>vs_SandboxID = sid, vs_InventoryHost = host\<rparr>"
proof -
  have h: "h = host" "ValidateInventoryHost host = Inr ()"
    using assms(1) by (auto simp: NewSandboxTokenSigner_def bindE_Inr_iff)
  from assms(3) have s: "marshal_token (token_body h sid kd nonce) = Some (st_Token s)"
      "sign (sandboxTokenSigningHash H (st_Token s)) = Some (st_Signature s)" "nonce \<noteq> []"
    by (auto simp: token_Sign_def split: if_splits option.splits)
  have v: "verify ikey (sandboxTokenSigningHash H (st_Token s)) (st_Signature s)" by (rule assms(5)[OF s(2)])
  have d: "dec (st_Token s) = Some (token_body host sid kd nonce, [])" using assms(4)[OF s(1)] h(1) by simp
  show ?thesis using assms(2) d v s(3) h(2) by (simp add: token_Verify_def token_body_def)
qed

text \<open>\<^bold>\<open>The inventory dial bound holds node addresses only.\<close> After \<^verbatim>\<open>SetNodes\<close>, a host is inside the bound only
  if it denotes the internal address of one of the nodes, that address is global unicast, and it lies in no pod range of any node: a pod
  address never passes for a node, in whatever spelling it is given.\<close>

theorem node_hosts_safe:
  assumes "nodehosts_Contains (fst (SetNodes nodes h)) host"
  shows "\<exists>ip. ParseIP host = Some ip \<and> IsGlobalUnicast ip \<and>
    (\<exists>n\<in>set nodes. \<exists>a\<in>set (nd_InternalIPs n). ParseIP a = Some ip) \<and> (\<forall>r\<in>set (pod_ranges nodes). \<not> net_Contains r ip)"
proof -
  from assms obtain ip n where ip: "ParseIP host = Some ip" "n \<in> set (fst (NodeHostCIDRs nodes))" "net_Contains n ip"
    by (auto simp: nodehosts_Contains_def SetNodes_def cidr_contains_def list_ex_iff split: option.splits)
  from NodeHostCIDRs_sound[OF ip(2)] obtain ip' where ip': "n = host_route ip'" "node_address nodes ip'" by blast
  then obtain a where "ParseIP a = Some ip'" by (auto simp: node_address_def)
  hence "ip = ip'" using host_route_Contains[OF ParseIP_length ParseIP_length[OF ip(1)]] ip(3) ip'(1) by blast
  thus ?thesis using ip(1) ip'(2) by (auto simp: node_address_def)
qed

section \<open>Witnesses\<close>

definition sample_stamp :: MatchedWorkload where
  "sample_stamp = \<lparr>mw_Name = ''web'', mw_AllowlistVersion = ''12'', mw_AllowlistDigest = replicate 32 (CHR ''x'')\<rparr>"

lemma sample_stamp_valid: "mw_Validate sample_stamp"
  by (simp add: mw_Validate_def sample_stamp_def ValidWorkloadName_def workloadNameGrammarOK_def name_byte_def less_eq_char_def
      MaxWorkloadNameLen_def allowlistVersionPattern_def is_digit_def)

theorem matched_workload_canonical_witness:
  "\<exists>der. UnmarshalMatchedWorkload (\<lambda>d. if Some d = marshal_matched (mw_raw sample_stamp) then Some (mw_raw sample_stamp, []) else None)
      der = Inr sample_stamp"
proof -
  obtain der where m: "MarshalMatchedWorkloadExtension sample_stamp = Inr (OIDMatchedWorkload, der)"
    using Marshal_valid[OF sample_stamp_valid] by blast
  let ?dec = "\<lambda>d. if Some d = marshal_matched (mw_raw sample_stamp) then Some (mw_raw sample_stamp, [] :: string) else None"
  have "UnmarshalMatchedWorkload ?dec der = Inr sample_stamp \<longleftrightarrow>
      MarshalMatchedWorkloadExtension sample_stamp = Inr (OIDMatchedWorkload, der)"
    by (rule matched_workload_canonical) simp
  thus ?thesis using m by blast
qed

definition sample_host :: string where
  "sample_host = ''10.0.0.1''"

lemma sample_host_ip: "ParseIP sample_host = Some (v4_in_6 [10, 0, 0, 1])"
  by (simp add: sample_host_def ParseIP_def parse_v4_def octet_def is_digit_def digit_val_def)

lemma sample_host_global: "IsGlobalUnicast (v4_in_6 [10, 0, 0, 1])"
proof -
  have "To4 (v4_in_6 [10, 0, 0, 1]) = Some [10, 0, 0, 1]" by (simp add: v4_in_6_def To4_def nth_append)
  moreover have "v4_in_6 [10, 0, 0, 1] \<noteq> replicate 16 0" by (simp add: v4_in_6_def numeral_eq_Suc)
  moreover have "length (v4_in_6 [10, 0, 0, 1]) = 16" by (simp add: v4_in_6_def)
  ultimately show ?thesis
    by (simp add: IsGlobalUnicast_def IsUnspecified_def IsLoopback_def IsMulticast_def IsLinkLocalUnicast_def)
qed

lemma sample_host_valid: "NewSandboxTokenSigner sample_host = Inr sample_host"
  by (simp add: NewSandboxTokenSigner_def ValidateInventoryHost_def parseInventoryHost_def sample_host_ip sample_host_global del: One_nat_def)

definition sample_body :: sandboxTokenASN1 where
  "sample_body = token_body sample_host ''sbx'' ''k'' ''n''"

definition sample_token :: SignedSandboxToken where
  "sample_token = \<lparr>st_Token = the (marshal_token sample_body), st_Signature = ''sig''\<rparr>"

definition sample_dec :: "sandboxTokenASN1 asn1_decoder" where
  "sample_dec d = (if d = st_Token sample_token then Some (sample_body, []) else None)"

lemma sample_token_signed: "token_Sign (\<lambda>x. x) (\<lambda>_. Some ''sig'') sample_host ''sbx'' ''k'' ''n'' = Inr sample_token"
  by (simp add: token_Sign_def sample_token_def sample_body_def marshal_token_def token_body_def der_IA5_def sample_host_def)

theorem sandbox_token_roundtrip_witness:
  "token_Verify (\<lambda>x. x) (\<lambda>p. Some ''k'') (\<lambda>k m g. g = ''sig'') sample_dec sample_token (Some ()) () ''n'' =
     Inr \<lparr>vs_SandboxID = ''sbx'', vs_InventoryHost = sample_host\<rparr>"
  by (rule sandbox_token_roundtrip[OF sample_host_valid _ sample_token_signed])
    (simp_all add: RequesterKeyDigest_def sample_dec_def sample_body_def)

lemma sample_verified:
  "token_Verify (\<lambda>x. x) (\<lambda>p. Some ''k'') (\<lambda>k m g. g = ''sig'') sample_dec sample_token (Some ()) () ''n'' =
     Inr \<lparr>vs_SandboxID = ''sbx'', vs_InventoryHost = sample_host\<rparr>"
  using sample_host_valid
  by (auto simp: token_Verify_def sample_dec_def sample_token_def sample_body_def token_body_def
      RequesterKeyDigest_def NewSandboxTokenSigner_def bindE_Inr_iff)

theorem sandbox_token_binds_witness:
  "''n'' \<noteq> [] \<and> (\<exists>ik. Some () = Some ik \<and> (\<lambda>k m g. g = ''sig'') ik ((\<lambda>x. x) (sandboxTokenDomainSep @ st_Token sample_token))
      (st_Signature sample_token))"
  using sandbox_token_binds[OF sample_verified sample_verified, of "''k''" "''k''"] by simp

theorem node_hosts_safe_witness:
  "nodehosts_Contains (fst (SetNodes [\<lparr>nd_Name = ''n'', nd_PodCIDR = [], nd_PodCIDRs = [], nd_InternalIPs = [sample_host]\<rparr>] None))
     sample_host \<and> (\<exists>ip. ParseIP sample_host = Some ip \<and> IsGlobalUnicast ip)"
proof -
  let ?ns = "[\<lparr>nd_Name = ''n'', nd_PodCIDR = [], nd_PodCIDRs = [], nd_InternalIPs = [sample_host]\<rparr>]"
  have "pod_ranges ?ns = []" by (simp add: pod_ranges_def map_filter_simps)
  hence "fst (SetNodes ?ns None) = Some [host_route (v4_in_6 [10, 0, 0, 1])]"
    using sample_host_global by (simp add: SetNodes_def NodeHostCIDRs_def add_address_def sample_host_ip del: One_nat_def)
  hence "nodehosts_Contains (fst (SetNodes ?ns None)) sample_host"
    using host_route_self[of "v4_in_6 [10, 0, 0, 1]"]
    by (simp add: nodehosts_Contains_def cidr_contains_def sample_host_ip) (simp add: v4_in_6_def)
  thus ?thesis using node_hosts_safe[of ?ns None sample_host] by blast
qed

end
