(* ===== verification/Issuer.thy ===== *)
theory Issuer
  imports Sandbox_Claims
begin

text \<open>
  The in-process certificate issuer (\<^verbatim>\<open>src/internal/issuer\<close>: \<^verbatim>\<open>policy.go\<close>, \<^verbatim>\<open>sign.go\<close>, the lifetime caps of \<^verbatim>\<open>issuer.go\<close>;
  \<^verbatim>\<open>src/pkg/certutil\<close>: leaf templates). A compiled regular expression is the function \<^verbatim>\<open>FindStringIndex\<close> of it. A certificate is its
  template with the subject's key; the signature over it is not represented, only whether signing fails. Durations are in seconds.
\<close>

section \<open>Requests and policy\<close>

datatype 'p public_key = ECDSAKey 'p | OtherKey

record 'p csr =
  cr_CommonName :: string
  cr_DNSNames :: "string list"
  cr_IPAddresses :: "ip list"
  cr_Extensions :: "(oid \<times> string) list"
  cr_PublicKey :: "'p public_key"

type_synonym regexp = "string \<Rightarrow> (nat \<times> nat) option"

record CSRPolicy =
  pl_DNSSANPatterns :: "regexp option list"
  pl_AllowedCNPattern :: "regexp option"
  pl_SourceIP :: string

datatype csr_error = ErrDNSNotConfigured | ErrDNSPattern | ErrCNPattern | ErrIPDisabled | ErrManyIPs | ErrSourceIP | ErrIPMismatch

definition fullRegexMatch :: "regexp \<Rightarrow> string \<Rightarrow> bool" where
  "fullRegexMatch re v = (case re v of None \<Rightarrow> False | Some (a, b) \<Rightarrow> a = 0 \<and> b = length v)"

definition matchesAnyPattern :: "string \<Rightarrow> regexp option list \<Rightarrow> bool" where
  "matchesAnyPattern v patterns = list_ex (\<lambda>re. case re of None \<Rightarrow> False | Some r \<Rightarrow> fullRegexMatch r v) patterns"

definition parseSourceIP :: "string \<Rightarrow> ip option" where
  "parseSourceIP host = ParseIP (takeWhile (\<lambda>c. c \<noteq> CHR ''%'') host)"

text \<open>\<^verbatim>\<open>net.IP.Equal\<close>: an IPv4 address equals its IPv4-in-IPv6 form.\<close>

definition ip_Equal :: "ip \<Rightarrow> ip \<Rightarrow> bool" where
  "ip_Equal a b =
     (if length a = length b then a = b
      else if length a = 4 \<and> length b = 16 then b = v4_in_6 a
      else if length a = 16 \<and> length b = 4 then a = v4_in_6 b
      else False)"

definition ValidateCSR :: "'p csr \<Rightarrow> CSRPolicy \<Rightarrow> csr_error + unit" where
  "ValidateCSR csr p =
     bindE (if length (cr_DNSNames csr) > 0 then
              (if length (pl_DNSSANPatterns p) = 0 then Inl ErrDNSNotConfigured
               else guardE (list_all (\<lambda>dns. matchesAnyPattern dns (pl_DNSSANPatterns p)) (cr_DNSNames csr)) ErrDNSPattern)
            else Inr ()) (\<lambda>_.
     bindE (case pl_AllowedCNPattern p of
              None \<Rightarrow> Inr ()
            | Some re \<Rightarrow> if cr_CommonName csr \<noteq> [] then guardE (fullRegexMatch re (cr_CommonName csr)) ErrCNPattern else Inr ()) (\<lambda>_.
       if pl_SourceIP p = [] then guardE (length (cr_IPAddresses csr) = 0) ErrIPDisabled
       else if length (cr_IPAddresses csr) > 0 then
         (if length (cr_IPAddresses csr) > 1 then Inl ErrManyIPs
          else case parseSourceIP (pl_SourceIP p) of
                 None \<Rightarrow> Inl ErrSourceIP
               | Some source \<Rightarrow> guardE (ip_Equal (hd (cr_IPAddresses csr)) source) ErrIPMismatch)
       else Inr ()))"

text \<open>\<^verbatim>\<open>strings.IndexByte\<close> and \<^verbatim>\<open>LastIndexByte\<close>; \<^verbatim>\<open>net.SplitHostPort\<close>.\<close>

definition IndexByte :: "string \<Rightarrow> char \<Rightarrow> nat option" where
  "IndexByte s c = (if c \<in> set s then Some (length (takeWhile (\<lambda>d. d \<noteq> c) s)) else None)"

definition LastIndexByte :: "string \<Rightarrow> char \<Rightarrow> nat option" where
  "LastIndexByte s c = map_option (\<lambda>i. length s - 1 - i) (IndexByte (rev s) c)"

definition SplitHostPort :: "string \<Rightarrow> (string \<times> string) option" where
  "SplitHostPort hostport =
     (case LastIndexByte hostport (CHR '':'') of
        None \<Rightarrow> None
      | Some i \<Rightarrow>
          (let parts =
             (if hd hostport = CHR ''['' then
                (case IndexByte hostport (CHR '']'') of
                   None \<Rightarrow> None
                 | Some e \<Rightarrow> if e + 1 = i then Some (take (e - 1) (drop 1 hostport), 1, e + 1) else None)
              else if CHR '':'' \<in> set (take i hostport) then None
              else Some (take i hostport, 0, 0))
           in case parts of
                None \<Rightarrow> None
              | Some (host, j, k) \<Rightarrow>
                  if CHR ''['' \<in> set (drop j hostport) then None
                  else if CHR '']'' \<in> set (drop k hostport) then None
                  else Some (host, drop (i + 1) hostport)))"

definition SourceIPFromRemoteAddr :: "string \<Rightarrow> string" where
  "SourceIPFromRemoteAddr remoteAddr = (case SplitHostPort remoteAddr of None \<Rightarrow> remoteAddr | Some (host, _) \<Rightarrow> host)"

section \<open>Lifetimes\<close>

abbreviation (input) DefaultLeafTTL :: int where "DefaultLeafTTL \<equiv> 24 * 3600"
definition MaxLeafTTL :: int where "MaxLeafTTL = 24 * 3600"
definition MaxNamedLeafTTL :: int where "MaxNamedLeafTTL = 6 * 3600"

definition CapTTL :: "int \<Rightarrow> int \<Rightarrow> int" where
  "CapTTL requested mx =
     (let requested = (if requested \<le> 0 then DefaultLeafTTL else requested) in
      if mx > 0 \<and> requested > mx then mx else requested)"

section \<open>Signing\<close>

abbreviation OIDRATLSAttestation :: oid where "OIDRATLSAttestation \<equiv> OIDOther 1"
abbreviation OIDAttestationDigest :: oid where "OIDAttestationDigest \<equiv> OIDOther 2"

record 'p leaf_template =
  lt_SerialNumber :: nat
  lt_CommonName :: string
  lt_NotBefore :: int
  lt_NotAfter :: int
  lt_DNSNames :: "string list"
  lt_IPAddresses :: "ip list"
  lt_ExtraExtensions :: "(oid \<times> string) list"
  lt_PublicKey :: "'p public_key"

datatype sign_error = ErrCANotLoaded | ErrNoCSR | ErrSerial | ErrExtension claims_error | ErrCreate

text \<open>What the outside contributes to one signature: the serial number, the clock, and whether \<^verbatim>\<open>CreateCertificate\<close> succeeds.\<close>

record sign_moment =
  sm_serial :: "nat option"
  sm_now :: int
  sm_ok :: bool

definition NewLeafTemplate :: "sign_moment \<Rightarrow> string \<Rightarrow> int \<Rightarrow> sign_error + 'p leaf_template" where
  "NewLeafTemplate m commonName ttl =
     (case sm_serial m of
        None \<Rightarrow> Inl ErrSerial
      | Some serial \<Rightarrow> Inr \<lparr>lt_SerialNumber = serial, lt_CommonName = commonName, lt_NotBefore = sm_now m, lt_NotAfter = sm_now m + ttl,
          lt_DNSNames = [], lt_IPAddresses = [], lt_ExtraExtensions = [], lt_PublicKey = OtherKey\<rparr>)"

definition AppendAttestationDigest :: "string \<Rightarrow> 'p leaf_template \<Rightarrow> 'p leaf_template" where
  "AppendAttestationDigest digest t =
     (if length digest = 0 then t
      else t\<lparr>lt_ExtraExtensions := lt_ExtraExtensions t @ [(OIDAttestationDigest, der_OCTETS digest)]\<rparr>)"

definition copyRATLSExtension :: "'p csr \<Rightarrow> 'p leaf_template \<Rightarrow> 'p leaf_template" where
  "copyRATLSExtension csr t =
     (case find (\<lambda>e. fst e = OIDRATLSAttestation) (cr_Extensions csr) of
        None \<Rightarrow> t
      | Some e \<Rightarrow> t\<lparr>lt_ExtraExtensions := lt_ExtraExtensions t @ [e]\<rparr>)"

record 'p SignCSRParams =
  sp_CSR :: "'p csr option"
  sp_TTL :: int
  sp_Evidence :: string
  sp_SandboxID :: string
  sp_MatchedWorkload :: "MatchedWorkload option"

text \<open>\<open>loaded\<close> says that the CA has its certificate and key.\<close>

definition SignCSR :: "hash \<Rightarrow> bool \<Rightarrow> sign_moment \<Rightarrow> 'p SignCSRParams \<Rightarrow> sign_error + 'p leaf_template" where
  "SignCSR H loaded m p =
     (if \<not> loaded then Inl ErrCANotLoaded
      else case sp_CSR p of
        None \<Rightarrow> Inl ErrNoCSR
      | Some csr \<Rightarrow>
          bindE (NewLeafTemplate m (cr_CommonName csr) (sp_TTL p)) (\<lambda>t0.
          let t1 = t0\<lparr>lt_DNSNames := cr_DNSNames csr, lt_IPAddresses := cr_IPAddresses csr\<rparr>;
              t2 = copyRATLSExtension csr (AppendAttestationDigest (H (sp_Evidence p)) t1) in
          bindE (if sp_SandboxID p \<noteq> [] then
                   bindE (wrapE ErrExtension (MarshalSandboxIDExtension (sp_SandboxID p))) (\<lambda>e.
                     Inr (t2\<lparr>lt_ExtraExtensions := lt_ExtraExtensions t2 @ [e]\<rparr>))
                 else Inr t2) (\<lambda>t3.
          bindE (case sp_MatchedWorkload p of
                   None \<Rightarrow> Inr t3
                 | Some mw \<Rightarrow> bindE (wrapE ErrExtension (MarshalMatchedWorkloadExtension mw)) (\<lambda>e.
                     Inr (t3\<lparr>lt_ExtraExtensions := lt_ExtraExtensions t3 @ [e]\<rparr>))) (\<lambda>t4.
            if \<not> sm_ok m then Inl ErrCreate else Inr (t4\<lparr>lt_PublicKey := cr_PublicKey csr\<rparr>)))))"

text \<open>What a verifier reads from an issued leaf.\<close>

definition leaf_cert :: "'p \<Rightarrow> 'p leaf_template \<Rightarrow> 'p cert" where
  "leaf_cert pub t = \<lparr>ct_PublicKey = pub, ct_Extensions = lt_ExtraExtensions t\<rparr>"

section \<open>Lemmas\<close>

lemma ValidateCSR_Inr:
  "ValidateCSR csr p = Inr () \<longleftrightarrow>
     (\<forall>dns\<in>set (cr_DNSNames csr). \<exists>re. Some re \<in> set (pl_DNSSANPatterns p) \<and> re dns = Some (0, length dns)) \<and>
     (\<forall>re. pl_AllowedCNPattern p = Some re \<and> cr_CommonName csr \<noteq> [] \<longrightarrow> re (cr_CommonName csr) = Some (0, length (cr_CommonName csr))) \<and>
     (cr_IPAddresses csr = [] \<or>
      pl_SourceIP p \<noteq> [] \<and> (\<exists>addr source. cr_IPAddresses csr = [addr] \<and> parseSourceIP (pl_SourceIP p) = Some source \<and> ip_Equal addr source))"
proof -
  have match: "matchesAnyPattern v ps \<longleftrightarrow> (\<exists>re. Some re \<in> set ps \<and> re v = Some (0, length v))" for v ps
    unfolding matchesAnyPattern_def by (induction ps) (auto simp: fullRegexMatch_def split: option.splits)
  have dns: "(if length (cr_DNSNames csr) > 0 then
              (if length (pl_DNSSANPatterns p) = 0 then Inl ErrDNSNotConfigured
               else guardE (list_all (\<lambda>dns. matchesAnyPattern dns (pl_DNSSANPatterns p)) (cr_DNSNames csr)) ErrDNSPattern)
            else Inr ()) = Inr () \<longleftrightarrow>
      (\<forall>dns\<in>set (cr_DNSNames csr). \<exists>re. Some re \<in> set (pl_DNSSANPatterns p) \<and> re dns = Some (0, length dns))"
    by (cases "cr_DNSNames csr") (auto simp: list_all_iff match)
  have cn: "(case pl_AllowedCNPattern p of None \<Rightarrow> Inr ()
            | Some re \<Rightarrow> if cr_CommonName csr \<noteq> [] then guardE (fullRegexMatch re (cr_CommonName csr)) ErrCNPattern else Inr ()) = Inr () \<longleftrightarrow>
      (\<forall>re. pl_AllowedCNPattern p = Some re \<and> cr_CommonName csr \<noteq> [] \<longrightarrow> re (cr_CommonName csr) = Some (0, length (cr_CommonName csr)))"
    by (auto simp: fullRegexMatch_def split: option.splits)
  have ips: "(if pl_SourceIP p = [] then guardE (length xs = 0) ErrIPDisabled
       else if length xs > 0 then
         (if length xs > 1 then Inl ErrManyIPs
          else case parseSourceIP (pl_SourceIP p) of None \<Rightarrow> Inl ErrSourceIP | Some source \<Rightarrow> guardE (ip_Equal (hd xs) source) ErrIPMismatch)
       else Inr ()) = Inr () \<longleftrightarrow>
      (xs = [] \<or> pl_SourceIP p \<noteq> [] \<and> (\<exists>addr source. xs = [addr] \<and> parseSourceIP (pl_SourceIP p) = Some source \<and> ip_Equal addr source))"
    for xs by (cases xs rule: list.exhaust; cases "tl xs") (auto split: option.splits)
  show ?thesis unfolding ValidateCSR_def bindE_Inr_iff using dns cn ips by simp
qed

lemma CapTTL_bounds: "0 < CapTTL r mx" "0 < mx \<Longrightarrow> CapTTL r mx \<le> mx"
  by (auto simp: CapTTL_def Let_def)

text \<open>The extensions of a leaf: those that identify nothing, then the sandbox ID, then the matched workload.\<close>

definition plain_exts :: "(oid \<times> string) list \<Rightarrow> bool" where
  "plain_exts es = list_all (\<lambda>e. fst e \<notin> {OIDSandboxID, OIDMatchedWorkload}) es"

lemma find_SomeD: "find P xs = Some e \<Longrightarrow> P e"
  by (induction xs) (auto split: if_splits)

lemma SignCSR_Inr:
  fixes t :: "'p leaf_template"
  assumes "SignCSR H loaded m p = Inr t"
  obtains csr pre se me where "sp_CSR p = Some csr" "lt_PublicKey t = cr_PublicKey csr" "lt_CommonName t = cr_CommonName csr"
    "lt_DNSNames t = cr_DNSNames csr" "lt_IPAddresses t = cr_IPAddresses csr" "lt_NotAfter t - lt_NotBefore t = sp_TTL p"
    "plain_exts pre" "lt_ExtraExtensions t = pre @ se @ me"
    "if sp_SandboxID p = [] then se = [] else \<exists>e. MarshalSandboxIDExtension (sp_SandboxID p) = Inr e \<and> se = [e]"
    "case sp_MatchedWorkload p of None \<Rightarrow> me = [] | Some w \<Rightarrow> \<exists>e. MarshalMatchedWorkloadExtension w = Inr e \<and> me = [e]"
proof -
  from assms obtain csr and t0 :: "'p leaf_template" where c: "sp_CSR p = Some csr" "NewLeafTemplate m (cr_CommonName csr) (sp_TTL p) = Inr t0"
    by (auto simp: SignCSR_def bindE_Inr_iff split: if_splits option.splits)
  define t1 where "t1 = t0\<lparr>lt_DNSNames := cr_DNSNames csr, lt_IPAddresses := cr_IPAddresses csr\<rparr>"
  define t2 where "t2 = copyRATLSExtension csr (AppendAttestationDigest (H (sp_Evidence p)) t1)"
  have t0: "lt_CommonName t0 = cr_CommonName csr" "lt_NotAfter t0 - lt_NotBefore t0 = sp_TTL p" "lt_ExtraExtensions t0 = []"
    using c(2) by (auto simp: NewLeafTemplate_def split: option.splits)
  have t2: "lt_CommonName t2 = cr_CommonName csr" "lt_NotAfter t2 - lt_NotBefore t2 = sp_TTL p" "lt_DNSNames t2 = cr_DNSNames csr"
      "lt_IPAddresses t2 = cr_IPAddresses csr" "plain_exts (lt_ExtraExtensions t2)"
    using t0 by (auto simp: t2_def t1_def copyRATLSExtension_def AppendAttestationDigest_def plain_exts_def dest!: find_SomeD
        split: option.splits)
  have "SignCSR H loaded m p = Inr t \<Longrightarrow> \<exists>se me.
      t = t2\<lparr>lt_ExtraExtensions := lt_ExtraExtensions t2 @ se @ me, lt_PublicKey := cr_PublicKey csr\<rparr> \<and>
      (if sp_SandboxID p = [] then se = [] else \<exists>e. MarshalSandboxIDExtension (sp_SandboxID p) = Inr e \<and> se = [e]) \<and>
      (case sp_MatchedWorkload p of None \<Rightarrow> me = [] | Some w \<Rightarrow> \<exists>e. MarshalMatchedWorkloadExtension w = Inr e \<and> me = [e])"
    by (cases "sp_SandboxID p = []"; cases "sp_MatchedWorkload p")
      (auto simp: SignCSR_def c bindE_Inr_iff Let_def t1_def[symmetric] t2_def[symmetric] split: if_splits)
  then obtain se me where "t = t2\<lparr>lt_ExtraExtensions := lt_ExtraExtensions t2 @ se @ me, lt_PublicKey := cr_PublicKey csr\<rparr>"
      "if sp_SandboxID p = [] then se = [] else \<exists>e. MarshalSandboxIDExtension (sp_SandboxID p) = Inr e \<and> se = [e]"
      "case sp_MatchedWorkload p of None \<Rightarrow> me = [] | Some w \<Rightarrow> \<exists>e. MarshalMatchedWorkloadExtension w = Inr e \<and> me = [e]"
    using assms by blast
  thus thesis using t2 c(1) by (intro that[of csr "lt_ExtraExtensions t2" se me]) simp_all
qed

lemma sandbox_id_loop_plain: "plain_exts pre \<Longrightarrow> sandbox_id_loop ia5 (pre @ es) = sandbox_id_loop ia5 es"
  by (induction pre) (auto simp: plain_exts_def)

lemma matched_loop_plain: "plain_exts pre \<Longrightarrow> matched_loop dec (pre @ es) found = matched_loop dec es found"
  by (induction pre) (auto simp: plain_exts_def)

lemma sandbox_ext:
  "MarshalSandboxIDExtension sid = Inr e \<Longrightarrow>
     ValidateSandboxID sid \<and> fst e = OIDSandboxID \<and> der_IA5 sid = Some (snd e)"
  by (auto simp: MarshalSandboxIDExtension_def split: if_splits option.splits)

lemma matched_ext: "MarshalMatchedWorkloadExtension w = Inr e \<Longrightarrow> fst e = OIDMatchedWorkload"
  by (auto simp: MarshalMatchedWorkloadExtension_def split: if_splits option.splits)

section \<open>Properties\<close>

text \<open>\<^bold>\<open>A leaf identifies what the issuer decided, whatever the request carries.\<close> For any signed request, a verifier that
  extracts the sandbox ID and the matched workload from the leaf gets exactly the ones the issuer was given, or none where it was
  given none, even if the certificate request itself carries extensions of those kinds. The leaf has the request's key, names
  and addresses and the lifetime the issuer chose. The decoders are assumed to invert the encoder on the two encoded values only.\<close>

theorem leaf_identity:
  assumes "SignCSR H loaded m p = Inr t"
    and "\<And>der. der_IA5 (sp_SandboxID p) = Some der \<Longrightarrow> ia5 der = Some (sp_SandboxID p, [])"
    and "\<And>w der. sp_MatchedWorkload p = Some w \<Longrightarrow> marshal_matched (mw_raw w) = Some der \<Longrightarrow> dec der = Some (mw_raw w, [])"
  shows "SandboxIDFromCert ia5 (leaf_cert pub t) = Inr (sp_SandboxID p) \<and>
    MatchedWorkloadFromCert dec (leaf_cert pub t) = Inr (sp_MatchedWorkload p) \<and>
    (\<exists>csr. sp_CSR p = Some csr \<and> lt_PublicKey t = cr_PublicKey csr \<and> lt_CommonName t = cr_CommonName csr \<and>
       lt_DNSNames t = cr_DNSNames csr \<and> lt_IPAddresses t = cr_IPAddresses csr) \<and> lt_NotAfter t = lt_NotBefore t + sp_TTL p"
proof -
  from assms(1) obtain csr pre se me where t: "sp_CSR p = Some csr" "lt_PublicKey t = cr_PublicKey csr" "lt_CommonName t = cr_CommonName csr"
    "lt_DNSNames t = cr_DNSNames csr" "lt_IPAddresses t = cr_IPAddresses csr" "lt_NotAfter t - lt_NotBefore t = sp_TTL p"
    "plain_exts pre" "lt_ExtraExtensions t = pre @ se @ me"
    "if sp_SandboxID p = [] then se = [] else \<exists>e. MarshalSandboxIDExtension (sp_SandboxID p) = Inr e \<and> se = [e]"
    "case sp_MatchedWorkload p of None \<Rightarrow> me = [] | Some w \<Rightarrow> \<exists>e. MarshalMatchedWorkloadExtension w = Inr e \<and> me = [e]"
    by (rule SignCSR_Inr)
  have me: "me = [] \<and> sp_MatchedWorkload p = None \<or>
      (\<exists>w v. sp_MatchedWorkload p = Some w \<and> me = [(OIDMatchedWorkload, v)] \<and> MarshalMatchedWorkloadExtension w = Inr (OIDMatchedWorkload, v))"
    using t(10) matched_ext by (fastforce split: option.splits)
  have se: "se = [] \<and> sp_SandboxID p = [] \<or> (\<exists>v. se = [(OIDSandboxID, v)] \<and> ia5 v = Some (sp_SandboxID p, []) \<and> ValidateSandboxID (sp_SandboxID p))"
    using t(9) sandbox_ext[of "sp_SandboxID p"] assms(2) by (cases "sp_SandboxID p = []") fastforce+
  have "SandboxIDFromCert ia5 (leaf_cert pub t) = sandbox_id_loop ia5 (se @ me)"
    using t(7,8) by (simp add: SandboxIDFromCert_def leaf_cert_def sandbox_id_loop_plain)
  also have "\<dots> = Inr (sp_SandboxID p)" using se me by auto
  finally have sb: "SandboxIDFromCert ia5 (leaf_cert pub t) = Inr (sp_SandboxID p)" .
  have "plain_exts pre \<Longrightarrow> MatchedWorkloadFromCert dec (leaf_cert pub t) = matched_loop dec me None"
    using t(8) se by (auto simp: MatchedWorkloadFromCert_def leaf_cert_def matched_loop_plain)
  moreover have "matched_loop dec me None = Inr (sp_MatchedWorkload p)"
    using me Marshal_Inr_Unmarshal[of _ _ dec] assms(3) by (auto simp: bindE_Inr_iff)
  ultimately show ?thesis using sb t by auto
qed

definition sample_csr :: "unit csr" where
  "sample_csr = \<lparr>cr_CommonName = ''web'', cr_DNSNames = [''web.ns.svc''], cr_IPAddresses = [], cr_Extensions = [(OIDSandboxID, ''forged''),
     (OIDRATLSAttestation, ''ev''), (OIDMatchedWorkload, ''forged'')], cr_PublicKey = ECDSAKey ()\<rparr>"

definition sample_params :: "unit SignCSRParams" where
  "sample_params = \<lparr>sp_CSR = Some sample_csr, sp_TTL = 3600, sp_Evidence = ''e'', sp_SandboxID = ''sbx'', sp_MatchedWorkload = Some sample_stamp\<rparr>"

lemma sample_sign: "\<exists>t. SignCSR (\<lambda>x. x) True \<lparr>sm_serial = Some 7, sm_now = 100, sm_ok = True\<rparr> sample_params = Inr t"
proof -
  obtain der where "MarshalMatchedWorkloadExtension sample_stamp = Inr (OIDMatchedWorkload, der)"
    using Marshal_valid[OF sample_stamp_valid] by blast
  moreover have "MarshalSandboxIDExtension ''sbx'' = Inr (OIDSandboxID, tlv 22 ''sbx'')"
    by (simp add: MarshalSandboxIDExtension_def ValidateSandboxID_def sandbox_id_char_def name_byte_def der_IA5_def less_eq_char_def)
  ultimately show ?thesis
    by (simp add: SignCSR_def sample_params_def NewLeafTemplate_def Let_def bindE_def wrapE_def)
qed

theorem leaf_identity_witness:
  "\<exists>t. SandboxIDFromCert (\<lambda>d. if d = tlv 22 ''sbx'' then Some (''sbx'', []) else None) (leaf_cert () t) = Inr ''sbx'' \<and>
     MatchedWorkloadFromCert (\<lambda>d. if Some d = marshal_matched (mw_raw sample_stamp) then Some (mw_raw sample_stamp, []) else None)
       (leaf_cert () t) = Inr (Some sample_stamp) \<and> lt_NotAfter t = lt_NotBefore t + 3600"
proof -
  obtain t where t: "SignCSR (\<lambda>x. x) True \<lparr>sm_serial = Some 7, sm_now = 100, sm_ok = True\<rparr> sample_params = Inr t"
    using sample_sign by blast
  have "SandboxIDFromCert (\<lambda>d. if d = tlv 22 ''sbx'' then Some (''sbx'', []) else None) (leaf_cert () t) = Inr (sp_SandboxID sample_params) \<and>
     MatchedWorkloadFromCert (\<lambda>d. if Some d = marshal_matched (mw_raw sample_stamp) then Some (mw_raw sample_stamp, []) else None)
       (leaf_cert () t) = Inr (sp_MatchedWorkload sample_params) \<and>
     (\<exists>csr. sp_CSR sample_params = Some csr \<and> lt_PublicKey t = cr_PublicKey csr \<and> lt_CommonName t = cr_CommonName csr \<and>
       lt_DNSNames t = cr_DNSNames csr \<and> lt_IPAddresses t = cr_IPAddresses csr) \<and> lt_NotAfter t = lt_NotBefore t + sp_TTL sample_params"
    by (rule leaf_identity[OF t]) (auto simp: sample_params_def der_IA5_def)
  thus ?thesis by (intro exI[of _ t]) (simp add: sample_params_def)
qed

end
