(* ===== verification/Allowlist_Store.thy ===== *)
theory Allowlist_Store
  imports Allowlist_Normalize
begin

text \<open>
  The CDS allowlist store (\<^verbatim>\<open>src/internal/allowlist/store.go\<close>). The database holds the version
  counter, the entries by name and the digest index rows; a transaction works on a copy that becomes
  the state when it commits. Every statement of a transaction, its begin and its commit may fail:
  the argument \<^verbatim>\<open>flt\<close> says which (by position), and the theorems hold for all of them. The column
  of an entry's JSON is the entry itself: marshalling and unmarshalling a normalised entry gives it
  back.
\<close>

section \<open>State\<close>

datatype role = roleInit | roleMain

type_synonym row = "string \<times> string \<times> role"

record db =
  db_version :: nat
  db_entries :: "(string \<times> Workload) list"
  db_rows :: "row list"

record Store =
  st_db :: db
  st_gen :: nat

datatype store_error = ErrInvalidWorkload norm_error | ErrDB | ErrNilAllowlist

type_synonym fault = "nat \<Rightarrow> bool"
type_synonym tx = "nat \<times> db"

definition open_store :: Store where
  "open_store = \<lparr>st_db = \<lparr>db_version = 1, db_entries = [], db_rows = []\<rparr>, st_gen = 0\<rparr>"

section \<open>Statements and transactions\<close>

definition stmt :: "fault \<Rightarrow> (db \<Rightarrow> db) \<Rightarrow> tx \<Rightarrow> store_error + tx" where
  "stmt flt f t = (case t of (i, d) \<Rightarrow> if flt i then Inl ErrDB else Inr (Suc i, f d))"

definition query :: "fault \<Rightarrow> (db \<Rightarrow> 'a) \<Rightarrow> tx \<Rightarrow> store_error + ('a \<times> tx)" where
  "query flt f t = (case t of (i, d) \<Rightarrow> if flt i then Inl ErrDB else Inr (f d, Suc i, d))"

definition begin_tx :: "fault \<Rightarrow> Store \<Rightarrow> store_error + tx" where
  "begin_tx flt s = (if flt 0 then Inl ErrDB else Inr (1, st_db s))"

definition commitTx :: "fault \<Rightarrow> Store \<Rightarrow> tx \<Rightarrow> store_error + Store" where
  "commitTx flt s t =
     (case t of (i, d) \<Rightarrow> if flt i then Inl ErrDB else Inr \<lparr>st_db = d, st_gen = Suc (st_gen s)\<rparr>)"

definition bumpVersionTx :: "fault \<Rightarrow> tx \<Rightarrow> store_error + tx" where
  "bumpVersionTx flt = stmt flt (\<lambda>d. d\<lparr>db_version := Suc (db_version d)\<rparr>)"

text \<open>\<^verbatim>\<open>INSERT OR IGNORE\<close> on the primary key of the index.\<close>

definition row_insert :: "row \<Rightarrow> row list \<Rightarrow> row list" where
  "row_insert r rows = (if r \<in> set rows then rows else rows @ [r])"

definition index_part :: "fault \<Rightarrow> string \<Rightarrow> role \<Rightarrow> Container list \<Rightarrow> tx \<Rightarrow> store_error + tx" where
  "index_part flt name ro cs =
     foldE (\<lambda>c. stmt flt (\<lambda>d. d\<lparr>db_rows := row_insert (digest_string (c_Digest c), name, ro) (db_rows d)\<rparr>)) cs"

definition indexWorkloadTx :: "fault \<Rightarrow> string \<Rightarrow> Workload \<Rightarrow> tx \<Rightarrow> store_error + tx" where
  "indexWorkloadTx flt name w t =
     bindE (index_part flt name roleInit (elems (w_InitContainers w)) t)
       (index_part flt name roleMain (elems (w_Containers w)))"

definition del_rows :: "string \<Rightarrow> row list \<Rightarrow> row list" where
  "del_rows name rows = filter (\<lambda>(_, n, _). n \<noteq> name) rows"

definition putWorkloadTx :: "fault \<Rightarrow> string \<Rightarrow> Workload \<Rightarrow> tx \<Rightarrow> store_error + tx" where
  "putWorkloadTx flt name w t =
     bindE (stmt flt (\<lambda>d. d\<lparr>db_entries := AList.update name w (db_entries d)\<rparr>) t) (\<lambda>t1.
     bindE (stmt flt (\<lambda>d. d\<lparr>db_rows := del_rows name (db_rows d)\<rparr>) t1) (\<lambda>t2.
       indexWorkloadTx flt name w t2))"

definition replaceContentsTx :: "fault \<Rightarrow> Allowlist \<Rightarrow> tx \<Rightarrow> store_error + tx" where
  "replaceContentsTx flt al t =
     bindE (stmt flt (\<lambda>d. d\<lparr>db_entries := []\<rparr>) t) (\<lambda>t1.
     bindE (stmt flt (\<lambda>d. d\<lparr>db_rows := []\<rparr>) t1) (\<lambda>t2.
       foldE (\<lambda>(name, w) t3.
           bindE (stmt flt (\<lambda>d. d\<lparr>db_entries := db_entries d @ [(name, w)]\<rparr>) t3)
             (indexWorkloadTx flt name w))
         (elems (al_Workloads al)) t2))"

text \<open>One round of the seeding loop: the count of added entries and the transaction.\<close>

definition seed_one :: "fault \<Rightarrow> string \<times> Workload \<Rightarrow> nat \<times> tx \<Rightarrow> store_error + (nat \<times> tx)" where
  "seed_one flt e st =
     (case e of (name, w) \<Rightarrow> case st of (added, t) \<Rightarrow>
        bindE (query flt (\<lambda>d. length (filter (\<lambda>(n, _). n = name) (db_entries d))) t) (\<lambda>(count, t1).
          if count \<noteq> 0 then Inr (added, t1)
          else bindE (query flt (\<lambda>d. if map_of (db_entries d) name = None then 1 else (0 :: nat)) t1) (\<lambda>(n, t2).
            if n = 0 then Inr (added, t2)
            else case t2 of (i, d) \<Rightarrow>
              bindE (indexWorkloadTx flt name w (i, d\<lparr>db_entries := db_entries d @ [(name, w)]\<rparr>))
                (\<lambda>t3. Inr (Suc added, t3)))))"

definition seedWorkloadsTx :: "fault \<Rightarrow> (string \<times> Workload) list \<Rightarrow> tx \<Rightarrow> store_error + (nat \<times> tx)" where
  "seedWorkloadsTx flt ws t = foldE (seed_one flt) ws (0, t)"

section \<open>Operations\<close>

text \<open>Each returns its result with the store; an error leaves the store as it was (the deferred
  rollback).\<close>

definition settle :: "Store \<Rightarrow> store_error + ('a \<times> Store) \<Rightarrow> (store_error + 'a) \<times> Store" where
  "settle s r = (case r of Inl e \<Rightarrow> (Inl e, s) | Inr (x, s') \<Rightarrow> (Inr x, s'))"

definition normalizeEntry :: "hash \<Rightarrow> string \<Rightarrow> Workload \<Rightarrow> store_error + Workload" where
  "normalizeEntry H name w =
     (case normalizeAllowlist H True \<lparr>al_Schema = Schema, al_Workloads = Some [(name, w)]\<rparr> of
        Inl e \<Rightarrow> Inl (ErrInvalidWorkload e)
      | Inr parsed \<Rightarrow> (case map_of (elems (al_Workloads parsed)) name of
            Some w' \<Rightarrow> Inr w'
          | None \<Rightarrow> Inr \<lparr>w_Label = [], w_InitContainers = None, w_Containers = None, w_Secrets = None\<rparr>))"

definition SeedWorkloads :: "fault \<Rightarrow> (string \<times> Workload) list \<Rightarrow> Store \<Rightarrow> (store_error + nat) \<times> Store" where
  "SeedWorkloads flt ws s =
     (if length ws = 0 then (Inr 0, s)
      else settle s
        (bindE (begin_tx flt s) (\<lambda>t.
         bindE (seedWorkloadsTx flt ws t) (\<lambda>(added, t1).
         bindE (if added > 0 then bumpVersionTx flt t1 else Inr t1) (\<lambda>t2.
         bindE (commitTx flt s t2) (\<lambda>s'. Inr (added, s')))))))"

definition PutWorkload :: "fault \<Rightarrow> hash \<Rightarrow> string \<Rightarrow> Workload \<Rightarrow> Store \<Rightarrow> (store_error + unit) \<times> Store" where
  "PutWorkload flt H name w s =
     settle s
       (bindE (normalizeEntry H name w) (\<lambda>norm.
        bindE (begin_tx flt s) (\<lambda>t.
        bindE (putWorkloadTx flt name norm t) (\<lambda>t1.
        bindE (bumpVersionTx flt t1) (\<lambda>t2.
        bindE (commitTx flt s t2) (\<lambda>s'. Inr ((), s')))))))"

definition DeleteWorkload :: "fault \<Rightarrow> string \<Rightarrow> Store \<Rightarrow> (store_error + bool) \<times> Store" where
  "DeleteWorkload flt name s =
     settle s
       (bindE (begin_tx flt s) (\<lambda>t.
        bindE (query flt (\<lambda>d. if map_of (db_entries d) name = None then (0 :: nat) else 1) t) (\<lambda>(n, t1).
          if n = 0 then Inr (False, s)
          else case t1 of (i, d) \<Rightarrow>
            bindE (stmt flt (\<lambda>d. d\<lparr>db_rows := del_rows name (db_rows d)\<rparr>)
                     (i, d\<lparr>db_entries := AList.delete name (db_entries d)\<rparr>)) (\<lambda>t2.
            bindE (bumpVersionTx flt t2) (\<lambda>t3.
            bindE (commitTx flt s t3) (\<lambda>s'. Inr (True, s')))))))"

definition ReplaceAll :: "fault \<Rightarrow> Allowlist option \<Rightarrow> Store \<Rightarrow> (store_error + unit) \<times> Store" where
  "ReplaceAll flt alp s =
     (case alp of
        None \<Rightarrow> (Inl ErrNilAllowlist, s)
      | Some al \<Rightarrow> settle s
          (bindE (begin_tx flt s) (\<lambda>t.
           bindE (replaceContentsTx flt al t) (\<lambda>t1.
           bindE (bumpVersionTx flt t1) (\<lambda>t2.
           bindE (commitTx flt s t2) (\<lambda>s'. Inr ((), s')))))))"

definition LoadAll :: "fault \<Rightarrow> Store \<Rightarrow> store_error + (Allowlist \<times> nat)" where
  "LoadAll flt s =
     bindE (query flt db_version (0, st_db s)) (\<lambda>(version, t1).
     bindE (query flt db_entries t1) (\<lambda>(workloads, t2).
       Inr (\<lparr>al_Schema = Schema, al_Workloads = Some workloads\<rparr>, version)))"

definition store_Contains :: "fault \<Rightarrow> Digest \<Rightarrow> Store \<Rightarrow> store_error + bool" where
  "store_Contains flt digest s =
     bindE (query flt (\<lambda>d. list_ex (\<lambda>(dg, _, _). dg = digest_string digest) (db_rows d)) (0, st_db s))
       (\<lambda>(found, _). Inr found)"

definition store_Version :: "fault \<Rightarrow> Store \<Rightarrow> store_error + nat" where
  "store_Version flt s = bindE (query flt db_version (0, st_db s)) (\<lambda>(v, _). Inr v)"

definition Generation :: "Store \<Rightarrow> nat" where
  "Generation s = st_gen s"

section \<open>The effect of a committed transaction\<close>

definition entry_rows :: "string \<Rightarrow> Workload \<Rightarrow> row list" where
  "entry_rows name w =
     map (\<lambda>c. (digest_string (c_Digest c), name, roleInit)) (elems (w_InitContainers w)) @
     map (\<lambda>c. (digest_string (c_Digest c), name, roleMain)) (elems (w_Containers w))"

lemma stmt_Inr: "stmt flt f (i, d) = Inr t \<longleftrightarrow> \<not> flt i \<and> t = (Suc i, f d)"
  by (auto simp: stmt_def)

lemma query_Inr: "query flt f (i, d) = Inr r \<longleftrightarrow> \<not> flt i \<and> r = (f d, Suc i, d)"
  by (auto simp: query_def)

lemma index_part_Inr:
  "index_part flt name ro cs (i, d) = Inr (j, d') \<Longrightarrow>
     d' = d\<lparr>db_rows := fold row_insert (map (\<lambda>c. (digest_string (c_Digest c), name, ro)) cs) (db_rows d)\<rparr>"
proof (induction cs arbitrary: i d)
  case (Cons c cs)
  from Cons.prems obtain t where
    "stmt flt (\<lambda>d. d\<lparr>db_rows := row_insert (digest_string (c_Digest c), name, ro) (db_rows d)\<rparr>) (i, d) = Inr t"
    "index_part flt name ro cs t = Inr (j, d')"
    by (auto simp: index_part_def bindE_Inr_iff)
  thus ?case by (cases t) (auto simp: stmt_Inr dest!: Cons.IH)
qed (simp add: index_part_def)

lemma indexWorkloadTx_Inr:
  "indexWorkloadTx flt name w (i, d) = Inr (j, d') \<Longrightarrow>
     d' = d\<lparr>db_rows := fold row_insert (entry_rows name w) (db_rows d)\<rparr>"
  by (auto simp: indexWorkloadTx_def bindE_Inr_iff entry_rows_def dest!: index_part_Inr)

definition put_entry :: "string \<Rightarrow> Workload \<Rightarrow> db \<Rightarrow> db" where
  "put_entry name w d =
     d\<lparr>db_entries := AList.update name w (db_entries d),
       db_rows := fold row_insert (entry_rows name w) (del_rows name (db_rows d))\<rparr>"

definition del_entry :: "string \<Rightarrow> db \<Rightarrow> db" where
  "del_entry name d =
     d\<lparr>db_entries := AList.delete name (db_entries d), db_rows := del_rows name (db_rows d)\<rparr>"

definition add_entry :: "string \<times> Workload \<Rightarrow> db \<Rightarrow> db" where
  "add_entry e d =
     (case e of (name, w) \<Rightarrow>
        d\<lparr>db_entries := db_entries d @ [(name, w)], db_rows := fold row_insert (entry_rows name w) (db_rows d)\<rparr>)"

definition seed_entry :: "string \<times> Workload \<Rightarrow> db \<Rightarrow> db" where
  "seed_entry e d = (if map_of (db_entries d) (fst e) = None then add_entry e d else d)"

definition bump :: "db \<Rightarrow> db" where
  "bump d = d\<lparr>db_version := Suc (db_version d)\<rparr>"

lemma putWorkloadTx_Inr: "putWorkloadTx flt name w (i, d) = Inr (j, d') \<Longrightarrow> d' = put_entry name w d"
  by (auto simp: putWorkloadTx_def put_entry_def bindE_Inr_iff stmt_Inr dest!: indexWorkloadTx_Inr)

lemma bumpVersionTx_Inr: "bumpVersionTx flt (i, d) = Inr t \<longleftrightarrow> \<not> flt i \<and> t = (Suc i, bump d)"
  by (auto simp: bumpVersionTx_def stmt_Inr bump_def)

lemma replace_loop_Inr:
  "foldE (\<lambda>(name, w) t3.
       bindE (stmt flt (\<lambda>d. d\<lparr>db_entries := db_entries d @ [(name, w)]\<rparr>) t3) (indexWorkloadTx flt name w))
     es (i, d) = Inr (j, d') \<Longrightarrow> d' = fold add_entry es d"
proof (induction es arbitrary: i d)
  case (Cons e es)
  obtain name w where e: "e = (name, w)" by (cases e)
  from Cons.prems obtain i1 d1 where
    "indexWorkloadTx flt name w (Suc i, d\<lparr>db_entries := db_entries d @ [(name, w)]\<rparr>) = Inr (i1, d1)"
    and rest: "foldE (\<lambda>(name, w) t3.
       bindE (stmt flt (\<lambda>d. d\<lparr>db_entries := db_entries d @ [(name, w)]\<rparr>) t3) (indexWorkloadTx flt name w))
     es (i1, d1) = Inr (j, d')"
    by (auto simp: e bindE_Inr_iff stmt_Inr)
  hence "d1 = add_entry e d" by (auto simp: add_entry_def e dest: indexWorkloadTx_Inr)
  thus ?case using Cons.IH[OF rest] by simp
qed simp

lemma replaceContentsTx_Inr:
  "replaceContentsTx flt al (i, d) = Inr (j, d') \<Longrightarrow>
     d' = fold add_entry (elems (al_Workloads al)) (d\<lparr>db_entries := [], db_rows := []\<rparr>)"
  by (auto simp: replaceContentsTx_def bindE_Inr_iff stmt_Inr dest!: replace_loop_Inr)

lemma filter_name_Nil: "filter (\<lambda>(n, _). n = name) es = [] \<longleftrightarrow> map_of es name = None"
  by (induction es) auto

lemma seed_one_Inr:
  "seed_one flt e (a, i, d) = Inr (b, j, d') \<Longrightarrow>
     d' = seed_entry e d \<and> b = (if map_of (db_entries d) (fst e) = None then Suc a else a)"
  by (cases e)
    (auto simp: seed_one_def seed_entry_def add_entry_def bindE_Inr_iff query_Inr filter_name_Nil
      split: if_splits dest!: indexWorkloadTx_Inr)

lemma seed_loop_Inr:
  "foldE (seed_one flt) es (a, i, d) = Inr (b, j, d') \<Longrightarrow>
     d' = fold seed_entry es d \<and> a \<le> b \<and> (b = a \<longrightarrow> d' = d)"
proof (induction es arbitrary: a i d)
  case (Cons e es)
  from Cons.prems obtain a1 i1 d1 where one: "seed_one flt e (a, i, d) = Inr (a1, i1, d1)"
      and rest: "foldE (seed_one flt) es (a1, i1, d1) = Inr (b, j, d')"
    by (auto simp: bindE_Inr_iff)
  show ?case using seed_one_Inr[OF one] Cons.IH[OF rest]
    by (auto simp: seed_entry_def split: if_splits)
qed simp

text \<open>What each operation can do to the store: nothing, or the whole of its effect in one commit.\<close>

definition commits :: "Store \<Rightarrow> Store \<Rightarrow> db \<Rightarrow> bool" where
  "commits s s' d = (s' = \<lparr>st_db = d, st_gen = Suc (st_gen s)\<rparr>)"

lemma begin_tx_Inr: "begin_tx flt s = Inr t \<longleftrightarrow> \<not> flt 0 \<and> t = (1, st_db s)"
  by (auto simp: begin_tx_def)

lemma commitTx_Inr: "commitTx flt s (i, d) = Inr s' \<longleftrightarrow> \<not> flt i \<and> commits s s' d"
  by (auto simp: commitTx_def commits_def)

lemma settle_cases:
  assumes "settle s r = (res, s')"
  obtains e where "r = Inl e" "res = Inl e" "s' = s" | x where "r = Inr (x, s')" "res = Inr x"
  using assms by (auto simp: settle_def split: sum.splits)

lemma PutWorkload_cases:
  assumes "PutWorkload flt H name w s = (res, s')"
  shows "(\<exists>e. res = Inl e) \<and> s' = s \<or>
         (\<exists>norm. normalizeEntry H name w = Inr norm \<and> res = Inr () \<and>
                 commits s s' (bump (put_entry name norm (st_db s))))"
  using assms unfolding PutWorkload_def
  by (elim settle_cases)
    (auto simp: bindE_Inr_iff begin_tx_Inr bumpVersionTx_Inr commitTx_Inr dest!: putWorkloadTx_Inr)

lemma DeleteWorkload_cases:
  assumes "DeleteWorkload flt name s = (res, s')"
  shows "(\<exists>e. res = Inl e) \<and> s' = s \<or>
         res = Inr False \<and> s' = s \<and> map_of (db_entries (st_db s)) name = None \<or>
         res = Inr True \<and> map_of (db_entries (st_db s)) name \<noteq> None \<and>
           commits s s' (bump (del_entry name (st_db s)))"
  using assms unfolding DeleteWorkload_def
  by (elim settle_cases)
    (auto simp: bindE_Inr_iff begin_tx_Inr query_Inr stmt_Inr bumpVersionTx_Inr commitTx_Inr del_entry_def
      split: if_splits)

lemma ReplaceAll_cases:
  assumes "ReplaceAll flt alp s = (res, s')"
  shows "(\<exists>e. res = Inl e) \<and> s' = s \<or>
         (\<exists>al. alp = Some al \<and> res = Inr () \<and>
            commits s s' (bump (fold add_entry (elems (al_Workloads al)) ((st_db s)\<lparr>db_entries := [], db_rows := []\<rparr>))))"
proof (cases alp)
  case (Some al)
  from assms show ?thesis unfolding ReplaceAll_def Some option.case
    by (elim settle_cases)
      (auto simp: bindE_Inr_iff begin_tx_Inr bumpVersionTx_Inr commitTx_Inr dest!: replaceContentsTx_Inr)
qed (use assms in \<open>auto simp: ReplaceAll_def\<close>)

lemma SeedWorkloads_cases:
  assumes "SeedWorkloads flt ws s = (res, s')"
  shows "(\<exists>e. res = Inl e) \<and> s' = s \<or> res = Inr 0 \<and> s' = s \<or>
         res = Inr 0 \<and> commits s s' (st_db s) \<and> fold seed_entry ws (st_db s) = st_db s \<or>
         (\<exists>n > 0. res = Inr n \<and> commits s s' (bump (fold seed_entry ws (st_db s))))"
proof (cases "ws = []")
  case False
  from assms False show ?thesis unfolding SeedWorkloads_def seedWorkloadsTx_def
    by (simp, elim settle_cases)
      (auto simp: bindE_Inr_iff begin_tx_Inr bumpVersionTx_Inr commitTx_Inr split: if_splits
        dest!: seed_loop_Inr)
qed (use assms in \<open>simp add: SeedWorkloads_def\<close>)

section \<open>The invariant of the database\<close>

definition db_inv :: "db \<Rightarrow> bool" where
  "db_inv d = (uniq_keys (db_entries d) \<and> distinct (db_rows d) \<and>
     set (db_rows d) = (\<Union>(n, w) \<in> set (db_entries d). set (entry_rows n w)))"

lemma row_insert_simps [simp]:
  "set (row_insert r rows) = insert r (set rows)"
  "distinct rows \<Longrightarrow> distinct (row_insert r rows)"
  by (auto simp: row_insert_def)

lemma fold_row_insert [simp]:
  "set (fold row_insert rs rows) = set rs \<union> set rows"
  "distinct rows \<Longrightarrow> distinct (fold row_insert rs rows)"
  by (induction rs arbitrary: rows) auto

lemma entry_rows_name: "r \<in> set (entry_rows n w) \<Longrightarrow> fst (snd r) = n"
  by (auto simp: entry_rows_def)

lemma set_del_rows:
  assumes "set rows = (\<Union>(n, w) \<in> A. set (entry_rows n w))"
  shows "set (del_rows name rows) = (\<Union>(n, w) \<in> {e \<in> A. fst e \<noteq> name}. set (entry_rows n w))"
  using assms by (force simp: del_rows_def dest: entry_rows_name)

lemma put_entry_inv: "db_inv d \<Longrightarrow> db_inv (put_entry name w d)"
  by (auto simp: db_inv_def put_entry_def set_update set_del_rows) (auto simp: del_rows_def)

lemma del_entry_inv: "db_inv d \<Longrightarrow> db_inv (del_entry name d)"
  by (auto simp: db_inv_def del_entry_def set_delete set_del_rows) (auto simp: del_rows_def)

lemma add_entry_inv: "db_inv d \<Longrightarrow> map_of (db_entries d) (fst e) = None \<Longrightarrow> db_inv (add_entry e d)"
  by (cases e) (auto simp: db_inv_def add_entry_def map_of_eq_None_iff)

lemma seed_entry_inv: "db_inv d \<Longrightarrow> db_inv (seed_entry e d)"
  by (simp add: seed_entry_def add_entry_inv)

lemma fold_seed_inv: "db_inv d \<Longrightarrow> db_inv (fold seed_entry es d)"
  by (induction es arbitrary: d) (auto intro: seed_entry_inv)

lemma add_entry_entries [simp]: "db_entries (add_entry e d) = db_entries d @ [e]"
  by (cases e) (simp add: add_entry_def)

lemma fold_add_inv:
  "db_inv d \<Longrightarrow> uniq_keys (db_entries d @ es) \<Longrightarrow> db_inv (fold add_entry es d)"
proof (induction es arbitrary: d)
  case (Cons e es)
  have "map_of (db_entries d) (fst e) = None" using Cons.prems(2) by (auto simp: map_of_eq_None_iff)
  thus ?case using Cons add_entry_inv by simp
qed simp

lemma bump_inv [simp]: "db_inv (bump d) = db_inv d"
  by (simp add: bump_def db_inv_def)

section \<open>Histories of the store\<close>

inductive store_step :: "hash \<Rightarrow> Store \<Rightarrow> Store \<Rightarrow> bool" for H where
  put: "PutWorkload flt H name w s = (res, s') \<Longrightarrow> store_step H s s'"
| del: "DeleteWorkload flt name s = (res, s') \<Longrightarrow> store_step H s s'"
| seed: "SeedWorkloads flt ws s = (res, s') \<Longrightarrow> store_step H s s'"
| replace: "ReplaceAll flt (Some al) s = (res, s') \<Longrightarrow> uniq_keys (elems (al_Workloads al)) \<Longrightarrow> store_step H s s'"

text \<open>
  What readers of a versioned store rely on: an invariant, a counter that never goes back, and
  contents that are the same whenever the counter is.
\<close>

locale versioned_store =
  fixes inv :: "'s \<Rightarrow> bool"
    and ver :: "'s \<Rightarrow> nat"
    and doc :: "'s \<Rightarrow> 'd"
    and step :: "'s \<Rightarrow> 's \<Rightarrow> bool"
  assumes inv_step: "inv s \<Longrightarrow> step s s' \<Longrightarrow> inv s'"
    and ver_step: "inv s \<Longrightarrow> step s s' \<Longrightarrow> ver s \<le> ver s'"
    and doc_step: "inv s \<Longrightarrow> step s s' \<Longrightarrow> ver s' = ver s \<Longrightarrow> doc s' = doc s"
begin

lemma reach_inv: "step\<^sup>*\<^sup>* s t \<Longrightarrow> inv s \<Longrightarrow> inv t"
  by (induction rule: rtranclp_induct) (auto intro: inv_step)

lemma not_modified: "step\<^sup>*\<^sup>* s t \<Longrightarrow> inv s \<Longrightarrow> ver s \<le> ver t \<and> (ver t = ver s \<longrightarrow> doc t = doc s)"
proof (induction rule: rtranclp_induct)
  case (step t u)
  have "inv t" using step reach_inv by blast
  thus ?case using step ver_step[of t u] doc_step[of t u] by auto
qed simp

end

lemma step_effect:
  assumes "store_step H s s'"
  shows "s' = s \<or> (\<exists>d. commits s s' d \<and> (d = st_db s \<or> db_version d = Suc (db_version (st_db s))))"
proof -
  have [simp]: "db_version (put_entry n w d) = db_version d" "db_version (del_entry n d) = db_version d"
    "db_version (add_entry e d) = db_version d" "db_version (seed_entry e d) = db_version d" for n w d e
    by (cases e; simp add: put_entry_def del_entry_def add_entry_def seed_entry_def)+
  have [simp]: "db_version (fold add_entry es d) = db_version d" "db_version (fold seed_entry es d) = db_version d" for es d
    by (induction es arbitrary: d) simp_all
  from assms show ?thesis
    by cases (auto simp: bump_def dest!: PutWorkload_cases DeleteWorkload_cases SeedWorkloads_cases ReplaceAll_cases)
qed

lemma store_step_inv:
  assumes "db_inv (st_db s)" and "store_step H s s'"
  shows "db_inv (st_db s')"
  using assms(2,1)
proof cases
  case (replace flt al res)
  have "db_inv ((st_db s)\<lparr>db_entries := [], db_rows := []\<rparr>)" by (simp add: db_inv_def)
  thus ?thesis using ReplaceAll_cases[OF replace(1)] replace(2) assms(1) fold_add_inv
    by (auto simp: commits_def)
qed (auto simp: commits_def put_entry_inv del_entry_inv fold_seed_inv
      dest!: PutWorkload_cases DeleteWorkload_cases SeedWorkloads_cases)

interpretation etag: versioned_store "\<lambda>s. db_inv (st_db s)" "\<lambda>s. db_version (st_db s)" st_db "store_step H" for H
  by unfold_locales (auto simp: commits_def store_step_inv dest!: step_effect)

interpretation gen: versioned_store "\<lambda>s. db_inv (st_db s)" st_gen "\<lambda>s. s" "store_step H" for H
  by unfold_locales (auto simp: commits_def store_step_inv dest!: step_effect)

section \<open>The index and the document agree\<close>

abbreviation no_fault :: fault where
  "no_fault \<equiv> \<lambda>_. False"

definition st_doc :: "Store \<Rightarrow> Allowlist" where
  "st_doc s = \<lparr>al_Schema = Schema, al_Workloads = Some (db_entries (st_db s))\<rparr>"

lemma LoadAll_no_fault: "LoadAll no_fault s = Inr (st_doc s, db_version (st_db s))"
  by (simp add: LoadAll_def query_def st_doc_def)

lemma rows_digest:
  assumes "db_inv (st_db s)"
  shows "dg \<in> fst ` set (db_rows (st_db s)) \<longleftrightarrow> (\<exists>c \<in> set (all_containers (st_doc s)). digest_string (c_Digest c) = dg)"
proof -
  have "dg \<in> fst ` set (entry_rows n w) \<longleftrightarrow> (\<exists>c \<in> set (w_containers w). digest_string (c_Digest c) = dg)" for n w
    by (force simp: entry_rows_def w_containers_def)
  hence "dg \<in> fst ` set (db_rows (st_db s)) \<longleftrightarrow>
      (\<exists>e \<in> set (db_entries (st_db s)). \<exists>c \<in> set (w_containers (snd e)). digest_string (c_Digest c) = dg)"
    using assms by (simp add: db_inv_def image_UN split_def)
  also have "\<dots> \<longleftrightarrow> (\<exists>c \<in> set (all_containers (st_doc s)). digest_string (c_Digest c) = dg)"
    by (simp add: all_containers_def st_doc_def split_def)
  finally show ?thesis .
qed

lemma store_Contains_doc:
  assumes "db_inv (st_db s)" and "wf_digest d"
  shows "store_Contains no_fault d s = Inr (AdmitsDigest (BuildIndex (st_doc s)) (digest_string d))"
proof -
  have "list_ex (\<lambda>(dg, _, _). dg = digest_string d) (db_rows (st_db s)) \<longleftrightarrow>
      digest_string d \<in> fst ` set (db_rows (st_db s))"
    by (force simp: list_ex_iff)
  thus ?thesis using rows_digest[OF assms(1)] ParseDigest_String[OF assms(2)]
    by (auto simp: store_Contains_def query_def AdmitsDigest_BuildIndex)
qed

section \<open>Without faults every operation succeeds\<close>

lemma index_part_no_fault: "okE (index_part no_fault name ro cs t)"
  by (induction cs arbitrary: t) (auto simp: index_part_def stmt_def split: prod.splits)

lemma indexWorkloadTx_no_fault: "okE (indexWorkloadTx no_fault name w t)"
proof -
  obtain t1 where "index_part no_fault name roleInit (elems (w_InitContainers w)) t = Inr t1"
    using index_part_no_fault unfolding okE_iff by blast
  thus ?thesis by (simp add: indexWorkloadTx_def index_part_no_fault)
qed

lemma putWorkloadTx_no_fault: "okE (putWorkloadTx no_fault name w t)"
  by (cases t) (simp add: putWorkloadTx_def stmt_def indexWorkloadTx_no_fault)

lemma PutWorkload_no_fault:
  assumes "normalizeEntry H name w = Inr norm"
  shows "fst (PutWorkload no_fault H name w s) = Inr ()"
proof -
  obtain t where "putWorkloadTx no_fault name norm (1, st_db s) = Inr t"
    using putWorkloadTx_no_fault unfolding okE_iff by blast
  thus ?thesis using assms
    by (cases t) (simp add: PutWorkload_def begin_tx_def bumpVersionTx_def stmt_def commitTx_def settle_def)
qed

lemma normalizeEntry_Inr:
  assumes "normalizeEntry H name w = Inr norm"
  shows "ValidWorkloadName name" and "wf_workload H True norm"
proof -
  let ?p = "\<lparr>al_Schema = Schema, al_Workloads = Some [(name, w)]\<rparr>"
  obtain a where a: "normalizeAllowlist H True ?p = Inr a"
    using assms by (auto simp: normalizeEntry_def split: sum.splits)
  then obtain w' where w': "normalizeWorkload H True w = Inr w'" "a = \<lparr>al_Schema = Schema, al_Workloads = Some [(name, w')]\<rparr>"
      and n: "ValidWorkloadName name"
    by (auto simp: normalizeAllowlist_def bindE_Inr_iff ValidWorkloadName_def split: if_splits)
  have "norm = w'" using assms a w'(2) by (simp add: normalizeEntry_def)
  thus "ValidWorkloadName name" "wf_workload H True norm" using n w'(1) normalizeWorkload_wf by auto
qed

section \<open>Properties\<close>

text \<open>
  C13: after any history of operations and database faults, the digest index answers exactly what
  the served document says: a digest is contained when and only when some container of some entry
  of the document has it.
\<close>

theorem store_index_agrees:
  assumes "(store_step H)\<^sup>*\<^sup>* open_store s" and "wf_digest d" and "LoadAll no_fault s = Inr (a, v)"
  shows "store_Contains no_fault d s = Inr (AdmitsDigest (BuildIndex a) (digest_string d))"
proof -
  have "db_inv (st_db s)"
    by (rule etag.reach_inv[OF assms(1)]) (simp add: open_store_def db_inv_def)
  thus ?thesis using store_Contains_doc[OF _ assms(2)] assms(3) by (simp add: LoadAll_no_fault)
qed

theorem store_index_agrees_witness:
  "\<exists>s. (store_step (\<lambda>_. []))\<^sup>*\<^sup>* open_store s
     \<and> store_Contains no_fault (Digest (algo @ replicate 64 (CHR ''0''))) s = Inr True"
proof -
  let ?d = "Digest (algo @ replicate 64 (CHR ''0''))"
  let ?s = "snd (SeedWorkloads no_fault [(''web'', DigestEntry ?d [])] open_store)"
  have wf: "wf_digest ?d" by (rule wf_digest_replicate) (simp add: lower_hex_def)
  have "store_step (\<lambda>_. []) open_store ?s" by (rule store_step.seed) (rule surjective_pairing)
  hence st: "(store_step (\<lambda>_. []))\<^sup>*\<^sup>* open_store ?s" by blast
  have "db_entries (st_db ?s) = [(''web'', DigestEntry ?d [])]"
    by (simp add: SeedWorkloads_def seedWorkloadsTx_def seed_one_def begin_tx_def open_store_def query_def
        indexWorkloadTx_def index_part_def stmt_def bumpVersionTx_def commitTx_def settle_def DigestEntry_def)
  hence doc: "LoadAll no_fault ?s = Inr (\<lparr>al_Schema = Schema, al_Workloads = Some [(''web'', DigestEntry ?d [])]\<rparr>,
      db_version (st_db ?s))"
    by (simp add: LoadAll_no_fault st_doc_def)
  have "AdmitsDigest (BuildIndex \<lparr>al_Schema = Schema, al_Workloads = Some [(''web'', DigestEntry ?d [])]\<rparr>)
      (digest_string ?d)"
    unfolding AdmitsDigest_BuildIndex ParseDigest_String[OF wf]
    by (simp add: all_containers_def DigestEntry_def w_containers_def)
  thus ?thesis using store_index_agrees[OF st wf doc] st by (intro exI[of _ ?s]) simp
qed

text \<open>
  the version is an honest entity tag and the generation an honest cache key. Along any history
  with any faults both counters never go back; when the version of two moments is the same the
  served document is the same, and when the generation is the same the whole store is.
\<close>

theorem store_etag_honest:
  assumes "(store_step H)\<^sup>*\<^sup>* open_store s" and "(store_step H)\<^sup>*\<^sup>* s t"
  shows "db_version (st_db s) \<le> db_version (st_db t) \<and> Generation s \<le> Generation t
       \<and> (store_Version no_fault s = store_Version no_fault t \<longrightarrow> LoadAll flt t = LoadAll flt s)
       \<and> (Generation s = Generation t \<longrightarrow> t = s)"
proof -
  have inv: "db_inv (st_db s)"
    by (rule etag.reach_inv[OF assms(1)]) (simp add: open_store_def db_inv_def)
  note e = etag.not_modified[OF assms(2) inv] and g = gen.not_modified[OF assms(2) inv]
  have "LoadAll flt t = LoadAll flt s" if "store_Version no_fault s = store_Version no_fault t"
  proof -
    have "db_version (st_db t) = db_version (st_db s)" using that by (simp add: store_Version_def query_def)
    hence "st_db t = st_db s" using e by blast
    thus ?thesis by (simp add: LoadAll_def)
  qed
  thus ?thesis using e g unfolding Generation_def by metis
qed

theorem store_etag_honest_witness:
  "\<exists>t. (store_step (\<lambda>_. []))\<^sup>*\<^sup>* open_store t \<and> Generation open_store < Generation t
     \<and> db_version (st_db open_store) \<le> db_version (st_db t)"
proof -
  let ?t = "snd (SeedWorkloads no_fault [(''web'', DigestEntry (Digest ''d'') [])] open_store)"
  have "store_step (\<lambda>_. []) open_store ?t" by (rule store_step.seed) (rule surjective_pairing)
  hence st: "(store_step (\<lambda>_. []))\<^sup>*\<^sup>* open_store ?t" by blast
  have "Generation ?t = 1" "Generation open_store = 0"
    by (simp_all add: Generation_def SeedWorkloads_def seedWorkloadsTx_def seed_one_def begin_tx_def
        open_store_def query_def indexWorkloadTx_def index_part_def stmt_def bumpVersionTx_def commitTx_def
        settle_def DigestEntry_def)
  thus ?thesis using store_etag_honest[OF rtranclp.rtrancl_refl st] st by (intro exI[of _ ?t]) simp
qed

text \<open>
  writing an entry is atomic. For every pattern of database faults the write either reports an
  error and changes nothing, or stores exactly the normalised entry under a legal name, leaves every
  other entry as it was and bumps the version once; without faults a valid entry is always stored.
\<close>

theorem PutWorkload_atomic:
  assumes "PutWorkload flt H name w s = (res, s')"
  shows "((\<exists>e. res = Inl e) \<and> s' = s
        \<or> (\<exists>norm. normalizeEntry H name w = Inr norm \<and> res = Inr () \<and> ValidWorkloadName name
             \<and> wf_workload H True norm
             \<and> map_of (db_entries (st_db s')) = (map_of (db_entries (st_db s)))(name \<mapsto> norm)
             \<and> db_version (st_db s') = Suc (db_version (st_db s))))
       \<and> (flt = no_fault \<and> okE (normalizeEntry H name w) \<longrightarrow> res = Inr ())"
proof -
  have ok: "res = Inr ()" if "flt = no_fault" "okE (normalizeEntry H name w)"
    using that PutWorkload_no_fault assms by (metis fst_conv okE_iff)
  have eff: "map_of (db_entries (st_db s')) = (map_of (db_entries (st_db s)))(name \<mapsto> norm)
      \<and> db_version (st_db s') = Suc (db_version (st_db s))"
    if "commits s s' (bump (put_entry name norm (st_db s)))" for norm
    using that by (simp add: commits_def bump_def put_entry_def update_conv' fun_upd_def)
  show ?thesis using PutWorkload_cases[OF assms]
  proof (elim disjE exE conjE)
    fix norm
    assume n: "normalizeEntry H name w = Inr norm" "res = Inr ()"
      and c: "commits s s' (bump (put_entry name norm (st_db s)))"
    show ?thesis using eff[OF c] n normalizeEntry_Inr[OF n(1)] by blast
  qed (use ok in blast)
qed

theorem PutWorkload_atomic_witness:
  "\<exists>s'. PutWorkload no_fault (\<lambda>_. []) ''web'' (DigestEntry (Digest ''d'') []) open_store = (Inr (), s')"
proof -
  obtain res s' where r: "PutWorkload no_fault (\<lambda>_. []) ''web'' (DigestEntry (Digest ''d'') []) open_store = (res, s')"
    by fastforce
  have "okE (normalizeEntry (\<lambda>_. []) ''web'' (DigestEntry (Digest ''d'') []))"
    by (simp add: normalizeEntry_def normalizeAllowlist_def workloadNameGrammarOK_def name_byte_def
        less_eq_char_def MaxWorkloadNameLen_def normalizeWorkload_def DigestEntry_def normalizeContainers_def
        normalizeContainer_eq normalizeArgv_def normalizeMounts_def normalizeEnv_def normalizeSecrets_def
        sortContainers_def)
  thus ?thesis using PutWorkload_atomic[OF r] r by blast
qed

end
