(* ===== verification/Secret_Policy.thy ===== *)
theory Secret_Policy
  imports Allowlist_Store
begin

text \<open>
  The cached allowlist of the secrets API (\<^verbatim>\<open>src/internal/secrets/policy.go\<close>). Reading the version and loading the document
  are two steps of a call, with the store at a moment of its own for each; the lock orders the second steps of concurrent calls.
\<close>

section \<open>The cache\<close>

record CachedPolicy =
  cp_version :: nat
  cp_cached :: "Allowlist option"

definition NewCachedPolicy :: CachedPolicy where
  "NewCachedPolicy = \<lparr>cp_version = 0, cp_cached = None\<rparr>"

text \<open>The moments of a call: the store, and the database faults, at the version read and at the load.\<close>

record policy_read =
  pr_flt1 :: fault
  pr_store1 :: Store
  pr_flt2 :: fault
  pr_store2 :: Store

definition cached_Allowlist :: "policy_read \<Rightarrow> CachedPolicy \<Rightarrow> (store_error + Allowlist) \<times> CachedPolicy" where
  "cached_Allowlist pr c =
     (case store_Version (pr_flt1 pr) (pr_store1 pr) of
        Inl e \<Rightarrow> (Inl e, c)
      | Inr version \<Rightarrow>
          if cp_cached c \<noteq> None \<and> cp_version c = version then (Inr (the (cp_cached c)), c)
          else (case LoadAll (pr_flt2 pr) (pr_store2 pr) of
                  Inl e \<Rightarrow> (Inl e, c)
                | Inr (al, loadedVersion) \<Rightarrow> (Inr al, \<lparr>cp_version = loadedVersion, cp_cached = Some al\<rparr>)))"

section \<open>Lemmas\<close>

lemma query_result: "query flt f (i, d) = Inr (x, t) \<Longrightarrow> x = f d \<and> snd t = d"
  by (auto simp: query_def split: if_splits)

lemma store_Version_Inr: "store_Version flt s = Inr v \<Longrightarrow> v = db_version (st_db s)"
  by (auto simp: store_Version_def bindE_Inr_iff dest!: query_result)

lemma LoadAll_Inr: "LoadAll flt s = Inr (al, v) \<Longrightarrow> al = st_doc s \<and> v = db_version (st_db s)"
  by (auto simp: LoadAll_def bindE_Inr_iff st_doc_def dest!: query_result)

text \<open>A history of the store by moments, and a cache that holds what was served at some moment of it.\<close>

definition store_history :: "hash \<Rightarrow> (nat \<Rightarrow> Store) \<Rightarrow> bool" where
  "store_history H \<sigma> \<longleftrightarrow> \<sigma> 0 = open_store \<and> (\<forall>i. (store_step H)\<^sup>*\<^sup>* (\<sigma> i) (\<sigma> (Suc i)))"

definition cache_ok :: "(nat \<Rightarrow> Store) \<Rightarrow> CachedPolicy \<Rightarrow> bool" where
  "cache_ok \<sigma> c \<longleftrightarrow> (\<forall>al. cp_cached c = Some al \<longrightarrow> (\<exists>k. al = st_doc (\<sigma> k) \<and> cp_version c = db_version (st_db (\<sigma> k))))"

lemma history_reach: "store_history H \<sigma> \<Longrightarrow> i \<le> j \<Longrightarrow> (store_step H)\<^sup>*\<^sup>* (\<sigma> i) (\<sigma> j)"
  by (induction j) (auto simp: store_history_def le_Suc_eq intro: rtranclp_trans)

lemma history_inv: "store_history H \<sigma> \<Longrightarrow> db_inv (st_db (\<sigma> i))"
  using history_reach[of H \<sigma> 0 i] etag.reach_inv[of H "\<sigma> 0" "\<sigma> i"]
  by (simp add: store_history_def open_store_def db_inv_def)

lemma history_doc:
  assumes "store_history H \<sigma>" and "db_version (st_db (\<sigma> i)) = db_version (st_db (\<sigma> j))"
  shows "st_doc (\<sigma> i) = st_doc (\<sigma> j)"
proof -
  have "st_db (\<sigma> (max i j)) = st_db (\<sigma> (min i j))"
    using etag.not_modified[OF history_reach[OF assms(1), of "min i j" "max i j"] history_inv[OF assms(1)]] assms(2)
    by (simp add: min_def max_def split: if_splits)
  thus ?thesis by (simp add: st_doc_def min_def max_def split: if_splits)
qed

definition read_at :: "(nat \<Rightarrow> Store) \<Rightarrow> fault \<times> nat \<times> fault \<times> nat \<Rightarrow> policy_read" where
  "read_at \<sigma> m = (case m of (f, i, g, j) \<Rightarrow> \<lparr>pr_flt1 = f, pr_store1 = \<sigma> i, pr_flt2 = g, pr_store2 = \<sigma> j\<rparr>)"

lemma cached_Allowlist_cases:
  assumes "cached_Allowlist pr c = (res, c')"
  shows "(\<exists>e. res = Inl e \<and> c' = c)
    \<or> cp_cached c \<noteq> None \<and> cp_version c = db_version (st_db (pr_store1 pr)) \<and> res = Inr (the (cp_cached c)) \<and> c' = c
    \<or> (\<exists>a v. LoadAll (pr_flt2 pr) (pr_store2 pr) = Inr (a, v) \<and> res = Inr a \<and> c' = \<lparr>cp_version = v, cp_cached = Some a\<rparr>)"
proof (cases "store_Version (pr_flt1 pr) (pr_store1 pr)")
  case (Inr v)
  note v = Inr store_Version_Inr[OF Inr]
  show ?thesis
  proof (cases "cp_cached c \<noteq> None \<and> cp_version c = v")
    case True
    thus ?thesis using assms v unfolding cached_Allowlist_def by auto
  next
    case False
    have "cached_Allowlist pr c = (case LoadAll (pr_flt2 pr) (pr_store2 pr) of Inl e \<Rightarrow> (Inl e, c)
        | Inr (al, loadedVersion) \<Rightarrow> (Inr al, \<lparr>cp_version = loadedVersion, cp_cached = Some al\<rparr>))"
      unfolding cached_Allowlist_def Inr sum.case if_not_P[OF False] by (rule refl)
    thus ?thesis using assms by (auto split: sum.splits)
  qed
qed (use assms in \<open>auto simp: cached_Allowlist_def\<close>)

lemma cached_Allowlist_at:
  assumes "store_history H \<sigma>" and "cache_ok \<sigma> c" and "cached_Allowlist (read_at \<sigma> (f, i, g, j)) c = (res, c')"
  shows "cache_ok \<sigma> c'" and "res = Inr al \<Longrightarrow> al = st_doc (\<sigma> i) \<or> al = st_doc (\<sigma> j)"
proof -
  have hit: "the (cp_cached c) = st_doc (\<sigma> i)" if "cp_cached c \<noteq> None" "cp_version c = db_version (st_db (\<sigma> i))"
  proof -
    from that obtain k where "cp_cached c = Some (st_doc (\<sigma> k))" "cp_version c = db_version (st_db (\<sigma> k))"
      using assms(2) by (auto simp: cache_ok_def)
    thus ?thesis using that(2) history_doc[OF assms(1), of k i] by simp
  qed
  from cached_Allowlist_cases[OF assms(3)[unfolded read_at_def prod.case]]
  consider (err) e where "res = Inl e" "c' = c" | (hit) "cp_cached c \<noteq> None" "cp_version c = db_version (st_db (\<sigma> i))"
      "res = Inr (the (cp_cached c))" "c' = c"
    | (load) a v where "LoadAll g (\<sigma> j) = Inr (a, v)" "res = Inr a" "c' = \<lparr>cp_version = v, cp_cached = Some a\<rparr>"
    unfolding policy_read.simps by blast
  hence "cache_ok \<sigma> c' \<and> (\<forall>al. res = Inr al \<longrightarrow> al = st_doc (\<sigma> i) \<or> al = st_doc (\<sigma> j))"
  proof cases
    case (load a v)
    thus ?thesis using LoadAll_Inr[OF load(1)] by (auto simp: cache_ok_def)
  qed (use assms(2) hit in simp_all)
  thus "cache_ok \<sigma> c'" and "res = Inr al \<Longrightarrow> al = st_doc (\<sigma> i) \<or> al = st_doc (\<sigma> j)" by blast+
qed

text \<open>The calls of a process in the order of the lock, and their answers.\<close>

fun cached_reads :: "(nat \<Rightarrow> Store) \<Rightarrow> CachedPolicy \<Rightarrow> (fault \<times> nat \<times> fault \<times> nat) list \<Rightarrow> (store_error + Allowlist) list" where
  "cached_reads \<sigma> c [] = []"
| "cached_reads \<sigma> c (m # ms) =
     (case cached_Allowlist (read_at \<sigma> m) c of (res, c') \<Rightarrow> res # cached_reads \<sigma> c' ms)"

lemma cached_reads_at:
  assumes "store_history H \<sigma>" and "cache_ok \<sigma> c" and "(m, Inr al) \<in> set (zip ms (cached_reads \<sigma> c ms))"
  shows "al = st_doc (\<sigma> (fst (snd m))) \<or> al = st_doc (\<sigma> (snd (snd (snd m))))"
  using assms(2,3)
proof (induction ms arbitrary: c)
  case (Cons n ms)
  obtain f i g j where n: "n = (f, i, g, j)" by (cases n)
  obtain res c' where r: "cached_Allowlist (read_at \<sigma> n) c = (res, c')" by (cases "cached_Allowlist (read_at \<sigma> n) c")
  note step = cached_Allowlist_at[OF assms(1) Cons.prems(1) r[unfolded n]]
  show ?case
  proof (cases "(m, Inr al) \<in> set (zip ms (cached_reads \<sigma> c' ms))")
    case True
    thus ?thesis by (rule Cons.IH[OF step(1)])
  next
    case False
    hence "m = n" "res = Inr al" using Cons.prems(2) r by auto
    thus ?thesis using step(2) by (simp add: n)
  qed
qed simp

section \<open>Properties\<close>

text \<open>C37: \<^bold>\<open>The cached policy is never stale.\<close> For any history of allowlist writes with any database faults and any calls that share the
  cache, in the order of its lock: a document that a call returns is the one the store served at the moment the call read the
  version or at the moment it loaded the document.\<close>

theorem cached_policy_current:
  assumes "store_history H \<sigma>" and "((f, i, g, j), Inr al) \<in> set (zip ms (cached_reads \<sigma> NewCachedPolicy ms))"
  shows "(\<exists>k\<in>{i, j}. LoadAll no_fault (\<sigma> k) = Inr (al, db_version (st_db (\<sigma> k))))"
proof -
  have "cache_ok \<sigma> NewCachedPolicy" by (simp add: cache_ok_def NewCachedPolicy_def)
  from cached_reads_at[OF assms(1) this assms(2)] show ?thesis by (auto simp: LoadAll_no_fault)
qed

definition sample_history :: "nat \<Rightarrow> Store" where
  "sample_history i = (if i = 0 then open_store else snd (SeedWorkloads no_fault [(''web'', DigestEntry (Digest ''d'') [])] open_store))"

lemma sample_history_ok: "store_history H sample_history"
  by (auto simp: store_history_def sample_history_def intro!: r_into_rtranclp store_step.seed surjective_pairing)

theorem cached_policy_current_witness:
  "\<exists>al. \<exists>k\<in>{0, 1}. LoadAll no_fault (sample_history k) = Inr (al, db_version (st_db (sample_history k)))"
proof -
  let ?m = "(no_fault, 0, no_fault, 1) :: fault \<times> nat \<times> fault \<times> nat"
  have "(?m, Inr (st_doc (sample_history 1))) \<in> set (zip [?m] (cached_reads sample_history NewCachedPolicy [?m]))"
    by (simp add: cached_Allowlist_def NewCachedPolicy_def read_at_def store_Version_def query_def LoadAll_no_fault)
  from cached_policy_current[OF sample_history_ok this] show ?thesis by blast
qed

end
