(* ===== verification/Secret_Path.thy ===== *)
theory Secret_Path
  imports Allowlist_Normalize
begin

text \<open>
  Secret store paths and the globs of a grant (\<^verbatim>\<open>src/pkg/allowlist/secrets.go\<close>). The reference view
  of a canonical path is its list of components; the lemmas relate the byte-wise checks of the code
  to it.
\<close>

section \<open>Operations\<close>

datatype path_error =
    ErrPathEmpty | ErrPathPercent | ErrPathRelative | ErrPathWildcard | ErrPathTrailing | ErrPathUnclean

datatype Op = OpRead | OpWrite

definition CanonicalSecretPath :: "string \<Rightarrow> path_error + string" where
  "CanonicalSecretPath p =
     (if p = [] then Inl ErrPathEmpty
      else if Contains p ''%'' then Inl ErrPathPercent
      else if \<not> HasPrefix p ''/'' then Inl ErrPathRelative
      else if Contains p ''*'' then Inl ErrPathWildcard
      else if p \<noteq> ''/'' \<and> HasSuffix p ''/'' then Inl ErrPathTrailing
      else if path_clean p \<noteq> p then Inl ErrPathUnclean
      else Inr p)"

definition matchGlob :: "string \<Rightarrow> string \<Rightarrow> bool" where
  "matchGlob glob p =
     (case CutSuffix glob subtreeSuffix of
        None \<Rightarrow> glob = p
      | Some base0 \<Rightarrow>
          let base = (if base0 = [] then ''/'' else base0)
          in if base = ''/'' then HasPrefix p ''/'' \<and> p \<noteq> ''/''
             else HasPrefix p (base @ ''/''))"

definition Allows :: "SecretsPolicy option \<Rightarrow> string \<Rightarrow> Op \<Rightarrow> bool" where
  "Allows pp canonicalPath op =
     (case pp of
        None \<Rightarrow> False
      | Some p \<Rightarrow>
          if sp_Policy p \<noteq> PolicyAllow then False
          else list_ex (\<lambda>g. matchGlob g canonicalPath) (if op = OpWrite then sp_Write p else sp_Read p))"

section \<open>The component view\<close>

definition canonical_path :: "string \<Rightarrow> bool" where
  "canonical_path p = okE (CanonicalSecretPath p)"

lemma HasPrefix_slash: "HasPrefix p ''/'' \<longleftrightarrow> rooted_path p"
  by (cases p) (auto simp: HasPrefix_def rooted_path_def)

lemma CanonicalSecretPath_Inr_iff:
  "CanonicalSecretPath p = Inr q \<longleftrightarrow>
     q = p \<and> rooted_path p \<and> path_clean p = p \<and> CHR ''%'' \<notin> set p \<and> CHR ''*'' \<notin> set p \<and>
     (p = ''/'' \<or> \<not> HasSuffix p ''/'')"
  by (auto simp: CanonicalSecretPath_def Contains_char HasPrefix_slash rooted_path_def)

lemma canonical_path_iff: "canonical_path p \<longleftrightarrow> CanonicalSecretPath p = Inr p"
  by (auto simp: canonical_path_def okE_iff CanonicalSecretPath_Inr_iff)

lemma canonical_pathD:
  assumes "canonical_path p"
  shows "rooted_path p" and "path_clean p = p"
  using assms by (simp_all add: canonical_path_iff CanonicalSecretPath_Inr_iff)

lemma Join_append:
  "as \<noteq> [] \<Longrightarrow> bs \<noteq> [] \<Longrightarrow> Join sep (as @ bs) = Join sep as @ sep @ Join sep bs"
proof (induction as rule: induct_list012)
  case (2 x)
  thus ?case by (cases bs) auto
qed auto

lemma split_on_Join_append:
  "as \<noteq> [] \<Longrightarrow> (\<And>x. x \<in> set as \<Longrightarrow> c \<notin> set x) \<Longrightarrow>
     split_on c (Join [c] as @ c # s) = as @ split_on c s"
  by (induction as rule: induct_list012) (auto simp: split_on_append)

text \<open>A byte prefix that ends at a slash is a strict prefix of the components.\<close>

lemma Join_prefix_iff:
  assumes "list_all plain_comp as" and "list_all plain_comp bs" and "as \<noteq> []"
  shows "prefix (Join ''/'' as @ ''/'') (Join ''/'' bs) \<longleftrightarrow> strict_prefix as bs"
proof
  have fresh: "\<And>x. x \<in> set as \<union> set bs \<Longrightarrow> CHR ''/'' \<notin> set x"
    using assms(1,2) by (auto simp: list_all_iff plain_comp_def)
  assume "prefix (Join ''/'' as @ ''/'') (Join ''/'' bs)"
  then obtain x where x: "Join ''/'' bs = Join ''/'' as @ CHR ''/'' # x" by (auto simp: prefix_def)
  hence ne: "bs \<noteq> []" by auto
  have "bs = split_on (CHR ''/'') (Join ''/'' bs)"
    using ne fresh by (intro split_on_Join[symmetric]) auto
  also have "\<dots> = as @ split_on (CHR ''/'') x"
    unfolding x using assms(3) fresh by (intro split_on_Join_append) auto
  finally show "strict_prefix as bs" by (auto simp: strict_prefix_def prefix_def)
next
  assume "strict_prefix as bs"
  then obtain cs where "bs = as @ cs" "cs \<noteq> []" by (auto simp: strict_prefix_def prefix_def)
  thus "prefix (Join ''/'' as @ ''/'') (Join ''/'' bs)"
    using assms(3) by (simp add: Join_append)
qed

lemma clean_prefix_iff:
  assumes "rooted_path b" "path_clean b = b" "rooted_path p" "path_clean p = p" and "b \<noteq> ''/''"
  shows "HasPrefix p (b @ ''/'') \<longleftrightarrow> strict_prefix (path_comps b) (path_comps p)"
proof -
  note b = path_clean_fixed[OF assms(1,2)] and p = path_clean_fixed[OF assms(3,4)]
  have "path_comps b \<noteq> []" using b(1) assms(5) by auto
  hence "prefix (Join ''/'' (path_comps b) @ ''/'') (Join ''/'' (path_comps p)) \<longleftrightarrow>
         strict_prefix (path_comps b) (path_comps p)"
    using b(2) p(2) by (intro Join_prefix_iff)
  moreover have "HasPrefix p (b @ ''/'') \<longleftrightarrow>
      HasPrefix (CHR ''/'' # Join ''/'' (path_comps p)) ((CHR ''/'' # Join ''/'' (path_comps b)) @ ''/'')"
    using b(1) p(1) by simp
  ultimately show ?thesis by (simp add: HasPrefix_def)
qed

text \<open>The base path of a glob and whether it covers the subtree below it.\<close>

definition glob_base :: "string \<Rightarrow> string" where
  "glob_base g = (let t = TrimSuffix g subtreeSuffix in if t = [] then ''/'' else t)"

definition glob_subtree :: "string \<Rightarrow> bool" where
  "glob_subtree g = HasSuffix g subtreeSuffix"

definition glob_covers :: "string \<Rightarrow> string list \<Rightarrow> bool" where
  "glob_covers g comps =
     (if glob_subtree g then strict_prefix (path_comps (glob_base g)) comps
      else path_comps g = comps)"

lemma glob_base_cut:
  "CutSuffix g subtreeSuffix = Some b \<Longrightarrow> glob_base g = (if b = [] then ''/'' else b)"
  "CutSuffix g subtreeSuffix = None \<Longrightarrow> glob_base g = (if g = [] then ''/'' else g)"
  by (simp_all add: glob_base_def TrimSuffix_def)

lemma wf_glob_base:
  assumes "wf_glob g"
  shows "rooted_path (glob_base g)" and "path_clean (glob_base g) = glob_base g"
proof -
  have g: "rooted_path g" "path_clean (glob_base g) = glob_base g"
    using assms by (auto simp: wf_glob_def glob_base_def Let_def HasPrefix_slash)
  show "path_clean (glob_base g) = glob_base g" by (rule g(2))
  show "rooted_path (glob_base g)"
  proof (cases "CutSuffix g subtreeSuffix")
    case (Some b)
    hence "g = b @ subtreeSuffix" by (simp add: CutSuffix_Some_iff)
    thus ?thesis using g(1) glob_base_cut(1)[OF Some] by (cases b) (auto simp: rooted_path_def)
  qed (use g(1) glob_base_cut(2) in \<open>auto simp: rooted_path_def\<close>)
qed

lemma path_comps_root [simp]: "path_comps ''/'' = []"
  by (simp add: path_comps_def rooted_path_def)

lemma path_comps_Nil_iff:
  assumes "rooted_path p" and "path_clean p = p"
  shows "path_comps p = [] \<longleftrightarrow> p = ''/''"
  using path_clean_fixed(1)[OF assms] by force

lemma matchGlob_iff:
  assumes "wf_glob g" and "canonical_path p"
  shows "matchGlob g p \<longleftrightarrow> glob_covers g (path_comps p)"
proof (cases "CutSuffix g subtreeSuffix")
  case None
  hence sub: "\<not> glob_subtree g" and base: "glob_base g = g"
    using assms(1) glob_base_cut(2)[OF None]
    by (auto simp: glob_subtree_def CutSuffix_None_iff wf_glob_def HasPrefix_slash rooted_path_def)
  have "path_comps g = path_comps p \<longleftrightarrow> g = p"
    using wf_glob_base[OF assms(1)] canonical_pathD[OF assms(2)] by (simp add: base path_comps_inj)
  thus ?thesis using None sub by (simp add: matchGlob_def glob_covers_def)
next
  case (Some b)
  hence sub: "glob_subtree g" and base: "glob_base g = (if b = [] then ''/'' else b)"
    using glob_base_cut(1)[OF Some]
    by (auto simp: glob_subtree_def HasSuffix_def suffix_def CutSuffix_Some_iff)
  note p = canonical_pathD[OF assms(2)]
  show ?thesis
  proof (cases "glob_base g = ''/''")
    case True
    hence "matchGlob g p \<longleftrightarrow> p \<noteq> ''/''"
      using Some base p(1) by (auto simp: matchGlob_def HasPrefix_slash Let_def split: if_splits)
    thus ?thesis
      using sub True path_comps_Nil_iff[OF p] by (auto simp: glob_covers_def strict_prefix_def)
  next
    case False
    hence "matchGlob g p \<longleftrightarrow> HasPrefix p (glob_base g @ ''/'')"
      using Some base by (auto simp: matchGlob_def Let_def)
    thus ?thesis using clean_prefix_iff[OF wf_glob_base[OF assms(1)] p False] sub
      by (simp add: glob_covers_def)
  qed
qed

section \<open>Properties\<close>

text \<open>
  a secret path has one spelling. An accepted path is returned unchanged, is the slash-joined
  list of its components, none of them empty, \<^verbatim>\<open>.\<close>, \<^verbatim>\<open>..\<close> or holding a slash, holds no percent
  sign and no wildcard, and two accepted paths with the same components are the same bytes.
\<close>

theorem CanonicalSecretPath_unique:
  assumes "CanonicalSecretPath p = Inr q"
  shows "q = p \<and> p = CHR ''/'' # Join ''/'' (path_comps p) \<and> list_all plain_comp (path_comps p)
       \<and> CHR ''%'' \<notin> set p \<and> CHR ''*'' \<notin> set p
       \<and> (\<forall>p' q'. CanonicalSecretPath p' = Inr q' \<and> path_comps p' = path_comps p \<longrightarrow> p' = p)"
proof -
  have p: "rooted_path p" "path_clean p = p" "q = p" "CHR ''%'' \<notin> set p" "CHR ''*'' \<notin> set p"
    using assms by (simp_all add: CanonicalSecretPath_Inr_iff)
  have "CanonicalSecretPath p' = Inr q' \<Longrightarrow> path_comps p' = path_comps p \<Longrightarrow> p' = p" for p' q'
    using path_comps_inj[OF _ _ p(1,2), of p'] by (simp add: CanonicalSecretPath_Inr_iff)
  thus ?thesis using path_clean_fixed[OF p(1,2)] p(3-5) by blast
qed

theorem CanonicalSecretPath_unique_witness:
  "CanonicalSecretPath ''/team/db'' = Inr ''/team/db'' \<and> list_all plain_comp (path_comps ''/team/db'')"
proof -
  have "CanonicalSecretPath ''/team/db'' = Inr ''/team/db''"
    by (simp add: CanonicalSecretPath_Inr_iff rooted_path_def path_clean_def path_comps_def dot_def
        dotdot_def HasSuffix_def suffix_def Let_def)
  thus ?thesis using CanonicalSecretPath_unique by blast
qed

text \<open>
  a grant covers whole path components. On canonical paths a normalised grant allows an
  operation exactly when one of the globs of that operation names the path or, for a subtree glob,
  names a strict ancestor of it: never a sibling that merely shares a byte prefix, never the base
  of the subtree itself. An entry without a grant allows nothing.
\<close>

theorem Allows_components:
  assumes "wf_secrets pp" and "canonical_path p"
  shows "Allows pp p op \<longleftrightarrow>
           (\<exists>sp. pp = Some sp \<and>
              (\<exists>g\<in>set (if op = OpWrite then sp_Write sp else sp_Read sp). glob_covers g (path_comps p)))"
proof (cases pp)
  case (Some sp)
  hence wf: "sp_Policy sp = PolicyAllow" "\<And>g. g \<in> set (sp_Read sp) \<union> set (sp_Write sp) \<Longrightarrow> wf_glob g"
    using assms(1) by (auto simp: wf_secrets_def wf_globs_def list_all_iff)
  show ?thesis using Some wf matchGlob_iff[OF wf(2) assms(2)]
    by (auto simp: Allows_def list_ex_iff)
qed (simp add: Allows_def)

theorem Allows_components_witness:
  "Allows (Some \<lparr>sp_Policy = PolicyAllow, sp_Read = [''/team/**''], sp_Write = []\<rparr>) ''/team/db'' OpRead
 \<and> \<not> Allows (Some \<lparr>sp_Policy = PolicyAllow, sp_Read = [''/team/**''], sp_Write = []\<rparr>) ''/team'' OpRead"
proof -
  let ?pp = "Some \<lparr>sp_Policy = PolicyAllow, sp_Read = [''/team/**''], sp_Write = []\<rparr>"
  have cut: "CutSuffix ''/team/**'' subtreeSuffix = Some ''/team''"
    by (simp add: CutSuffix_Some_iff subtreeSuffix_def)
  have comps: "path_comps ''/team'' = [''team'']" "path_comps ''/team/db'' = [''team'', ''db'']"
    by (simp_all add: path_comps_def rooted_path_def dot_def dotdot_def)
  have "wf_glob ''/team/**''"
    by (simp add: wf_glob_def TrimSuffix_def cut HasPrefix_def Contains_char path_clean_def comps
        rooted_path_def)
  hence wf: "wf_secrets ?pp" by (simp add: wf_secrets_def wf_globs_def)
  have can: "canonical_path ''/team''" "canonical_path ''/team/db''"
    by (simp_all add: canonical_path_iff CanonicalSecretPath_Inr_iff rooted_path_def path_clean_def comps
        HasSuffix_def suffix_def Let_def)
  have "glob_subtree ''/team/**''" by (metis CutSuffix_None_iff cut glob_subtree_def option.distinct(1))
  hence cov: "glob_covers ''/team/**'' cs = strict_prefix [''team''] cs" for cs
    by (simp add: glob_covers_def glob_base_cut(1)[OF cut] comps)
  show ?thesis
    unfolding Allows_components[OF wf can(1)] Allows_components[OF wf can(2)]
    by (simp add: cov comps strict_prefix_def)
qed

end
