(* ===== verification/Secret_Store.thy ===== *)
theory Secret_Store
  imports Secret_Path
begin

text \<open>
  The CDS secret store (\<^verbatim>\<open>src/internal/secrets/store.go\<close>): values by path, the holder each path is
  charged to, the per-holder quota and the ceiling. The locale \<^verbatim>\<open>secret_backend\<close> is the contract of
  the \<^verbatim>\<open>Store\<close> interface that the release and operator handlers are written against.
\<close>

section \<open>State\<close>

datatype Origin = OriginWorkload | OriginOperator

datatype Holder = Holder (ho_origin: Origin) (ho_name: string)

definition OperatorHolder :: Holder where
  "OperatorHolder = Holder OriginOperator []"

definition WorkloadHolder :: "string \<Rightarrow> Holder" where
  "WorkloadHolder workload = Holder OriginWorkload workload"

text \<open>The origin of a path that held nothing is the empty string in the source, \<^const>\<open>None\<close> here.\<close>

record Held =
  he_Exists :: bool
  he_Origin :: "Origin option"

definition no_held :: Held where
  "no_held = \<lparr>he_Exists = False, he_Origin = None\<rparr>"

record entry =
  en_value :: string
  en_holder :: Holder

record MemoryStore =
  ms_values :: "(string \<times> entry) list"
  ms_holders :: "(Holder \<times> nat) list"
  ms_maxPaths :: int
  ms_maxPerHolder :: int
  ms_maxValue :: int

datatype secret_error = ErrNotFound | ErrHolderQuota | ErrStoreFull | ErrValueSize

section \<open>Operations\<close>

text \<open>\<^const>\<open>None\<close> is the panic on inconsistent limits.\<close>

definition NewMemoryStore :: "int \<Rightarrow> int \<Rightarrow> int \<Rightarrow> MemoryStore option" where
  "NewMemoryStore maxPaths maxPerHolder maxValue =
     (if maxPerHolder \<ge> maxPaths then None
      else Some \<lparr>ms_values = [], ms_holders = [], ms_maxPaths = maxPaths,
                 ms_maxPerHolder = maxPerHolder, ms_maxValue = maxValue\<rparr>)"

definition held_count :: "MemoryStore \<Rightarrow> Holder \<Rightarrow> nat" where
  "held_count s h = (case map_of (ms_holders s) h of None \<Rightarrow> 0 | Some n \<Rightarrow> n)"

definition ms_Get :: "MemoryStore \<Rightarrow> string \<Rightarrow> secret_error + string" where
  "ms_Get s path =
     (case map_of (ms_values s) path of None \<Rightarrow> Inl ErrNotFound | Some e \<Rightarrow> Inr (en_value e))"

definition checkValue :: "MemoryStore \<Rightarrow> string \<Rightarrow> secret_error + unit" where
  "checkValue s v = (if int (length v) > ms_maxValue s then Inl ErrValueSize else Inr ())"

definition checkRoomLocked :: "MemoryStore \<Rightarrow> Holder \<Rightarrow> secret_error + unit" where
  "checkRoomLocked s who =
     (if ho_origin who \<noteq> OriginOperator \<and> int (held_count s who) \<ge> ms_maxPerHolder s then Inl ErrHolderQuota
      else if int (length (ms_values s)) \<ge> ms_maxPaths s then Inl ErrStoreFull
      else Inr ())"

text \<open>The charge of the displaced entry is returned before the new one is made.\<close>

definition release_charge :: "MemoryStore \<Rightarrow> string \<Rightarrow> MemoryStore" where
  "release_charge s path =
     (case map_of (ms_values s) path of
        None \<Rightarrow> s
      | Some prior \<Rightarrow>
          if held_count s (en_holder prior) \<le> 1
          then s\<lparr>ms_holders := AList.delete (en_holder prior) (ms_holders s)\<rparr>
          else s\<lparr>ms_holders := AList.update (en_holder prior) (held_count s (en_holder prior) - 1) (ms_holders s)\<rparr>)"

definition storeLocked :: "MemoryStore \<Rightarrow> string \<Rightarrow> string \<Rightarrow> Holder \<Rightarrow> MemoryStore" where
  "storeLocked s path v who =
     (let s1 = release_charge s path;
          s2 = s1\<lparr>ms_values := AList.update path \<lparr>en_value = v, en_holder = who\<rparr> (ms_values s1)\<rparr>
      in s2\<lparr>ms_holders := AList.update who (Suc (held_count s2 who)) (ms_holders s2)\<rparr>)"

definition ms_PutIfAbsent ::
    "MemoryStore \<Rightarrow> string \<Rightarrow> string \<Rightarrow> Holder \<Rightarrow> (secret_error + string \<times> Held) \<times> MemoryStore" where
  "ms_PutIfAbsent s path v who =
     (case checkValue s v of
        Inl e \<Rightarrow> (Inl e, s)
      | Inr _ \<Rightarrow>
          (case map_of (ms_values s) path of
             Some e \<Rightarrow> (Inr (en_value e, \<lparr>he_Exists = True, he_Origin = Some (ho_origin (en_holder e))\<rparr>), s)
           | None \<Rightarrow>
               (case checkRoomLocked s who of
                  Inl e \<Rightarrow> (Inl e, s)
                | Inr _ \<Rightarrow> (Inr (v, no_held), storeLocked s path v who))))"

definition ms_Put :: "MemoryStore \<Rightarrow> string \<Rightarrow> string \<Rightarrow> (secret_error + Held) \<times> MemoryStore" where
  "ms_Put s path v =
     (case checkValue s v of
        Inl e \<Rightarrow> (Inl e, s)
      | Inr _ \<Rightarrow>
          (case map_of (ms_values s) path of
             None \<Rightarrow>
               (case checkRoomLocked s OperatorHolder of
                  Inl e \<Rightarrow> (Inl e, s)
                | Inr _ \<Rightarrow> (Inr no_held, storeLocked s path v OperatorHolder))
           | Some prior \<Rightarrow>
               (Inr \<lparr>he_Exists = True, he_Origin = Some (ho_origin (en_holder prior))\<rparr>,
                storeLocked s path v OperatorHolder)))"

definition ms_Len :: "MemoryStore \<Rightarrow> nat" where
  "ms_Len s = length (ms_values s)"

text \<open>\<^verbatim>\<open>TopHolders\<close> sorts by descending count, ties by origin and name; ``operator'' sorts before
  ``workload''.\<close>

definition holder_key :: "Holder \<times> nat \<Rightarrow> int \<times> string \<times> string" where
  "holder_key hp =
     (- int (snd hp),
      (case ho_origin (fst hp) of OriginOperator \<Rightarrow> ''operator'' | OriginWorkload \<Rightarrow> ''workload''),
      ho_name (fst hp))"

definition TopHolders :: "MemoryStore \<Rightarrow> nat \<Rightarrow> (Holder \<times> nat) list" where
  "TopHolders s n = take n (sort_key holder_key (ms_holders s))"

section \<open>The invariant\<close>

definition paths_of :: "MemoryStore \<Rightarrow> Holder \<Rightarrow> nat" where
  "paths_of s h = length (filter (\<lambda>e. en_holder (snd e) = h) (ms_values s))"

definition ms_inv :: "MemoryStore \<Rightarrow> bool" where
  "ms_inv s =
     (uniq_keys (ms_values s) \<and> uniq_keys (ms_holders s) \<and> (\<forall>h. held_count s h = paths_of s h) \<and>
      (\<forall>h. map_of (ms_holders s) h \<noteq> Some 0))"

definition ms_bounded :: "MemoryStore \<Rightarrow> bool" where
  "ms_bounded s =
     (int (ms_Len s) \<le> max 0 (ms_maxPaths s) \<and>
      list_all (\<lambda>(h, n). ho_origin h = OriginOperator \<or> int n \<le> max 0 (ms_maxPerHolder s)) (ms_holders s) \<and>
      list_all (\<lambda>(p, e). int (length (en_value e)) \<le> ms_maxValue s) (ms_values s))"

section \<open>Lemmas\<close>

lemma filter_update_count:
  "uniq_keys m \<Longrightarrow>
     length (filter (\<lambda>e. P (snd e)) (AList.update k v m)) +
       (case map_of m k of Some u \<Rightarrow> if P u then 1 else 0 | None \<Rightarrow> 0) =
     length (filter (\<lambda>e. P (snd e)) m) + (if P v then 1 else 0)"
proof (induction m)
  case (Cons e m)
  obtain x y where e: "e = (x, y)" by (cases e)
  show ?case
  proof (cases "x = k")
    case True
    have "map_of m k = None" using Cons.prems True e by (auto simp: map_of_eq_None_iff)
    thus ?thesis using True e by simp
  next
    case False
    thus ?thesis using Cons e by simp
  qed
qed simp

lemma sum_list_partition:
  assumes "distinct hs" and "\<And>x. x \<in> set xs \<Longrightarrow> f x \<in> set hs"
  shows "(\<Sum>h\<leftarrow>hs. length (filter (\<lambda>x. f x = h) xs)) = length xs"
  using assms(2)
proof (induction xs)
  case (Cons x xs)
  have "(\<Sum>h\<leftarrow>hs. length (filter (\<lambda>x. f x = h) (x # xs))) =
        (\<Sum>h\<leftarrow>hs. (if f x = h then 1 else 0) + length (filter (\<lambda>x. f x = h) xs))"
    by (intro arg_cong[of _ _ sum_list] map_cong) auto
  also have "\<dots> = (\<Sum>h\<leftarrow>hs. if f x = h then 1 else 0) + length xs"
    using Cons by (simp add: sum_list_addf)
  also have "(\<Sum>h\<leftarrow>hs. if f x = h then 1 else 0) = (1 :: nat)"
    using assms(1) Cons.prems by (simp add: sum_list_distinct_conv_sum_set)
  finally show ?case by simp
qed simp

lemma held_count_simps [simp]:
  "held_count (s\<lparr>ms_values := vs\<rparr>) h = held_count s h"
  "uniq_keys hs \<Longrightarrow> held_count (s\<lparr>ms_holders := AList.update k n hs\<rparr>) h =
     (if h = k then n else (case map_of hs h of None \<Rightarrow> 0 | Some n \<Rightarrow> n))"
  "held_count (s\<lparr>ms_holders := AList.delete k hs\<rparr>) h =
     (if h = k then 0 else (case map_of hs h of None \<Rightarrow> 0 | Some n \<Rightarrow> n))"
  by (simp_all add: held_count_def)

lemma release_charge_count:
  "held_count (release_charge s path) h =
     held_count s h - (case map_of (ms_values s) path of Some e \<Rightarrow> if en_holder e = h then 1 else 0 | None \<Rightarrow> 0)"
  by (auto simp: release_charge_def held_count_def split: option.splits)

lemma release_charge_frame [simp]:
  "ms_values (release_charge s path) = ms_values s"
  "ms_maxPaths (release_charge s path) = ms_maxPaths s"
  "ms_maxPerHolder (release_charge s path) = ms_maxPerHolder s"
  "ms_maxValue (release_charge s path) = ms_maxValue s"
  by (auto simp: release_charge_def split: option.splits)

lemma release_charge_holders:
  assumes "uniq_keys (ms_holders s)" and "\<forall>h. map_of (ms_holders s) h \<noteq> Some 0"
  shows "uniq_keys (ms_holders (release_charge s path))"
    and "\<forall>h. map_of (ms_holders (release_charge s path)) h \<noteq> Some 0"
  using assms by (auto simp: release_charge_def held_count_def split: option.splits simp del: map_of_eq_Some_iff)

lemma storeLocked_values [simp]:
  "ms_values (storeLocked s path v who) = AList.update path \<lparr>en_value = v, en_holder = who\<rparr> (ms_values s)"
  "ms_maxPaths (storeLocked s path v who) = ms_maxPaths s"
  "ms_maxPerHolder (storeLocked s path v who) = ms_maxPerHolder s"
  "ms_maxValue (storeLocked s path v who) = ms_maxValue s"
  by (simp_all add: storeLocked_def Let_def)

lemma storeLocked_count:
  assumes "ms_inv s"
  shows "held_count (storeLocked s path v who) h =
     held_count s h - (case map_of (ms_values s) path of Some e \<Rightarrow> if en_holder e = h then 1 else 0 | None \<Rightarrow> 0)
       + (if h = who then 1 else 0)"
  using release_charge_count[of s path h] release_charge_count[of s path who]
  by (cases "h = who") (simp_all add: storeLocked_def Let_def held_count_def)

lemma paths_of_pos: "map_of (ms_values s) path = Some e \<Longrightarrow> 0 < paths_of s (en_holder e)"
  by (force simp: paths_of_def filter_empty_conv dest: map_of_SomeD)

lemma storeLocked_inv:
  assumes "ms_inv s"
  shows "ms_inv (storeLocked s path v who)"
proof -
  have inv: "uniq_keys (ms_values s)" "uniq_keys (ms_holders s)" "\<And>h. held_count s h = paths_of s h"
    "\<forall>h. map_of (ms_holders s) h \<noteq> Some 0"
    using assms by (simp_all add: ms_inv_def)
  have "held_count (storeLocked s path v who) h = paths_of (storeLocked s path v who) h" for h
    using filter_update_count[OF inv(1), of "\<lambda>e. en_holder e = h" path "\<lparr>en_value = v, en_holder = who\<rparr>"]
      storeLocked_count[OF assms, of path v who h] inv(3)[of h] paths_of_pos[of s path]
    by (cases "map_of (ms_values s) path") (auto simp: paths_of_def split: if_splits)
  moreover have "uniq_keys (ms_holders (storeLocked s path v who))"
    "\<forall>h. map_of (ms_holders (storeLocked s path v who)) h \<noteq> Some 0"
    using release_charge_holders[OF inv(2,4), of path]
    by (auto simp: storeLocked_def Let_def simp del: map_of_eq_Some_iff)
  ultimately show ?thesis using inv(1) by (simp add: ms_inv_def)
qed

lemma checkValue_Inr: "checkValue s v = Inr u \<longleftrightarrow> int (length v) \<le> ms_maxValue s"
  by (auto simp: checkValue_def)

lemma checkRoomLocked_Inr:
  "checkRoomLocked s who = Inr u \<longleftrightarrow>
     (ho_origin who = OriginOperator \<or> int (held_count s who) < ms_maxPerHolder s) \<and>
     int (length (ms_values s)) < ms_maxPaths s"
  by (auto simp: checkRoomLocked_def)

text \<open>What a write can do: nothing, or store one value the checks let through.\<close>

definition admitted_write :: "MemoryStore \<Rightarrow> string \<Rightarrow> string \<Rightarrow> Holder \<Rightarrow> bool" where
  "admitted_write s path v who =
     (int (length v) \<le> ms_maxValue s \<and>
      (map_of (ms_values s) path = None \<longrightarrow>
         (ho_origin who = OriginOperator \<or> int (held_count s who) < ms_maxPerHolder s) \<and>
         int (length (ms_values s)) < ms_maxPaths s))"

lemma ms_PutIfAbsent_cases:
  assumes "ms_PutIfAbsent s path v who = (res, s')"
  shows "(\<exists>e. res = Inl e) \<and> s' = s
       \<or> (\<exists>e. map_of (ms_values s) path = Some e \<and> s' = s \<and>
              res = Inr (en_value e, \<lparr>he_Exists = True, he_Origin = Some (ho_origin (en_holder e))\<rparr>))
       \<or> map_of (ms_values s) path = None \<and> res = Inr (v, no_held) \<and>
           s' = storeLocked s path v who \<and> admitted_write s path v who"
  using assms
  by (auto simp: ms_PutIfAbsent_def admitted_write_def checkValue_Inr checkRoomLocked_Inr
      split: sum.splits option.splits)

lemma ms_Put_cases:
  assumes "ms_Put s path v = (res, s')"
  shows "(\<exists>e. res = Inl e) \<and> s' = s
       \<or> (\<exists>held. res = Inr held \<and> he_Exists held = (map_of (ms_values s) path \<noteq> None)) \<and>
           s' = storeLocked s path v OperatorHolder \<and> admitted_write s path v OperatorHolder"
  using assms
  by (auto simp: ms_Put_def admitted_write_def checkValue_Inr checkRoomLocked_Inr no_held_def
      split: sum.splits option.splits)

lemma storeLocked_bounded:
  assumes "ms_inv s" and "ms_bounded s" and "admitted_write s path v who"
    and "map_of (ms_values s) path = None \<or> ho_origin who = OriginOperator"
  shows "ms_bounded (storeLocked s path v who)"
proof -
  let ?t = "storeLocked s path v who"
  have inv': "ms_inv ?t" by (rule storeLocked_inv[OF assms(1)])
  have len: "int (ms_Len ?t) \<le> max 0 (ms_maxPaths ?t)"
    using assms(2,3) by (auto simp: ms_bounded_def ms_Len_def admitted_write_def length_update)
  have vals: "list_all (\<lambda>(p, e). int (length (en_value e)) \<le> ms_maxValue ?t) (ms_values ?t)"
    using assms(2,3) by (auto simp: ms_bounded_def admitted_write_def list_all_iff dest!: update_set_cases)
  have quota: "ho_origin h = OriginOperator \<or> int (held_count ?t h) \<le> max 0 (ms_maxPerHolder s)" for h
  proof -
    have "ho_origin h = OriginOperator \<or> int (held_count s h) \<le> max 0 (ms_maxPerHolder s)"
      using assms(2) by (auto simp: ms_bounded_def held_count_def list_all_iff split: option.splits dest: map_of_SomeD)
    thus ?thesis using storeLocked_count[OF assms(1), of path v who h] assms(3,4)
      by (auto simp: admitted_write_def split: option.splits if_splits)
  qed
  have count: "ho_origin h = OriginOperator \<or> int n \<le> max 0 (ms_maxPerHolder s)" if "(h, n) \<in> set (ms_holders ?t)" for h n
  proof -
    have "map_of (ms_holders ?t) h = Some n" using that inv' by (simp add: ms_inv_def)
    hence "held_count ?t h = n" by (simp add: held_count_def)
    thus ?thesis using quota[of h] by simp
  qed
  hence "list_all (\<lambda>(h, n). ho_origin h = OriginOperator \<or> int n \<le> max 0 (ms_maxPerHolder ?t)) (ms_holders ?t)"
    by (auto simp: list_all_iff)
  thus ?thesis using len vals by (simp add: ms_bounded_def)
qed

section \<open>The contract of the store\<close>

locale secret_backend =
  fixes get :: "'s \<Rightarrow> string \<Rightarrow> secret_error + string"
    and put_if_absent :: "'s \<Rightarrow> string \<Rightarrow> string \<Rightarrow> Holder \<Rightarrow> (secret_error + string \<times> Held) \<times> 's"
    and put :: "'s \<Rightarrow> string \<Rightarrow> string \<Rightarrow> (secret_error + Held) \<times> 's"
  assumes absent_held: "put_if_absent s p v h = (Inr (cur, held), s') \<Longrightarrow> he_Exists held \<Longrightarrow> s' = s \<and> get s p = Inr cur"
    and absent_new: "put_if_absent s p v h = (Inr (cur, held), s') \<Longrightarrow> \<not> he_Exists held \<Longrightarrow>
      cur = v \<and> get s p = Inl ErrNotFound \<and> get s' p = Inr v \<and> (\<forall>q. q \<noteq> p \<longrightarrow> get s' q = get s q)"
    and absent_err: "put_if_absent s p v h = (Inl e, s') \<Longrightarrow> s' = s"
    and put_ok: "put s p v = (Inr held, s') \<Longrightarrow>
      get s' p = Inr v \<and> (\<forall>q. q \<noteq> p \<longrightarrow> get s' q = get s q) \<and> he_Exists held = okE (get s p)"
    and put_err: "put s p v = (Inl e, s') \<Longrightarrow> s' = s"
begin

text \<open>A create never changes a value that is there, and what it reports is what the path holds.\<close>

lemma create_keeps: "put_if_absent s p v h = (r, s') \<Longrightarrow> get s q = Inr u \<Longrightarrow> get s' q = Inr u"
proof (cases r)
  case (Inr x)
  assume "put_if_absent s p v h = (r, s')" "get s q = Inr u"
  moreover obtain cur held where "x = (cur, held)" by (cases x)
  ultimately show ?thesis
    using Inr absent_held[of s p v h cur held s'] absent_new[of s p v h cur held s']
    by (cases "he_Exists held"; cases "q = p") auto
qed (metis absent_err)

lemma create_reports: "put_if_absent s p v h = (Inr (cur, held), s') \<Longrightarrow> get s' p = Inr cur"
  using absent_held[of s p v h cur held s'] absent_new[of s p v h cur held s']
  by (cases "he_Exists held") auto

lemma create_race:
  assumes "put_if_absent s p v h = (Inr (c1, h1), s1)" and "put_if_absent s1 p v' h' = (Inr (c2, h2), s2)"
  shows "c2 = c1 \<and> he_Exists h2 \<and> get s2 p = Inr c1"
proof -
  have g1: "get s1 p = Inr c1" by (rule create_reports[OF assms(1)])
  have ex: "he_Exists h2" using absent_new[OF assms(2)] g1 by auto
  show ?thesis using absent_held[OF assms(2) ex] g1 ex by simp
qed

end

interpretation mem: secret_backend ms_Get ms_PutIfAbsent ms_Put
proof
  show "s' = s \<and> ms_Get s p = Inr cur" if "ms_PutIfAbsent s p v h = (Inr (cur, held), s')" "he_Exists held"
    for s s' p v h cur held
    using ms_PutIfAbsent_cases[OF that(1)] that(2) by (auto simp: ms_Get_def no_held_def)
  show "cur = v \<and> ms_Get s p = Inl ErrNotFound \<and> ms_Get s' p = Inr v \<and> (\<forall>q. q \<noteq> p \<longrightarrow> ms_Get s' q = ms_Get s q)"
    if "ms_PutIfAbsent s p v h = (Inr (cur, held), s')" "\<not> he_Exists held" for s s' p v h cur held
    using ms_PutIfAbsent_cases[OF that(1)] that(2) by (auto simp: ms_Get_def)
  show "s' = s" if "ms_PutIfAbsent s p v h = (Inl e, s')" for s s' p v h e
    using ms_PutIfAbsent_cases[OF that] by auto
  show "ms_Get s' p = Inr v \<and> (\<forall>q. q \<noteq> p \<longrightarrow> ms_Get s' q = ms_Get s q) \<and> he_Exists held = okE (ms_Get s p)"
    if "ms_Put s p v = (Inr held, s')" for s s' p v held
    using ms_Put_cases[OF that] by (auto simp: ms_Get_def split: option.splits)
  show "s' = s" if "ms_Put s p v = (Inl e, s')" for s s' p v e
    using ms_Put_cases[OF that] by auto
qed

section \<open>Histories\<close>

inductive ms_step :: "MemoryStore \<Rightarrow> MemoryStore \<Rightarrow> bool" where
  create: "ms_PutIfAbsent s path v who = (res, s') \<Longrightarrow> ms_step s s'"
| replace: "ms_Put s path v = (res, s') \<Longrightarrow> ms_step s s'"

lemma ms_step_inv:
  assumes "ms_step s s'" and "ms_inv s" and "ms_bounded s"
  shows "ms_inv s' \<and> ms_bounded s'"
  using assms
proof cases
  case (create path v who res)
  show ?thesis using ms_PutIfAbsent_cases[OF create(1)] assms(2,3) storeLocked_inv storeLocked_bounded by auto
next
  case (replace path v res)
  show ?thesis using ms_Put_cases[OF replace(1)] assms(2,3) storeLocked_inv
      storeLocked_bounded[OF assms(2,3), of path v OperatorHolder] by (auto simp: OperatorHolder_def)
qed

lemma ms_reach_inv: "ms_step\<^sup>*\<^sup>* s t \<Longrightarrow> ms_inv s \<Longrightarrow> ms_bounded s \<Longrightarrow> ms_inv t \<and> ms_bounded t"
  by (induction rule: rtranclp_induct) (auto dest: ms_step_inv)

lemma ms_holders_sum:
  assumes "ms_inv s"
  shows "(\<Sum>e\<leftarrow>ms_holders s. snd e) = ms_Len s"
proof -
  have "snd e = paths_of s (fst e)" if "e \<in> set (ms_holders s)" for e
  proof -
    have "map_of (ms_holders s) (fst e) = Some (snd e)" using that assms by (simp add: ms_inv_def)
    hence "held_count s (fst e) = snd e" by (simp add: held_count_def)
    thus ?thesis using assms by (simp add: ms_inv_def)
  qed
  hence "(\<Sum>e\<leftarrow>ms_holders s. snd e) = (\<Sum>h\<leftarrow>map fst (ms_holders s). paths_of s h)"
    by (simp cong: map_cong)
  also have "\<dots> = length (ms_values s)"
    unfolding paths_of_def
  proof (rule sum_list_partition)
    show "distinct (map fst (ms_holders s))" using assms by (simp add: ms_inv_def)
    fix x assume "x \<in> set (ms_values s)"
    hence "0 < paths_of s (en_holder (snd x))" by (auto simp: paths_of_def filter_empty_conv)
    hence "0 < held_count s (en_holder (snd x))" using assms by (simp add: ms_inv_def)
    thus "en_holder (snd x) \<in> set (map fst (ms_holders s))"
      by (auto simp: held_count_def split: option.splits dest: map_of_SomeD) (force dest: map_of_SomeD)
  qed
  finally show ?thesis by (simp add: ms_Len_def)
qed

section \<open>Properties\<close>

text \<open>
  the holder accounting is exact and the bounds hold along every history of a freshly built
  store: each holder is charged for exactly the paths it holds, the charges add up to the number of
  paths, the store never exceeds its ceiling, no workload its quota, no value its size.
\<close>

theorem MemoryStore_accounting:
  assumes "NewMemoryStore maxPaths maxPerHolder maxValue = Some s" and "ms_step\<^sup>*\<^sup>* s t"
  shows "held_count t h = paths_of t h
       \<and> (\<Sum>e\<leftarrow>ms_holders t. snd e) = ms_Len t
       \<and> int (ms_Len t) \<le> max 0 maxPaths
       \<and> int (held_count t (WorkloadHolder w)) \<le> max 0 maxPerHolder
       \<and> (\<forall>p v. ms_Get t p = Inr v \<longrightarrow> int (length v) \<le> maxValue)"
proof -
  have init: "ms_inv s" "ms_bounded s"
    using assms(1) by (auto simp: NewMemoryStore_def ms_inv_def ms_bounded_def ms_Len_def held_count_def paths_of_def
        split: if_splits)
  have lim: "ms_maxPaths t = maxPaths \<and> ms_maxPerHolder t = maxPerHolder \<and> ms_maxValue t = maxValue"
    using assms(2)
  proof (induction rule: rtranclp_induct)
    case base
    show ?case using assms(1) by (auto simp: NewMemoryStore_def split: if_splits)
  next
    case (step t u)
    from step(2) show ?case using step(3) by cases (auto dest!: ms_PutIfAbsent_cases ms_Put_cases)
  qed
  have t: "ms_inv t" "ms_bounded t" using ms_reach_inv[OF assms(2) init] by auto
  have "int (held_count t (WorkloadHolder w)) \<le> max 0 maxPerHolder"
    using t(2) lim
    by (auto simp: ms_bounded_def held_count_def WorkloadHolder_def list_all_iff split: option.splits dest!: map_of_SomeD)
  moreover have "\<forall>p v. ms_Get t p = Inr v \<longrightarrow> int (length v) \<le> maxValue"
    using t(2) lim
    by (auto simp: ms_bounded_def ms_Get_def list_all_iff split: option.splits dest!: map_of_SomeD)
  ultimately show ?thesis
    using t lim ms_holders_sum[OF t(1)] by (simp add: ms_inv_def ms_bounded_def)
qed

theorem MemoryStore_accounting_witness:
  "\<exists>s t. NewMemoryStore 4 2 32 = Some s \<and> ms_step\<^sup>*\<^sup>* s t \<and> ms_Len t = 1
       \<and> held_count t (WorkloadHolder ''web'') = paths_of t (WorkloadHolder ''web'')"
proof -
  let ?s = "\<lparr>ms_values = [], ms_holders = [], ms_maxPaths = 4, ms_maxPerHolder = 2, ms_maxValue = 32\<rparr>"
  let ?t = "snd (ms_PutIfAbsent ?s ''/a'' ''v'' (WorkloadHolder ''web''))"
  have new: "NewMemoryStore 4 2 32 = Some ?s" by (simp add: NewMemoryStore_def)
  have "ms_step ?s ?t" by (rule ms_step.create) (rule surjective_pairing)
  hence st: "ms_step\<^sup>*\<^sup>* ?s ?t" by blast
  have "ms_Len ?t = 1"
    by (simp add: ms_Len_def ms_PutIfAbsent_def checkValue_def checkRoomLocked_def held_count_def WorkloadHolder_def)
  thus ?thesis using MemoryStore_accounting[OF new st, of "WorkloadHolder ''web''"] new st by blast
qed

text \<open>
  creating is write-once and race-free. A create reports the value the path holds afterwards,
  leaves every value that was there unchanged, and when two parties create the same path the second
  is told that it exists and both end up reading the value of the first.
\<close>

theorem PutIfAbsent_write_once:
  assumes "ms_PutIfAbsent s p v h = (Inr (c1, h1), s1)" and "ms_PutIfAbsent s1 p v' h' = (Inr (c2, h2), s2)"
  shows "c2 = c1 \<and> he_Exists h2 \<and> ms_Get s1 p = Inr c1 \<and> ms_Get s2 p = Inr c1
       \<and> (\<forall>q u. ms_Get s q = Inr u \<longrightarrow> ms_Get s2 q = Inr u)"
  using mem.create_race[OF assms] mem.create_reports[OF assms(1)]
    mem.create_keeps[OF assms(1)] mem.create_keeps[OF assms(2)]
  by blast

theorem PutIfAbsent_write_once_witness:
  "\<exists>s s1 s2. ms_PutIfAbsent s ''/a'' ''x'' (WorkloadHolder ''web'') = (Inr (''x'', no_held), s1)
      \<and> ms_PutIfAbsent s1 ''/a'' ''y'' (WorkloadHolder ''db'') =
          (Inr (''x'', \<lparr>he_Exists = True, he_Origin = Some OriginWorkload\<rparr>), s2)
      \<and> ms_Get s2 ''/a'' = Inr ''x''"
proof -
  let ?s = "\<lparr>ms_values = [], ms_holders = [], ms_maxPaths = 4, ms_maxPerHolder = 2, ms_maxValue = 32\<rparr>"
  let ?s1 = "storeLocked ?s ''/a'' ''x'' (WorkloadHolder ''web'')"
  have 1: "ms_PutIfAbsent ?s ''/a'' ''x'' (WorkloadHolder ''web'') = (Inr (''x'', no_held), ?s1)"
    by (simp add: ms_PutIfAbsent_def checkValue_def checkRoomLocked_def held_count_def WorkloadHolder_def)
  have 2: "ms_PutIfAbsent ?s1 ''/a'' ''y'' (WorkloadHolder ''db'') =
      (Inr (''x'', \<lparr>he_Exists = True, he_Origin = Some OriginWorkload\<rparr>), ?s1)"
    by (simp add: ms_PutIfAbsent_def checkValue_def WorkloadHolder_def)
  show ?thesis using PutIfAbsent_write_once[OF 1 2] 1 2 by blast
qed

end
