(* ===== verification/Challenges.thy ===== *)
theory Challenges
  imports C8s_Prelude
begin

text \<open>
  The single-use attestation challenges (\<^verbatim>\<open>src/internal/attestation/challenge.go\<close>). Times are
  integers (nanoseconds); the random bytes of a new challenge are an argument of \<^verbatim>\<open>Create\<close>. The
  locale \<^verbatim>\<open>nonce_source\<close> is what the issuance and release handlers rely on.
\<close>

section \<open>State and operations\<close>

record ChallengeStore =
  cs_challenges :: "(string \<times> int) list"
  cs_issued :: "string list"
  cs_ttl :: int

definition NewChallengeStore :: "int \<Rightarrow> ChallengeStore" where
  "NewChallengeStore ttl = \<lparr>cs_challenges = [], cs_issued = [], cs_ttl = ttl\<rparr>"

definition maxChallenges :: nat where
  "maxChallenges = 131072"

definition ch_live :: "ChallengeStore \<Rightarrow> int \<Rightarrow> string \<Rightarrow> bool" where
  "ch_live s now key =
     (case map_of (cs_challenges s) key of None \<Rightarrow> False | Some created \<Rightarrow> now - created < cs_ttl s)"

fun drop_expired_loop :: "int \<Rightarrow> int \<Rightarrow> (string \<times> int) list \<Rightarrow> string list \<Rightarrow> (string \<times> int) list \<times> string list" where
  "drop_expired_loop now ttl m [] = (m, [])"
| "drop_expired_loop now ttl m (front # rest) =
     (if (case map_of m front of None \<Rightarrow> False | Some created \<Rightarrow> now - created < ttl)
      then (m, front # rest)
      else drop_expired_loop now ttl (AList.delete front m) rest)"

definition dropExpired :: "int \<Rightarrow> ChallengeStore \<Rightarrow> ChallengeStore" where
  "dropExpired now s =
     (case drop_expired_loop now (cs_ttl s) (cs_challenges s) (cs_issued s) of
        (m, q) \<Rightarrow> s\<lparr>cs_challenges := m, cs_issued := q\<rparr>)"

fun compact_loop :: "int \<Rightarrow> int \<Rightarrow> (string \<times> int) list \<Rightarrow> string list \<Rightarrow> (string \<times> int) list \<times> string list" where
  "compact_loop now ttl m [] = (m, [])"
| "compact_loop now ttl m (key # keys) =
     (case map_of m key of
        None \<Rightarrow> compact_loop now ttl m keys
      | Some created \<Rightarrow>
          if now - created \<ge> ttl then compact_loop now ttl (AList.delete key m) keys
          else (case compact_loop now ttl m keys of (m', kept) \<Rightarrow> (m', key # kept)))"

definition compact :: "int \<Rightarrow> ChallengeStore \<Rightarrow> ChallengeStore" where
  "compact now s =
     (case compact_loop now (cs_ttl s) (cs_challenges s) (cs_issued s) of
        (m, q) \<Rightarrow> s\<lparr>cs_challenges := m, cs_issued := q\<rparr>)"

definition dropOldest :: "ChallengeStore \<Rightarrow> ChallengeStore" where
  "dropOldest s =
     (case cs_issued s of
        [] \<Rightarrow> s
      | front # rest \<Rightarrow> s\<lparr>cs_challenges := AList.delete front (cs_challenges s), cs_issued := rest\<rparr>)"

definition Create :: "string \<Rightarrow> int \<Rightarrow> ChallengeStore \<Rightarrow> ChallengeStore" where
  "Create challenge now s =
     (let s1 = dropExpired now s;
          s2 = (if length (cs_issued s1) \<ge> 2 * maxChallenges then compact now s1 else s1);
          s3 = (if length (cs_challenges s2) \<ge> maxChallenges then dropOldest s2 else s2)
      in s3\<lparr>cs_challenges := AList.update challenge now (cs_challenges s3),
            cs_issued := cs_issued s3 @ [challenge]\<rparr>)"

definition Consume :: "string \<Rightarrow> int \<Rightarrow> ChallengeStore \<Rightarrow> bool \<times> ChallengeStore" where
  "Consume challenge now s =
     (if length challenge \<noteq> 32 then (False, s)
      else case map_of (cs_challenges s) challenge of
        None \<Rightarrow> (False, s)
      | Some created \<Rightarrow>
          (now - created < cs_ttl s, s\<lparr>cs_challenges := AList.delete challenge (cs_challenges s)\<rparr>))"

section \<open>The contract of a nonce source\<close>

locale nonce_source =
  fixes consume :: "string \<Rightarrow> int \<Rightarrow> 's \<Rightarrow> bool \<times> 's"
    and outstanding :: "'s \<Rightarrow> string set"
  assumes accept_outstanding: "consume c now s = (True, s') \<Longrightarrow> c \<in> outstanding s"
    and consume_removes: "consume c now s = (b, s') \<Longrightarrow> outstanding s' = outstanding s - {c} \<or> \<not> b \<and> s' = s"
begin

lemma consume_shrinks: "consume c now s = (b, s') \<Longrightarrow> outstanding s' \<subseteq> outstanding s"
  using consume_removes by fastforce

text \<open>Redeeming a list of nonces one after the other: the verdicts and the final state.\<close>

lemma accepted_once:
  assumes "consume c now s = (True, s')" and "consume c now' s' = (b, s'')"
  shows "\<not> b"
  using assms accept_outstanding[of c now' s' s''] consume_removes[OF assms(1)] by auto

lemma refused_when_absent: "c \<notin> outstanding s \<Longrightarrow> consume c now s = (b, s') \<Longrightarrow> \<not> b"
  using accept_outstanding by (cases b) auto

end

interpretation nonces: nonce_source Consume "\<lambda>s. dom (map_of (cs_challenges s))"
  by unfold_locales
    (auto simp: Consume_def delete_conv split: option.splits if_splits)

section \<open>Lemmas\<close>

definition ch_inv :: "ChallengeStore \<Rightarrow> bool" where
  "ch_inv s =
     (uniq_keys (cs_challenges s) \<and> dom (map_of (cs_challenges s)) \<subseteq> set (cs_issued s) \<and>
      length (cs_challenges s) \<le> maxChallenges)"

lemma length_delete_le: "length (AList.delete k m) \<le> length m"
  by (simp add: AList.delete_eq)

lemma drop_expired_loop_inv:
  assumes "drop_expired_loop now ttl m q = (m', q')" and "uniq_keys m" and "dom (map_of m) \<subseteq> set q"
  shows "uniq_keys m' \<and> dom (map_of m') \<subseteq> set q' \<and> length m' \<le> length m
       \<and> map_of m' \<subseteq>\<^sub>m map_of m \<and> (\<exists>pre. q = pre @ q')
       \<and> (q' \<noteq> [] \<longrightarrow> hd q' \<in> dom (map_of m'))"
  using assms
proof (induction now ttl m q rule: drop_expired_loop.induct)
  case (2 now ttl m front rest)
  let ?live = "case map_of m front of None \<Rightarrow> False | Some created \<Rightarrow> now - created < ttl"
  show ?case
  proof (cases ?live)
    case True
    thus ?thesis using 2(2-4) by (auto split: option.splits)
  next
    case False
    have d: "drop_expired_loop now ttl (AList.delete front m) rest = (m', q')" using 2(2) False by simp
    have "dom (map_of (AList.delete front m)) \<subseteq> set rest" using 2(4) by (auto simp: subset_iff domIff split: if_splits)
    note ih = 2(1)[OF False d uniq_keys_delete[OF 2(3)] this]
    have "map_of (AList.delete front m) \<subseteq>\<^sub>m map_of m" by (auto simp: map_le_def split: if_splits)
    hence "map_of m' \<subseteq>\<^sub>m map_of m" using ih map_le_trans by blast
    moreover have "length m' \<le> length m" using ih length_delete_le[of front m] by linarith
    moreover have "\<exists>pre. front # rest = pre @ q'" using ih by (metis append_Cons)
    ultimately show ?thesis using ih by blast
  qed
qed auto

definition fresh_at :: "int \<Rightarrow> int \<Rightarrow> (string \<times> int) list \<Rightarrow> string \<Rightarrow> bool" where
  "fresh_at now ttl m k = (case map_of m k of None \<Rightarrow> False | Some created \<Rightarrow> now - created < ttl)"

lemma compact_loop_eq:
  assumes "compact_loop now ttl m ks = (m', kept)" and "uniq_keys m"
  shows "uniq_keys m' \<and> length m' \<le> length m \<and> kept = filter (fresh_at now ttl m) ks
       \<and> (\<forall>k. map_of m' k = (if k \<in> set ks \<and> \<not> fresh_at now ttl m k then None else map_of m k))"
  using assms
proof (induction now ttl m ks arbitrary: m' kept rule: compact_loop.induct)
  case (2 now ttl m key keys)
  show ?case
  proof (cases "map_of m key")
    case None
    thus ?thesis using 2(1)[OF None] 2(4,5) by (auto simp: fresh_at_def)
  next
    case (Some created)
    show ?thesis
    proof (cases "now - created \<ge> ttl")
      case True
      hence d: "compact_loop now ttl (AList.delete key m) keys = (m', kept)" using 2(4) Some by simp
      note ih = 2(2)[OF Some True d uniq_keys_delete[OF 2(5)]]
      have f: "fresh_at now ttl (AList.delete key m) k = (k \<noteq> key \<and> fresh_at now ttl m k)" for k
        by (auto simp: fresh_at_def)
      have "\<not> fresh_at now ttl m key" using Some True by (simp add: fresh_at_def)
      thus ?thesis using ih length_delete_le[of key m] by (auto simp: f intro: filter_cong)
    next
      case False
      obtain kept' where d: "compact_loop now ttl m keys = (m', kept')" "kept = key # kept'"
        using 2(4) Some False by (auto split: prod.splits)
      have "fresh_at now ttl m key" using Some False by (simp add: fresh_at_def)
      thus ?thesis using 2(3)[OF Some False d(1) 2(5)] d(2) by auto
    qed
  qed
qed simp

lemma dropExpired_inv:
  assumes "ch_inv s" and "dropExpired now s = t"
  shows "ch_inv t" and "map_of (cs_challenges t) \<subseteq>\<^sub>m map_of (cs_challenges s)"
    and "cs_issued t \<noteq> [] \<longrightarrow> hd (cs_issued t) \<in> dom (map_of (cs_challenges t))" and "cs_ttl t = cs_ttl s"
    and "\<exists>pre. cs_issued s = pre @ cs_issued t"
proof -
  obtain m q where mq: "drop_expired_loop now (cs_ttl s) (cs_challenges s) (cs_issued s) = (m, q)" by fastforce
  hence t: "t = s\<lparr>cs_challenges := m, cs_issued := q\<rparr>" using assms(2) by (simp add: dropExpired_def)
  note inv = drop_expired_loop_inv[OF mq]
  show "ch_inv t" "map_of (cs_challenges t) \<subseteq>\<^sub>m map_of (cs_challenges s)"
    "cs_issued t \<noteq> [] \<longrightarrow> hd (cs_issued t) \<in> dom (map_of (cs_challenges t))" "cs_ttl t = cs_ttl s"
    "\<exists>pre. cs_issued s = pre @ cs_issued t"
    using inv assms(1) by (simp_all add: t ch_inv_def)
qed

lemma compact_inv:
  assumes "ch_inv s" and "compact now s = t"
  shows "ch_inv t" and "map_of (cs_challenges t) \<subseteq>\<^sub>m map_of (cs_challenges s)"
    and "set (cs_issued t) \<subseteq> dom (map_of (cs_challenges t))" and "cs_ttl t = cs_ttl s"
    and "cs_issued t = filter (fresh_at now (cs_ttl s) (cs_challenges s)) (cs_issued s)"
proof -
  obtain m q where mq: "compact_loop now (cs_ttl s) (cs_challenges s) (cs_issued s) = (m, q)" by fastforce
  hence t: "t = s\<lparr>cs_challenges := m, cs_issued := q\<rparr>" using assms(2) by (simp add: compact_def)
  have u: "uniq_keys (cs_challenges s)" using assms(1) by (simp add: ch_inv_def)
  note eq = compact_loop_eq[OF mq u]
  have dom: "dom (map_of m) \<subseteq> set q"
    using eq assms(1) by (auto simp: ch_inv_def subset_iff domIff split: if_splits)
  have sub: "set q \<subseteq> dom (map_of m)"
    using eq by (auto simp: fresh_at_def domIff split: option.splits)
  show "ch_inv t" "map_of (cs_challenges t) \<subseteq>\<^sub>m map_of (cs_challenges s)"
    "set (cs_issued t) \<subseteq> dom (map_of (cs_challenges t))" "cs_ttl t = cs_ttl s"
    "cs_issued t = filter (fresh_at now (cs_ttl s) (cs_challenges s)) (cs_issued s)"
    using eq dom sub assms(1) by (auto simp: t ch_inv_def map_le_def split: if_splits)
qed

text \<open>The state of \<^verbatim>\<open>Create\<close> before the new challenge is added.\<close>

definition make_room :: "int \<Rightarrow> ChallengeStore \<Rightarrow> ChallengeStore" where
  "make_room now s =
     (let s1 = dropExpired now s;
          s2 = (if length (cs_issued s1) \<ge> 2 * maxChallenges then compact now s1 else s1)
      in if length (cs_challenges s2) \<ge> maxChallenges then dropOldest s2 else s2)"

lemma Create_eq:
  "Create c now s = (make_room now s)\<lparr>cs_challenges := AList.update c now (cs_challenges (make_room now s)),
     cs_issued := cs_issued (make_room now s) @ [c]\<rparr>"
  by (simp add: Create_def make_room_def Let_def)

lemma make_room_inv:
  assumes "ch_inv s"
  shows "ch_inv (make_room now s)" and "length (cs_challenges (make_room now s)) < maxChallenges"
    and "map_of (cs_challenges (make_room now s)) \<subseteq>\<^sub>m map_of (cs_challenges s)"
    and "cs_ttl (make_room now s) = cs_ttl s"
proof -
  define s1 where "s1 = dropExpired now s"
  define s2 where "s2 = (if length (cs_issued s1) \<ge> 2 * maxChallenges then compact now s1 else s1)"
  note d = dropExpired_inv[OF assms s1_def[symmetric]]
  note c = compact_inv[OF d(1) refl, of now]
  have s2: "ch_inv s2" "map_of (cs_challenges s2) \<subseteq>\<^sub>m map_of (cs_challenges s1)" "cs_ttl s2 = cs_ttl s1"
    using c(1,2,4) d(1) by (simp_all add: s2_def)
  have hd: "hd (cs_issued s2) \<in> dom (map_of (cs_challenges s2))" if "cs_issued s2 \<noteq> []"
  proof (cases "length (cs_issued s1) \<ge> 2 * maxChallenges")
    case True
    hence "s2 = compact now s1" by (simp add: s2_def)
    thus ?thesis using c(3) hd_in_set[OF that] by (metis subsetD)
  next
    case False
    hence "s2 = s1" by (simp add: s2_def)
    thus ?thesis using d(3) that by simp
  qed
  have le: "map_of (cs_challenges s2) \<subseteq>\<^sub>m map_of (cs_challenges s)" using s2(2) d(2) map_le_trans by blast
  have mr: "make_room now s = (if length (cs_challenges s2) \<ge> maxChallenges then dropOldest s2 else s2)"
    by (simp add: make_room_def s1_def s2_def Let_def)
  have all: "ch_inv (make_room now s) \<and> length (cs_challenges (make_room now s)) < maxChallenges \<and>
      map_of (cs_challenges (make_room now s)) \<subseteq>\<^sub>m map_of (cs_challenges s) \<and> cs_ttl (make_room now s) = cs_ttl s"
  proof (cases "length (cs_challenges s2) \<ge> maxChallenges")
    case False
    thus ?thesis using s2 le d(4) by (simp add: mr)
  next
    case True
    have "cs_challenges s2 \<noteq> []" using True by (auto simp: maxChallenges_def)
    hence "cs_issued s2 \<noteq> []" using s2(1) by (cases "cs_challenges s2") (auto simp: ch_inv_def)
    then obtain f r where q: "cs_issued s2 = f # r" by (cases "cs_issued s2") auto
    obtain c where c: "map_of (cs_challenges s2) f = Some c" using hd q by auto
    have del: "length (AList.delete f (cs_challenges s2)) = length (cs_challenges s2) - 1"
      using length_delete[of "cs_challenges s2" f] s2(1) c by (simp add: ch_inv_def)
    have "map_of (AList.delete f (cs_challenges s2)) \<subseteq>\<^sub>m map_of (cs_challenges s)"
      using le by (auto simp: map_le_def domIff split: if_splits)
    moreover have "dom (map_of (AList.delete f (cs_challenges s2))) \<subseteq> set r"
      using s2(1) q by (auto simp: ch_inv_def delete_conv')
    ultimately show ?thesis
      using True s2(1,3) d(4) del q \<open>cs_challenges s2 \<noteq> []\<close>
      by (simp add: mr dropOldest_def ch_inv_def maxChallenges_def)
  qed
  thus "ch_inv (make_room now s)" "length (cs_challenges (make_room now s)) < maxChallenges"
    "map_of (cs_challenges (make_room now s)) \<subseteq>\<^sub>m map_of (cs_challenges s)" "cs_ttl (make_room now s) = cs_ttl s"
    by blast+
qed

section \<open>Histories\<close>

datatype ch_op = OpCreate string int | OpConsume string int

fun run_op :: "ch_op \<Rightarrow> ChallengeStore \<Rightarrow> ChallengeStore" where
  "run_op (OpCreate c now) s = Create c now s"
| "run_op (OpConsume c now) s = snd (Consume c now s)"

lemma Consume_state:
  "snd (Consume c now s) = s \<or> snd (Consume c now s) = s\<lparr>cs_challenges := AList.delete c (cs_challenges s)\<rparr>"
  by (auto simp: Consume_def split: option.splits)

lemma run_op_inv:
  assumes "ch_inv s"
  shows "ch_inv (run_op x s)" and "cs_ttl (run_op x s) = cs_ttl s"
proof -
  have "ch_inv (run_op x s) \<and> cs_ttl (run_op x s) = cs_ttl s"
  proof (cases x)
    case (OpCreate c now)
    note r = make_room_inv[OF assms, of now]
    have "length (AList.update c now (cs_challenges (make_room now s))) \<le> maxChallenges"
      using r(2) by (simp add: length_update)
    thus ?thesis using r(1,4) OpCreate by (auto simp: Create_eq ch_inv_def subset_iff domIff split: if_splits)
  next
    case (OpConsume c now)
    have "ch_inv (s\<lparr>cs_challenges := AList.delete c (cs_challenges s)\<rparr>)"
      using assms length_delete_le[of c "cs_challenges s"]
      by (auto simp: ch_inv_def subset_iff domIff split: if_splits)
    thus ?thesis using assms OpConsume Consume_state[of c now s] by auto
  qed
  thus "ch_inv (run_op x s)" "cs_ttl (run_op x s) = cs_ttl s" by blast+
qed

lemma ch_inv_new: "ch_inv (NewChallengeStore ttl)"
  by (simp add: ch_inv_def NewChallengeStore_def)

lemma run_ops_inv: "ch_inv (fold run_op ops (NewChallengeStore ttl)) \<and> cs_ttl (fold run_op ops (NewChallengeStore ttl)) = ttl"
proof (induction ops rule: rev_induct)
  case Nil
  show ?case using ch_inv_new by (simp add: NewChallengeStore_def)
next
  case (snoc x ops)
  thus ?case using run_op_inv[of "fold run_op ops (NewChallengeStore ttl)" x] by simp
qed

text \<open>A challenge in the store was created and not presented since.\<close>

lemma run_ops_origin:
  "map_of (cs_challenges (fold run_op ops (NewChallengeStore ttl))) c = Some t \<Longrightarrow>
     \<exists>pre post. ops = pre @ OpCreate c t # post \<and> (\<forall>now. length c = 32 \<longrightarrow> OpConsume c now \<notin> set post)"
proof (induction ops arbitrary: t rule: rev_induct)
  case (snoc x ops)
  let ?s = "fold run_op ops (NewChallengeStore ttl)"
  have inv: "ch_inv ?s" using run_ops_inv by blast
  show ?case
  proof (cases "x = OpCreate c t")
    case True
    thus ?thesis by (intro exI[of _ ops] exI[of _ "[]"]) simp
  next
    case False
    have "map_of (cs_challenges ?s) c = Some t \<and> (\<forall>now. length c = 32 \<longrightarrow> x \<noteq> OpConsume c now)"
    proof (cases x)
      case (OpCreate d now)
      hence "map_of (cs_challenges (make_room now ?s)) c = Some t"
        using snoc.prems False by (auto simp: Create_eq split: if_splits)
      hence "map_of (cs_challenges ?s) c = Some t"
        using make_room_inv(3)[OF inv, of now] by (metis domI map_le_def)
      thus ?thesis using OpCreate by simp
    next
      case (OpConsume d now)
      thus ?thesis using snoc.prems by (auto simp: Consume_def split: if_splits option.splits)
    qed
    then obtain pre post where "ops = pre @ OpCreate c t # post" "\<forall>now. length c = 32 \<longrightarrow> OpConsume c now \<notin> set post"
        "\<forall>now. length c = 32 \<longrightarrow> x \<noteq> OpConsume c now"
      using snoc.IH by blast
    thus ?thesis by (intro exI[of _ pre] exI[of _ "post @ [x]"]) auto
  qed
qed (simp add: NewChallengeStore_def)

section \<open>Properties\<close>

text \<open>
  a challenge is accepted at most once and only while it lives. After any history of a store,
  an accepted challenge has 32 bytes, was issued less than its time to live ago and has not been
  presented since; it is removed, so presenting it again is refused; the store never holds more than
  its bound.
\<close>

theorem challenge_single_use:
  assumes "s = fold run_op ops (NewChallengeStore ttl)" and "Consume c now s = (True, s')"
  shows "(\<exists>t pre post. ops = pre @ OpCreate c t # post \<and> now - t < ttl
            \<and> (\<forall>u. OpConsume c u \<notin> set post))
       \<and> length c = 32 \<and> \<not> fst (Consume c now' s') \<and> length (cs_challenges s) \<le> maxChallenges"
proof -
  have inv: "ch_inv s" "cs_ttl s = ttl" using run_ops_inv assms(1) by blast+
  obtain t where t: "length c = 32" "map_of (cs_challenges s) c = Some t" "now - t < ttl"
    using assms(2) inv(2) by (auto simp: Consume_def split: if_splits option.splits)
  have "\<not> fst (Consume c now' s')"
    using nonces.accepted_once[OF assms(2)] by (metis prod.collapse)
  thus ?thesis using run_ops_origin[of ops ttl c t] t assms(1) inv(1) unfolding ch_inv_def by blast
qed

theorem challenge_single_use_witness:
  "fst (Consume (replicate 32 (CHR ''n'')) 7 (fold run_op [OpCreate (replicate 32 (CHR ''n'')) 5] (NewChallengeStore 10)))
 \<and> \<not> fst (Consume (replicate 32 (CHR ''n'')) 8
     (snd (Consume (replicate 32 (CHR ''n'')) 7 (fold run_op [OpCreate (replicate 32 (CHR ''n'')) 5] (NewChallengeStore 10)))))"
proof -
  let ?c = "replicate 32 (CHR ''n'')"
  let ?s = "fold run_op [OpCreate ?c 5] (NewChallengeStore 10)"
  have "cs_challenges ?s = [(?c, 5)]" "cs_ttl ?s = 10"
    by (simp_all add: Create_def NewChallengeStore_def dropExpired_def maxChallenges_def Let_def)
  hence c: "Consume ?c 7 ?s = (True, ?s\<lparr>cs_challenges := []\<rparr>)" by (simp add: Consume_def)
  show ?thesis using challenge_single_use[OF refl c, of 8] c by simp
qed

text \<open>
  a challenge just issued is accepted until its time to live passes and not later, whatever the
  store held before.
\<close>

theorem challenge_accepted_until_expiry:
  assumes "s = fold run_op ops (NewChallengeStore ttl)" and "length c = 32"
  shows "fst (Consume c now' (Create c now s)) \<longleftrightarrow> now' - now < ttl"
proof -
  have inv: "ch_inv s" "cs_ttl s = ttl" using run_ops_inv assms(1) by blast+
  show ?thesis using make_room_inv(4)[OF inv(1), of now] inv(2) assms(2)
    by (simp add: Consume_def Create_eq)
qed

theorem challenge_accepted_until_expiry_witness:
  "fst (Consume (replicate 32 (CHR ''n'')) 9 (Create (replicate 32 (CHR ''n'')) 0 (NewChallengeStore 10)))
 \<and> \<not> fst (Consume (replicate 32 (CHR ''n'')) 10 (Create (replicate 32 (CHR ''n'')) 0 (NewChallengeStore 10)))"
proof -
  have new: "NewChallengeStore 10 = fold run_op [] (NewChallengeStore 10)" by simp
  have len: "length (replicate 32 (CHR ''n'')) = 32" by (rule length_replicate)
  show ?thesis
    unfolding challenge_accepted_until_expiry[OF new len] by simp
qed

end
