(* ===== verification/Sandbox_Ledger.thy ===== *)
theory Sandbox_Ledger
  imports C8s_Prelude
begin

text \<open>
  The ledger of which inventory vouched for a sandbox (\<^verbatim>\<open>src/internal/sandboxledger/ledger.go\<close>).
  The clock reading of each call is an argument. The locale \<^verbatim>\<open>first_claim\<close> is the contract the
  secret release relies on: while a binding lives nobody else can take the sandbox.
\<close>

section \<open>State and operations\<close>

record binding =
  bi_host :: string
  bi_expires :: int

record Ledger =
  le_bindings :: "(string \<times> binding) list"
  le_ttl :: int
  le_max :: int

definition NewLedger :: "int \<Rightarrow> int \<Rightarrow> Ledger" where
  "NewLedger ttl mx = \<lparr>le_bindings = [], le_ttl = ttl, le_max = mx\<rparr>"

definition evictExpiredLocked :: "int \<Rightarrow> Ledger \<Rightarrow> Ledger" where
  "evictExpiredLocked now l = l\<lparr>le_bindings := filter (\<lambda>(_, b). now < bi_expires b) (le_bindings l)\<rparr>"

definition ledger_Record :: "string \<Rightarrow> string \<Rightarrow> int \<Rightarrow> Ledger \<Rightarrow> bool \<times> Ledger" where
  "ledger_Record sandboxID inventoryHost now l =
     (if sandboxID = [] \<or> inventoryHost = [] then (False, l)
      else if (case map_of (le_bindings l) sandboxID of
                 Some b \<Rightarrow> now < bi_expires b \<and> bi_host b \<noteq> inventoryHost
               | None \<Rightarrow> False) then (False, l)
      else
        let full = (map_of (le_bindings l) sandboxID = None \<and> int (length (le_bindings l)) \<ge> le_max l);
            l1 = (if full then evictExpiredLocked now l else l)
        in if full \<and> int (length (le_bindings l1)) \<ge> le_max l1 then (False, l1)
           else (True, l1\<lparr>le_bindings :=
                   AList.update sandboxID \<lparr>bi_host = inventoryHost, bi_expires = now + le_ttl l1\<rparr> (le_bindings l1)\<rparr>))"

definition ledger_Lookup :: "string \<Rightarrow> int \<Rightarrow> Ledger \<Rightarrow> string option" where
  "ledger_Lookup sandboxID now l =
     (case map_of (le_bindings l) sandboxID of
        None \<Rightarrow> None
      | Some b \<Rightarrow> if \<not> now < bi_expires b then None else Some (bi_host b))"

definition ledger_Len :: "int \<Rightarrow> Ledger \<Rightarrow> nat \<times> Ledger" where
  "ledger_Len now l = (let l1 = evictExpiredLocked now l in (length (le_bindings l1), l1))"

text \<open>One tick of \<^verbatim>\<open>EvictionLoop\<close>.\<close>

definition eviction_tick :: "int \<Rightarrow> Ledger \<Rightarrow> Ledger" where
  "eviction_tick now l = evictExpiredLocked now l"

section \<open>The contract\<close>

locale first_claim =
  fixes record_claim :: "string \<Rightarrow> string \<Rightarrow> int \<Rightarrow> 's \<Rightarrow> bool \<times> 's"
    and tick :: "int \<Rightarrow> 's \<Rightarrow> 's"
    and owner :: "'s \<Rightarrow> string \<Rightarrow> (string \<times> int) option"
    and life :: "'s \<Rightarrow> int"
    and inv :: "'s \<Rightarrow> bool"
  assumes record_other: "inv s \<Longrightarrow> record_claim i h now s = (b, s') \<Longrightarrow> owner s j = Some (k, e) \<Longrightarrow> now < e \<Longrightarrow>
        j \<noteq> i \<or> h \<noteq> k \<Longrightarrow> owner s' j = Some (k, e)"
    and record_refresh: "inv s \<Longrightarrow> record_claim i h now s = (b, s') \<Longrightarrow> owner s i = Some (h, e) \<Longrightarrow> now < e \<Longrightarrow>
        \<exists>e'. owner s' i = Some (h, e') \<and> (e' = e \<or> e' = now + life s)"
    and tick_keeps: "inv s \<Longrightarrow> owner s j = Some (k, e) \<Longrightarrow> now < e \<Longrightarrow> owner (tick now s) j = Some (k, e)"
    and record_refuses: "inv s \<Longrightarrow> owner s i = Some (k, e) \<Longrightarrow> now < e \<Longrightarrow> h \<noteq> k \<Longrightarrow> \<not> fst (record_claim i h now s)"
begin

text \<open>A claim made at \<open>t\<close> is good until \<open>t + life\<close>, whatever is recorded in between.\<close>

definition holds :: "string \<Rightarrow> string \<Rightarrow> int \<Rightarrow> 's \<Rightarrow> bool" where
  "holds j k t s = (\<exists>e. owner s j = Some (k, e) \<and> t + life s \<le> e)"

lemma record_holds:
  assumes "inv s" and "holds j k t s" and "t \<le> now" and "now < t + life s"
    and "record_claim i h now s = (b, s')" and "life s' = life s"
  shows "holds j k t s'"
proof -
  obtain e where e: "owner s j = Some (k, e)" "t + life s \<le> e" using assms(2) by (auto simp: holds_def)
  hence live: "now < e" using assms(4) by simp
  show ?thesis
  proof (cases "j = i \<and> h = k")
    case True
    hence "owner s i = Some (h, e)" using e(1) by simp
    from record_refresh[OF assms(1,5) this live] obtain e' where
      "owner s' i = Some (h, e')" "e' = e \<or> e' = now + life s" by auto
    thus ?thesis using True e(2) assms(3,6) by (auto simp: holds_def)
  next
    case False
    hence "owner s' j = Some (k, e)" using record_other[OF assms(1,5) e(1) live] by simp
    thus ?thesis using e(2) assms(6) by (simp add: holds_def)
  qed
qed

lemma tick_holds:
  assumes "inv s" and "holds j k t s" and "now < t + life s" and "life (tick now s) = life s"
  shows "holds j k t (tick now s)"
  using assms tick_keeps[OF assms(1)] by (fastforce simp: holds_def)

lemma holds_refuses:
  assumes "inv s" and "holds j k t s" and "now < t + life s" and "h \<noteq> k"
  shows "\<not> fst (record_claim j h now s)"
  using assms record_refuses[OF assms(1)] by (fastforce simp: holds_def)

end

section \<open>Lemmas\<close>

definition ledger_inv :: "Ledger \<Rightarrow> bool" where
  "ledger_inv l = (uniq_keys (le_bindings l) \<and> int (length (le_bindings l)) \<le> max 0 (le_max l))"

definition ledger_owner :: "Ledger \<Rightarrow> string \<Rightarrow> (string \<times> int) option" where
  "ledger_owner l i = map_option (\<lambda>b. (bi_host b, bi_expires b)) (map_of (le_bindings l) i)"

lemma map_of_filter_snd:
  "uniq_keys m \<Longrightarrow> map_of (filter (\<lambda>(_, b). P b) m) i =
     (case map_of m i of Some b \<Rightarrow> if P b then Some b else None | None \<Rightarrow> None)"
proof (induction m)
  case (Cons x m)
  obtain k b where x: "x = (k, b)" by (cases x)
  have "map_of m k = None" using Cons.prems x by (auto simp: map_of_eq_None_iff)
  thus ?case using Cons x by (cases "i = k") auto
qed simp

lemma evict_lookup:
  "uniq_keys (le_bindings l) \<Longrightarrow> map_of (le_bindings (evictExpiredLocked now l)) i =
     (case map_of (le_bindings l) i of Some b \<Rightarrow> if now < bi_expires b then Some b else None | None \<Rightarrow> None)"
  by (simp add: evictExpiredLocked_def map_of_filter_snd)

lemma int_filter_le: "int (length (filter P xs)) \<le> int (length xs)"
  by simp

lemma evict_inv: "ledger_inv l \<Longrightarrow> ledger_inv (evictExpiredLocked now l)"
  by (auto simp: ledger_inv_def evictExpiredLocked_def uniq_keys_filter intro: order_trans[OF int_filter_le])

lemma evict_frame [simp]:
  "le_ttl (evictExpiredLocked now l) = le_ttl l" "le_max (evictExpiredLocked now l) = le_max l"
  by (simp_all add: evictExpiredLocked_def)

text \<open>What a call to \<^verbatim>\<open>Record\<close> can do.\<close>

lemma ledger_Record_cases:
  assumes "ledger_Record i h now l = (b, l')"
  obtains (refused) "\<not> b" "l' = l"
  | (full) "\<not> b" "l' = evictExpiredLocked now l" "map_of (le_bindings l) i = None"
  | (fresh) l1 where "b" "l1 = l \<or> l1 = evictExpiredLocked now l" "map_of (le_bindings l) i = None"
      "l' = l1\<lparr>le_bindings := AList.update i \<lparr>bi_host = h, bi_expires = now + le_ttl l\<rparr> (le_bindings l1)\<rparr>"
      "int (length (le_bindings l1)) < le_max l"
  | (rebound) c where "b" "map_of (le_bindings l) i = Some c" "now < bi_expires c \<longrightarrow> bi_host c = h"
      "l' = l\<lparr>le_bindings := AList.update i \<lparr>bi_host = h, bi_expires = now + le_ttl l\<rparr> (le_bindings l)\<rparr>"
proof (cases "map_of (le_bindings l) i")
  case None
  thus ?thesis using assms refused full fresh[of l] fresh[of "evictExpiredLocked now l"]
    by (simp add: ledger_Record_def Let_def split: if_splits)
next
  case (Some c)
  thus ?thesis using assms refused rebound[of c]
    by (simp add: ledger_Record_def Let_def split: if_splits)
qed

lemma ledger_Record_inv:
  assumes "ledger_inv l" and "ledger_Record i h now l = (b, l')"
  shows "ledger_inv l' \<and> le_ttl l' = le_ttl l \<and> le_max l' = le_max l"
  using assms(2)
proof (cases rule: ledger_Record_cases)
  case (fresh l1)
  hence "ledger_inv l1" using assms(1) evict_inv by auto
  moreover have "le_max l1 = le_max l" "le_ttl l1 = le_ttl l" using fresh(2) by auto
  ultimately show ?thesis using fresh(4,5) by (auto simp: ledger_inv_def length_update)
next
  case (rebound c)
  thus ?thesis using assms(1) by (simp add: ledger_inv_def length_update)
qed (use assms(1) evict_inv in auto)

lemma ledger_owner_update [simp]:
  "ledger_owner (l\<lparr>le_bindings := AList.update i c (le_bindings l)\<rparr>) j =
     (if j = i then Some (bi_host c, bi_expires c) else ledger_owner l j)"
  by (simp add: ledger_owner_def)

lemma evict_owner:
  assumes "ledger_inv l"
  shows "ledger_owner (evictExpiredLocked now l) j =
     (case ledger_owner l j of Some (k, e) \<Rightarrow> if now < e then Some (k, e) else None | None \<Rightarrow> None)"
  using assms by (auto simp: ledger_owner_def ledger_inv_def evict_lookup split: option.splits)

lemma ledger_Lookup_owner:
  "ledger_Lookup i now l = (case ledger_owner l i of Some (k, e) \<Rightarrow> if now < e then Some k else None | None \<Rightarrow> None)"
  by (auto simp: ledger_Lookup_def ledger_owner_def split: option.splits)

lemma ledger_owner_Some:
  "ledger_owner l i = Some (k, e) \<Longrightarrow> \<exists>c. map_of (le_bindings l) i = Some c \<and> bi_host c = k \<and> bi_expires c = e"
  by (auto simp: ledger_owner_def)

lemma ledger_Record_other:
  assumes "ledger_inv l" and "ledger_Record i h now l = (b, l')"
    and "ledger_owner l j = Some (k, e)" and "now < e" and "j \<noteq> i \<or> h \<noteq> k"
  shows "ledger_owner l' j = Some (k, e)"
  using assms(2)
proof (cases rule: ledger_Record_cases)
  case refused
  thus ?thesis using assms(3) by simp
next
  case full
  thus ?thesis using assms by (simp add: evict_owner)
next
  case (fresh l1)
  have "j \<noteq> i" using fresh(3) ledger_owner_Some[OF assms(3)] by auto
  moreover have "ledger_owner l1 j = Some (k, e)"
    using fresh(2) assms(1,3,4) by (auto simp: evict_owner)
  ultimately show ?thesis using fresh(4) by simp
next
  case (rebound c)
  have "j \<noteq> i" using rebound(2,3) ledger_owner_Some[OF assms(3)] assms(4,5) by auto
  thus ?thesis using rebound(4) assms(3) by simp
qed

lemma ledger_Record_refresh:
  assumes "ledger_inv l" and "ledger_Record i h now l = (b, l')"
    and "ledger_owner l i = Some (h, e)" and "now < e"
  shows "\<exists>e'. ledger_owner l' i = Some (h, e') \<and> (e' = e \<or> e' = now + le_ttl l)"
  using assms(2)
proof (cases rule: ledger_Record_cases)
  case full
  thus ?thesis using ledger_owner_Some[OF assms(3)] by simp
next
  case (fresh l1)
  thus ?thesis using ledger_owner_Some[OF assms(3)] by simp
qed (use assms(3) in simp_all)

lemma ledger_Record_refuses:
  assumes "ledger_owner l i = Some (k, e)" and "now < e" and "h \<noteq> k"
  shows "\<not> fst (ledger_Record i h now l)"
  using ledger_owner_Some[OF assms(1)] assms(2,3) by (auto simp: ledger_Record_def)

interpretation claims: first_claim ledger_Record eviction_tick ledger_owner le_ttl ledger_inv
proof unfold_locales
  show "ledger_owner (eviction_tick now l) j = Some (k, e)"
    if "ledger_inv l" "ledger_owner l j = Some (k, e)" "now < e" for l j k e now
    using that by (simp add: eviction_tick_def evict_owner)
qed (blast intro: ledger_Record_other ledger_Record_refresh dest: ledger_Record_refuses)+

section \<open>Histories of the ledger\<close>

datatype ledger_op = DoRecord string string | DoLen | DoTick

fun ledger_apply :: "int \<times> ledger_op \<Rightarrow> Ledger \<Rightarrow> Ledger" where
  "ledger_apply (now, DoRecord i h) l = snd (ledger_Record i h now l)"
| "ledger_apply (now, DoLen) l = snd (ledger_Len now l)"
| "ledger_apply (now, DoTick) l = eviction_tick now l"

definition ledger_run :: "(int \<times> ledger_op) list \<Rightarrow> Ledger \<Rightarrow> Ledger" where
  "ledger_run ops l = fold ledger_apply ops l"

lemma ledger_Len_tick: "snd (ledger_Len now l) = eviction_tick now l"
  by (simp add: ledger_Len_def eviction_tick_def Let_def)

lemma ledger_apply_inv:
  "ledger_inv l \<Longrightarrow> ledger_inv (ledger_apply op l) \<and> le_ttl (ledger_apply op l) = le_ttl l \<and>
     le_max (ledger_apply op l) = le_max l"
  by (cases "(op, l)" rule: ledger_apply.cases)
    (auto simp: ledger_Len_tick eviction_tick_def evict_inv dest: ledger_Record_inv[OF _ prod.collapse[symmetric]])

lemma ledger_run_inv:
  "ledger_inv l \<Longrightarrow> ledger_inv (ledger_run ops l) \<and> le_ttl (ledger_run ops l) = le_ttl l \<and>
     le_max (ledger_run ops l) = le_max l"
proof (induction ops arbitrary: l)
  case (Cons op ops)
  thus ?case using ledger_apply_inv[OF Cons.prems, of op] Cons.IH[of "ledger_apply op l"]
    by (simp add: ledger_run_def)
qed (simp add: ledger_run_def)

lemma NewLedger_inv: "ledger_inv (NewLedger ttl mx)"
  by (simp add: ledger_inv_def NewLedger_def)

lemma NewLedger_frame [simp]: "le_ttl (NewLedger ttl mx) = ttl" "le_max (NewLedger ttl mx) = mx"
  by (simp_all add: NewLedger_def)

lemma ledger_apply_holds:
  assumes "ledger_inv l" and "claims.holds i h t l" and "t \<le> now" and "now < t + le_ttl l"
  shows "claims.holds i h t (ledger_apply (now, op) l)"
proof -
  have f: "le_ttl (ledger_apply (now, op) l) = le_ttl l" using ledger_apply_inv[OF assms(1)] by blast
  show ?thesis
  proof (cases op)
    case (DoRecord j k)
    show ?thesis using claims.record_holds[OF assms prod.collapse[symmetric]] f DoRecord by simp
  next
    case DoLen
    thus ?thesis using claims.tick_holds[OF assms(1,2,4)] f by (simp add: ledger_Len_tick)
  next
    case DoTick
    thus ?thesis using claims.tick_holds[OF assms(1,2,4)] f by simp
  qed
qed

lemma ledger_run_holds:
  "ledger_inv l \<Longrightarrow> claims.holds i h t l \<Longrightarrow> \<forall>(now, op) \<in> set ops. t \<le> now \<and> now < t + le_ttl l \<Longrightarrow>
     claims.holds i h t (ledger_run ops l)"
proof (induction ops arbitrary: l)
  case (Cons op ops)
  obtain now a where op: "op = (now, a)" by (cases op)
  have "claims.holds i h t (ledger_apply op l)"
    using ledger_apply_holds[OF Cons.prems(1,2)] Cons.prems(3) op by simp
  thus ?case using Cons.IH[of "ledger_apply op l"] ledger_apply_inv[OF Cons.prems(1), of op] Cons.prems(3)
    by (simp add: ledger_run_def)
qed (simp add: ledger_run_def)

lemma ledger_Record_holds:
  "ledger_Record i h t l = (True, l') \<Longrightarrow> claims.holds i h t l' \<and> le_ttl l' = le_ttl l"
  by (erule ledger_Record_cases) (auto simp: claims.holds_def)

section \<open>Properties\<close>

text \<open>\<^bold>\<open>First claim wins for its lifetime.\<close> In any ledger reached from \<^verbatim>\<open>New\<close>, once \<^verbatim>\<open>Record\<close>
  has bound a sandbox to an inventory host at time \<open>t\<close>, then whatever is recorded, counted or evicted
  before \<open>t + ttl\<close> the sandbox keeps that host: \<^verbatim>\<open>Lookup\<close> returns it and \<^verbatim>\<open>Record\<close> for any other
  host is refused. The ledger never exceeds its capacity meanwhile.\<close>

theorem ledger_first_claim:
  assumes "l = ledger_run past (NewLedger ttl mx)"
    and "ledger_Record i h t l = (True, l1)"
    and "\<forall>(now, op) \<in> set ops. t \<le> now \<and> now < t + ttl"
    and "now < t + ttl"
  shows "ledger_Lookup i now (ledger_run ops l1) = Some h \<and>
    (h' = h \<or> \<not> fst (ledger_Record i h' now (ledger_run ops l1))) \<and>
    int (length (le_bindings (ledger_run ops l1))) \<le> max 0 mx"
proof -
  have l: "ledger_inv l" "le_ttl l = ttl" "le_max l = mx"
    using ledger_run_inv[OF NewLedger_inv, of past ttl mx] assms(1) by auto
  have l1: "ledger_inv l1" "le_ttl l1 = ttl" "le_max l1 = mx" using ledger_Record_inv[OF l(1) assms(2)] l by auto
  note r = ledger_run_inv[OF l1(1), of ops]
  have holds: "claims.holds i h t (ledger_run ops l1)"
    using ledger_run_holds[OF l1(1) conjunct1[OF ledger_Record_holds[OF assms(2)]]] assms(3) l1(2) by simp
  have "ledger_Lookup i now (ledger_run ops l1) = Some h"
    using holds assms(4) r l1(2) by (auto simp: claims.holds_def ledger_Lookup_owner)
  moreover have "h' = h \<or> \<not> fst (ledger_Record i h' now (ledger_run ops l1))"
    using claims.holds_refuses[OF conjunct1[OF r] holds] assms(4) r l1(2) by auto
  moreover have "int (length (le_bindings (ledger_run ops l1))) \<le> max 0 mx"
    using r l1(3) unfolding ledger_inv_def by auto
  ultimately show ?thesis by blast
qed

theorem ledger_first_claim_witness:
  "ledger_Lookup ''s'' 8 (ledger_run [(6, DoRecord ''s'' ''b''), (7, DoRecord ''t'' ''b''), (7, DoTick)]
      (snd (ledger_Record ''s'' ''a'' 5 (ledger_run [(1, DoRecord ''u'' ''c'')] (NewLedger 10 2))))) = Some ''a''"
proof -
  let ?l = "ledger_run [(1, DoRecord ''u'' ''c'')] (NewLedger 10 2)"
  have "ledger_Record ''s'' ''a'' 5 ?l = (True, snd (ledger_Record ''s'' ''a'' 5 ?l))"
    by (simp add: ledger_run_def NewLedger_def ledger_Record_def)
  from ledger_first_claim[OF refl this, where now = 8 and
      ops = "[(6, DoRecord ''s'' ''b''), (7, DoRecord ''t'' ''b''), (7, DoTick)]"]
  show ?thesis by simp
qed

text \<open>C40: \<^bold>\<open>Exactly when \<^verbatim>\<open>Record\<close> reports false.\<close> A call is refused when an argument is empty, when a
  different host owns the sandbox and has not expired, or when the sandbox is new and the unexpired bindings
  alone fill the ledger. The last two are distinct: a full ledger refuses a sandbox nobody owns.\<close>

theorem ledger_Record_refuses_iff:
  "fst (ledger_Record i h now l) = False \<longleftrightarrow>
     i = [] \<or> h = [] \<or>
     (\<exists>c. map_of (le_bindings l) i = Some c \<and> now < bi_expires c \<and> bi_host c \<noteq> h) \<or>
     (map_of (le_bindings l) i = None \<and>
      le_max l \<le> int (length (filter (\<lambda>(_, c). now < bi_expires c) (le_bindings l))))"
  by (cases "map_of (le_bindings l) i")
    (auto simp: ledger_Record_def Let_def evictExpiredLocked_def intro: order_trans[OF _ int_filter_le])

end
