(* ===== verification/Http.thy ===== *)
theory Http
  imports Allowlist
begin

text \<open>
  What the handlers use of HTTP: requests and responses, and the capped body readers
  (\<^verbatim>\<open>src/internal/readutil\<close>, \<^verbatim>\<open>src/internal/httputil/body.go\<close>). A body is the bytes its reader
  delivers and whether a read error follows them. Response headers other than the entity tag and the
  texts of error responses are left out.
\<close>

type_synonym reader = "string \<times> bool"

record request =
  rq_Method :: string
  rq_Path :: string
  rq_RemoteAddr :: string
  rq_Header :: "(string \<times> string) list"
  rq_Body :: reader

text \<open>\<^verbatim>\<open>Header.Get\<close>: the empty string for a header that is not set.\<close>

definition Header_Get :: "request \<Rightarrow> string \<Rightarrow> string" where
  "Header_Get r k = (case map_of (rq_Header r) k of Some v \<Rightarrow> v | None \<Rightarrow> [])"

record response =
  rs_Status :: nat
  rs_ETag :: "string option"
  rs_Body :: "string option"

definition status :: "nat \<Rightarrow> response" where
  "status n = \<lparr>rs_Status = n, rs_ETag = None, rs_Body = None\<rparr>"

lemma status_simps [simp]:
  "rs_Status (status n) = n" "rs_ETag (status n) = None" "rs_Body (status n) = None"
  by (simp_all add: status_def)

abbreviation "StatusOK \<equiv> (200 :: nat)"
abbreviation "StatusCreated \<equiv> (201 :: nat)"
abbreviation "StatusNoContent \<equiv> (204 :: nat)"
abbreviation "StatusNotModified \<equiv> (304 :: nat)"
abbreviation "StatusBadRequest \<equiv> (400 :: nat)"
abbreviation "StatusUnauthorized \<equiv> (401 :: nat)"
abbreviation "StatusForbidden \<equiv> (403 :: nat)"
abbreviation "StatusNotFound \<equiv> (404 :: nat)"
abbreviation "StatusMethodNotAllowed \<equiv> (405 :: nat)"
abbreviation "StatusConflict \<equiv> (409 :: nat)"
abbreviation "StatusRequestEntityTooLarge \<equiv> (413 :: nat)"
abbreviation "StatusUnprocessableEntity \<equiv> (422 :: nat)"
abbreviation "StatusInternalServerError \<equiv> (500 :: nat)"
abbreviation "StatusServiceUnavailable \<equiv> (503 :: nat)"
abbreviation "StatusInsufficientStorage \<equiv> (507 :: nat)"

section \<open>Capped reads\<close>

datatype read_error = ErrInvalidLimit | ErrRead | ErrTooLarge

definition MaxInt64 :: int where
  "MaxInt64 = 2 ^ 63 - 1"

definition ReadAll :: "reader \<Rightarrow> int \<Rightarrow> read_error + string" where
  "ReadAll r maxBytes =
     (if maxBytes < 0 \<or> maxBytes = MaxInt64 then Inl ErrInvalidLimit
      else
        let body = take (nat (maxBytes + 1)) (fst r) in
        if snd r \<and> int (length (fst r)) \<le> maxBytes then Inl ErrRead
        else if int (length body) > maxBytes then Inl ErrTooLarge
        else Inr body)"

definition ReadCappedBody :: "request \<Rightarrow> int \<Rightarrow> response + string" where
  "ReadCappedBody r maxBytes =
     (case ReadAll (rq_Body r) maxBytes of
        Inl ErrTooLarge \<Rightarrow> Inl (status StatusRequestEntityTooLarge)
      | Inl _ \<Rightarrow> Inl (status StatusBadRequest)
      | Inr body \<Rightarrow> Inr body)"

text \<open>A read body is the whole body: it is never cut at the cap.\<close>

lemma ReadAll_Inr_iff:
  "ReadAll r m = Inr b \<longleftrightarrow> 0 \<le> m \<and> m \<noteq> MaxInt64 \<and> \<not> snd r \<and> b = fst r \<and> int (length b) \<le> m"
  by (cases "0 \<le> m") (auto simp: ReadAll_def Let_def split: if_splits)

lemma ReadCappedBody_Inr_iff:
  "ReadCappedBody r m = Inr b \<longleftrightarrow>
     0 \<le> m \<and> m \<noteq> MaxInt64 \<and> \<not> snd (rq_Body r) \<and> b = fst (rq_Body r) \<and> int (length b) \<le> m"
  by (auto simp: ReadCappedBody_def ReadAll_Inr_iff[symmetric] split: sum.splits read_error.splits)

lemma ReadCappedBody_Inl:
  "ReadCappedBody r m = Inl e \<Longrightarrow> rs_Status e \<in> {StatusBadRequest, StatusRequestEntityTooLarge}"
  by (auto simp: ReadCappedBody_def split: sum.splits read_error.splits)

end
