(* ===== verification/Operator_Auth.thy ===== *)
theory Operator_Auth
  imports Http
begin

text \<open>
  The operator credential that authorises writes (\<^verbatim>\<open>src/pkg/operatorauth\<close>). The JWT library is a
  parameter: \<open>parse lw now k tok\<close> is what \<^verbatim>\<open>jwt.ParseWithClaims\<close> returns for the options the source passes, with
  leeway \<open>lw\<close>, at time \<open>now\<close> and with key \<open>k\<close> (\<^const>\<open>None\<close> where it reports an error). ECDSA and the DER form of a key are parameters as
  well, and so is SHA-256.
\<close>

section \<open>Base64\<close>

definition b64_char :: "bool \<Rightarrow> nat \<Rightarrow> char" where
  "b64_char url n =
     (if n < 26 then char_of (65 + n) else if n < 52 then char_of (71 + n) else if n < 62 then char_of (n - 4)
      else if n = 62 then (if url then CHR ''-'' else CHR ''+'') else (if url then CHR ''_'' else CHR ''/''))"

definition b64_val :: "bool \<Rightarrow> char \<Rightarrow> nat option" where
  "b64_val url c =
     (let n = byte c in
      if 65 \<le> n \<and> n \<le> 90 then Some (n - 65) else if 97 \<le> n \<and> n \<le> 122 then Some (n - 71)
      else if 48 \<le> n \<and> n \<le> 57 then Some (n + 4)
      else if c = (if url then CHR ''-'' else CHR ''+'') then Some 62
      else if c = (if url then CHR ''_'' else CHR ''/'') then Some 63 else None)"

text \<open>\<^verbatim>\<open>base64.RawURLEncoding.EncodeToString\<close>.\<close>

fun RawURL :: "string \<Rightarrow> string" where
  "RawURL [] = []"
| "RawURL [a] = [b64_char True (byte a div 4), b64_char True (byte a mod 4 * 16)]"
| "RawURL [a, b] =
     [b64_char True (byte a div 4), b64_char True (byte a mod 4 * 16 + byte b div 16), b64_char True (byte b mod 16 * 4)]"
| "RawURL (a # b # c # s) =
     b64_char True (byte a div 4) # b64_char True (byte a mod 4 * 16 + byte b div 16) #
     b64_char True (byte b mod 16 * 4 + byte c div 64) # b64_char True (byte c mod 64) # RawURL s"

text \<open>\<^verbatim>\<open>base64.StdEncoding.DecodeString\<close>: line breaks are skipped, the last group is padded.\<close>

fun std_groups :: "string \<Rightarrow> string option" where
  "std_groups [] = Some []"
| "std_groups (p # q # r # s # t) =
     (case (b64_val False p, b64_val False q) of
        (Some a, Some b) \<Rightarrow>
          if r = CHR ''='' then
            (if s = CHR ''='' \<and> t = [] then Some [char_of ((4 * a + b div 16) mod 256)] else None)
          else (case b64_val False r of
            None \<Rightarrow> None
          | Some c \<Rightarrow>
              if s = CHR ''='' then
                (if t = [] then Some [char_of ((4 * a + b div 16) mod 256), char_of ((16 * b + c div 4) mod 256)] else None)
              else (case b64_val False s of
                None \<Rightarrow> None
              | Some d \<Rightarrow> map_option (\<lambda>u.
                  char_of ((4 * a + b div 16) mod 256) # char_of ((16 * b + c div 4) mod 256) # char_of ((64 * c + d) mod 256) # u)
                  (std_groups t)))
      | _ \<Rightarrow> None)"
| "std_groups _ = None"

definition StdDecode :: "string \<Rightarrow> string option" where
  "StdDecode s = std_groups (filter (\<lambda>c. c \<noteq> CHR 0x0A \<and> c \<noteq> CHR 0x0D) s)"

section \<open>The verifier\<close>

record claims =
  cl_iat :: "int option"
  cl_exp :: "int option"
  cl_str :: "(string \<times> string) list"

definition claim_string :: "claims \<Rightarrow> string \<Rightarrow> string" where
  "claim_string cl k = (case map_of (cl_str cl) k of Some v \<Rightarrow> v | None \<Rightarrow> [])"

abbreviation claimPayloadBodyHash :: string where "claimPayloadBodyHash \<equiv> ''pbh''"
abbreviation claimHTTPMethod :: string where "claimHTTPMethod \<equiv> ''htm''"
abbreviation claimHTTPPath :: string where "claimHTTPPath \<equiv> ''htu''"

text \<open>Seconds: the claims are numeric dates.\<close>

definition DefaultTokenTTL :: int where "DefaultTokenTTL = 60"
definition MaxTokenValidity :: int where "MaxTokenValidity = 300"

record 'k Verifier =
  v_Keys :: "'k list"
  v_ClockSkew :: int

datatype auth_error = ErrNoOperatorKeys | ErrMissingBearer | ErrMissingIat | ErrMissingExp | ErrValidity | ErrMethod
  | ErrPath | ErrMissingPbh | ErrBodyHash | ErrTokenInvalid

type_synonym 'k jwt_parser = "int \<Rightarrow> int \<Rightarrow> 'k \<Rightarrow> string \<Rightarrow> (claims \<times> bool) option"

definition check_claims :: "hash \<Rightarrow> request \<Rightarrow> string \<Rightarrow> claims \<Rightarrow> auth_error + unit" where
  "check_claims H r body cl =
     (case cl_iat cl of
        None \<Rightarrow> Inl ErrMissingIat
      | Some iat \<Rightarrow> (case cl_exp cl of
          None \<Rightarrow> Inl ErrMissingExp
        | Some exp \<Rightarrow>
            let validity = exp - iat in
            if validity \<le> 0 \<or> validity > MaxTokenValidity then Inl ErrValidity
            else if claim_string cl claimHTTPMethod \<noteq> rq_Method r then Inl ErrMethod
            else if claim_string cl claimHTTPPath \<noteq> rq_Path r then Inl ErrPath
            else if claim_string cl claimPayloadBodyHash = [] then Inl ErrMissingPbh
            else if claim_string cl claimPayloadBodyHash \<noteq> RawURL (H body) then Inl ErrBodyHash
            else Inr ()))"

fun try_keys :: "(int \<Rightarrow> 'k \<Rightarrow> string \<Rightarrow> (claims \<times> bool) option) \<Rightarrow> hash \<Rightarrow> int \<Rightarrow> request \<Rightarrow> string \<Rightarrow> string \<Rightarrow> 'k list \<Rightarrow> auth_error + unit" where
  "try_keys parse H now r body tok [] = Inl ErrTokenInvalid"
| "try_keys parse H now r body tok (pub # ks) =
     (case parse now pub tok of
        None \<Rightarrow> try_keys parse H now r body tok ks
      | Some (cl, valid) \<Rightarrow>
          if \<not> valid then try_keys parse H now r body tok ks else check_claims H r body cl)"

definition Authorize :: "'k jwt_parser \<Rightarrow> hash \<Rightarrow> 'k Verifier \<Rightarrow> int \<Rightarrow> request \<Rightarrow> string \<Rightarrow> auth_error + unit" where
  "Authorize parse H v now r body =
     (if v_Keys v = [] then Inl ErrNoOperatorKeys
      else case CutPrefix (Header_Get r ''Authorization'') ''Bearer '' of
             None \<Rightarrow> Inl ErrMissingBearer
           | Some tok \<Rightarrow> if tok = [] then Inl ErrMissingBearer else try_keys (parse (v_ClockSkew v)) H now r body tok (v_Keys v))"

section \<open>The signer\<close>

definition Authorization :: "(claims \<Rightarrow> string option) \<Rightarrow> hash \<Rightarrow> int \<Rightarrow> string \<Rightarrow> string \<Rightarrow> string \<Rightarrow> string option" where
  "Authorization sign H now meth path body =
     map_option (\<lambda>signed. ''Bearer '' @ signed)
       (sign \<lparr>cl_iat = Some now, cl_exp = Some (now + DefaultTokenTTL),
              cl_str = [(claimHTTPMethod, meth), (claimHTTPPath, path), (claimPayloadBodyHash, RawURL (H body))]\<rparr>)"

section \<open>Key sets and detached signatures\<close>

abbreviation keySetDomain :: string where
  "keySetDomain \<equiv> ''c8s-operator-key-set-v1'' @ [CHR 0x00]"

datatype keyset_error = ErrNilKey | ErrMarshalKey | ErrEmptyKeySet

definition key_fingerprint :: "hash \<Rightarrow> ('k \<Rightarrow> string option) \<Rightarrow> 'k option \<Rightarrow> keyset_error + string" where
  "key_fingerprint H der pub =
     (case pub of None \<Rightarrow> Inl ErrNilKey | Some k \<Rightarrow>
       (case der k of None \<Rightarrow> Inl ErrMarshalKey | Some d \<Rightarrow> Inr (H d)))"

text \<open>The loop that skips a fingerprint equal to the one before it; nothing precedes the first.\<close>

fun skip_repeats :: "string \<Rightarrow> string list \<Rightarrow> string list" where
  "skip_repeats prev [] = []"
| "skip_repeats prev (fp # fps) = (if fp = prev then skip_repeats prev fps else fp # skip_repeats fp fps)"

definition KeySetDigest :: "hash \<Rightarrow> ('k \<Rightarrow> string option) \<Rightarrow> 'k option list \<Rightarrow> keyset_error + string" where
  "KeySetDigest H der keys =
     bindE (mapE (key_fingerprint H der) keys) (\<lambda>fps.
       Inr (H (keySetDomain @ concat (skip_repeats [] (sort fps)))))"

definition KeySetHash :: "hash \<Rightarrow> ('k \<Rightarrow> string option) \<Rightarrow> 'k option list \<Rightarrow> keyset_error + string" where
  "KeySetHash H der keys =
     (if length keys = 0 then Inl ErrEmptyKeySet else bindE (KeySetDigest H der keys) (\<lambda>d. Inr (hex_encode d)))"

datatype detached_error = ErrEmptySignature | ErrBase64 | ErrNoKeyVerifies

definition VerifyDetached ::
  "hash \<Rightarrow> ('k \<Rightarrow> string \<Rightarrow> string \<Rightarrow> bool) \<Rightarrow> 'k list \<Rightarrow> string \<Rightarrow> string \<Rightarrow> detached_error + unit" where
  "VerifyDetached H verify keys data line =
     (let l = TrimSpace line in
      if l = [] then Inl ErrEmptySignature
      else case StdDecode l of
             None \<Rightarrow> Inl ErrBase64
           | Some der \<Rightarrow>
               if list_ex (\<lambda>pub. verify pub (H data) der) keys then Inr () else Inl ErrNoKeyVerifies)"

section \<open>Lemmas\<close>

lemma b64_val_char: "n < 64 \<Longrightarrow> b64_val url (b64_char url n) = Some n"
  by (auto simp: b64_val_def b64_char_def Let_def)

text \<open>A decoder of the unpadded form, for the proof that the encoding is injective.\<close>

fun raw_dec :: "string \<Rightarrow> string" where
  "raw_dec [p, q] = [char_of (4 * the (b64_val True p) + the (b64_val True q) div 16)]"
| "raw_dec [p, q, r] =
     [char_of (4 * the (b64_val True p) + the (b64_val True q) div 16),
      char_of (16 * (the (b64_val True q) mod 16) + the (b64_val True r) div 4)]"
| "raw_dec (p # q # r # s # t) =
     char_of (4 * the (b64_val True p) + the (b64_val True q) div 16) #
     char_of (16 * (the (b64_val True q) mod 16) + the (b64_val True r) div 4) #
     char_of (64 * (the (b64_val True r) mod 4) + the (b64_val True s)) # raw_dec t"
| "raw_dec _ = []"

lemma byte_bound: "byte c < 256"
  by (rule nat_of_char_less_256)

lemma byte_parts:
  "byte c div 4 < 64" "byte c mod 4 * 16 < 64" "byte c mod 4 * 16 + byte d div 16 < 64"
  "byte c mod 16 * 4 < 64" "byte c mod 16 * 4 + byte d div 64 < 64" "byte c mod 64 < 64"
  using byte_bound[of c] byte_bound[of d] by linarith+

lemma sextets:
  "(x mod 4 * 16 + byte c div 16) div 16 = x mod 4" "(x mod 4 * 16 + byte c div 16) mod 16 = byte c div 16"
  "(x mod 16 * 4 + byte c div 64) div 4 = x mod 16" "(x mod 16 * 4 + byte c div 64) mod 4 = byte c div 64"
proof -
  have "byte c div 16 < 16" "byte c div 64 < 4" using byte_bound[of c] by linarith+
  thus "(x mod 4 * 16 + byte c div 16) div 16 = x mod 4" "(x mod 4 * 16 + byte c div 16) mod 16 = byte c div 16"
    "(x mod 16 * 4 + byte c div 64) div 4 = x mod 16" "(x mod 16 * 4 + byte c div 64) mod 4 = byte c div 64" by simp_all
qed

lemma high_bits: "byte c div 16 mod 16 = byte c div 16" "byte c div 64 mod 4 = byte c div 64"
  using byte_bound[of c] by (intro mod_less; linarith)+

lemma raw_dec_RawURL: "raw_dec (RawURL s) = s"
  by (induction s rule: RawURL.induct) (simp_all add: b64_val_char byte_parts sextets high_bits mult_div_mod_eq)

lemma RawURL_inj: "RawURL s = RawURL t \<longleftrightarrow> s = t"
  by (metis raw_dec_RawURL)

lemma RawURL_Nil: "RawURL s = [] \<longleftrightarrow> s = []"
  by (cases s rule: RawURL.cases) auto

lemma check_claims_Inr:
  "check_claims H r body cl = Inr () \<longleftrightarrow>
     (\<exists>iat exp. cl_iat cl = Some iat \<and> cl_exp cl = Some exp \<and> 0 < exp - iat \<and> exp - iat \<le> MaxTokenValidity) \<and>
     claim_string cl claimHTTPMethod = rq_Method r \<and> claim_string cl claimHTTPPath = rq_Path r \<and>
     claim_string cl claimPayloadBodyHash = RawURL (H body) \<and> H body \<noteq> []"
  by (auto simp: check_claims_def Let_def RawURL_Nil split: option.splits)

lemma try_keys_Inr:
  "try_keys parse H now r body tok ks = Inr () \<Longrightarrow>
     \<exists>pub\<in>set ks. \<exists>cl. parse now pub tok = Some (cl, True) \<and> check_claims H r body cl = Inr ()"
  by (induction ks) (auto split: option.splits if_splits)

lemma Authorize_Inr:
  assumes "Authorize parse H v now r body = Inr ()"
  obtains tok pub cl where "Header_Get r ''Authorization'' = ''Bearer '' @ tok" "pub \<in> set (v_Keys v)"
    "parse (v_ClockSkew v) now pub tok = Some (cl, True)" "check_claims H r body cl = Inr ()"
  using assms
  by (auto simp: Authorize_def CutPrefix_def HasPrefix_def split: if_splits option.splits dest!: try_keys_Inr elim!: prefixE)

text \<open>When one key verifies a token and every key that does gives the same claims, the claims decide.\<close>

lemma try_keys_pinned:
  assumes "pub \<in> set ks" and "parse now pub tok = Some (cl, True)"
    and "\<And>k cl'. k \<in> set ks \<Longrightarrow> parse now k tok = Some (cl', True) \<Longrightarrow> cl' = cl"
  shows "try_keys parse H now r body tok ks = check_claims H r body cl"
  using assms
proof (induction ks)
  case (Cons k ks)
  show ?case
  proof (cases "\<exists>cl'. parse now k tok = Some (cl', True)")
    case True
    thus ?thesis using Cons.prems(3)[of k] by auto
  next
    case False
    hence "k \<noteq> pub" using Cons.prems(2) by blast
    hence "pub \<in> set ks" using Cons.prems(1) by simp
    from Cons.IH[OF this Cons.prems(2)] have "try_keys parse H now r body tok ks = check_claims H r body cl"
      by (rule meta_mp) (rule Cons.prems(3), simp_all)
    thus ?thesis using False by (auto split: option.splits)
  qed
qed simp

text \<open>The deduplicated fingerprints.\<close>

lemma skip_repeats_sorted:
  "sorted (prev # fps) \<Longrightarrow> set (skip_repeats prev fps) = set fps - {prev} \<and> sorted (skip_repeats prev fps) \<and>
     distinct (skip_repeats prev fps)"
proof (induction prev fps rule: skip_repeats.induct)
  case (2 prev fp fps)
  show ?case
  proof (cases "fp = prev")
    case True
    thus ?thesis using 2 by auto
  next
    case False
    hence "set (skip_repeats fp fps) = set fps - {fp} \<and> sorted (skip_repeats fp fps) \<and> distinct (skip_repeats fp fps)"
      using 2 by simp
    thus ?thesis using False 2(3) by auto
  qed
qed simp

lemma skip_repeats_sort:
  assumes "[] \<notin> set fps"
  shows "set (skip_repeats [] (sort fps)) = set fps" and "sorted (skip_repeats [] (sort fps))"
    and "distinct (skip_repeats [] (sort fps))"
proof -
  have "sorted ([] # sort fps)" by simp
  from skip_repeats_sorted[OF this] assms
  show "set (skip_repeats [] (sort fps)) = set fps" "sorted (skip_repeats [] (sort fps))"
    "distinct (skip_repeats [] (sort fps))" by auto
qed

lemma concat_inj_length:
  assumes "\<forall>x\<in>set xs. length x = n" and "\<forall>y\<in>set ys. length y = n" and "0 < n" and "concat xs = concat ys"
  shows "xs = ys"
  using assms
proof (induction xs arbitrary: ys)
  case Nil
  thus ?case by (cases ys) auto
next
  case (Cons x xs)
  show ?case
  proof (cases ys)
    case Nil
    thus ?thesis using Cons.prems by auto
  next
    case ys: (Cons y ys')
    have "length x = length y" using Cons.prems(1,2) ys by simp
    hence "x = y \<and> concat xs = concat ys'" using Cons.prems(4) ys by simp
    thus ?thesis using Cons.IH[of ys'] Cons.prems ys by simp
  qed
qed

lemma key_fingerprint_Inr:
  "key_fingerprint H der key = Inr f \<longleftrightarrow> (\<exists>k d. key = Some k \<and> der k = Some d \<and> f = H d)"
  by (auto simp: key_fingerprint_def split: option.splits)

text \<open>The public keys of a set, as the bytes of their DER form.\<close>

definition key_ders :: "('k \<Rightarrow> string option) \<Rightarrow> 'k option list \<Rightarrow> string set" where
  "key_ders der keys = {d. \<exists>k. Some k \<in> set keys \<and> der k = Some d}"

lemma mapE_fingerprints: "mapE (key_fingerprint H der) keys = Inr fps \<Longrightarrow> set fps = H ` key_ders der keys"
proof (induction keys arbitrary: fps)
  case (Cons key keys)
  then obtain k d fs where "key = Some k" "der k = Some d" "fps = H d # fs" "mapE (key_fingerprint H der) keys = Inr fs"
    by (auto simp: bindE_Inr_iff key_fingerprint_Inr)
  thus ?case using Cons.IH by (auto simp: key_ders_def)
qed (simp add: key_ders_def)

text \<open>The hashed bytes: the domain and the fingerprints in order, each once.\<close>

definition keyset_fingerprints :: "hash \<Rightarrow> ('k \<Rightarrow> string option) \<Rightarrow> 'k option list \<Rightarrow> string list" where
  "keyset_fingerprints H der keys = sorted_list_of_set (H ` key_ders der keys)"

definition keyset_input :: "hash \<Rightarrow> ('k \<Rightarrow> string option) \<Rightarrow> 'k option list \<Rightarrow> string" where
  "keyset_input H der keys = keySetDomain @ concat (keyset_fingerprints H der keys)"

lemma KeySetDigest_Inr:
  assumes "KeySetDigest H der keys = Inr dg" and "\<And>x. length (H x) = 32"
  shows "set (keyset_fingerprints H der keys) = H ` key_ders der keys" and "dg = H (keyset_input H der keys)"
proof -
  from assms(1) obtain fs where fs: "mapE (key_fingerprint H der) keys = Inr fs"
      "dg = H (keySetDomain @ concat (skip_repeats [] (sort fs)))"
    by (auto simp: KeySetDigest_def bindE_Inr_iff)
  have set_fs: "set fs = H ` key_ders der keys" by (rule mapE_fingerprints[OF fs(1)])
  have "[] \<notin> H ` A" for A using assms(2) by (metis imageE length_0_conv zero_neq_numeral)
  hence "[] \<notin> set fs" using set_fs by simp
  note sr = skip_repeats_sort[OF this]
  have eq: "keyset_fingerprints H der keys = skip_repeats [] (sort fs)"
    using sorted_list_of_set.idem_if_sorted_distinct[OF sr(2,3)] sr(1) set_fs by (simp add: keyset_fingerprints_def)
  thus "set (keyset_fingerprints H der keys) = H ` key_ders der keys" using sr(1) set_fs by simp
  show "dg = H (keyset_input H der keys)" using fs(2) eq by (simp add: keyset_input_def)
qed

section \<open>Properties\<close>

text \<open>C27: \<^bold>\<open>A captured operator token authorises one request, for a bounded time, and only when a pinned key signed it.\<close> Suppose the
  JWT library does what it documents for the options passed: what it accepts under a key is signed by that key, the claims are those the token
  carries, issued no later and expiring no earlier than the leeway allows. Then if one token is accepted for two requests, one of the pinned operator keys
  has signed it, the requests have the same method, the same path and the same body (unless SHA-256 collides on the two bodies), and the two moments are less
  than \<^verbatim>\<open>MaxTokenValidity\<close> plus twice the clock skew apart.\<close>

theorem Authorize_token_bound:
  assumes "Authorize parse H v t1 r1 b1 = Inr ()" and "Authorize parse H v t2 r2 b2 = Inr ()"
    and "Header_Get r1 ''Authorization'' = Header_Get r2 ''Authorization''"
    and lib: "\<And>lw now k tok cl. parse lw now k tok = Some (cl, True) \<Longrightarrow> signed k tok \<and> cl = carried tok \<and>
      (\<forall>i. cl_iat cl = Some i \<longrightarrow> i \<le> now + lw) \<and> (\<forall>e. cl_exp cl = Some e \<longrightarrow> now < e + lw)"
    and "H b1 = H b2 \<longrightarrow> b1 = b2"
  shows "(\<exists>k tok. k \<in> set (v_Keys v) \<and> Header_Get r1 ''Authorization'' = ''Bearer '' @ tok \<and> signed k tok) \<and>
    rq_Method r1 = rq_Method r2 \<and> rq_Path r1 = rq_Path r2 \<and> b1 = b2 \<and>
    \<bar>t1 - t2\<bar> < MaxTokenValidity + 2 * v_ClockSkew v"
proof -
  from assms(1) obtain tok k1 c1 where 1: "Header_Get r1 ''Authorization'' = ''Bearer '' @ tok"
      "parse (v_ClockSkew v) t1 k1 tok = Some (c1, True)" "check_claims H r1 b1 c1 = Inr ()" "k1 \<in> set (v_Keys v)"
    by (rule Authorize_Inr)
  from assms(2) obtain tok' k2 c2 where 2: "Header_Get r2 ''Authorization'' = ''Bearer '' @ tok'"
      "parse (v_ClockSkew v) t2 k2 tok' = Some (c2, True)" "check_claims H r2 b2 c2 = Inr ()"
    by (rule Authorize_Inr)
  have tok: "tok' = tok" using 1(1) 2(1) assms(3) by simp
  have c: "c2 = c1" using lib[OF 1(2)] lib[OF 2(2)] tok by simp
  have key: "\<exists>k tok. k \<in> set (v_Keys v) \<and> Header_Get r1 ''Authorization'' = ''Bearer '' @ tok \<and> signed k tok"
    using 1(1,4) lib[OF 1(2)] by blast
  note ok = 1(3)[unfolded check_claims_Inr] 2(3)[unfolded check_claims_Inr c]
  from ok obtain i e where ie: "cl_iat c1 = Some i" "cl_exp c1 = Some e" "e - i \<le> MaxTokenValidity" by blast
  have "i \<le> t1 + v_ClockSkew v" "t1 < e + v_ClockSkew v" "i \<le> t2 + v_ClockSkew v" "t2 < e + v_ClockSkew v"
    using lib[OF 1(2)] lib[OF 2(2)] ie(1,2) c by simp_all
  hence "\<bar>t1 - t2\<bar> < MaxTokenValidity + 2 * v_ClockSkew v" using ie(3) by linarith
  moreover have "RawURL (H b1) = RawURL (H b2)" using ok by simp
  hence "b1 = b2" using assms(5) by (simp add: RawURL_inj)
  ultimately show ?thesis using ok key by simp
qed

definition sample_claims :: claims where
  "sample_claims = \<lparr>cl_iat = Some 100, cl_exp = Some 160,
     cl_str = [(''htm'', ''PUT''), (''htu'', ''/allowlist''), (''pbh'', RawURL ''x'')]\<rparr>"

definition sample_parse :: "nat jwt_parser" where
  "sample_parse lw now k tok = (if tok = ''t'' \<and> k = 1 \<and> 100 \<le> now + lw \<and> now < 160 + lw then Some (sample_claims, True) else None)"

definition sample_request :: request where
  "sample_request = \<lparr>rq_Method = ''PUT'', rq_Path = ''/allowlist'', rq_RemoteAddr = ''10.0.0.1:99'',
     rq_Header = [(''Authorization'', ''Bearer t'')], rq_Body = (''x'', False)\<rparr>"

theorem Authorize_token_bound_witness:
  "Authorize sample_parse (\<lambda>b. b) \<lparr>v_Keys = [2, 1], v_ClockSkew = 5\<rparr> 97 sample_request ''x'' = Inr () \<and>
   (\<exists>k tok. k \<in> {2, 1} \<and> Header_Get sample_request ''Authorization'' = ''Bearer '' @ tok \<and> k = (1 :: nat) \<and> tok = ''t'') \<and>
   \<bar>(97 :: int) - 164\<bar> < MaxTokenValidity + 2 * 5"
proof -
  let ?v = "\<lparr>v_Keys = [2, 1 :: nat], v_ClockSkew = 5\<rparr>"
  have a: "Authorize sample_parse (\<lambda>b. b) ?v t sample_request ''x'' = Inr ()" if "t = 97 \<or> t = 164" for t
    using that by (auto simp: Authorize_def sample_request_def sample_parse_def Header_Get_def CutPrefix_def HasPrefix_def
        check_claims_def sample_claims_def claim_string_def MaxTokenValidity_def RawURL_Nil)
  have lib: "sample_parse lw now k tok = Some (cl, True) \<Longrightarrow> (k = 1 \<and> tok = ''t'') \<and> cl = sample_claims \<and>
      (\<forall>i. cl_iat cl = Some i \<longrightarrow> i \<le> now + lw) \<and> (\<forall>e. cl_exp cl = Some e \<longrightarrow> now < e + lw)" for lw now k tok cl
    by (auto simp: sample_parse_def sample_claims_def split: if_splits)
  show ?thesis
    using Authorize_token_bound[OF a[of 97] a[of 164] refl, of "\<lambda>k tok. k = 1 \<and> tok = ''t''" "\<lambda>_. sample_claims", OF _ _ lib]
      a[of 97] by simp
qed

text \<open>\<^bold>\<open>What the signer mints, the verifier accepts.\<close> If signing and parsing fit together, a token
  minted for a request is accepted for exactly that request from its issue until it expires, when the signer's public key is
  among the pinned ones, whatever other keys are pinned.\<close>

theorem Authorize_accepts_minted:
  assumes "Authorization sign H t0 (rq_Method r) (rq_Path r) body = Some hdr"
    and "Header_Get r ''Authorization'' = hdr" and "pub \<in> set (v_Keys v)"
    and lib: "\<And>cl tok lw now i e. sign cl = Some tok \<Longrightarrow> cl_iat cl = Some i \<Longrightarrow> cl_exp cl = Some e \<Longrightarrow>
      i \<le> now + lw \<Longrightarrow> now < e + lw \<Longrightarrow> tok \<noteq> [] \<and> parse lw now pub tok = Some (cl, True)"
    and one: "\<And>cl tok lw now k cl'. sign cl = Some tok \<Longrightarrow> parse lw now k tok = Some (cl', True) \<Longrightarrow> cl' = cl"
    and "H body \<noteq> []" and "t0 - v_ClockSkew v \<le> t" and "t < t0 + DefaultTokenTTL + v_ClockSkew v"
  shows "Authorize parse H v t r body = Inr ()"
proof -
  let ?cl = "\<lparr>cl_iat = Some t0, cl_exp = Some (t0 + DefaultTokenTTL),
      cl_str = [(claimHTTPMethod, rq_Method r), (claimHTTPPath, rq_Path r), (claimPayloadBodyHash, RawURL (H body))]\<rparr>"
  obtain tok where tok: "sign ?cl = Some tok" "hdr = ''Bearer '' @ tok"
    using assms(1) by (auto simp: Authorization_def)
  have p: "tok \<noteq> []" "parse (v_ClockSkew v) t pub tok = Some (?cl, True)"
    using lib[OF tok(1), of t0 "t0 + DefaultTokenTTL" t "v_ClockSkew v"] assms(7,8) by simp_all
  have "check_claims H r body ?cl = Inr ()"
    using assms(6) by (simp add: check_claims_Inr DefaultTokenTTL_def MaxTokenValidity_def claim_string_def
)
  moreover have "try_keys (parse (v_ClockSkew v)) H t r body tok (v_Keys v) = check_claims H r body ?cl"
    by (rule try_keys_pinned[where parse = "parse (v_ClockSkew v)", OF assms(3) p(2)]) (rule one[OF tok(1)])
  ultimately show ?thesis using assms(2,3) tok(2) p(1)
    by (auto simp: Authorize_def CutPrefix_def HasPrefix_def)
qed

theorem Authorize_accepts_minted_witness:
  "Authorize (\<lambda>lw now k tok. if tok = ''t'' then Some (sample_claims, True) else None)
     (\<lambda>b. b) \<lparr>v_Keys = [0 :: nat, 1], v_ClockSkew = 5\<rparr> 120 sample_request ''x'' = Inr ()"
proof -
  let ?sign = "\<lambda>cl. if cl = sample_claims then Some ''t'' else None"
  have m: "Authorization ?sign (\<lambda>b. b) 100 (rq_Method sample_request) (rq_Path sample_request) ''x'' = Some ''Bearer t''"
    by (simp add: Authorization_def sample_claims_def sample_request_def DefaultTokenTTL_def
)
  have h: "Header_Get sample_request ''Authorization'' = ''Bearer t''" by (simp add: sample_request_def Header_Get_def)
  show ?thesis
    by (rule Authorize_accepts_minted[OF m h, of "1 :: nat"]) (auto simp: DefaultTokenTTL_def split: if_splits)
qed

text \<open>\<^bold>\<open>The key-set digest commits to the set.\<close> When SHA-256 collides neither on the keys nor on the
  two framed inputs, two key lists have the same digest exactly when they hold the same public keys: order and repetition
  do not matter and nothing else is identified.\<close>

theorem KeySetDigest_commits:
  assumes "KeySetDigest H der ks1 = Inr d1" and "KeySetDigest H der ks2 = Inr d2"
    and len: "\<And>x. length (H x) = 32"
    and "inj_on H (key_ders der ks1 \<union> key_ders der ks2)"
    and "inj_on H {keyset_input H der ks1, keyset_input H der ks2}"
  shows "d1 = d2 \<longleftrightarrow> key_ders der ks1 = key_ders der ks2"
proof -
  let ?f1 = "keyset_fingerprints H der ks1" and ?f2 = "keyset_fingerprints H der ks2"
  note f1 = KeySetDigest_Inr[OF assms(1) len] and f2 = KeySetDigest_Inr[OF assms(2) len]
  have "\<forall>x\<in>set ?f1. length x = 32" "\<forall>x\<in>set ?f2. length x = 32" using f1(1) f2(1) len by auto
  hence inj: "concat ?f1 = concat ?f2 \<Longrightarrow> ?f1 = ?f2" by (rule concat_inj_length) simp_all
  have "d1 = d2 \<longleftrightarrow> keyset_input H der ks1 = keyset_input H der ks2"
    using f1(2) f2(2) inj_on_eq_iff[OF assms(5)] by simp
  also have "\<dots> \<longleftrightarrow> ?f1 = ?f2" using inj by (auto simp: keyset_input_def)
  also have "\<dots> \<longleftrightarrow> set ?f1 = set ?f2" using f1(1) f2(1) by (metis keyset_fingerprints_def)
  also have "\<dots> \<longleftrightarrow> key_ders der ks1 = key_ders der ks2"
    using f1(1) f2(1) inj_on_Un_image_eq_iff[OF assms(4)] by simp
  finally show ?thesis .
qed

theorem KeySetDigest_commits_witness:
  "KeySetDigest (\<lambda>x. replicate 32 (if x = ''a'' then CHR ''a'' else CHR ''c''))
     (\<lambda>k. Some [k]) [Some (CHR ''a''), Some (CHR ''b''), Some (CHR ''a'')] =
   KeySetDigest (\<lambda>x. replicate 32 (if x = ''a'' then CHR ''a'' else CHR ''c''))
     (\<lambda>k. Some [k]) [Some (CHR ''b''), Some (CHR ''a'')]"
proof -
  let ?H = "\<lambda>x. replicate 32 (if x = ''a'' then CHR ''a'' else CHR ''c'')"
  let ?k1 = "[Some (CHR ''a''), Some (CHR ''b''), Some (CHR ''a'')]" and ?k2 = "[Some (CHR ''b''), Some (CHR ''a'')]"
  have ok: "okE (KeySetDigest ?H (\<lambda>k. Some [k]) ?k1)" "okE (KeySetDigest ?H (\<lambda>k. Some [k]) ?k2)"
    by (simp_all add: KeySetDigest_def key_fingerprint_def)
  then obtain d1 d2 where d: "KeySetDigest ?H (\<lambda>k. Some [k]) ?k1 = Inr d1" "KeySetDigest ?H (\<lambda>k. Some [k]) ?k2 = Inr d2"
    unfolding okE_iff by blast
  have ders: "key_ders (\<lambda>k. Some [k]) ?k1 = {''a'', ''b''}" "key_ders (\<lambda>k. Some [k]) ?k2 = {''a'', ''b''}"
    by (auto simp: key_ders_def)
  have inj: "inj_on ?H (key_ders (\<lambda>k. Some [k]) ?k1 \<union> key_ders (\<lambda>k. Some [k]) ?k2)"
    unfolding ders by (simp add: inj_on_def)
  have "inj_on ?H {keyset_input ?H (\<lambda>k. Some [k]) ?k1, keyset_input ?H (\<lambda>k. Some [k]) ?k2}"
    by (simp add: keyset_input_def keyset_fingerprints_def ders)
  from KeySetDigest_commits[OF d _ inj this] have "d1 = d2" by (simp add: ders)
  thus ?thesis using d by simp
qed

end
