(* ===== verification/Secret_Release.thy ===== *)
theory Secret_Release
  imports Secret_Policy Secret_Store Challenges Sandbox_Ledger Operator_Auth Sandbox_Claims
begin

text \<open>
  Release of secrets to a workload (\<^verbatim>\<open>src/internal/secrets/handler.go\<close>). What lies outside the process is gathered in one record of
  parameters: SHA-256, the DER form of a key, ECDSA, the ASN.1 and JSON decoders; the calls to a node's inventory are another. The clock
  at the two moments it is read, the generated value and the moments of the policy read are arguments of a request.
\<close>

section \<open>The world outside\<close>

record ('p, 'k) external =
  x_H :: hash
  x_pkix :: "'p \<Rightarrow> string option"
  x_verify :: "'k \<Rightarrow> string \<Rightarrow> string \<Rightarrow> bool"
  x_ia5 :: "string asn1_decoder"
  x_token :: "sandboxTokenASN1 asn1_decoder"
  x_json :: "string \<Rightarrow> SignedSandboxToken option"

text \<open>\<^verbatim>\<open>inventorySource\<close>; \<^const>\<open>None\<close> is an error of the call.\<close>

record 'k inventorySource =
  is_InventoryKey :: "string \<Rightarrow> 'k option"
  is_FetchSandbox :: "string \<Rightarrow> string \<Rightarrow> SandboxDigestsResponse option"

record 'p tls_request = request +
  tr_EscapedPath :: string
  tr_TLS :: "'p tls_state option"

text \<open>\<^verbatim>\<open>workloadclaims.InventoryHosts\<close> and its two implementations.\<close>

datatype InventoryHosts = CIDRHosts "IPNet list" | NodeHostsOf NodeHosts

fun hosts_Contains :: "InventoryHosts \<Rightarrow> string \<Rightarrow> bool" where
  "hosts_Contains (CIDRHosts ns) host = cidr_contains ns host"
| "hosts_Contains (NodeHostsOf h) host = nodehosts_Contains h host"

fun hosts_Empty :: "InventoryHosts \<Rightarrow> bool" where
  "hosts_Empty (CIDRHosts ns) = (length ns = 0)"
| "hosts_Empty (NodeHostsOf h) = nodehosts_Empty h"

text \<open>\<^verbatim>\<open>base64.StdEncoding.EncodeToString\<close>.\<close>

fun StdEncode :: "string \<Rightarrow> string" where
  "StdEncode [] = []"
| "StdEncode [a] = [b64_char False (byte a div 4), b64_char False (byte a mod 4 * 16), CHR ''='', CHR ''='']"
| "StdEncode [a, b] =
     [b64_char False (byte a div 4), b64_char False (byte a mod 4 * 16 + byte b div 16), b64_char False (byte b mod 16 * 4), CHR ''='']"
| "StdEncode (a # b # c # s) =
     b64_char False (byte a div 4) # b64_char False (byte a mod 4 * 16 + byte b div 16) #
     b64_char False (byte b mod 16 * 4 + byte c div 64) # b64_char False (byte c mod 64) # StdEncode s"

section \<open>The handler\<close>

abbreviation AuthScheme :: string where "AuthScheme \<equiv> ''SandboxToken ''"
abbreviation ChallengeHeader :: string where "ChallengeHeader \<equiv> ''X-C8s-Challenge''"

definition InjectedEntrypoints :: "string list" where
  "InjectedEntrypoints = [''get-cert'', ''get-secret'', ''get-volume'', ''/c8s'']"

datatype release_error = RelNoCertificate | RelUnverified | RelNoSandbox | RelNoToken | RelTokenBase64 | RelTokenJSON | RelUnconfigured
  | RelNoHosts | RelUnbound | RelOutsideBound | RelOtherInventory | RelInventoryKey | RelToken claims_error | RelOtherSandbox
  | RelPolicy store_error | RelFetch | RelReport claims_error | RelNoWorkload | RelMatch match_error | RelNoGrant | RelUnpinned
  | RelNoChallengeStore | RelNoChallenge | RelChallengeBase64 | RelChallenge

record 'k SecretHandler =
  sh_Inventory :: "'k inventorySource option"
  sh_InventoryHosts :: "InventoryHosts option"

text \<open>What the handler reads and changes: the store, the outstanding challenges, the bindings and the cached policy.\<close>

record secret_state =
  ss_store :: MemoryStore
  ss_challenges :: "ChallengeStore option"
  ss_bindings :: "Ledger option"
  ss_policy :: CachedPolicy

text \<open>A request's own moments: the clock when the challenge is consumed and when the binding is looked up, the policy read and the
  result of \<^verbatim>\<open>Generate\<close>.\<close>

record moments =
  mo_consume :: int
  mo_lookup :: int
  mo_policy :: policy_read
  mo_generated :: "string option"

record grant =
  gr_workload :: string
  gr_secrets :: "SecretsPolicy option"

definition verifiedLeaf :: "'p tls_request \<Rightarrow> release_error + 'p cert" where
  "verifiedLeaf r =
     (case tr_TLS r of
        None \<Rightarrow> Inl RelNoCertificate
      | Some t \<Rightarrow> (case tls_PeerCertificates t of
          [] \<Rightarrow> Inl RelNoCertificate
        | leaf # _ \<Rightarrow> if tls_VerifiedChains t = 0 then Inl RelUnverified else Inr leaf))"

definition RateKey :: "('p, 'k) external \<Rightarrow> 'p tls_request \<Rightarrow> string" where
  "RateKey x r =
     (case verifiedLeaf r of
        Inl _ \<Rightarrow> []
      | Inr leaf \<Rightarrow> (case SandboxIDFromCert (x_ia5 x) leaf of
          Inl _ \<Rightarrow> []
        | Inr id' \<Rightarrow> if id' = [] then [] else ''sandbox:'' @ id'))"

definition requestPath :: "'p tls_request \<Rightarrow> path_error option + string" where
  "requestPath r =
     (case CutPrefix (tr_EscapedPath r) ''/secrets'' of
        None \<Rightarrow> Inl None
      | Some rest \<Rightarrow> (case CanonicalSecretPath rest of Inl e \<Rightarrow> Inl (Some e) | Inr p \<Rightarrow> Inr p))"

definition consumeChallenge ::
  "'p tls_request \<Rightarrow> int \<Rightarrow> ChallengeStore option \<Rightarrow> (release_error + string) \<times> ChallengeStore option" where
  "consumeChallenge r now chs =
     (case chs of
        None \<Rightarrow> (Inl RelNoChallengeStore, chs)
      | Some cs \<Rightarrow>
          let raw = Header_Get (request.truncate r) ChallengeHeader in
          if raw = [] then (Inl RelNoChallenge, chs)
          else (case StdDecode raw of
            None \<Rightarrow> (Inl RelChallengeBase64, chs)
          | Some nonce \<Rightarrow>
              (case Consume nonce now cs of
                 (ok, cs') \<Rightarrow> (if \<not> ok then Inl RelChallenge else Inr nonce, Some cs'))))"

definition parseToken :: "('p, 'k) external \<Rightarrow> 'p tls_request \<Rightarrow> release_error + SignedSandboxToken" where
  "parseToken x r =
     (case CutPrefix (Header_Get (request.truncate r) ''Authorization'') AuthScheme of
        None \<Rightarrow> Inl RelNoToken
      | Some raw \<Rightarrow>
          if raw = [] then Inl RelNoToken
          else (case StdDecode raw of
            None \<Rightarrow> Inl RelTokenBase64
          | Some der \<Rightarrow> (case x_json x der of None \<Rightarrow> Inl RelTokenJSON | Some token \<Rightarrow> Inr token)))"

definition verifyToken ::
  "('p, 'k) external \<Rightarrow> 'k SecretHandler \<Rightarrow> Ledger option \<Rightarrow> int \<Rightarrow> SignedSandboxToken \<Rightarrow> 'p \<Rightarrow> string \<Rightarrow> string \<Rightarrow>
   release_error + string" where
  "verifyToken x h bindings now token requesterPub nonce sandboxID =
     (case (sh_Inventory h, bindings) of
        (Some inventory, Some ledger) \<Rightarrow>
          bindE (case sh_InventoryHosts h of
                   None \<Rightarrow> Inl RelNoHosts
                 | Some hosts \<Rightarrow> if hosts_Empty hosts then Inl RelNoHosts else Inr hosts) (\<lambda>hosts.
          bindE (case ledger_Lookup sandboxID now ledger of None \<Rightarrow> Inl RelUnbound | Some host \<Rightarrow> Inr host) (\<lambda>host.
          bindE (guardE (hosts_Contains hosts host) RelOutsideBound) (\<lambda>_.
          bindE (wrapE RelToken (UnverifiedInventoryHost (x_token x) (st_Token token))) (\<lambda>claimed.
          bindE (guardE (claimed = host) RelOtherInventory) (\<lambda>_.
          bindE (case is_InventoryKey inventory host of None \<Rightarrow> Inl RelInventoryKey | Some ikey \<Rightarrow> Inr ikey) (\<lambda>ikey.
          bindE (wrapE RelToken
                   (token_Verify (x_H x) (x_pkix x) (x_verify x) (x_token x) token (Some ikey) requesterPub nonce)) (\<lambda>verified.
          bindE (guardE (vs_SandboxID verified = sandboxID) RelOtherSandbox) (\<lambda>_.
            Inr host))))))))
      | _ \<Rightarrow> Inl RelUnconfigured)"

definition isInjected :: "Allowlist \<Rightarrow> SandboxContainer \<Rightarrow> bool" where
  "isInjected al c =
     (if length (elems (sc_Argv c)) = 0 then False
      else if \<not> AdmitsAnyArgv al (sc_Digest c) then False
      else hd (elems (sc_Argv c)) \<in> set InjectedEntrypoints)"

definition to_running :: "SandboxContainer \<Rightarrow> RunningContainer" where
  "to_running c = \<lparr>rc_Digest = sc_Digest c, rc_Argv = elems (sc_Argv c), rc_Mounts = sc_Mounts c, rc_Env = sc_Env c\<rparr>"

definition WorkloadContainers :: "Allowlist \<Rightarrow> SandboxContainer list \<Rightarrow> RunningContainer list" where
  "WorkloadContainers al reported = map to_running (filter (\<lambda>c. \<not> isInjected al c) reported)"

text \<open>A handler without an inventory never gets here: \<^const>\<open>verifyToken\<close> refuses it.\<close>

definition workloadContainers ::
  "'k SecretHandler \<Rightarrow> Allowlist \<Rightarrow> string \<Rightarrow> string \<Rightarrow> release_error + RunningContainer list" where
  "workloadContainers h al host sandboxID =
     bindE (case sh_Inventory h of None \<Rightarrow> Inl RelUnconfigured | Some inventory \<Rightarrow> Inr inventory) (\<lambda>inventory.
     bindE (case is_FetchSandbox inventory host sandboxID of None \<Rightarrow> Inl RelFetch | Some resp \<Rightarrow> Inr resp) (\<lambda>resp.
     bindE (wrapE RelReport (RequireContainers resp)) (\<lambda>reported.
       let out = WorkloadContainers al reported in
       if length out = 0 then Inl RelNoWorkload else Inr out)))"

text \<open>The part of \<^verbatim>\<open>authorize\<close> before the policy is read: who is calling, and the inventory that says so.\<close>

definition identify ::
  "('p, 'k) external \<Rightarrow> 'k SecretHandler \<Rightarrow> Ledger option \<Rightarrow> int \<Rightarrow> 'p tls_request \<Rightarrow> string \<Rightarrow> release_error + (string \<times> string)" where
  "identify x h bindings now r nonce =
     bindE (verifiedLeaf r) (\<lambda>leaf.
     bindE (case SandboxIDFromCert (x_ia5 x) leaf of
              Inl _ \<Rightarrow> Inl RelNoSandbox
            | Inr sandboxID \<Rightarrow> if sandboxID = [] then Inl RelNoSandbox else Inr sandboxID) (\<lambda>sandboxID.
     bindE (parseToken x r) (\<lambda>token.
     bindE (verifyToken x h bindings now token (ct_PublicKey leaf) nonce sandboxID) (\<lambda>host.
       Inr (sandboxID, host)))))"

text \<open>The part after it: which entry the sandbox runs, and what that entry grants.\<close>

definition resolve :: "('p, 'k) external \<Rightarrow> 'k SecretHandler \<Rightarrow> Allowlist \<Rightarrow> string \<Rightarrow> string \<Rightarrow> release_error + grant" where
  "resolve x h al sandboxID host =
     bindE (workloadContainers h al host sandboxID) (\<lambda>containers.
     bindE (wrapE RelMatch (MatchWorkload (x_H x) al containers)) (\<lambda>(name, workload).
     bindE (guardE (w_Secrets workload \<noteq> None) RelNoGrant) (\<lambda>_.
     bindE (guardE (ArgvPinned workload) RelUnpinned) (\<lambda>_.
       Inr \<lparr>gr_workload = name, gr_secrets = w_Secrets workload\<rparr>))))"

definition release_authorize ::
  "('p, 'k) external \<Rightarrow> 'k SecretHandler \<Rightarrow> moments \<Rightarrow> 'p tls_request \<Rightarrow> string \<Rightarrow> secret_state \<Rightarrow>
   (release_error + grant) \<times> secret_state" where
  "release_authorize x h m r nonce s =
     (case identify x h (ss_bindings s) (mo_lookup m) r nonce of
        Inl e \<Rightarrow> (Inl e, s)
      | Inr (sandboxID, host) \<Rightarrow>
          (case cached_Allowlist (mo_policy m) (ss_policy s) of
             (Inl e, cp) \<Rightarrow> (Inl (RelPolicy e), s\<lparr>ss_policy := cp\<rparr>)
           | (Inr al, cp) \<Rightarrow> (resolve x h al sandboxID host, s\<lparr>ss_policy := cp\<rparr>)))"

definition valueResponse :: "string \<Rightarrow> string" where
  "valueResponse v = encode (JObj [(''value'', JStr (StdEncode v))]) @ [CHR 0x0A]"

definition writeValue :: "string \<Rightarrow> nat \<Rightarrow> response" where
  "writeValue v st = \<lparr>rs_Status = st, rs_ETag = None, rs_Body = Some (valueResponse v)\<rparr>"

abbreviation ErrorCodeSecretHolderQuota :: string where "ErrorCodeSecretHolderQuota \<equiv> ''secret_holder_quota''"
abbreviation ErrorCodeSecretStoreFull :: string where "ErrorCodeSecretStoreFull \<equiv> ''secret_store_full''"

definition writeError :: "nat \<Rightarrow> string \<Rightarrow> string \<Rightarrow> response" where
  "writeError st code message =
     \<lparr>rs_Status = st, rs_ETag = None,
      rs_Body = Some (encode (JObj [(''error'', JStr code), (''message'', JStr message)]) @ [CHR 0x0A])\<rparr>"

definition storage_limit :: string where "storage_limit = ''secret storage limit reached''"

definition serveGet :: "grant \<Rightarrow> string \<Rightarrow> MemoryStore \<Rightarrow> response" where
  "serveGet g path store =
     (if \<not> Allows (gr_secrets g) path OpRead then status StatusNotFound
      else (case ms_Get store path of
              Inl ErrNotFound \<Rightarrow> status StatusNotFound
            | Inl _ \<Rightarrow> status StatusInternalServerError
            | Inr v \<Rightarrow> writeValue v StatusOK))"

definition servePost :: "string option \<Rightarrow> grant \<Rightarrow> string \<Rightarrow> MemoryStore \<Rightarrow> response \<times> MemoryStore" where
  "servePost generated g path store =
     (if \<not> Allows (gr_secrets g) path OpWrite then (status StatusNotFound, store)
      else (case generated of
              None \<Rightarrow> (status StatusInternalServerError, store)
            | Some candidate \<Rightarrow>
                (case ms_PutIfAbsent store path candidate (WorkloadHolder (gr_workload g)) of
                   (Inl ErrHolderQuota, store') \<Rightarrow> (writeError StatusInsufficientStorage ErrorCodeSecretHolderQuota storage_limit, store')
                 | (Inl ErrStoreFull, store') \<Rightarrow> (writeError StatusInsufficientStorage ErrorCodeSecretStoreFull storage_limit, store')
                 | (Inl _, store') \<Rightarrow> (status StatusInternalServerError, store')
                 | (Inr (_, held), store') \<Rightarrow>
                     if he_Exists held then (status StatusConflict, store') else (writeValue candidate StatusCreated, store'))))"

definition ServeSecret ::
  "('p, 'k) external \<Rightarrow> 'k SecretHandler \<Rightarrow> moments \<Rightarrow> 'p tls_request \<Rightarrow> secret_state \<Rightarrow> response \<times> secret_state" where
  "ServeSecret x h m r s =
     (case requestPath r of
        Inl _ \<Rightarrow> (status StatusBadRequest, s)
      | Inr path \<Rightarrow>
          (case consumeChallenge r (mo_consume m) (ss_challenges s) of
             (Inl _, chs) \<Rightarrow> (status StatusBadRequest, s\<lparr>ss_challenges := chs\<rparr>)
           | (Inr nonce, chs) \<Rightarrow>
               (case release_authorize x h m r nonce (s\<lparr>ss_challenges := chs\<rparr>) of
                  (Inl _, s') \<Rightarrow> (status StatusForbidden, s')
                | (Inr g, s') \<Rightarrow>
                    if rq_Method r = ''GET'' then (serveGet g path (ss_store s'), s')
                    else if rq_Method r = ''POST'' then
                      (case servePost (mo_generated m) g path (ss_store s') of (resp, store) \<Rightarrow> (resp, s'\<lparr>ss_store := store\<rparr>))
                    else (status StatusMethodNotAllowed, s'))))"

section \<open>What a release requires\<close>

text \<open>The caller proved, against this request's challenge, that it is in sandbox \<open>sid\<close>: a verified certificate names the sandbox, and a
  token for this nonce and this certificate's key is signed by the inventory that is bound to the sandbox and within the node bound.\<close>

definition authentic ::
  "('p, 'k) external \<Rightarrow> 'k SecretHandler \<Rightarrow> Ledger option \<Rightarrow> int \<Rightarrow> 'p tls_request \<Rightarrow> string \<Rightarrow> string \<Rightarrow> string \<Rightarrow> bool" where
  "authentic x h bindings now r nonce sid host \<longleftrightarrow>
     (\<exists>t leaf rest. tr_TLS r = Some t \<and> tls_VerifiedChains t > 0 \<and> tls_PeerCertificates t = leaf # rest \<and>
        SandboxIDFromCert (x_ia5 x) leaf = Inr sid \<and> sid \<noteq> [] \<and>
        (\<exists>ledger hosts. bindings = Some ledger \<and> sh_InventoryHosts h = Some hosts \<and>
           ledger_Lookup sid now ledger = Some host \<and> hosts_Contains hosts host) \<and>
        (\<exists>inventory ikey token tok der. sh_Inventory h = Some inventory \<and> is_InventoryKey inventory host = Some ikey \<and>
           parseToken x r = Inr token \<and>
           x_verify x ikey (x_H x (sandboxTokenDomainSep @ st_Token token)) (st_Signature token) \<and>
           x_token x (st_Token token) = Some (tok, []) \<and> tk_Nonce tok = nonce \<and> tk_SandboxID tok = sid \<and>
           tk_InventoryHost tok = host \<and> x_pkix x (ct_PublicKey leaf) = Some der \<and> tk_KeyDigest tok = x_H x der))"

text \<open>The containers the inventory reports, less the injected ones, are described by exactly the entry \<open>name\<close>, which pins every argv.\<close>

definition entitled ::
  "('p, 'k) external \<Rightarrow> 'k SecretHandler \<Rightarrow> Allowlist \<Rightarrow> string \<Rightarrow> string \<Rightarrow> string \<Rightarrow> Workload \<Rightarrow> bool" where
  "entitled x h al sid host name w \<longleftrightarrow>
     (\<exists>inventory resp. sh_Inventory h = Some inventory \<and> is_FetchSandbox inventory host sid = Some resp \<and>
        RequireContainers resp = Inr (sd_Containers resp) \<and>
        MatchWorkload (x_H x) al (WorkloadContainers al (sd_Containers resp)) = Inr (name, w)) \<and>
     w_Secrets w \<noteq> None \<and> ArgvPinned w"

lemma option_case_Inr [simp]: "(case a of None \<Rightarrow> Inl e | Some v \<Rightarrow> Inr v) = Inr u \<longleftrightarrow> a = Some u"
  by (simp split: option.split)

lemma RequireContainers_Inr: "RequireContainers resp = Inr cs \<Longrightarrow> cs = sd_Containers resp"
  by (auto simp: RequireContainers_def split: if_splits)

lemma verifiedLeaf_Inr:
  "verifiedLeaf r = Inr leaf \<longleftrightarrow>
     (\<exists>t rest. tr_TLS r = Some t \<and> tls_VerifiedChains t > 0 \<and> tls_PeerCertificates t = leaf # rest)"
  by (auto simp: verifiedLeaf_def split: option.splits list.splits)

lemma verifyToken_Inr:
  assumes "verifyToken x h bindings now token pub nonce sid = Inr host"
  obtains inventory ledger hosts ikey tok der where "sh_Inventory h = Some inventory" "bindings = Some ledger"
    "sh_InventoryHosts h = Some hosts" "ledger_Lookup sid now ledger = Some host" "hosts_Contains hosts host"
    "is_InventoryKey inventory host = Some ikey" "x_verify x ikey (x_H x (sandboxTokenDomainSep @ st_Token token)) (st_Signature token)"
    "x_token x (st_Token token) = Some (tok, [])" "tk_Nonce tok = nonce" "tk_SandboxID tok = sid" "tk_InventoryHost tok = host"
    "x_pkix x pub = Some der" "tk_KeyDigest tok = x_H x der"
proof -
  from assms obtain inventory ledger where i: "sh_Inventory h = Some inventory" "bindings = Some ledger"
    by (auto simp: verifyToken_def split: option.splits)
  from assms obtain hosts ikey v where v: "sh_InventoryHosts h = Some hosts" "ledger_Lookup sid now ledger = Some host"
      "hosts_Contains hosts host" "UnverifiedInventoryHost (x_token x) (st_Token token) = Inr host"
      "is_InventoryKey inventory host = Some ikey"
      "token_Verify (x_H x) (x_pkix x) (x_verify x) (x_token x) token (Some ikey) pub nonce = Inr v" "vs_SandboxID v = sid"
    by (auto simp: verifyToken_def i bindE_Inr_iff split: option.splits if_splits)
  from token_Verify_Inr[OF v(6)] obtain ik tok der where t: "Some ikey = Some ik"
      "x_verify x ik (sandboxTokenSigningHash (x_H x) (st_Token token)) (st_Signature token)" "x_token x (st_Token token) = Some (tok, [])"
      "tk_Nonce tok = nonce" "x_pkix x pub = Some der" "tk_KeyDigest tok = x_H x der"
      "v = \<lparr>vs_SandboxID = tk_SandboxID tok, vs_InventoryHost = tk_InventoryHost tok\<rparr>" by metis
  show thesis
    by (rule that[OF i v(1-3) v(5)]) (use t v in \<open>auto simp: sandboxTokenSigningHash_def UnverifiedInventoryHost_def\<close>)
qed

lemma nonempty_case_Inr [simp]:
  "(case a of Inl _ \<Rightarrow> Inl e | Inr v \<Rightarrow> if v = [] then Inl e else Inr v) = Inr u \<longleftrightarrow> a = Inr u \<and> u \<noteq> []"
  by (auto split: sum.splits if_splits)

lemma identify_Inr:
  assumes "identify x h bindings now r nonce = Inr (sid, host)"
  shows "authentic x h bindings now r nonce sid host"
proof -
  from assms obtain leaf token where l: "verifiedLeaf r = Inr leaf" "SandboxIDFromCert (x_ia5 x) leaf = Inr sid" "sid \<noteq> []"
      "parseToken x r = Inr token" "verifyToken x h bindings now token (ct_PublicKey leaf) nonce sid = Inr host"
    by (auto simp: identify_def bindE_Inr_iff)
  from l(1) obtain t rest where t: "tr_TLS r = Some t" "tls_VerifiedChains t > 0" "tls_PeerCertificates t = leaf # rest"
    by (auto simp: verifiedLeaf_Inr)
  from l(5) show ?thesis by (rule verifyToken_Inr) (use l t in \<open>unfold authentic_def, blast\<close>)
qed

lemma workloadContainers_Inr:
  "workloadContainers h al host sid = Inr cs \<longleftrightarrow>
     (\<exists>inventory resp. sh_Inventory h = Some inventory \<and> is_FetchSandbox inventory host sid = Some resp \<and>
        RequireContainers resp = Inr (sd_Containers resp) \<and> cs = WorkloadContainers al (sd_Containers resp) \<and> cs \<noteq> [])"
  by (auto simp: workloadContainers_def bindE_Inr_iff Let_def dest: RequireContainers_Inr split: if_splits)

lemma resolve_Inr:
  "resolve x h al sid host = Inr g \<longleftrightarrow>
     (\<exists>w. entitled x h al sid host (gr_workload g) w \<and> gr_secrets g = w_Secrets w)"
proof -
  have nonempty: "MatchWorkload (x_H x) al cs = Inr e \<Longrightarrow> cs \<noteq> []" for cs e by (simp add: MatchWorkload_Inr_iff)
  have g: "g = \<lparr>gr_workload = n, gr_secrets = v\<rparr> \<longleftrightarrow> gr_workload g = n \<and> gr_secrets g = v" for n v by (cases g) simp
  have "resolve x h al sid host = Inr g \<longleftrightarrow>
      (\<exists>cs n w. workloadContainers h al host sid = Inr cs \<and> MatchWorkload (x_H x) al cs = Inr (n, w) \<and> w_Secrets w \<noteq> None \<and>
        ArgvPinned w \<and> g = \<lparr>gr_workload = n, gr_secrets = w_Secrets w\<rparr>)"
    by (auto simp: resolve_def bindE_Inr_iff)
  also have "\<dots> \<longleftrightarrow> (\<exists>w. entitled x h al sid host (gr_workload g) w \<and> gr_secrets g = w_Secrets w)"
    unfolding entitled_def workloadContainers_Inr g using nonempty by blast
  finally show ?thesis .
qed

lemma release_authorize_frame:
  "release_authorize x h m r nonce s = (res, s') \<Longrightarrow>
     ss_store s' = ss_store s \<and> ss_challenges s' = ss_challenges s \<and> ss_bindings s' = ss_bindings s"
  by (auto simp: release_authorize_def split: sum.splits prod.splits)

lemma release_authorize_Inr:
  assumes "release_authorize x h m r nonce s = (Inr g, s')"
  obtains sid host al w where "authentic x h (ss_bindings s) (mo_lookup m) r nonce sid host"
    "fst (cached_Allowlist (mo_policy m) (ss_policy s)) = Inr al" "entitled x h al sid host (gr_workload g) w" "gr_secrets g = w_Secrets w"
  using assms by (auto simp: release_authorize_def resolve_Inr dest!: identify_Inr split: sum.splits prod.splits)

lemma consumeChallenge_Inr:
  assumes "consumeChallenge r now chs = (Inr nonce, chs')"
  obtains cs created where "chs = Some cs" "StdDecode (Header_Get (request.truncate r) ChallengeHeader) = Some nonce"
    "map_of (cs_challenges cs) nonce = Some created" "now - created < cs_ttl cs"
    "chs' = Some (cs\<lparr>cs_challenges := AList.delete nonce (cs_challenges cs)\<rparr>)"
  using assms by (auto simp: consumeChallenge_def Let_def Consume_def split: option.splits if_splits)

lemma b64_char_plain:
  assumes "n < 64"
  shows "b64_char False n \<noteq> CHR ''=''" and "b64_char False n \<noteq> CHR 0x0A" and "b64_char False n \<noteq> CHR 0x0D"
proof -
  have "b64_val False (CHR ''='') = None" "b64_val False (CHR 0x0A) = None" "b64_val False (CHR 0x0D) = None"
    by (simp_all add: b64_val_def Let_def)
  thus "b64_char False n \<noteq> CHR ''=''" "b64_char False n \<noteq> CHR 0x0A" "b64_char False n \<noteq> CHR 0x0D"
    using b64_val_char[OF assms, of False] by (metis option.distinct(1))+
qed

lemma joined_bits: "char_of (byte b + 256 * y) = b"
proof -
  have "char_of (byte b + 256 * y) = (char_of ((byte b + 256 * y) mod 256) :: char)" by (simp only: char_of_mod_256)
  thus ?thesis using byte_bound[of b] by simp
qed

lemma std_groups_StdEncode: "std_groups (StdEncode s) = Some s"
  by (induction s rule: StdEncode.induct)
    (simp_all add: b64_val_char byte_parts sextets b64_char_plain mult_div_mod_eq joined_bits)

lemma StdEncode_plain: "c \<in> set (StdEncode s) \<Longrightarrow> c \<noteq> CHR 0x0A \<and> c \<noteq> CHR 0x0D"
  by (induction s rule: StdEncode.induct) (auto simp: b64_char_plain byte_parts)

lemma StdDecode_StdEncode: "StdDecode (StdEncode s) = Some s"
proof -
  have "filter (\<lambda>c. c \<noteq> CHR 0x0A \<and> c \<noteq> CHR 0x0D) (StdEncode s) = StdEncode s"
    using StdEncode_plain by (simp add: filter_id_conv)
  thus ?thesis by (simp add: StdDecode_def std_groups_StdEncode)
qed

lemma serveGet_cases:
  "rs_Status (serveGet g path store) \<in> {StatusNotFound, StatusInternalServerError} \<and> rs_Body (serveGet g path store) = None \<or>
   (\<exists>v. Allows (gr_secrets g) path OpRead \<and> ms_Get store path = Inr v \<and> serveGet g path store = writeValue v StatusOK)"
  by (auto simp: serveGet_def split: sum.splits secret_error.splits)

lemma servePost_cases:
  assumes "servePost generated g path store = (resp, store')"
  shows "store' = store \<and> rs_Status resp \<in> {StatusNotFound, StatusConflict, StatusInternalServerError, StatusInsufficientStorage} \<or>
    (\<exists>v. Allows (gr_secrets g) path OpWrite \<and> generated = Some v \<and> ms_Get store path = Inl ErrNotFound \<and>
       store' = storeLocked store path v (WorkloadHolder (gr_workload g)) \<and> resp = writeValue v StatusCreated)"
  using assms
  by (auto simp: servePost_def writeError_def ms_Get_def no_held_def dest!: ms_PutIfAbsent_cases
      split: if_splits option.splits sum.splits secret_error.splits prod.splits)

lemma storeLocked_Get:
  "ms_Get (storeLocked s path v who) q = (if q = path then Inr v else ms_Get s q)"
  by (simp add: ms_Get_def)

section \<open>Histories\<close>

datatype 'p secret_event = Issue string int | Request moments "'p tls_request"

fun secret_step :: "('p, 'k) external \<Rightarrow> 'k SecretHandler \<Rightarrow> 'p secret_event \<Rightarrow> secret_state \<Rightarrow> secret_state" where
  "secret_step x h (Issue n now) s = s\<lparr>ss_challenges := map_option (Create n now) (ss_challenges s)\<rparr>"
| "secret_step x h (Request m r) s = snd (ServeSecret x h m r s)"

definition outstanding :: "secret_state \<Rightarrow> string set" where
  "outstanding s = (case ss_challenges s of None \<Rightarrow> {} | Some cs \<Rightarrow> dom (map_of (cs_challenges cs)))"

definition challenges_ok :: "secret_state \<Rightarrow> bool" where
  "challenges_ok s \<longleftrightarrow> (case ss_challenges s of None \<Rightarrow> True | Some cs \<Rightarrow> ch_inv cs)"

definition request_nonce :: "'p tls_request \<Rightarrow> string option" where
  "request_nonce r = StdDecode (Header_Get (request.truncate r) ChallengeHeader)"

lemma consumeChallenge_state:
  "snd (consumeChallenge r now chs) = chs \<or> (\<exists>cs n. chs = Some cs \<and> snd (consumeChallenge r now chs) = Some (run_op (OpConsume n now) cs))"
  by (auto simp: consumeChallenge_def Let_def split: option.splits prod.splits) (metis snd_conv)

lemma ServeSecret_challenges:
  assumes "ServeSecret x h m r s = (resp, s')"
  shows "ss_challenges s' = ss_challenges s \<or> ss_challenges s' = snd (consumeChallenge r (mo_consume m) (ss_challenges s))"
  using assms by (auto simp: ServeSecret_def dest!: release_authorize_frame split: sum.splits prod.splits if_splits)

lemma Consume_dom: "dom (map_of (cs_challenges (run_op (OpConsume n now) cs))) \<subseteq> dom (map_of (cs_challenges cs))"
  using Consume_state[of n now cs] by (auto simp: delete_conv' split: if_splits)

lemma Create_dom: "ch_inv cs \<Longrightarrow> dom (map_of (cs_challenges (Create n now cs))) \<subseteq> insert n (dom (map_of (cs_challenges cs)))"
  using map_le_implies_dom_le[OF make_room_inv(3), of cs now] by (auto simp: Create_eq update_conv' split: if_splits)

lemma secret_step_inv:
  assumes "challenges_ok s"
  shows "challenges_ok (secret_step x h e s)"
    and "outstanding (secret_step x h e s) \<subseteq> outstanding s \<union> (case e of Issue n _ \<Rightarrow> {n} | Request _ _ \<Rightarrow> {})"
proof -
  have "challenges_ok (secret_step x h e s) \<and>
      outstanding (secret_step x h e s) \<subseteq> outstanding s \<union> (case e of Issue n _ \<Rightarrow> {n} | Request _ _ \<Rightarrow> {})"
  proof (cases e)
    case (Issue n now)
    thus ?thesis using assms run_op_inv(1)[of _ "OpCreate n now"] Create_dom[of _ n now]
      by (auto simp: challenges_ok_def outstanding_def split: option.splits)
  next
    case (Request m r)
    obtain resp s' where sv: "ServeSecret x h m r s = (resp, s')" by (cases "ServeSecret x h m r s")
    have "ss_challenges s' = ss_challenges s \<or>
        (\<exists>cs n. ss_challenges s = Some cs \<and> ss_challenges s' = Some (run_op (OpConsume n (mo_consume m)) cs))"
      using ServeSecret_challenges[OF sv] consumeChallenge_state[of r "mo_consume m" "ss_challenges s"] by auto
    thus ?thesis using Request sv assms run_op_inv(1) Consume_dom
      by (auto simp: challenges_ok_def outstanding_def simp del: run_op.simps) blast
  qed
  thus "challenges_ok (secret_step x h e s)"
    "outstanding (secret_step x h e s) \<subseteq> outstanding s \<union> (case e of Issue n _ \<Rightarrow> {n} | Request _ _ \<Rightarrow> {})" by blast+
qed

lemma secret_run_inv:
  assumes "challenges_ok s" and "\<forall>now. Issue n now \<notin> set es" and "n \<notin> outstanding s"
  shows "n \<notin> outstanding (fold (secret_step x h) es s)"
  using assms
proof (induction es arbitrary: s)
  case (Cons e es)
  have "n \<notin> outstanding (secret_step x h e s)" using secret_step_inv(2)[OF Cons.prems(1), of x h e] Cons.prems(2,3)
    by (auto split: secret_event.splits)
  thus ?case using Cons.IH[OF secret_step_inv(1)[OF Cons.prems(1)]] Cons.prems(2) by simp
qed simp

lemma secret_run_ok: "challenges_ok s \<Longrightarrow> challenges_ok (fold (secret_step x h) es s)"
  by (induction es arbitrary: s) (auto intro: secret_step_inv)

lemma ServeSecret_consumes:
  assumes "ServeSecret x h m r s = (resp, s')" and "rs_Status resp \<noteq> StatusBadRequest"
  obtains n where "request_nonce r = Some n" "n \<in> outstanding s" "n \<notin> outstanding s'"
proof -
  from assms obtain n chs where c: "consumeChallenge r (mo_consume m) (ss_challenges s) = (Inr n, chs)" "ss_challenges s' = chs"
    by (auto simp: ServeSecret_def dest!: release_authorize_frame split: sum.splits prod.splits if_splits)
  from c(1) show thesis
    by (rule consumeChallenge_Inr) (use c(2) in \<open>auto intro!: that simp: request_nonce_def outstanding_def delete_conv'\<close>)
qed

lemma ServeSecret_refuses:
  assumes "request_nonce r = Some n" and "n \<notin> outstanding s"
  shows "ServeSecret x h m r s = (status StatusBadRequest, s)"
proof -
  have "\<exists>e. consumeChallenge r (mo_consume m) (ss_challenges s) = (Inl e, ss_challenges s)"
    using assms by (auto simp: consumeChallenge_def request_nonce_def outstanding_def Let_def Consume_def domIff split: option.splits)
  thus ?thesis by (auto simp: ServeSecret_def split: sum.splits)
qed

section \<open>Stores that differ only in values\<close>

definition shape :: "MemoryStore \<Rightarrow> (string \<times> Holder) list \<times> (Holder \<times> nat) list \<times> int \<times> int \<times> int" where
  "shape s = (map (\<lambda>(p, e). (p, en_holder e)) (ms_values s), ms_holders s, ms_maxPaths s, ms_maxPerHolder s, ms_maxValue s)"

lemma shape_fields:
  assumes "shape a = shape b"
  shows "ms_holders a = ms_holders b" "ms_maxPaths a = ms_maxPaths b" "ms_maxPerHolder a = ms_maxPerHolder b"
    "ms_maxValue a = ms_maxValue b" "length (ms_values a) = length (ms_values b)"
    "map_option en_holder (map_of (ms_values a) p) = map_option en_holder (map_of (ms_values b) p)"
    "map_of (ms_values a) p = None \<longleftrightarrow> map_of (ms_values b) p = None"
proof -
  have m: "map (\<lambda>(p, e). (p, en_holder e)) (ms_values a) = map (\<lambda>(p, e). (p, en_holder e)) (ms_values b)"
    using assms by (simp add: shape_def)
  show h: "map_option en_holder (map_of (ms_values a) p) = map_option en_holder (map_of (ms_values b) p)"
    using arg_cong[OF m, of "\<lambda>xs. map_of xs p"] by (simp add: map_of_map)
  show "map_of (ms_values a) p = None \<longleftrightarrow> map_of (ms_values b) p = None" using h by (metis option.map_disc_iff)
  show "length (ms_values a) = length (ms_values b)" using arg_cong[OF m, of length] by simp
qed (use assms in \<open>simp_all add: shape_def\<close>)

lemma map_update_holder:
  "map (\<lambda>(p, e). (p, en_holder e)) (AList.update k e xs) = AList.update k (en_holder e) (map (\<lambda>(p, e). (p, en_holder e)) xs)"
  by (induction xs) auto

lemma shape_checks:
  assumes "shape a = shape b"
  shows "checkValue a v = checkValue b v" and "checkRoomLocked a who = checkRoomLocked b who"
  using shape_fields[OF assms] by (simp_all add: checkValue_def checkRoomLocked_def held_count_def)

lemma shape_storeLocked:
  assumes "shape a = shape b" and "map_of (ms_values a) path = None"
  shows "shape (storeLocked a path v who) = shape (storeLocked b path v who)"
proof -
  have "map_of (ms_values b) path = None" using shape_fields(7)[OF assms(1)] assms(2) by simp
  thus ?thesis using assms
    by (simp add: shape_def storeLocked_def release_charge_def held_count_def map_update_holder Let_def)
qed

lemma shape_servePost:
  assumes "shape a = shape b"
  shows "fst (servePost gen g path a) = fst (servePost gen g path b) \<and> shape (snd (servePost gen g path a)) = shape (snd (servePost gen g path b))"
proof (cases "map_of (ms_values a) path")
  case None
  moreover have "map_of (ms_values b) path = None" using shape_fields(7)[OF assms] None by simp
  ultimately show ?thesis using assms shape_storeLocked[OF assms None]
    by (auto simp: servePost_def ms_PutIfAbsent_def shape_checks[OF assms] no_held_def split: option.splits sum.splits secret_error.splits)
next
  case (Some e)
  then obtain e' where "map_of (ms_values b) path = Some e'" using shape_fields(7)[OF assms, of path] by (cases "map_of (ms_values b) path") auto
  thus ?thesis using assms Some
    by (auto simp: servePost_def ms_PutIfAbsent_def shape_checks[OF assms] split: option.splits sum.splits secret_error.splits)
qed

lemma shape_serveGet:
  assumes "shape a = shape b" and "rs_Status (serveGet g path a) \<noteq> StatusOK"
  shows "serveGet g path b = serveGet g path a"
  using assms(2) shape_fields(7)[OF assms(1), of path]
  by (auto simp: serveGet_def ms_Get_def writeValue_def split: option.splits)

text \<open>What a request does before it touches the store.\<close>

definition admit_request ::
  "('p, 'k) external \<Rightarrow> 'k SecretHandler \<Rightarrow> moments \<Rightarrow> 'p tls_request \<Rightarrow> secret_state \<Rightarrow> (response + string \<times> grant) \<times> secret_state" where
  "admit_request x h m r s =
     (case requestPath r of
        Inl _ \<Rightarrow> (Inl (status StatusBadRequest), s)
      | Inr path \<Rightarrow>
          (case consumeChallenge r (mo_consume m) (ss_challenges s) of
             (Inl _, chs) \<Rightarrow> (Inl (status StatusBadRequest), s\<lparr>ss_challenges := chs\<rparr>)
           | (Inr nonce, chs) \<Rightarrow>
               (case release_authorize x h m r nonce (s\<lparr>ss_challenges := chs\<rparr>) of
                  (Inl _, s') \<Rightarrow> (Inl (status StatusForbidden), s')
                | (Inr g, s') \<Rightarrow> (Inr (path, g), s'))))"

lemma ServeSecret_admit:
  "ServeSecret x h m r s =
     (case admit_request x h m r s of
        (Inl resp, s') \<Rightarrow> (resp, s')
      | (Inr (path, g), s') \<Rightarrow>
          if rq_Method r = ''GET'' then (serveGet g path (ss_store s'), s')
          else if rq_Method r = ''POST'' then
            (case servePost (mo_generated m) g path (ss_store s') of (resp, store) \<Rightarrow> (resp, s'\<lparr>ss_store := store\<rparr>))
          else (status StatusMethodNotAllowed, s'))"
  by (auto simp: ServeSecret_def admit_request_def split: sum.splits prod.splits)

lemma release_authorize_store:
  "release_authorize x h m r nonce (s\<lparr>ss_store := st\<rparr>) =
     map_prod id (\<lambda>u. u\<lparr>ss_store := st\<rparr>) (release_authorize x h m r nonce s)"
  by (auto simp: release_authorize_def split: sum.splits prod.splits)

lemma admit_request_store:
  "admit_request x h m r (s\<lparr>ss_store := st\<rparr>) = map_prod id (\<lambda>u. u\<lparr>ss_store := st\<rparr>) (admit_request x h m r s)"
proof -
  have c: "s\<lparr>ss_store := st, ss_challenges := chs\<rparr> = s\<lparr>ss_challenges := chs, ss_store := st\<rparr>" for chs by simp
  show ?thesis
    by (auto simp: admit_request_def c release_authorize_store split: sum.splits prod.splits)
qed

lemma admit_request_frame: "admit_request x h m r s = (res, s') \<Longrightarrow> ss_store s' = ss_store s"
  by (auto simp: admit_request_def dest!: release_authorize_frame split: sum.splits prod.splits)

section \<open>A release that succeeds\<close>

definition rel_nonce :: string where
  "rel_nonce = replicate 32 (CHR ''n'')"

definition rel_external :: "(unit, unit) external" where
  "rel_external = \<lparr>x_H = (\<lambda>s. s), x_pkix = (\<lambda>_. Some ''k''), x_verify = (\<lambda>_ _ g. g = ''sig''), x_ia5 = (\<lambda>_. Some (''sbx'', [])),
     x_token = (\<lambda>_. Some (token_body sample_host ''sbx'' ''k'' rel_nonce, [])),
     x_json = (\<lambda>_. Some \<lparr>st_Token = ''t'', st_Signature = ''sig''\<rparr>)\<rparr>"

definition rel_digest :: string where
  "rel_digest = algo @ replicate 64 (CHR ''0'')"

definition rel_handler :: "unit SecretHandler" where
  "rel_handler = \<lparr>sh_Inventory = Some \<lparr>is_InventoryKey = (\<lambda>_. Some ()), is_FetchSandbox = (\<lambda>_ _. Some \<lparr>sd_Digests = [rel_digest],
       sd_Containers = [\<lparr>sc_Env = None, sc_Mounts = None, sc_Digest = rel_digest, sc_Argv = Some [''run'']\<rparr>]\<rparr>)\<rparr>,
     sh_InventoryHosts = Some (CIDRHosts [host_route (v4_in_6 [10, 0, 0, 1])])\<rparr>"

definition rel_workload :: Workload where
  "rel_workload = \<lparr>w_Label = [], w_InitContainers = None, w_Containers = Some [\<lparr>c_Digest = Digest rel_digest, c_Image = [],
       c_Command = \<lparr>ap_Policy = PolicyExact, ap_Argv = [''run'']\<rparr>, c_Args = \<lparr>ap_Policy = PolicyDeny, ap_Argv = []\<rparr>,
       c_Mounts = \<lparr>mp_Policy = PolicyAny, mp_Rules = []\<rparr>, c_Env = \<lparr>ep_Policy = PolicyAny, ep_Values = None\<rparr>\<rparr>],
     w_Secrets = Some \<lparr>sp_Policy = PolicyAllow, sp_Read = [''/db''], sp_Write = [''/db'']\<rparr>\<rparr>"

definition rel_allowlist :: Allowlist where
  "rel_allowlist = \<lparr>al_Schema = Schema, al_Workloads = Some [(''web'', rel_workload)]\<rparr>"

definition rel_moments :: moments where
  "rel_moments = \<lparr>mo_consume = 1, mo_lookup = 1,
     mo_policy = \<lparr>pr_flt1 = no_fault, pr_store1 = open_store, pr_flt2 = no_fault, pr_store2 = open_store\<rparr>, mo_generated = Some ''v''\<rparr>"

definition rel_state :: "(string \<times> entry) list \<Rightarrow> secret_state" where
  "rel_state vs = \<lparr>ss_store = \<lparr>ms_values = vs, ms_holders = [], ms_maxPaths = 9, ms_maxPerHolder = 3, ms_maxValue = 99\<rparr>,
     ss_challenges = Some (Create rel_nonce 0 (NewChallengeStore 60)),
     ss_bindings = Some \<lparr>le_bindings = [(''sbx'', \<lparr>bi_host = sample_host, bi_expires = 60\<rparr>)], le_ttl = 60, le_max = 9\<rparr>,
     ss_policy = \<lparr>cp_version = db_version (st_db open_store), cp_cached = Some rel_allowlist\<rparr>\<rparr>"

definition rel_request :: "string \<Rightarrow> unit tls_request" where
  "rel_request meth = \<lparr>rq_Method = meth, rq_Path = ''/secrets/db'', rq_RemoteAddr = [],
     rq_Header = [(ChallengeHeader, StdEncode rel_nonce), (''Authorization'', ''SandboxToken AAAA'')], rq_Body = ([], False),
     tr_EscapedPath = ''/secrets/db'',
     tr_TLS = Some \<lparr>tls_PeerCertificates = [\<lparr>ct_PublicKey = (), ct_Extensions = [(OIDSandboxID, [])]\<rparr>], tls_VerifiedChains = 1\<rparr>\<rparr>"

lemma rel_path: "requestPath (rel_request meth) = Inr ''/db''"
proof -
  have "CanonicalSecretPath ''/db'' = Inr ''/db''"
    by (simp add: CanonicalSecretPath_Inr_iff rooted_path_def path_clean_def path_comps_def dot_def dotdot_def HasSuffix_def suffix_def Let_def)
  thus ?thesis by (simp add: requestPath_def rel_request_def CutPrefix_def HasPrefix_def)
qed

lemma rel_header:
  "Header_Get (request.truncate (rel_request meth)) ChallengeHeader = StdEncode rel_nonce"
  "Header_Get (request.truncate (rel_request meth)) ''Authorization'' = ''SandboxToken AAAA''"
  by (simp_all add: Header_Get_def request.truncate_def rel_request_def)

lemma rel_nonce_coded: "StdDecode (StdEncode rel_nonce) = Some rel_nonce" "StdEncode rel_nonce \<noteq> []" "length rel_nonce = 32"
proof -
  show "StdDecode (StdEncode rel_nonce) = Some rel_nonce" by (rule StdDecode_StdEncode)
  thus "StdEncode rel_nonce \<noteq> []" by (auto simp: StdDecode_def rel_nonce_def)
qed (simp add: rel_nonce_def)

lemma rel_challenges:
  "ss_challenges (rel_state vs) = Some \<lparr>cs_challenges = [(rel_nonce, 0)], cs_issued = [rel_nonce], cs_ttl = 60\<rparr>"
  by (simp add: rel_state_def Create_def NewChallengeStore_def dropExpired_def maxChallenges_def Let_def)

lemma rel_consume:
  "consumeChallenge (rel_request meth) 1 (ss_challenges (rel_state vs)) =
     (Inr rel_nonce, Some \<lparr>cs_challenges = [], cs_issued = [rel_nonce], cs_ttl = 60\<rparr>)"
  by (simp add: consumeChallenge_def rel_challenges rel_header rel_nonce_coded Consume_def)

lemma rel_identify:
  "identify rel_external rel_handler (ss_bindings (rel_state vs)) 1 (rel_request meth) rel_nonce = Inr (''sbx'', sample_host)"
proof -
  obtain d where aaaa: "StdDecode ''AAAA'' = Some d" by (simp add: StdDecode_def b64_val_def Let_def)
  have parse: "parseToken rel_external (rel_request meth) = Inr \<lparr>st_Token = ''t'', st_Signature = ''sig''\<rparr>"
    by (simp add: parseToken_def rel_header CutPrefix_def HasPrefix_def aaaa rel_external_def)
  have "length (v4_in_6 [10, 0, 0, 1]) = 16" by (simp add: v4_in_6_def)
  hence contains: "hosts_Contains (CIDRHosts [host_route (v4_in_6 [10, 0, 0, 1])]) sample_host"
    by (simp add: cidr_contains_def sample_host_ip host_route_self del: One_nat_def)
  have "token_Verify (\<lambda>s. s) (\<lambda>_. Some ''k'') (\<lambda>_ _ g. g = ''sig'') (\<lambda>_. Some (token_body sample_host ''sbx'' ''k'' rel_nonce, []))
      \<lparr>st_Token = ''t'', st_Signature = ''sig''\<rparr> (Some ()) () rel_nonce = Inr \<lparr>vs_SandboxID = ''sbx'', vs_InventoryHost = sample_host\<rparr>"
    using sample_host_valid rel_nonce_coded(3)
    by (auto simp: token_Verify_def token_body_def RequesterKeyDigest_def NewSandboxTokenSigner_def bindE_Inr_iff
        ValidateSandboxID_def sandbox_id_char_def name_byte_def)
  hence "verifyToken rel_external rel_handler (ss_bindings (rel_state vs)) 1 \<lparr>st_Token = ''t'', st_Signature = ''sig''\<rparr> () rel_nonce ''sbx'' =
      Inr sample_host"
    using contains
    by (simp add: verifyToken_def rel_handler_def rel_state_def rel_external_def ledger_Lookup_def UnverifiedInventoryHost_def token_body_def
        bindE_def wrapE_def del: One_nat_def)
  thus ?thesis
    by (simp add: identify_def parse) (simp add: rel_request_def verifiedLeaf_def SandboxIDFromCert_def rel_external_def
      ValidateSandboxID_def sandbox_id_char_def name_byte_def)
qed

lemma rel_entitled: "entitled rel_external rel_handler rel_allowlist ''sbx'' sample_host ''web'' rel_workload"
proof -
  let ?r = "\<lparr>rc_Digest = rel_digest, rc_Argv = [''run''], rc_Mounts = None, rc_Env = None\<rparr>"
  have adm: "container_admits (\<lambda>s. s) (hd (elems (w_Containers rel_workload))) ?r"
    by (simp add: container_admits_iff rel_workload_def process_admits_def matchCommand_def matchArgs_def mount_policy_admits_def
        admitsObservation_def PolicyExact_def PolicyDeny_def PolicyAny_def)
  have "describes (\<lambda>s. s) rel_workload [?r]"
    unfolding describes_iff using adm by (simp add: rel_workload_def w_containers_def)
  hence "MatchWorkload (\<lambda>s. s) rel_allowlist [?r] = Inr (''web'', rel_workload)"
    by (simp add: MatchWorkload_Inr_iff matching_def rel_allowlist_def)
  moreover have "\<not> AdmitsAnyArgv rel_allowlist rel_digest"
    by (simp add: AdmitsAnyArgv_def rel_allowlist_def rel_workload_def w_containers_def container_AnyArgv_def PolicyExact_def PolicyAny_def
        split: sum.split)
  moreover have "rel_digest \<noteq> []" by (simp add: rel_digest_def algo_def)
  ultimately show ?thesis
    by (simp add: entitled_def rel_handler_def RequireContainers_def WorkloadContainers_def isInjected_def to_running_def rel_external_def)
      (simp add: rel_workload_def ArgvPinned_def w_containers_def argvHostIndependent_def)
qed

lemma rel_admit_with:
  assumes "mo_consume m = 1" and "mo_lookup m = 1" and "ss_challenges s = ss_challenges (rel_state [])" and "ss_bindings s = ss_bindings (rel_state [])"
    and "cached_Allowlist (mo_policy m) (ss_policy s) = (Inr rel_allowlist, cp)"
  shows "admit_request rel_external rel_handler m (rel_request meth) s =
     (Inr (''/db'', \<lparr>gr_workload = ''web'', gr_secrets = w_Secrets rel_workload\<rparr>),
      s\<lparr>ss_challenges := Some \<lparr>cs_challenges = [], cs_issued = [rel_nonce], cs_ttl = 60\<rparr>, ss_policy := cp\<rparr>)"
proof -
  let ?g = "\<lparr>gr_workload = ''web'', gr_secrets = w_Secrets rel_workload\<rparr>"
  have res: "resolve rel_external rel_handler rel_allowlist ''sbx'' sample_host = Inr ?g"
    using rel_entitled by (auto simp: resolve_Inr)
  have "release_authorize rel_external rel_handler m (rel_request meth) rel_nonce (s\<lparr>ss_challenges := c\<rparr>) =
      (Inr ?g, s\<lparr>ss_challenges := c, ss_policy := cp\<rparr>)" for c
    using rel_identify[of "[]" meth] assms res by (simp add: release_authorize_def)
  thus ?thesis unfolding admit_request_def using assms(1,3) rel_consume[of meth "[]"] by (simp add: rel_path)
qed

lemma rel_admit:
  "admit_request rel_external rel_handler rel_moments (rel_request meth) (rel_state vs) =
     (Inr (''/db'', \<lparr>gr_workload = ''web'', gr_secrets = w_Secrets rel_workload\<rparr>),
      (rel_state vs)\<lparr>ss_challenges := Some \<lparr>cs_challenges = [], cs_issued = [rel_nonce], cs_ttl = 60\<rparr>\<rparr>)"
proof -
  have "cached_Allowlist (mo_policy rel_moments) (ss_policy (rel_state vs)) = (Inr rel_allowlist, ss_policy (rel_state vs))"
    by (simp add: cached_Allowlist_def rel_moments_def rel_state_def store_Version_def query_def)
  from rel_admit_with[OF _ _ _ _ this] show ?thesis by (simp add: rel_moments_def) (simp add: rel_state_def)
qed

definition rel_done :: "(string \<times> entry) list \<Rightarrow> secret_state" where
  "rel_done vs = (rel_state vs)\<lparr>ss_challenges := Some \<lparr>cs_challenges = [], cs_issued = [rel_nonce], cs_ttl = 60\<rparr>\<rparr>"

lemma rel_get:
  "ServeSecret rel_external rel_handler rel_moments (rel_request ''GET'') (rel_state [(''/db'', e)]) =
     (writeValue (en_value e) StatusOK, rel_done [(''/db'', e)])"
proof -
  have "Allows (w_Secrets rel_workload) ''/db'' OpRead"
    by (simp add: Allows_def rel_workload_def matchGlob_def CutSuffix_def HasSuffix_def subtreeSuffix_def suffix_def)
  thus ?thesis
    by (simp add: ServeSecret_admit rel_admit serveGet_def ms_Get_def rel_done_def) (simp add: rel_request_def rel_state_def)
qed

lemma rel_post:
  "fst (ServeSecret rel_external rel_handler rel_moments (rel_request ''POST'') (rel_state [(''/db'', e)])) = status StatusConflict"
proof -
  have "Allows (w_Secrets rel_workload) ''/db'' OpWrite"
    by (simp add: Allows_def rel_workload_def matchGlob_def CutSuffix_def HasSuffix_def subtreeSuffix_def suffix_def)
  thus ?thesis
    by (simp add: ServeSecret_admit rel_admit servePost_def)
      (simp add: rel_request_def rel_state_def rel_moments_def ms_PutIfAbsent_def checkValue_def)
qed

section \<open>Properties\<close>

text \<open>A request is justified in using a path as the entry \<open>name\<close>: it names the path in its canonical spelling, redeems a live challenge, its
  caller is authentic for a sandbox under that challenge, and the sandbox is entitled to the entry under the current policy.\<close>

definition justified ::
  "('p, 'k) external \<Rightarrow> 'k SecretHandler \<Rightarrow> moments \<Rightarrow> 'p tls_request \<Rightarrow> secret_state \<Rightarrow> string \<Rightarrow> string \<Rightarrow> Workload \<Rightarrow> bool" where
  "justified x h m r s path name w \<longleftrightarrow>
     tr_EscapedPath r = ''/secrets'' @ path \<and> canonical_path path \<and>
     (\<exists>nonce cs created sid host al.
        ss_challenges s = Some cs \<and> request_nonce r = Some nonce \<and> map_of (cs_challenges cs) nonce = Some created \<and>
        mo_consume m - created < cs_ttl cs \<and>
        authentic x h (ss_bindings s) (mo_lookup m) r nonce sid host \<and>
        fst (cached_Allowlist (mo_policy m) (ss_policy s)) = Inr al \<and> entitled x h al sid host name w)"

lemma requestPath_Inr: "requestPath r = Inr path \<Longrightarrow> tr_EscapedPath r = ''/secrets'' @ path \<and> canonical_path path"
  by (auto simp: requestPath_def CutPrefix_def HasPrefix_def canonical_path_iff CanonicalSecretPath_Inr_iff elim!: prefixE
      split: option.splits sum.splits if_splits)

lemma admit_request_Inr:
  assumes "admit_request x h m r s = (Inr (path, g), s')"
  obtains w where "justified x h m r s path (gr_workload g) w" "gr_secrets g = w_Secrets w"
proof -
  from assms obtain nonce chs where c: "requestPath r = Inr path" "consumeChallenge r (mo_consume m) (ss_challenges s) = (Inr nonce, chs)"
      "release_authorize x h m r nonce (s\<lparr>ss_challenges := chs\<rparr>) = (Inr g, s')"
    by (auto simp: admit_request_def split: sum.splits prod.splits)
  from c(2) obtain cs created where n: "ss_challenges s = Some cs" "request_nonce r = Some nonce"
      "map_of (cs_challenges cs) nonce = Some created" "mo_consume m - created < cs_ttl cs"
    by (rule consumeChallenge_Inr) (auto simp: request_nonce_def)
  from c(3) obtain sid host al w where w: "authentic x h (ss_bindings s) (mo_lookup m) r nonce sid host"
      "fst (cached_Allowlist (mo_policy m) (ss_policy s)) = Inr al" "entitled x h al sid host (gr_workload g) w" "gr_secrets g = w_Secrets w"
    by (rule release_authorize_Inr) simp
  show thesis by (rule that[OF _ w(4)]) (use requestPath_Inr[OF c(1)] n w in \<open>unfold justified_def, blast\<close>)
qed

lemma admit_request_Inl: "admit_request x h m r s = (Inl resp, s') \<Longrightarrow> rs_Status resp \<in> {StatusBadRequest, StatusForbidden}"
  by (auto simp: admit_request_def split: sum.splits prod.splits)

lemma ServeSecret_cases:
  assumes "ServeSecret x h m r s = (resp, s')"
  obtains (refused) "ss_store s' = ss_store s" "rs_Status resp \<notin> {StatusOK, StatusCreated}"
  | (get) path name w v where "justified x h m r s path name w" "rq_Method r = ''GET''" "Allows (w_Secrets w) path OpRead"
      "ms_Get (ss_store s) path = Inr v" "resp = writeValue v StatusOK" "ss_store s' = ss_store s"
  | (post) path name w v where "justified x h m r s path name w" "rq_Method r = ''POST''" "Allows (w_Secrets w) path OpWrite"
      "mo_generated m = Some v" "ms_Get (ss_store s) path = Inl ErrNotFound" "resp = writeValue v StatusCreated"
      "ss_store s' = storeLocked (ss_store s) path v (WorkloadHolder name)"
proof -
  obtain res s1 where adm: "admit_request x h m r s = (res, s1)" by fastforce
  note store = admit_request_frame[OF adm]
  show thesis
  proof (cases res)
    case (Inl e)
    show thesis by (rule refused) (use assms adm store Inl admit_request_Inl[of x h m r s e s1] in \<open>auto simp: ServeSecret_admit\<close>)
  next
    case (Inr pg)
    obtain path g where pg: "pg = (path, g)" by fastforce
    from adm[unfolded Inr pg] obtain w where w: "justified x h m r s path (gr_workload g) w" "gr_secrets g = w_Secrets w"
      by (rule admit_request_Inr)
    consider "rq_Method r = ''GET''" "resp = serveGet g path (ss_store s)" "s' = s1"
      | "rq_Method r = ''POST''" "servePost (mo_generated m) g path (ss_store s) = (resp, ss_store s')"
      | "resp = status StatusMethodNotAllowed" "s' = s1"
      using assms adm Inr pg store by (auto simp: ServeSecret_admit split: if_splits prod.splits)
    thus thesis
    proof cases
      case 1
      from serveGet_cases[of g path "ss_store s"] show thesis
      proof (elim disjE exE conjE)
        fix v
        assume "Allows (gr_secrets g) path OpRead" "ms_Get (ss_store s) path = Inr v" "serveGet g path (ss_store s) = writeValue v StatusOK"
        thus thesis using get[OF w(1) 1(1)] 1 w(2) store by simp
      qed (use 1 store in \<open>auto intro: refused\<close>)
    next
      case 2
      from servePost_cases[OF 2(2)] show thesis
      proof (elim disjE exE conjE)
        fix v
        assume "Allows (gr_secrets g) path OpWrite" "mo_generated m = Some v" "ms_Get (ss_store s) path = Inl ErrNotFound"
          "ss_store s' = storeLocked (ss_store s) path v (WorkloadHolder (gr_workload g))" "resp = writeValue v StatusCreated"
        thus thesis using post[OF w(1) 2(1)] w(2) by simp
      qed (auto intro: refused)
    next
      case 3
      show thesis by (rule refused) (use 3 store in simp_all)
    qed
  qed
qed

text \<open>C5: \<^bold>\<open>A secret is released only to the workload it is granted to.\<close> Whatever the request, the clock, the inventory answers, the
  policy and the store: either nothing is released and no value is stored, or the request is a GET answered with the value at its
  path, or a POST answered with a new value that is now stored at its path, which held none, every other path being unchanged.
  In both cases the request is justified: the path is canonical, the challenge was live, the caller's certificate and token prove its
  sandbox through the bound inventory, the containers reported for that sandbox match exactly one entry, which pins every argv, and the
  grant of that entry allows the operation on the path.\<close>

theorem release_safe:
  assumes "ServeSecret x h m r s = (resp, s')"
  shows "rs_Status resp \<notin> {StatusOK, StatusCreated} \<and> ss_store s' = ss_store s \<or>
    (\<exists>path name w v. justified x h m r s path name w \<and>
       (rq_Method r = ''GET'' \<and> Allows (w_Secrets w) path OpRead \<and> ms_Get (ss_store s) path = Inr v \<and>
          resp = writeValue v StatusOK \<and> ss_store s' = ss_store s \<or>
        rq_Method r = ''POST'' \<and> Allows (w_Secrets w) path OpWrite \<and> mo_generated m = Some v \<and>
          ms_Get (ss_store s) path = Inl ErrNotFound \<and> resp = writeValue v StatusCreated \<and>
          (\<forall>q. ms_Get (ss_store s') q = (if q = path then Inr v else ms_Get (ss_store s) q))))"
  using assms
proof (cases rule: ServeSecret_cases)
  case refused
  thus ?thesis by blast
next
  case (get path name w v)
  thus ?thesis by (intro disjI2 exI[of _ path] exI[of _ name] exI[of _ w] exI[of _ v]) simp
next
  case (post path name w v)
  moreover have "\<forall>q. ms_Get (ss_store s') q = (if q = path then Inr v else ms_Get (ss_store s) q)"
    using post(7) by (simp add: storeLocked_Get)
  ultimately show ?thesis by (intro disjI2 exI[of _ path] exI[of _ name] exI[of _ w] exI[of _ v]) simp
qed

theorem release_safe_witness:
  "\<exists>path name w v. justified rel_external rel_handler rel_moments (rel_request ''GET'')
       (rel_state [(''/db'', \<lparr>en_value = ''pw'', en_holder = OperatorHolder\<rparr>)]) path name w \<and>
     Allows (w_Secrets w) path OpRead \<and> writeValue ''pw'' StatusOK = writeValue v StatusOK"
  using release_safe[OF rel_get[of "\<lparr>en_value = ''pw'', en_holder = OperatorHolder\<rparr>"]] by (auto simp: rel_request_def writeValue_def)

text \<open>C24: \<^bold>\<open>A challenge authorises one request.\<close> In any history of challenges issued and requests served from the start of the
  process: once a request that carries a nonce got past its challenge check, every later request with that nonce is answered 400
  and changes nothing, until the same nonce is issued again, whatever happens in between.\<close>

theorem secret_challenge_once:
  assumes "ss_challenges s0 = Some (NewChallengeStore ttl)"
    and "ServeSecret x h m r (fold (secret_step x h) es s0) = (resp, s1)" and "rs_Status resp \<noteq> StatusBadRequest"
    and "s2 = fold (secret_step x h) es' s1" and "\<forall>now n. request_nonce r = Some n \<longrightarrow> Issue n now \<notin> set es'"
    and "request_nonce r' = request_nonce r"
  shows "ServeSecret x h m' r' s2 = (status StatusBadRequest, s2)"
proof -
  have "challenges_ok s0" by (simp add: challenges_ok_def assms(1) ch_inv_new)
  hence ok: "challenges_ok (fold (secret_step x h) es s0)" by (rule secret_run_ok)
  from assms(2,3) obtain n where n: "request_nonce r = Some n" "n \<notin> outstanding s1" by (rule ServeSecret_consumes)
  have "challenges_ok s1" using secret_step_inv(1)[OF ok, of x h "Request m r"] assms(2) by simp
  hence "n \<notin> outstanding s2" unfolding assms(4) by (rule secret_run_inv) (use assms(5) n in auto)
  thus ?thesis using ServeSecret_refuses assms(6) n(1) by metis
qed

theorem secret_challenge_once_witness:
  "\<exists>s2. ServeSecret rel_external rel_handler rel_moments (rel_request ''POST'') s2 = (status StatusBadRequest, s2)"
proof -
  let ?e = "\<lparr>en_value = ''pw'', en_holder = OperatorHolder\<rparr>"
  let ?s0 = "(rel_state [(''/db'', ?e)])\<lparr>ss_challenges := Some (NewChallengeStore 60)\<rparr>"
  have run: "fold (secret_step rel_external rel_handler) [Issue rel_nonce 0] ?s0 = rel_state [(''/db'', ?e)]"
    by (simp add: rel_state_def)
  have nonce: "request_nonce (rel_request ''POST'') = request_nonce (rel_request ''GET'')"
    by (simp add: request_nonce_def rel_header)
  have first: "ServeSecret rel_external rel_handler rel_moments (rel_request ''GET'')
      (fold (secret_step rel_external rel_handler) [Issue rel_nonce 0] ?s0) = (writeValue (en_value ?e) StatusOK, rel_done [(''/db'', ?e)])"
    unfolding run by (rule rel_get)
  have "ServeSecret rel_external rel_handler rel_moments (rel_request ''POST'') (rel_done [(''/db'', ?e)]) =
      (status StatusBadRequest, rel_done [(''/db'', ?e)])"
    by (rule secret_challenge_once[where es' = "[]", OF _ first _ _ _ nonce]) (simp_all add: writeValue_def)
  thus ?thesis by blast
qed

text \<open>C19: \<^bold>\<open>Only a granted read reveals a stored value.\<close> Take two runs of one request whose stores hold the same paths for the same
  holders and differ in the values alone. Unless the answer is a 200, both runs give the same answer, so a write grant, a refusal and a
  missing path tell the caller nothing about any value; and the two stores differ in values alone afterwards.\<close>

theorem only_reads_reveal:
  assumes "shape st = shape (ss_store s)" and "ServeSecret x h m r s = (resp, s')"
    and "ServeSecret x h m r (s\<lparr>ss_store := st\<rparr>) = (resp', t')"
  shows "(rs_Status resp \<noteq> StatusOK \<longrightarrow> resp' = resp) \<and> shape (ss_store t') = shape (ss_store s')"
proof -
  obtain res s1 where adm: "admit_request x h m r s = (res, s1)" by fastforce
  note store = admit_request_frame[OF adm]
  have adm': "admit_request x h m r (s\<lparr>ss_store := st\<rparr>) = (res, s1\<lparr>ss_store := st\<rparr>)"
    by (simp add: admit_request_store adm)
  show ?thesis
  proof (cases res)
    case (Inl e)
    thus ?thesis using assms adm adm' store by (auto simp: ServeSecret_admit)
  next
    case (Inr pg)
    obtain path g where pg: "pg = (path, g)" by fastforce
    have "shape (ss_store s) = shape st" using assms(1) by simp
    note get = shape_serveGet[OF this, of g path] and post = shape_servePost[OF this, of "mo_generated m" g path]
    show ?thesis
      using assms(2,3) adm adm' Inr pg store get post \<open>shape (ss_store s) = shape st\<close>
      by (auto simp: ServeSecret_admit split: if_splits prod.splits)
  qed
qed

theorem only_reads_reveal_witness:
  "fst (ServeSecret rel_external rel_handler rel_moments (rel_request ''POST'') (rel_state [(''/db'', \<lparr>en_value = ''a'', en_holder = OperatorHolder\<rparr>)])) =
   fst (ServeSecret rel_external rel_handler rel_moments (rel_request ''POST'')
     ((rel_state [(''/db'', \<lparr>en_value = ''a'', en_holder = OperatorHolder\<rparr>)])\<lparr>ss_store :=
        ss_store (rel_state [(''/db'', \<lparr>en_value = ''b'', en_holder = OperatorHolder\<rparr>)])\<rparr>))"
proof -
  let ?s = "\<lambda>v. rel_state [(''/db'', \<lparr>en_value = v, en_holder = OperatorHolder\<rparr>)]"
  have "shape (ss_store (?s ''b'')) = shape (ss_store (?s ''a''))" by (simp add: shape_def rel_state_def)
  note reveal = only_reads_reveal[OF this, of rel_external rel_handler rel_moments "rel_request ''POST''", OF surjective_pairing surjective_pairing]
  show ?thesis using reveal rel_post[of "\<lparr>en_value = ''a'', en_holder = OperatorHolder\<rparr>"] by simp
qed

end
