(* ===== verification/Attest.thy ===== *)
theory Attest
  imports Issuer Secret_Release
begin

text \<open>
  Certificate issuance by CDS (\<^verbatim>\<open>src/internal/cmds/cds/attest.go\<close>, \<^verbatim>\<open>policysnapshot.go\<close>). The attestation service and its checks on a
  verdict, the REPORTDATA of a key, and the decoders of requests and CSRs are parameters. The moments of a request are arguments: the clock
  when the challenge is consumed and when the binding is recorded, the allowlist store when its generation is read and when it is loaded, and
  whether the request has timed out when that is checked.
\<close>

section \<open>Policy snapshots\<close>

record PolicySnapshot =
  ps_Allowlist :: Allowlist
  ps_Version :: string
  ps_Canonical :: string
  ps_Digest :: string
  ps_members :: "string list"

definition NewPolicySnapshot :: "hash \<Rightarrow> Allowlist \<Rightarrow> string \<Rightarrow> PolicySnapshot option" where
  "NewPolicySnapshot H al version =
     (if version = [] then None
      else Some \<lparr>ps_Allowlist = al, ps_Version = version, ps_Canonical = Canonical al, ps_Digest = CanonicalDigest H al,
        ps_members = concat (map (\<lambda>(_, w). map digest_string (w_Digests w)) (elems (al_Workloads al)))\<rparr>)"

datatype snapshot_error = ErrLoad store_error | ErrSnapshot

definition loadPolicySnapshot :: "hash \<Rightarrow> fault \<Rightarrow> Store \<Rightarrow> snapshot_error + PolicySnapshot" where
  "loadPolicySnapshot H flt s =
     bindE (wrapE ErrLoad (LoadAll flt s)) (\<lambda>(al, version).
       case NewPolicySnapshot H al (Itoa version) of None \<Rightarrow> Inl ErrSnapshot | Some p \<Rightarrow> Inr p)"

record policySnapshotCache =
  pc_held :: "PolicySnapshot option"
  pc_gen :: nat

definition cache_snapshot ::
  "hash \<Rightarrow> Store \<Rightarrow> fault \<Rightarrow> Store \<Rightarrow> policySnapshotCache \<Rightarrow> (snapshot_error + PolicySnapshot) \<times> policySnapshotCache" where
  "cache_snapshot H s1 flt s2 c =
     (let gen = Generation s1 in
      if pc_held c \<noteq> None \<and> pc_gen c = gen then (Inr (the (pc_held c)), c)
      else (case loadPolicySnapshot H flt s2 of
              Inl e \<Rightarrow> (Inl e, c)
            | Inr snapshot \<Rightarrow> (Inr snapshot, \<lparr>pc_held = Some snapshot, pc_gen = gen\<rparr>)))"

definition snapshot_Contains :: "PolicySnapshot \<Rightarrow> string \<Rightarrow> bool" where
  "snapshot_Contains p digest = (digest \<in> set (ps_members p))"

section \<open>Requests\<close>

datatype verify_error = ErrSignatureInvalid | ErrReportDataMismatch | APIError nat | UnexpectedError nat string | OtherVerifyError

record 'e AttestRequestBody =
  ab_Challenge :: string
  ab_Evidence :: 'e
  ab_CSR :: string
  ab_SandboxToken :: string

text \<open>Evidence of type \<open>'e\<close>, a verdict of type \<open>'v\<close> and image pins of type \<open>'i\<close>. \<open>ax_parse_csr\<close> is PEM decoding, parsing and the check of
  the request's own signature; the attestation service answers \<open>ax_verify\<close>.\<close>

record ('p, 'k, 'e, 'v, 'i) attest_external = "('p, 'k) external" +
  ax_body :: "string \<Rightarrow> 'e AttestRequestBody option"
  ax_parse_csr :: "string \<Rightarrow> 'p csr option"
  ax_report_data :: "'p \<Rightarrow> string \<Rightarrow> string option"
  ax_evidence_json :: "'e \<Rightarrow> string option"
  ax_verify :: "'e \<Rightarrow> string \<Rightarrow> verify_error + 'v"
  ax_LaunchDigest :: "'v \<Rightarrow> string"
  ax_HasRegisters :: "'e \<Rightarrow> bool"
  ax_EnforceImages :: "'v \<Rightarrow> 'i list \<Rightarrow> 'e \<Rightarrow> bool"
  ax_EnforceRTMRs :: "'v \<Rightarrow> (int \<times> string) list \<Rightarrow> bool"

text \<open>Whether an allowlist store is configured, and whether the CA has a certificate and a key, are flags.\<close>

record ('k, 'i) AttestHandler =
  ah_CertTTL :: int
  ah_Measurements :: "(string \<times> bool) list"
  ah_RTMRs :: "(int \<times> string) list"
  ah_Images :: "'i list"
  ah_Policy :: CSRPolicy
  ah_SANValidation :: bool
  ah_AllowlistStore :: bool
  ah_NamedCertTTL :: int
  ah_SandboxDigests :: "'k inventorySource option"
  ah_InventoryHosts :: "InventoryHosts option"
  ah_CA_Cert :: bool
  ah_CA_Key :: bool
  ah_CAChainPEM :: string

record attest_state =
  as_challenges :: ChallengeStore
  as_cache :: "policySnapshotCache option"
  as_bindings :: "Ledger option"

record attest_moment =
  am_consume :: int
  am_gen_store :: Store
  am_flt :: fault
  am_load_store :: Store
  am_timeout :: bool
  am_record :: int
  am_sign :: sign_moment

datatype attest_code = InvalidRequest | InvalidChallenge | InvalidCSR | CSRDenied | VerificationFailed | AttestationApiUnreachable
  | MeasurementDenied | RequestTimeout | SignFailed

abbreviation "StatusBadGateway \<equiv> (502 :: nat)"
abbreviation "StatusGatewayTimeout \<equiv> (504 :: nat)"

definition refusesEvidence :: "nat \<Rightarrow> bool" where
  "refusesEvidence st = (st \<ge> 400 \<and> st < 500 \<and> st \<noteq> 408 \<and> st \<noteq> 429)"

definition rejectsRequest :: "nat \<Rightarrow> bool" where
  "rejectsRequest st = (st = 400 \<or> st = 415 \<or> st = 422)"

definition classifyVerifyError :: "verify_error \<Rightarrow> nat \<times> attest_code" where
  "classifyVerifyError e =
     (case e of
        ErrSignatureInvalid \<Rightarrow> (StatusUnauthorized, VerificationFailed)
      | ErrReportDataMismatch \<Rightarrow> (StatusUnauthorized, VerificationFailed)
      | APIError st \<Rightarrow> if refusesEvidence st then (StatusUnprocessableEntity, VerificationFailed)
          else (StatusBadGateway, AttestationApiUnreachable)
      | UnexpectedError st text \<Rightarrow> if rejectsRequest st \<and> text \<noteq> [] then (StatusUnprocessableEntity, VerificationFailed)
          else (StatusBadGateway, AttestationApiUnreachable)
      | OtherVerifyError \<Rightarrow> (StatusBadGateway, AttestationApiUnreachable))"

section \<open>The sandbox\<close>

datatype sandbox_error = SbNoInventory | SbNoHosts | SbDecode | SbToken claims_error | SbOutsideBound | SbKey | SbInvalidID
  | SbNoAllowlist | SbFetch | SbSnapshot snapshot_error | SbNoContainers | SbDigest | SbNotAllowlisted

definition no_sandbox :: VerifiedSandbox where
  "no_sandbox = \<lparr>vs_SandboxID = [], vs_InventoryHost = []\<rparr>"

definition verifySandboxToken ::
  "('p, 'k, 'e, 'v, 'i) attest_external \<Rightarrow> ('k, 'i) AttestHandler \<Rightarrow> string \<Rightarrow> 'p \<Rightarrow> string \<Rightarrow> sandbox_error + VerifiedSandbox" where
  "verifySandboxToken x h raw requesterPub nonce =
     bindE (case ah_SandboxDigests h of None \<Rightarrow> Inl SbNoInventory | Some inventory \<Rightarrow> Inr inventory) (\<lambda>inventory.
     bindE (case ah_InventoryHosts h of
              None \<Rightarrow> Inl SbNoHosts
            | Some hosts \<Rightarrow> if hosts_Empty hosts then Inl SbNoHosts else Inr hosts) (\<lambda>hosts.
     bindE (case x_json x raw of None \<Rightarrow> Inl SbDecode | Some token \<Rightarrow> Inr token) (\<lambda>token.
     bindE (wrapE SbToken (UnverifiedInventoryHost (x_token x) (st_Token token))) (\<lambda>host.
     bindE (guardE (hosts_Contains hosts host) SbOutsideBound) (\<lambda>_.
     bindE (case is_InventoryKey inventory host of None \<Rightarrow> Inl SbKey | Some ikey \<Rightarrow> Inr ikey) (\<lambda>ikey.
     bindE (wrapE SbToken (token_Verify (x_H x) (x_pkix x) (x_verify x) (x_token x) token (Some ikey) requesterPub nonce)) (\<lambda>sandbox.
     bindE (guardE (ValidateSandboxID (vs_SandboxID sandbox)) SbInvalidID) (\<lambda>_.
       Inr sandbox))))))))"

text \<open>The loop over the containers view: the canonical containers, or \<^const>\<open>None\<close> at a malformed digest.\<close>

definition canonical_containers :: "SandboxContainer list \<Rightarrow> SandboxContainer list option" where
  "canonical_containers reported =
     those (map (\<lambda>c. case ParseDigest (sc_Digest c) of
                       Inl _ \<Rightarrow> None
                     | Inr d \<Rightarrow> Some (c\<lparr>sc_Digest := digest_string d\<rparr>)) reported)"

definition matchWorkload ::
  "hash \<Rightarrow> PolicySnapshot \<Rightarrow> SandboxDigestsResponse \<Rightarrow> string list \<Rightarrow> MatchedWorkload option" where
  "matchWorkload H snapshot resp membership =
     (case RequireContainers resp of
        Inl _ \<Rightarrow> None
      | Inr reported \<Rightarrow>
          (case canonical_containers reported of
             None \<Rightarrow> None
           | Some canonical \<Rightarrow>
               if set membership \<noteq> set (map sc_Digest canonical) then None
               else (case MatchWorkload H (ps_Allowlist snapshot) (WorkloadContainers (ps_Allowlist snapshot) canonical) of
                       Inl _ \<Rightarrow> None
                     | Inr (name, _) \<Rightarrow>
                         let matched = \<lparr>mw_Name = name, mw_AllowlistVersion = ps_Version snapshot, mw_AllowlistDigest = ps_Digest snapshot\<rparr> in
                         if \<not> mw_Validate matched then None else Some matched)))"

text \<open>The membership gate over the digests view.\<close>

fun membership_loop :: "PolicySnapshot \<Rightarrow> string list \<Rightarrow> string list \<Rightarrow> sandbox_error + string list" where
  "membership_loop snapshot [] acc = Inr acc"
| "membership_loop snapshot (d # ds) acc =
     (case ParseDigest d of
        Inl _ \<Rightarrow> Inl SbDigest
      | Inr digest \<Rightarrow>
          if \<not> snapshot_Contains snapshot (digest_string digest) then Inl SbNotAllowlisted
          else membership_loop snapshot ds (digest_string digest # acc))"

definition policySnapshot ::
  "hash \<Rightarrow> attest_moment \<Rightarrow> policySnapshotCache option \<Rightarrow> (snapshot_error + PolicySnapshot) \<times> policySnapshotCache option" where
  "policySnapshot H m cache =
     (case cache of
        None \<Rightarrow> (loadPolicySnapshot H (am_flt m) (am_load_store m), None)
      | Some c \<Rightarrow> map_prod id Some (cache_snapshot H (am_gen_store m) (am_flt m) (am_load_store m) c))"

definition resolveSandboxWorkload ::
  "('p, 'k, 'e, 'v, 'i) attest_external \<Rightarrow> ('k, 'i) AttestHandler \<Rightarrow> attest_moment \<Rightarrow> policySnapshotCache option \<Rightarrow> VerifiedSandbox \<Rightarrow>
   (sandbox_error + MatchedWorkload option) \<times> policySnapshotCache option" where
  "resolveSandboxWorkload x h m cache sandbox =
     (if vs_SandboxID sandbox = [] then (Inr None, cache)
      else if \<not> ah_AllowlistStore h then (Inl SbNoAllowlist, cache)
      else (case ah_SandboxDigests h of
        None \<Rightarrow> (Inl SbNoInventory, cache)
      | Some inventory \<Rightarrow>
          (case is_FetchSandbox inventory (vs_InventoryHost sandbox) (vs_SandboxID sandbox) of
             None \<Rightarrow> (Inl SbFetch, cache)
           | Some resp \<Rightarrow>
               (case policySnapshot (x_H x) m cache of
                  (Inl e, cache') \<Rightarrow> (Inl (SbSnapshot e), cache')
                | (Inr snapshot, cache') \<Rightarrow>
                    (if length (sd_Digests resp) = 0 then Inl SbNoContainers
                     else bindE (membership_loop snapshot (sd_Digests resp) []) (\<lambda>membership.
                       Inr (matchWorkload (x_H x) snapshot resp membership)), cache')))))"

definition recordSandboxBinding :: "VerifiedSandbox \<Rightarrow> int \<Rightarrow> Ledger option \<Rightarrow> Ledger option" where
  "recordSandboxBinding sandbox now bindings =
     (if vs_SandboxID sandbox = [] then bindings
      else map_option (\<lambda>l. snd (ledger_Record (vs_SandboxID sandbox) (vs_InventoryHost sandbox) now l)) bindings)"

section \<open>The handler\<close>

text \<open>The checks on the verdict: the image pins, or the measurements and the registers.\<close>

definition check_verdict ::
  "('p, 'k, 'e, 'v, 'i) attest_external \<Rightarrow> ('k, 'i) AttestHandler \<Rightarrow> 'v \<Rightarrow> 'e \<Rightarrow> bool" where
  "check_verdict x h verdict ev =
     (if length (ah_Images h) > 0 then ax_EnforceImages x verdict (ah_Images h) ev
      else (length (ah_Measurements h) > 0 \<longrightarrow> map_of (ah_Measurements h) (ToLower (ax_LaunchDigest x verdict)) = Some True) \<and>
           (ax_HasRegisters x ev \<longrightarrow> ax_EnforceRTMRs x verdict (ah_RTMRs h)))"

definition leaf_ttl :: "('k, 'i) AttestHandler \<Rightarrow> MatchedWorkload option \<Rightarrow> int" where
  "leaf_ttl h matched =
     (let ttl = CapTTL (ah_CertTTL h) MaxLeafTTL in
      if matched = None then ttl
      else CapTTL ttl (if ah_NamedCertTTL h > 0 \<and> ah_NamedCertTTL h < MaxNamedLeafTTL then ah_NamedCertTTL h else MaxNamedLeafTTL))"

text \<open>The part of the handler between the consumed challenge and the workload decision: who asks, and that it attested.\<close>

definition authenticate ::
  "('p, 'k, 'e, 'v, 'i) attest_external \<Rightarrow> ('k, 'i) AttestHandler \<Rightarrow> request \<Rightarrow> 'e AttestRequestBody \<Rightarrow> string \<Rightarrow>
   (nat \<times> attest_code) + ('p csr \<times> VerifiedSandbox \<times> string)" where
  "authenticate x h r req challengeBytes =
     bindE (case ax_parse_csr x (ab_CSR req) of None \<Rightarrow> Inl (StatusBadRequest, InvalidCSR) | Some csr \<Rightarrow> Inr csr) (\<lambda>csr.
     bindE (case cr_PublicKey csr of OtherKey \<Rightarrow> Inl (StatusBadRequest, InvalidCSR) | ECDSAKey pub \<Rightarrow> Inr pub) (\<lambda>csrPubKey.
     bindE (if length (ab_SandboxToken req) > 0 then
              wrapE (\<lambda>_. (StatusForbidden, CSRDenied)) (verifySandboxToken x h (ab_SandboxToken req) csrPubKey challengeBytes)
            else Inr no_sandbox) (\<lambda>sandbox.
     bindE (case ax_report_data x csrPubKey challengeBytes of
              None \<Rightarrow> Inl (StatusBadRequest, InvalidCSR) | Some d \<Rightarrow> Inr d) (\<lambda>expectedReportData.
     bindE (case ax_evidence_json x (ab_Evidence req) of
              None \<Rightarrow> Inl (StatusUnprocessableEntity, InvalidRequest) | Some j \<Rightarrow> Inr j) (\<lambda>evidenceJSON.
     bindE (wrapE classifyVerifyError (ax_verify x (ab_Evidence req) (take 48 expectedReportData))) (\<lambda>verdict.
     bindE (guardE (check_verdict x h verdict (ab_Evidence req)) (StatusForbidden, MeasurementDenied)) (\<lambda>_.
     bindE (wrapE (\<lambda>_. (StatusForbidden, CSRDenied)) (ValidateCSR csr
              (if ah_SANValidation h then (ah_Policy h)\<lparr>pl_SourceIP := SourceIPFromRemoteAddr (rq_RemoteAddr r)\<rparr> else ah_Policy h))) (\<lambda>_.
       Inr (csr, sandbox, evidenceJSON)))))))))"

definition HandleAttest ::
  "('p, 'k, 'e, 'v, 'i) attest_external \<Rightarrow> ('k, 'i) AttestHandler \<Rightarrow> attest_moment \<Rightarrow> request \<Rightarrow> attest_state \<Rightarrow>
   ((nat \<times> attest_code) + 'p leaf_template) \<times> attest_state" where
  "HandleAttest x h m r s =
     (case ax_body x (fst (rq_Body r)) of
        None \<Rightarrow> (Inl (StatusUnprocessableEntity, InvalidRequest), s)
      | Some req \<Rightarrow>
          (case StdDecode (ab_Challenge req) of
             None \<Rightarrow> (Inl (StatusBadRequest, InvalidChallenge), s)
           | Some challengeBytes \<Rightarrow>
               (case Consume challengeBytes (am_consume m) (as_challenges s) of
                  (False, cs) \<Rightarrow> (Inl (StatusBadRequest, InvalidChallenge), s\<lparr>as_challenges := cs\<rparr>)
                | (True, cs) \<Rightarrow>
                    let s1 = s\<lparr>as_challenges := cs\<rparr> in
                    (case authenticate x h r req challengeBytes of
                       Inl e \<Rightarrow> (Inl e, s1)
                     | Inr (csr, sandbox, evidenceJSON) \<Rightarrow>
                         (case resolveSandboxWorkload x h m (as_cache s1) sandbox of
                            (Inl _, cache) \<Rightarrow> (Inl (StatusForbidden, CSRDenied), s1\<lparr>as_cache := cache\<rparr>)
                          | (Inr matched, cache) \<Rightarrow>
                              let s2 = s1\<lparr>as_cache := cache\<rparr> in
                              if am_timeout m then (Inl (StatusGatewayTimeout, RequestTimeout), s2)
                              else
                                let s3 = s2\<lparr>as_bindings := recordSandboxBinding sandbox (am_record m) (as_bindings s2)\<rparr> in
                                (case SignCSR (x_H x) (ah_CA_Cert h \<and> ah_CA_Key h) (am_sign m)
                                        \<lparr>sp_CSR = Some csr, sp_TTL = leaf_ttl h matched, sp_Evidence = evidenceJSON,
                                         sp_SandboxID = vs_SandboxID sandbox, sp_MatchedWorkload = matched\<rparr> of
                                   Inl _ \<Rightarrow> (Inl (StatusInternalServerError, SignFailed), s3)
                                 | Inr leaf \<Rightarrow>
                                     if length (ah_CAChainPEM h) = 0 \<and> \<not> ah_CA_Cert h
                                     then (Inl (StatusInternalServerError, SignFailed), s3)
                                     else (Inr leaf, s3)))))))"

section \<open>The snapshot cache\<close>

definition snapshot_of :: "hash \<Rightarrow> Store \<Rightarrow> PolicySnapshot" where
  "snapshot_of H s = the (NewPolicySnapshot H (st_doc s) (Itoa (db_version (st_db s))))"

lemma Itoa_nonempty: "Itoa n \<noteq> []"
  by (subst Itoa.simps) simp

lemma NewPolicySnapshot_Itoa: "\<exists>p. NewPolicySnapshot H al (Itoa n) = Some p"
  using Itoa_nonempty[of n] by (simp add: NewPolicySnapshot_def)

lemma loadPolicySnapshot_Inr: "loadPolicySnapshot H flt s = Inr p \<Longrightarrow> p = snapshot_of H s"
  by (auto simp: loadPolicySnapshot_def bindE_Inr_iff snapshot_of_def dest!: LoadAll_Inr split: option.splits)

lemma loadPolicySnapshot_no_fault: "loadPolicySnapshot H no_fault s = Inr (snapshot_of H s)"
  using NewPolicySnapshot_Itoa[of H "st_doc s" "db_version (st_db s)"]
  by (auto simp: loadPolicySnapshot_def bindE_def wrapE_def LoadAll_no_fault snapshot_of_def)

text \<open>The calls in the order of the lock, which is held from the read of the generation to the end of the load.\<close>

fun snapshot_reads :: "hash \<Rightarrow> (nat \<Rightarrow> Store) \<Rightarrow> policySnapshotCache \<Rightarrow> (nat \<times> fault \<times> nat) list \<Rightarrow> (snapshot_error + PolicySnapshot) list" where
  "snapshot_reads H \<sigma> c [] = []"
| "snapshot_reads H \<sigma> c ((i, flt, j) # ms) =
     (case cache_snapshot H (\<sigma> i) flt (\<sigma> j) c of (res, c') \<Rightarrow> res # snapshot_reads H \<sigma> c' ms)"

definition lock_order :: "(nat \<times> fault \<times> nat) list \<Rightarrow> bool" where
  "lock_order ms \<longleftrightarrow> sorted (concat (map (\<lambda>(i, _, j). [i, j]) ms))"

definition snap_ok :: "hash \<Rightarrow> (nat \<Rightarrow> Store) \<Rightarrow> nat \<Rightarrow> policySnapshotCache \<Rightarrow> bool" where
  "snap_ok H \<sigma> n c \<longleftrightarrow>
     (\<forall>p. pc_held c = Some p \<longrightarrow> (\<exists>i j. i \<le> j \<and> j \<le> n \<and> pc_gen c = Generation (\<sigma> i) \<and> p = snapshot_of H (\<sigma> j)))"

lemma history_gen:
  assumes "store_history N \<sigma>" and "i \<le> j" and "j \<le> k" and "Generation (\<sigma> k) = Generation (\<sigma> i)"
  shows "\<sigma> k = \<sigma> j"
proof -
  note m = gen.not_modified[OF history_reach[OF assms(1)] history_inv[OF assms(1)]]
  have "st_gen (\<sigma> i) \<le> st_gen (\<sigma> j)" "st_gen (\<sigma> j) \<le> st_gen (\<sigma> k)" using m assms(2,3) by blast+
  hence "st_gen (\<sigma> k) = st_gen (\<sigma> j)" using assms(4) by (simp add: Generation_def)
  thus ?thesis using m[OF assms(3)] by simp
qed

lemma cache_snapshot_ok:
  assumes "store_history N \<sigma>" and "snap_ok H \<sigma> n c" and "n \<le> i" and "i \<le> j" and "cache_snapshot H (\<sigma> i) flt (\<sigma> j) c = (res, c')"
  shows "snap_ok H \<sigma> j c' \<and> (\<forall>p. res = Inr p \<longrightarrow> p = snapshot_of H (\<sigma> i) \<or> p = snapshot_of H (\<sigma> j))"
proof (cases "pc_held c \<noteq> None \<and> pc_gen c = Generation (\<sigma> i)")
  case True
  then obtain p where p: "pc_held c = Some p" "pc_gen c = Generation (\<sigma> i)" by auto
  then obtain a b where ab: "a \<le> b" "b \<le> n" "pc_gen c = Generation (\<sigma> a)" "p = snapshot_of H (\<sigma> b)"
    using assms(2) by (auto simp: snap_ok_def)
  have "\<sigma> i = \<sigma> b" by (rule history_gen[OF assms(1) ab(1)]) (use ab p assms(3) in auto)
  moreover have "(res, c') = (Inr p, c)" using True assms(5) p by (simp add: cache_snapshot_def)
  moreover have "snap_ok H \<sigma> j c" unfolding snap_ok_def
    using ab p assms(3,4) by (intro allI impI exI[of _ a] exI[of _ b]) auto
  ultimately show ?thesis using ab(4) by simp
next
  case False
  hence "cache_snapshot H (\<sigma> i) flt (\<sigma> j) c = (case loadPolicySnapshot H flt (\<sigma> j) of Inl e \<Rightarrow> (Inl e, c)
      | Inr snapshot \<Rightarrow> (Inr snapshot, \<lparr>pc_held = Some snapshot, pc_gen = Generation (\<sigma> i)\<rparr>))"
    unfolding cache_snapshot_def Let_def by (rule if_not_P)
  moreover have "snap_ok H \<sigma> j c"
    unfolding snap_ok_def
  proof (intro allI impI)
    fix p
    assume "pc_held c = Some p"
    then obtain a b where "a \<le> b" "b \<le> n" "pc_gen c = Generation (\<sigma> a)" "p = snapshot_of H (\<sigma> b)"
      using assms(2) by (auto simp: snap_ok_def)
    thus "\<exists>a b. a \<le> b \<and> b \<le> j \<and> pc_gen c = Generation (\<sigma> a) \<and> p = snapshot_of H (\<sigma> b)"
      using assms(3,4) by (intro exI[of _ a] exI[of _ b]) auto
  qed
  moreover have "snap_ok H \<sigma> j \<lparr>pc_held = Some q, pc_gen = Generation (\<sigma> i)\<rparr> \<and> q = snapshot_of H (\<sigma> j)"
    if "loadPolicySnapshot H flt (\<sigma> j) = Inr q" for q
    using loadPolicySnapshot_Inr[OF that] assms(4) by (auto simp: snap_ok_def)
  ultimately show ?thesis using assms(5) by (auto split: sum.splits)
qed

lemma snapshot_reads_at:
  assumes "store_history N \<sigma>" and "snap_ok H \<sigma> n c" and "lock_order ms" and "\<forall>m\<in>set ms. n \<le> fst m"
    and "((i, flt, j), Inr p) \<in> set (zip ms (snapshot_reads H \<sigma> c ms))"
  shows "p = snapshot_of H (\<sigma> i) \<or> p = snapshot_of H (\<sigma> j)"
  using assms(2-5)
proof (induction ms arbitrary: c n)
  case (Cons m ms)
  obtain a g b where m: "m = (a, g, b)" by (cases m)
  obtain res c' where r: "cache_snapshot H (\<sigma> a) g (\<sigma> b) c = (res, c')" by fastforce
  have ab: "a \<le> b" "n \<le> a" "lock_order ms" "\<forall>q\<in>set ms. b \<le> fst q"
    using Cons.prems(2,3) m by (auto simp: lock_order_def split: prod.splits)
  note step = cache_snapshot_ok[OF assms(1) Cons.prems(1) ab(2,1) r]
  show ?case
  proof (cases "((i, flt, j), Inr p) \<in> set (zip ms (snapshot_reads H \<sigma> c' ms))")
    case True
    thus ?thesis by (rule Cons.IH[OF conjunct1[OF step] ab(3,4)])
  next
    case False
    hence "(i, flt, j) = m \<and> res = Inr p" using Cons.prems(4) m r by auto
    thus ?thesis using step m by auto
  qed
qed simp

section \<open>What an issued leaf rests on\<close>

text \<open>The requester attested: its request carries a CSR signed by an ECDSA key, evidence whose report data binds that key and the
  challenge, a verdict that satisfies the configured pins, and names that the CSR policy allows.\<close>

definition attested ::
  "('p, 'k, 'e, 'v, 'i) attest_external \<Rightarrow> ('k, 'i) AttestHandler \<Rightarrow> request \<Rightarrow> 'e AttestRequestBody \<Rightarrow> string \<Rightarrow> 'p csr \<Rightarrow> 'p \<Rightarrow> bool" where
  "attested x h r req nonce csr pub \<longleftrightarrow>
     ax_parse_csr x (ab_CSR req) = Some csr \<and> cr_PublicKey csr = ECDSAKey pub \<and>
     (\<exists>d verdict. ax_report_data x pub nonce = Some d \<and> ax_verify x (ab_Evidence req) (take 48 d) = Inr verdict \<and>
        check_verdict x h verdict (ab_Evidence req)) \<and>
     (\<forall>dns\<in>set (cr_DNSNames csr). \<exists>re. Some re \<in> set (pl_DNSSANPatterns (ah_Policy h)) \<and> re dns = Some (0, length dns)) \<and>
     (\<forall>addr\<in>set (cr_IPAddresses csr). \<exists>source. ip_Equal addr source \<and>
        parseSourceIP (if ah_SANValidation h then SourceIPFromRemoteAddr (rq_RemoteAddr r) else pl_SourceIP (ah_Policy h)) = Some source)"

text \<open>The requester proved its sandbox through an inventory within the node bound, for this challenge and key.\<close>

definition vouched ::
  "('p, 'k, 'e, 'v, 'i) attest_external \<Rightarrow> ('k, 'i) AttestHandler \<Rightarrow> 'e AttestRequestBody \<Rightarrow> string \<Rightarrow> 'p \<Rightarrow> string \<Rightarrow> string \<Rightarrow> bool" where
  "vouched x h req nonce pub sid host \<longleftrightarrow>
     (\<exists>inventory hosts ikey token tok der. ah_SandboxDigests h = Some inventory \<and> ah_InventoryHosts h = Some hosts \<and>
        hosts_Contains hosts host \<and> is_InventoryKey inventory host = Some ikey \<and> x_json x (ab_SandboxToken req) = Some token \<and>
        x_verify x ikey (x_H x (sandboxTokenDomainSep @ st_Token token)) (st_Signature token) \<and>
        x_token x (st_Token token) = Some (tok, []) \<and> tk_Nonce tok = nonce \<and> tk_SandboxID tok = sid \<and> tk_InventoryHost tok = host \<and>
        x_pkix x pub = Some der \<and> tk_KeyDigest tok = x_H x der) \<and> ValidateSandboxID sid"

text \<open>Every image the inventory reports for the sandbox is one the snapshot admits.\<close>

definition members_admitted :: "PolicySnapshot \<Rightarrow> SandboxDigestsResponse \<Rightarrow> bool" where
  "members_admitted p resp \<longleftrightarrow>
     sd_Digests resp \<noteq> [] \<and>
     (\<forall>d\<in>set (sd_Digests resp). \<exists>digest. ParseDigest d = Inr digest \<and>
        (\<exists>(n, w)\<in>set (elems (al_Workloads (ps_Allowlist p))). \<exists>c\<in>set (w_containers w). c_Digest c = digest))"

text \<open>The containers the inventory reports, with canonical digests, agree with its digests and match exactly the entry \<open>name\<close>.\<close>

definition uniquely_matched :: "hash \<Rightarrow> PolicySnapshot \<Rightarrow> SandboxDigestsResponse \<Rightarrow> string \<Rightarrow> bool" where
  "uniquely_matched H p resp name \<longleftrightarrow>
     (\<exists>canonical w. canonical_containers (sd_Containers resp) = Some canonical \<and>
        set (map sc_Digest canonical) = {digest_string d | d r. r \<in> set (sd_Digests resp) \<and> ParseDigest r = Inr d} \<and>
        MatchWorkload H (ps_Allowlist p) (WorkloadContainers (ps_Allowlist p) canonical) = Inr (name, w))"

lemma verifySandboxToken_Inr:
  assumes "verifySandboxToken x h (ab_SandboxToken req) pub nonce = Inr sandbox"
  shows "vouched x h req nonce pub (vs_SandboxID sandbox) (vs_InventoryHost sandbox)"
proof -
  from assms obtain inventory hosts token host ikey where v: "ah_SandboxDigests h = Some inventory" "ah_InventoryHosts h = Some hosts"
      "x_json x (ab_SandboxToken req) = Some token" "UnverifiedInventoryHost (x_token x) (st_Token token) = Inr host"
      "hosts_Contains hosts host" "is_InventoryKey inventory host = Some ikey"
      "token_Verify (x_H x) (x_pkix x) (x_verify x) (x_token x) token (Some ikey) pub nonce = Inr sandbox"
      "ValidateSandboxID (vs_SandboxID sandbox)"
    by (auto simp: verifySandboxToken_def bindE_Inr_iff split: option.splits if_splits)
  from token_Verify_Inr[OF v(7)] obtain ik tok der where t: "Some ikey = Some ik"
      "x_verify x ik (sandboxTokenSigningHash (x_H x) (st_Token token)) (st_Signature token)" "x_token x (st_Token token) = Some (tok, [])"
      "tk_Nonce tok = nonce" "x_pkix x pub = Some der" "tk_KeyDigest tok = x_H x der"
      "sandbox = \<lparr>vs_SandboxID = tk_SandboxID tok, vs_InventoryHost = tk_InventoryHost tok\<rparr>" by metis
  have "host = vs_InventoryHost sandbox" using v(4) t(3,7) by (simp add: UnverifiedInventoryHost_def)
  thus ?thesis using v t unfolding vouched_def by (auto simp: sandboxTokenSigningHash_def)
qed

lemma key_case_Inr [simp]: "(case k of OtherKey \<Rightarrow> Inl e | ECDSAKey pub \<Rightarrow> Inr pub) = Inr p \<longleftrightarrow> k = ECDSAKey p"
  by (simp split: public_key.split)

lemma authenticate_Inr:
  assumes "authenticate x h r req nonce = Inr (csr, sandbox, ev)"
  obtains pub where "attested x h r req nonce csr pub"
    "if ab_SandboxToken req = [] then sandbox = no_sandbox
     else vouched x h req nonce pub (vs_SandboxID sandbox) (vs_InventoryHost sandbox)"
proof -
  let ?pol = "if ah_SANValidation h then (ah_Policy h)\<lparr>pl_SourceIP := SourceIPFromRemoteAddr (rq_RemoteAddr r)\<rparr> else ah_Policy h"
  from assms obtain pub d verdict where a: "ax_parse_csr x (ab_CSR req) = Some csr" "cr_PublicKey csr = ECDSAKey pub"
      "(if length (ab_SandboxToken req) > 0 then wrapE (\<lambda>_. (StatusForbidden, CSRDenied)) (verifySandboxToken x h (ab_SandboxToken req) pub nonce)
        else Inr no_sandbox) = Inr sandbox"
      "ax_report_data x pub nonce = Some d" "ax_verify x (ab_Evidence req) (take 48 d) = Inr verdict"
      "check_verdict x h verdict (ab_Evidence req)" "ValidateCSR csr ?pol = Inr ()"
    by (auto simp: authenticate_def bindE_Inr_iff)
  have "pl_DNSSANPatterns ?pol = pl_DNSSANPatterns (ah_Policy h)"
    "pl_SourceIP ?pol = (if ah_SANValidation h then SourceIPFromRemoteAddr (rq_RemoteAddr r) else pl_SourceIP (ah_Policy h))" by simp_all
  hence "attested x h r req nonce csr pub"
    unfolding attested_def using a(1,2,4-6) a(7)[unfolded ValidateCSR_Inr] by fastforce
  moreover have "if ab_SandboxToken req = [] then sandbox = no_sandbox
     else vouched x h req nonce pub (vs_SandboxID sandbox) (vs_InventoryHost sandbox)"
    using a(3) verifySandboxToken_Inr[of x h req pub nonce sandbox] by (auto split: if_splits)
  ultimately show thesis by (rule that)
qed

lemma membership_loop_Inr:
  "membership_loop p ds acc = Inr ms \<Longrightarrow>
     (\<forall>d\<in>set ds. \<exists>digest. ParseDigest d = Inr digest \<and> snapshot_Contains p (digest_string digest)) \<and>
     set ms = set acc \<union> {digest_string digest | digest d. d \<in> set ds \<and> ParseDigest d = Inr digest}"
proof (induction ds arbitrary: acc)
  case (Cons d ds)
  then obtain digest where d: "ParseDigest d = Inr digest" "snapshot_Contains p (digest_string digest)"
      "membership_loop p ds (digest_string digest # acc) = Inr ms"
    by (auto split: sum.splits if_splits)
  show ?case using Cons.IH[OF d(3)] d(1,2) by auto
qed simp

lemma matchWorkload_Some:
  assumes "matchWorkload H p resp ms = Some mw" and "set ms = {digest_string d | d r. r \<in> set (sd_Digests resp) \<and> ParseDigest r = Inr d}"
  shows "uniquely_matched H p resp (mw_Name mw) \<and> mw_AllowlistVersion mw = ps_Version p \<and> mw_AllowlistDigest mw = ps_Digest p \<and> mw_Validate mw"
  using assms
  by (auto simp: matchWorkload_def uniquely_matched_def Let_def dest!: RequireContainers_Inr split: sum.splits option.splits if_splits)

lemma HandleAttest_Inr:
  assumes "HandleAttest x h m r s = (Inr leaf, s')"
  obtains req nonce cs csr sandbox ev matched cache where "ax_body x (fst (rq_Body r)) = Some req" "StdDecode (ab_Challenge req) = Some nonce"
    "Consume nonce (am_consume m) (as_challenges s) = (True, cs)" "authenticate x h r req nonce = Inr (csr, sandbox, ev)"
    "resolveSandboxWorkload x h m (as_cache s) sandbox = (Inr matched, cache)"
    "SignCSR (x_H x) (ah_CA_Cert h \<and> ah_CA_Key h) (am_sign m) \<lparr>sp_CSR = Some csr, sp_TTL = leaf_ttl h matched, sp_Evidence = ev,
       sp_SandboxID = vs_SandboxID sandbox, sp_MatchedWorkload = matched\<rparr> = Inr leaf"
    "s' = \<lparr>as_challenges = cs, as_cache = cache, as_bindings = recordSandboxBinding sandbox (am_record m) (as_bindings s)\<rparr>"
proof -
  from assms obtain req nonce where 1: "ax_body x (fst (rq_Body r)) = Some req" "StdDecode (ab_Challenge req) = Some nonce"
    by (auto simp: HandleAttest_def split: option.splits)
  from assms 1 obtain cs where 2: "Consume nonce (am_consume m) (as_challenges s) = (True, cs)"
    by (auto simp: HandleAttest_def split: prod.splits bool.splits)
  from assms 1 2 obtain csr sandbox ev where 3: "authenticate x h r req nonce = Inr (csr, sandbox, ev)"
    by (auto simp: HandleAttest_def Let_def split: sum.splits)
  from assms 1 2 3 obtain matched cache where 4: "resolveSandboxWorkload x h m (as_cache s) sandbox = (Inr matched, cache)" "\<not> am_timeout m"
    by (auto simp: HandleAttest_def Let_def split: sum.splits prod.splits if_splits)
  let ?p = "\<lparr>sp_CSR = Some csr, sp_TTL = leaf_ttl h matched, sp_Evidence = ev, sp_SandboxID = vs_SandboxID sandbox, sp_MatchedWorkload = matched\<rparr>"
  let ?s3 = "s\<lparr>as_challenges := cs, as_cache := cache, as_bindings := recordSandboxBinding sandbox (am_record m) (as_bindings s)\<rparr>"
  have "HandleAttest x h m r s = (case SignCSR (x_H x) (ah_CA_Cert h \<and> ah_CA_Key h) (am_sign m) ?p of
      Inl _ \<Rightarrow> (Inl (StatusInternalServerError, SignFailed), ?s3)
    | Inr leaf \<Rightarrow> if length (ah_CAChainPEM h) = 0 \<and> \<not> ah_CA_Cert h then (Inl (StatusInternalServerError, SignFailed), ?s3) else (Inr leaf, ?s3))"
    using 1 2 3 4 by (auto simp: HandleAttest_def Let_def split: sum.split)
  hence 5: "SignCSR (x_H x) (ah_CA_Cert h \<and> ah_CA_Key h) (am_sign m) ?p = Inr leaf" "s' = ?s3"
    using assms by (auto split: sum.splits if_splits)
  show thesis by (rule that[OF 1 2 3 4(1) 5(1)]) (simp add: 5(2))
qed

text \<open>A request changes the ledger only after it passed every check: it may still get no certificate, but only because signing fails.\<close>

lemma HandleAttest_bindings:
  assumes "HandleAttest x h m r s = (res, s')"
  shows "as_bindings s' = as_bindings s \<or>
    (\<exists>req nonce cs csr pub sid host matched. ax_body x (fst (rq_Body r)) = Some req \<and> StdDecode (ab_Challenge req) = Some nonce \<and>
       Consume nonce (am_consume m) (as_challenges s) = (True, cs) \<and>
       attested x h r req nonce csr pub \<and> vouched x h req nonce pub sid host \<and>
       fst (resolveSandboxWorkload x h m (as_cache s) \<lparr>vs_SandboxID = sid, vs_InventoryHost = host\<rparr>) = Inr matched \<and>
       ((\<exists>leaf. res = Inr leaf) \<or> res = Inl (StatusInternalServerError, SignFailed)) \<and>
       as_bindings s' = map_option (\<lambda>l. snd (ledger_Record sid host (am_record m) l)) (as_bindings s))"
proof (cases "as_bindings s' = as_bindings s")
  case False
  from assms False obtain req nonce cs csr sandbox ev matched cache where a: "ax_body x (fst (rq_Body r)) = Some req" "StdDecode (ab_Challenge req) = Some nonce"
      "authenticate x h r req nonce = Inr (csr, sandbox, ev)" "as_bindings s' = recordSandboxBinding sandbox (am_record m) (as_bindings s)"
      "Consume nonce (am_consume m) (as_challenges s) = (True, cs)" "resolveSandboxWorkload x h m (as_cache s) sandbox = (Inr matched, cache)"
      "(\<exists>leaf. res = Inr leaf) \<or> res = Inl (StatusInternalServerError, SignFailed)"
    by (auto simp: HandleAttest_def Let_def split: option.splits prod.splits bool.splits sum.splits if_splits)
  from a(3) obtain pub where pub: "attested x h r req nonce csr pub"
      "if ab_SandboxToken req = [] then sandbox = no_sandbox
       else vouched x h req nonce pub (vs_SandboxID sandbox) (vs_InventoryHost sandbox)" by (rule authenticate_Inr)
  have sid: "vs_SandboxID sandbox \<noteq> []" using a(4) False by (auto simp: recordSandboxBinding_def)
  hence v: "vouched x h req nonce pub (vs_SandboxID sandbox) (vs_InventoryHost sandbox)"
    using pub(2) by (auto simp: no_sandbox_def split: if_splits)
  moreover have "fst (resolveSandboxWorkload x h m (as_cache s) \<lparr>vs_SandboxID = vs_SandboxID sandbox, vs_InventoryHost = vs_InventoryHost sandbox\<rparr>) = Inr matched"
    using a(6) by (cases sandbox) simp
  moreover have "as_bindings s' = map_option (\<lambda>l. snd (ledger_Record (vs_SandboxID sandbox) (vs_InventoryHost sandbox) (am_record m) l)) (as_bindings s)"
    using a(4) sid by (simp add: recordSandboxBinding_def)
  ultimately show ?thesis using a(1,2,5,7) pub(1) by blast
qed simp

lemma HandleAttest_ledger: "HandleAttest x h m r s = (res, s') \<Longrightarrow> (as_bindings s' = None) = (as_bindings s = None)"
  by (drule HandleAttest_bindings) auto

lemma leaf_ttl_bounds: "0 < leaf_ttl h matched" "leaf_ttl h matched \<le> MaxLeafTTL"
    "matched \<noteq> None \<Longrightarrow> leaf_ttl h matched \<le> MaxNamedLeafTTL"
    "matched \<noteq> None \<Longrightarrow> 0 < ah_NamedCertTTL h \<Longrightarrow> leaf_ttl h matched \<le> ah_NamedCertTTL h"
  by (auto simp: leaf_ttl_def CapTTL_def Let_def MaxLeafTTL_def MaxNamedLeafTTL_def)

section \<open>Histories of issuance\<close>

datatype attest_event = NewChallenge string int | Attempt attest_moment request

fun attest_step :: "('p, 'k, 'e, 'v, 'i) attest_external \<Rightarrow> ('k, 'i) AttestHandler \<Rightarrow> attest_event \<Rightarrow> attest_state \<Rightarrow> attest_state" where
  "attest_step x h (NewChallenge n now) s = s\<lparr>as_challenges := Create n now (as_challenges s)\<rparr>"
| "attest_step x h (Attempt m r) s = snd (HandleAttest x h m r s)"

definition cache_inv :: "hash \<Rightarrow> policySnapshotCache option \<Rightarrow> bool" where
  "cache_inv H cache \<longleftrightarrow> (\<forall>c p. cache = Some c \<and> pc_held c = Some p \<longrightarrow> (\<exists>t. p = snapshot_of H t))"

lemma cache_snapshot_cases:
  assumes "cache_snapshot H s1 flt s2 c = (r, c')"
  shows "(r = Inr (the (pc_held c)) \<and> c' = c \<and> pc_held c \<noteq> None) \<or> (\<exists>e. r = Inl e \<and> c' = c) \<or>
      (\<exists>p. r = Inr p \<and> pc_held c' = Some p \<and> loadPolicySnapshot H flt s2 = Inr p)"
proof (cases "pc_held c \<noteq> None \<and> pc_gen c = Generation s1")
  case True
  thus ?thesis using assms unfolding cache_snapshot_def Let_def by auto
next
  case False
  have "cache_snapshot H s1 flt s2 c = (case loadPolicySnapshot H flt s2 of Inl e \<Rightarrow> (Inl e, c)
      | Inr snapshot \<Rightarrow> (Inr snapshot, \<lparr>pc_held = Some snapshot, pc_gen = Generation s1\<rparr>))"
    unfolding cache_snapshot_def Let_def if_not_P[OF False] by (rule refl)
  thus ?thesis using assms by (cases "loadPolicySnapshot H flt s2") auto
qed

lemma policySnapshot_inv:
  assumes "cache_inv H cache" and "policySnapshot H m cache = (res, cache')"
  shows "cache_inv H cache' \<and> (\<forall>p. res = Inr p \<longrightarrow> (\<exists>t. p = snapshot_of H t))"
proof (cases cache)
  case None
  thus ?thesis using assms by (auto simp: policySnapshot_def cache_inv_def dest: loadPolicySnapshot_Inr)
next
  case (Some c)
  have hit: "\<exists>t. p = snapshot_of H t" if "pc_held c = Some p" for p using assms(1) Some that by (simp add: cache_inv_def)
  obtain r c' where c': "cache_snapshot H (am_gen_store m) (am_flt m) (am_load_store m) c = (r, c')" by fastforce
  have "res = r" "cache' = Some c'" using assms(2) Some c' by (simp_all add: policySnapshot_def)
  moreover have "(r = Inr (the (pc_held c)) \<and> c' = c \<and> pc_held c \<noteq> None) \<or> (\<exists>e. r = Inl e \<and> c' = c) \<or>
      (\<exists>p. r = Inr p \<and> pc_held c' = Some p \<and> loadPolicySnapshot H (am_flt m) (am_load_store m) = Inr p)"
    by (rule cache_snapshot_cases[OF c'])
  moreover have "\<exists>t. p = snapshot_of H t" if "loadPolicySnapshot H (am_flt m) (am_load_store m) = Inr p" for p
    using loadPolicySnapshot_Inr[OF that] by blast
  ultimately show ?thesis using hit by (auto simp: cache_inv_def)
qed

lemma resolve_cache:
  assumes "resolveSandboxWorkload x h m cache sandbox = (res, cache')"
  shows "cache' = cache \<or> cache' = snd (policySnapshot (x_H x) m cache)"
  using assms by (auto simp: resolveSandboxWorkload_def split: if_splits option.splits prod.splits sum.splits)

lemma HandleAttest_cache:
  assumes "HandleAttest x h m r s = (res, s')"
  shows "as_cache s' = as_cache s \<or> as_cache s' = snd (policySnapshot (x_H x) m (as_cache s))"
  using assms
  by (auto simp: HandleAttest_def Let_def dest!: resolve_cache split: option.splits prod.splits bool.splits sum.splits if_splits)

lemma attest_run_inv:
  assumes "cache_inv (x_H x) (as_cache s)"
  shows "cache_inv (x_H x) (as_cache (fold (attest_step x h) es s))"
  using assms
proof (induction es arbitrary: s)
  case (Cons e es)
  have "cache_inv (x_H x) (as_cache (attest_step x h e s))"
  proof (cases e)
    case (Attempt m r)
    obtain res s' where sv: "HandleAttest x h m r s = (res, s')" by fastforce
    have "cache_inv (x_H x) (snd (policySnapshot (x_H x) m (as_cache s)))"
      using policySnapshot_inv[OF Cons.prems surjective_pairing] by blast
    thus ?thesis using HandleAttest_cache[OF sv] Attempt Cons.prems sv by auto
  qed (use Cons.prems in simp)
  thus ?case using Cons.IH by simp
qed simp

lemma snapshot_of_members:
  "snapshot_Contains (snapshot_of H t) d \<longleftrightarrow>
     (\<exists>(n, w)\<in>set (elems (al_Workloads (ps_Allowlist (snapshot_of H t)))). \<exists>c\<in>set (w_containers w). digest_string (c_Digest c) = d)"
  by (auto simp: snapshot_Contains_def snapshot_of_def NewPolicySnapshot_def Itoa_nonempty w_Digests_def w_containers_def)

lemma resolveSandboxWorkload_Inr:
  assumes "resolveSandboxWorkload x h m cache sandbox = (Inr matched, cache')" and "cache_inv (x_H x) cache" and "vs_SandboxID sandbox \<noteq> []"
  obtains inventory resp p where "ah_SandboxDigests h = Some inventory"
    "is_FetchSandbox inventory (vs_InventoryHost sandbox) (vs_SandboxID sandbox) = Some resp"
    "fst (policySnapshot (x_H x) m cache) = Inr p" "members_admitted p resp"
    "\<And>mw. matched = Some mw \<Longrightarrow> uniquely_matched (x_H x) p resp (mw_Name mw) \<and> mw_AllowlistVersion mw = ps_Version p \<and>
       mw_AllowlistDigest mw = ps_Digest p"
proof -
  from assms(1,3) obtain inventory resp p where r: "ah_SandboxDigests h = Some inventory"
      "is_FetchSandbox inventory (vs_InventoryHost sandbox) (vs_SandboxID sandbox) = Some resp"
      "policySnapshot (x_H x) m cache = (Inr p, cache')" "sd_Digests resp \<noteq> []"
      "bindE (membership_loop p (sd_Digests resp) []) (\<lambda>ms. Inr (matchWorkload (x_H x) p resp ms)) = (Inr matched :: sandbox_error + _)"
    by (auto simp: resolveSandboxWorkload_def split: if_splits option.splits prod.splits sum.splits)
  from r(5) obtain ms where ms: "membership_loop p (sd_Digests resp) [] = Inr ms" "matched = matchWorkload (x_H x) p resp ms"
    by (auto simp: bindE_Inr_iff)
  obtain t where t: "p = snapshot_of (x_H x) t" using policySnapshot_inv[OF assms(2) r(3)] by blast
  have admitted: "members_admitted p resp"
    using membership_loop_Inr[OF ms(1)] r(4) unfolding members_admitted_def t snapshot_of_members
    by (fastforce simp: Digest.expand)
  have "set ms = {digest_string d | d r. r \<in> set (sd_Digests resp) \<and> ParseDigest r = Inr d}"
    using membership_loop_Inr[OF ms(1)] by auto
  note named = matchWorkload_Some[OF _ this]
  show thesis by (rule that[OF r(1,2) _ admitted]) (use r(3) ms(2) named in auto)
qed

section \<open>An issuance that succeeds\<close>

definition att_H :: hash where
  "att_H s = replicate 32 (CHR ''h'')"

definition att_digest :: string where
  "att_digest = algo @ replicate 64 (CHR ''0'')"

definition att_csr :: "unit csr" where
  "att_csr = \<lparr>cr_CommonName = ''web'', cr_DNSNames = [''web''], cr_IPAddresses = [], cr_Extensions = [], cr_PublicKey = ECDSAKey ()\<rparr>"

definition att_body :: "unit AttestRequestBody" where
  "att_body = \<lparr>ab_Challenge = StdEncode rel_nonce, ab_Evidence = (), ab_CSR = ''c'', ab_SandboxToken = ''t''\<rparr>"

definition att_external :: "(unit, unit, unit, unit, unit) attest_external" where
  "att_external = \<lparr>x_H = att_H, x_pkix = (\<lambda>_. Some ''k''), x_verify = (\<lambda>_ _ g. g = ''sig''), x_ia5 = (\<lambda>_. None),
     x_token = (\<lambda>_. Some (token_body sample_host ''sbx'' (att_H ''k'') rel_nonce, [])),
     x_json = (\<lambda>_. Some \<lparr>st_Token = ''t'', st_Signature = ''sig''\<rparr>),
     ax_body = (\<lambda>_. Some att_body), ax_parse_csr = (\<lambda>_. Some att_csr), ax_report_data = (\<lambda>_ _. Some ''d''),
     ax_evidence_json = (\<lambda>_. Some ''e''), ax_verify = (\<lambda>_ _. Inr ()), ax_LaunchDigest = (\<lambda>_. ''m''), ax_HasRegisters = (\<lambda>_. False),
     ax_EnforceImages = (\<lambda>_ _ _. False), ax_EnforceRTMRs = (\<lambda>_ _. False)\<rparr>"

definition att_report :: SandboxDigestsResponse where
  "att_report = \<lparr>sd_Digests = [att_digest],
     sd_Containers = [\<lparr>sc_Env = None, sc_Mounts = None, sc_Digest = att_digest, sc_Argv = Some [''run'']\<rparr>]\<rparr>"

definition att_handler :: "(unit, unit) AttestHandler" where
  "att_handler = \<lparr>ah_CertTTL = 0, ah_Measurements = [(''m'', True)], ah_RTMRs = [], ah_Images = [],
     ah_Policy = \<lparr>pl_DNSSANPatterns = [Some (\<lambda>s. Some (0, length s))], pl_AllowedCNPattern = None, pl_SourceIP = []\<rparr>,
     ah_SANValidation = False, ah_AllowlistStore = True, ah_NamedCertTTL = 0,
     ah_SandboxDigests = Some \<lparr>is_InventoryKey = (\<lambda>_. Some ()), is_FetchSandbox = (\<lambda>_ _. Some att_report)\<rparr>,
     ah_InventoryHosts = Some (CIDRHosts [host_route (v4_in_6 [10, 0, 0, 1])]), ah_CA_Cert = True, ah_CA_Key = True, ah_CAChainPEM = []\<rparr>"

definition att_store :: Store where
  "att_store = \<lparr>st_db = \<lparr>db_version = 1, db_entries = [(''web'', DigestEntry (Digest att_digest) [])], db_rows = []\<rparr>, st_gen = 1\<rparr>"

definition att_moment :: attest_moment where
  "att_moment = \<lparr>am_consume = 1, am_gen_store = att_store, am_flt = no_fault, am_load_store = att_store, am_timeout = False, am_record = 1,
     am_sign = \<lparr>sm_serial = Some 7, sm_now = 1, sm_ok = True\<rparr>\<rparr>"

definition att_state :: attest_state where
  "att_state = \<lparr>as_challenges = \<lparr>cs_challenges = [(rel_nonce, 0)], cs_issued = [rel_nonce], cs_ttl = 60\<rparr>, as_cache = None,
     as_bindings = Some (NewLedger 60 9)\<rparr>"

definition att_request :: request where
  "att_request = \<lparr>rq_Method = ''POST'', rq_Path = ''/attest'', rq_RemoteAddr = [], rq_Header = [], rq_Body = ([], False)\<rparr>"

abbreviation "att_sandbox \<equiv> \<lparr>vs_SandboxID = ''sbx'', vs_InventoryHost = sample_host\<rparr>"

lemma att_token: "verifySandboxToken att_external att_handler ''t'' () rel_nonce = Inr att_sandbox"
proof -
  have "length (v4_in_6 [10, 0, 0, 1]) = 16" by (simp add: v4_in_6_def)
  hence contains: "cidr_contains [host_route (v4_in_6 [10, 0, 0, 1])] sample_host"
    by (simp add: cidr_contains_def sample_host_ip host_route_self del: One_nat_def)
  have valid: "ValidateSandboxID ''sbx''"
    by (simp add: ValidateSandboxID_def sandbox_id_char_def name_byte_def less_eq_char_def)
  have "token_Verify att_H (\<lambda>_. Some ''k'') (\<lambda>_ _ g. g = ''sig'') (\<lambda>_. Some (token_body sample_host ''sbx'' (att_H ''k'') rel_nonce, []))
      \<lparr>st_Token = ''t'', st_Signature = ''sig''\<rparr> (Some ()) () rel_nonce = Inr att_sandbox"
    using sample_host_valid rel_nonce_coded(3)
    by (auto simp: token_Verify_def token_body_def RequesterKeyDigest_def NewSandboxTokenSigner_def bindE_Inr_iff)
  thus ?thesis using contains valid
    by (simp add: verifySandboxToken_def att_external_def att_handler_def UnverifiedInventoryHost_def token_body_def bindE_def wrapE_def
        del: One_nat_def)
qed

lemma att_authenticate: "authenticate att_external att_handler att_request att_body rel_nonce = Inr (att_csr, att_sandbox, ''e'')"
proof -
  have "ValidateCSR att_csr (ah_Policy att_handler) = Inr ()"
    by (simp add: ValidateCSR_Inr att_csr_def att_handler_def)
  moreover have "check_verdict att_external att_handler () ()"
    by (simp add: check_verdict_def att_handler_def att_external_def ToLower_def lower_char_def)
  moreover have "ax_parse_csr att_external (ab_CSR att_body) = Some att_csr" "cr_PublicKey att_csr = ECDSAKey ()"
    "ax_report_data att_external () rel_nonce = Some ''d''" "ax_evidence_json att_external (ab_Evidence att_body) = Some ''e''"
    "ax_verify att_external (ab_Evidence att_body) (take 48 ''d'') = Inr ()" "ab_SandboxToken att_body = ''t''" "\<not> ah_SANValidation att_handler"
    by (simp_all add: att_external_def att_csr_def att_body_def att_handler_def)
  ultimately show ?thesis using att_token by (simp add: authenticate_def bindE_def wrapE_def)
qed

lemma att_stamp_valid: "mw_Validate \<lparr>mw_Name = ''web'', mw_AllowlistVersion = ''1'', mw_AllowlistDigest = att_H t\<rparr>"
  by (simp add: mw_Validate_def ValidWorkloadName_def workloadNameGrammarOK_def name_byte_def less_eq_char_def
      MaxWorkloadNameLen_def allowlistVersionPattern_def is_digit_def att_H_def)

lemma att_parse: "ParseDigest att_digest = Inr (Digest att_digest)"
  using ParseDigest_String[OF wf_digest_replicate, of "CHR ''0''"] by (simp add: att_digest_def lower_hex_def)

lemma att_snapshot:
  "ps_Allowlist (snapshot_of H att_store) = \<lparr>al_Schema = Schema, al_Workloads = Some [(''web'', DigestEntry (Digest att_digest) [])]\<rparr>"
  "ps_Version (snapshot_of H att_store) = ''1''" "ps_Digest (snapshot_of H att_store) = H (ps_Canonical (snapshot_of H att_store))"
  by (simp_all add: snapshot_of_def NewPolicySnapshot_def st_doc_def att_store_def Itoa_nonempty CanonicalDigest_def)
    (simp add: Itoa.simps char_of_eq_iff take_bit_eq_mod)

lemma att_match: "\<exists>d. matchWorkload att_H (snapshot_of att_H att_store) att_report [att_digest] =
    Some \<lparr>mw_Name = ''web'', mw_AllowlistVersion = ''1'', mw_AllowlistDigest = att_H d\<rparr>"
proof -
  let ?r = "\<lparr>rc_Digest = att_digest, rc_Argv = [''run''], rc_Mounts = None, rc_Env = None\<rparr>"
  let ?w = "DigestEntry (Digest att_digest) []"
  let ?a = "\<lparr>al_Schema = Schema, al_Workloads = Some [(''web'', ?w)]\<rparr>"
  let ?c = "\<lparr>sc_Env = None, sc_Mounts = None, sc_Digest = att_digest, sc_Argv = Some [''run'']\<rparr>"
  have "describes att_H ?w [?r]"
    by (auto simp: describes_iff DigestEntry_admits) (simp add: DigestEntry_def)
  hence m: "MatchWorkload att_H ?a [?r] = Inr (''web'', ?w)" by (simp add: MatchWorkload_Inr_iff matching_def)
  have c: "canonical_containers [?c] = Some [?c]" by (simp add: canonical_containers_def att_parse)
  have "att_digest \<noteq> []" by (simp add: att_digest_def algo_def)
  hence r: "RequireContainers att_report = Inr [?c]" by (simp add: RequireContainers_def att_report_def)
  have wc: "WorkloadContainers ?a [?c] = [?r]"
    by (simp add: WorkloadContainers_def isInjected_def InjectedEntrypoints_def to_running_def)
  show ?thesis
    using r c m wc att_stamp_valid att_snapshot[of att_H] by (auto simp: matchWorkload_def Let_def)
qed

lemma att_resolve:
  obtains mw where "mw_Name mw = ''web''" "mw_Validate mw"
    "resolveSandboxWorkload att_external att_handler att_moment None att_sandbox = (Inr (Some mw), None)"
proof -
  obtain d where d: "matchWorkload att_H (snapshot_of att_H att_store) att_report [att_digest] =
      Some \<lparr>mw_Name = ''web'', mw_AllowlistVersion = ''1'', mw_AllowlistDigest = att_H d\<rparr>" using att_match by blast
  have ps: "policySnapshot att_H att_moment None = (Inr (snapshot_of att_H att_store), None)"
    by (simp add: policySnapshot_def att_moment_def loadPolicySnapshot_no_fault)
  have "snapshot_Contains (snapshot_of att_H att_store) att_digest"
    by (simp add: snapshot_of_members att_snapshot DigestEntry_def w_containers_def)
  hence ml: "membership_loop (snapshot_of att_H att_store) [att_digest] [] = Inr [att_digest]" by (simp add: att_parse)
  have f: "ah_SandboxDigests att_handler = Some \<lparr>is_InventoryKey = (\<lambda>_. Some ()), is_FetchSandbox = (\<lambda>_ _. Some att_report)\<rparr>"
    "ah_AllowlistStore att_handler" "x_H att_external = att_H" "sd_Digests att_report = [att_digest]"
    by (simp_all add: att_handler_def att_external_def att_report_def)
  show thesis
    by (rule that[of "\<lparr>mw_Name = ''web'', mw_AllowlistVersion = ''1'', mw_AllowlistDigest = att_H d\<rparr>"])
      (use ps ml d f att_stamp_valid in \<open>simp_all add: resolveSandboxWorkload_def bindE_def del: membership_loop.simps\<close>)
qed

definition att_done :: attest_state where
  "att_done = \<lparr>as_challenges = \<lparr>cs_challenges = [], cs_issued = [rel_nonce], cs_ttl = 60\<rparr>, as_cache = None,
     as_bindings = Some (snd (ledger_Record ''sbx'' sample_host 1 (NewLedger 60 9)))\<rparr>"

lemma att_issue: "\<exists>leaf. HandleAttest att_external att_handler att_moment att_request att_state = (Inr leaf, att_done)"
proof -
  obtain mw where mw: "mw_Name mw = ''web''" "mw_Validate mw"
    "resolveSandboxWorkload att_external att_handler att_moment None att_sandbox = (Inr (Some mw), None)" by (rule att_resolve)
  obtain der where "MarshalMatchedWorkloadExtension mw = Inr (OIDMatchedWorkload, der)" using Marshal_valid[OF mw(2)] by blast
  moreover have "MarshalSandboxIDExtension ''sbx'' = Inr (OIDSandboxID, tlv 22 ''sbx'')"
    by (simp add: MarshalSandboxIDExtension_def ValidateSandboxID_def sandbox_id_char_def name_byte_def der_IA5_def less_eq_char_def)
  ultimately obtain leaf where leaf: "SignCSR att_H True (am_sign att_moment)
      \<lparr>sp_CSR = Some att_csr, sp_TTL = leaf_ttl att_handler (Some mw), sp_Evidence = ''e'', sp_SandboxID = ''sbx'', sp_MatchedWorkload = Some mw\<rparr> = Inr leaf"
    by (simp add: SignCSR_def NewLeafTemplate_def att_moment_def Let_def bindE_def wrapE_def)
  have f: "ax_body att_external (fst (rq_Body att_request)) = Some att_body" "StdDecode (ab_Challenge att_body) = Some rel_nonce"
    "Consume rel_nonce (am_consume att_moment) (as_challenges att_state) = (True, \<lparr>cs_challenges = [], cs_issued = [rel_nonce], cs_ttl = 60\<rparr>)"
    "as_cache att_state = None" "\<not> am_timeout att_moment" "x_H att_external = att_H" "ah_CA_Cert att_handler" "ah_CA_Key att_handler"
    "as_bindings att_state = Some (NewLedger 60 9)" "am_record att_moment = 1"
    by (simp_all add: att_external_def att_body_def att_moment_def att_state_def att_handler_def rel_nonce_coded Consume_def)
  have "HandleAttest att_external att_handler att_moment att_request att_state = (Inr leaf, att_done)"
    by (simp add: HandleAttest_def f att_authenticate mw(3) leaf recordSandboxBinding_def att_done_def)
  thus ?thesis by blast
qed

section \<open>Properties\<close>

text \<open>C6: \<^bold>\<open>A leaf is issued only to a key that attested.\<close> Whenever the handler signs a leaf, the request redeemed a live challenge,
  which cannot be redeemed again; its CSR is signed by an ECDSA key, which is the leaf's key; the attestation service
  accepted its evidence for the report data of that key and that challenge, and the verdict satisfies the configured image pins, or the
  measurements and registers; every DNS name of the leaf is fully matched by a configured pattern and every address is the
  source address of the policy, which is the request's own under SAN validation; and the leaf lives at most 24 hours, or 6 hours when it names a workload.\<close>

theorem issuance_attested:
  assumes "HandleAttest x h m r s = (Inr leaf, s')"
  shows "\<exists>req nonce created csr pub. ax_body x (fst (rq_Body r)) = Some req \<and> StdDecode (ab_Challenge req) = Some nonce \<and>
    map_of (cs_challenges (as_challenges s)) nonce = Some created \<and> am_consume m - created < cs_ttl (as_challenges s) \<and>
    nonce \<notin> dom (map_of (cs_challenges (as_challenges s'))) \<and>
    attested x h r req nonce csr pub \<and> lt_PublicKey leaf = ECDSAKey pub \<and> lt_DNSNames leaf = cr_DNSNames csr \<and>
    lt_IPAddresses leaf = cr_IPAddresses csr \<and> lt_NotBefore leaf < lt_NotAfter leaf \<and>
    lt_NotAfter leaf - lt_NotBefore leaf \<le> (if OIDMatchedWorkload \<in> fst ` set (lt_ExtraExtensions leaf) then MaxNamedLeafTTL else MaxLeafTTL)"
proof -
  from assms obtain req nonce cs csr sandbox ev matched cache where a: "ax_body x (fst (rq_Body r)) = Some req"
      "StdDecode (ab_Challenge req) = Some nonce" "Consume nonce (am_consume m) (as_challenges s) = (True, cs)"
      "authenticate x h r req nonce = Inr (csr, sandbox, ev)"
      "SignCSR (x_H x) (ah_CA_Cert h \<and> ah_CA_Key h) (am_sign m) \<lparr>sp_CSR = Some csr, sp_TTL = leaf_ttl h matched, sp_Evidence = ev,
         sp_SandboxID = vs_SandboxID sandbox, sp_MatchedWorkload = matched\<rparr> = Inr leaf" "as_challenges s' = cs"
    by (rule HandleAttest_Inr) auto
  from a(3) obtain created where c: "map_of (cs_challenges (as_challenges s)) nonce = Some created"
      "am_consume m - created < cs_ttl (as_challenges s)" "nonce \<notin> dom (map_of (cs_challenges cs))"
    by (auto simp: Consume_def delete_conv' split: if_splits option.splits)
  from a(4) obtain pub where pub: "attested x h r req nonce csr pub" by (rule authenticate_Inr)
  obtain csr' pre se me where t: "Some csr = Some csr'" "lt_PublicKey leaf = cr_PublicKey csr'"
      "lt_CommonName leaf = cr_CommonName csr'" "lt_DNSNames leaf = cr_DNSNames csr'" "lt_IPAddresses leaf = cr_IPAddresses csr'" "lt_NotAfter leaf - lt_NotBefore leaf = leaf_ttl h matched" "plain_exts pre"
      "lt_ExtraExtensions leaf = pre @ se @ me"
      "if vs_SandboxID sandbox = [] then se = [] else \<exists>e. MarshalSandboxIDExtension (vs_SandboxID sandbox) = Inr e \<and> se = [e]"
      "case matched of None \<Rightarrow> me = [] | Some w \<Rightarrow> \<exists>e. MarshalMatchedWorkloadExtension w = Inr e \<and> me = [e]"
    by (rule SignCSR_Inr[OF a(5), unfolded SignCSRParams.simps])
  have "OIDMatchedWorkload \<notin> fst ` set se" using t(9) sandbox_ext by (fastforce split: if_splits)
  moreover have "OIDMatchedWorkload \<notin> fst ` set pre" using t(7) by (auto simp: plain_exts_def list_all_iff)
  moreover have "OIDMatchedWorkload \<in> fst ` set me \<longleftrightarrow> matched \<noteq> None" using t(10) matched_ext by (fastforce split: option.splits)
  ultimately have named: "OIDMatchedWorkload \<in> fst ` set (lt_ExtraExtensions leaf) \<longleftrightarrow> matched \<noteq> None" using t(8) by auto
  have "lt_PublicKey leaf = ECDSAKey pub" using pub t(1,2) by (simp add: attested_def)
  thus ?thesis using a c pub t(1-6) named leaf_ttl_bounds[where h = h and matched = matched]
    by (intro exI[of _ req] exI[of _ nonce] exI[of _ created] exI[of _ csr] exI[of _ pub]) auto
qed

theorem issuance_attested_witness:
  "\<exists>leaf :: unit leaf_template. \<exists>req nonce csr pub. ax_body att_external (fst (rq_Body att_request)) = Some req \<and>
     StdDecode (ab_Challenge req) = Some nonce \<and> attested att_external att_handler att_request req nonce csr pub \<and>
     lt_PublicKey leaf = ECDSAKey pub \<and> lt_NotAfter leaf - lt_NotBefore leaf \<le> MaxLeafTTL"
proof -
  obtain leaf where "HandleAttest att_external att_handler att_moment att_request att_state = (Inr leaf, att_done)" using att_issue by blast
  from issuance_attested[OF this] have "\<exists>req nonce csr pub. ax_body att_external (fst (rq_Body att_request)) = Some req \<and>
     StdDecode (ab_Challenge req) = Some nonce \<and> attested att_external att_handler att_request req nonce csr pub \<and>
     lt_PublicKey leaf = ECDSAKey pub \<and> lt_NotAfter leaf - lt_NotBefore leaf \<le> MaxLeafTTL"
    by (fastforce simp: MaxNamedLeafTTL_def MaxLeafTTL_def split: if_splits)
  thus ?thesis by blast
qed

text \<open>Every verifier whose decoders invert the encoder on the two stamps reads this sandbox ID and this stamp off the leaf.\<close>

definition leaf_names :: "'p leaf_template \<Rightarrow> string \<Rightarrow> MatchedWorkload option \<Rightarrow> bool" where
  "leaf_names leaf sid matched \<longleftrightarrow>
     (\<forall>ia5 dec (pub :: 'p). (\<forall>der. der_IA5 sid = Some der \<longrightarrow> ia5 der = Some (sid, [])) \<longrightarrow>
        (\<forall>w der. matched = Some w \<longrightarrow> marshal_matched (mw_raw w) = Some der \<longrightarrow> dec der = Some (mw_raw w, [])) \<longrightarrow>
        SandboxIDFromCert ia5 (leaf_cert pub leaf) = Inr sid \<and> MatchedWorkloadFromCert dec (leaf_cert pub leaf) = Inr matched)"

lemma SignCSR_names:
  fixes leaf :: "'p leaf_template"
  assumes "SignCSR H loaded m p = Inr leaf"
  shows "leaf_names leaf (sp_SandboxID p) (sp_MatchedWorkload p)"
  unfolding leaf_names_def
proof (intro allI impI)
  fix ia5 :: "string \<Rightarrow> (string \<times> string) option" and dec :: "string \<Rightarrow> (matchedWorkloadASN1 \<times> string) option" and pub :: 'p
  assume a: "\<forall>der. der_IA5 (sp_SandboxID p) = Some der \<longrightarrow> ia5 der = Some (sp_SandboxID p, [])"
    "\<forall>w der. sp_MatchedWorkload p = Some w \<longrightarrow> marshal_matched (mw_raw w) = Some der \<longrightarrow> dec der = Some (mw_raw w, [])"
  have "ia5 der = Some (sp_SandboxID p, [])" if "der_IA5 (sp_SandboxID p) = Some der" for der using a(1) that by simp
  moreover have "dec der = Some (mw_raw w, [])" if "sp_MatchedWorkload p = Some w" "marshal_matched (mw_raw w) = Some der" for w der
    using a(2) that by simp
  ultimately show "SandboxIDFromCert ia5 (leaf_cert pub leaf) = Inr (sp_SandboxID p) \<and>
      MatchedWorkloadFromCert dec (leaf_cert pub leaf) = Inr (sp_MatchedWorkload p)"
    using leaf_identity[OF assms, of ia5 dec pub] by simp
qed

lemma resolve_no_sandbox: "resolveSandboxWorkload x h m cache no_sandbox = (Inr matched, cache') \<Longrightarrow> matched = None"
  by (simp add: resolveSandboxWorkload_def no_sandbox_def)

lemma vouched_nonempty: "vouched x h req nonce pub sid host \<Longrightarrow> sid \<noteq> []"
  by (auto simp: vouched_def ValidateSandboxID_def)

text \<open>C3: \<^bold>\<open>A leaf names the workload its sandbox was observed to run.\<close> Take any history of a handler that starts with no policy
  cached. A request without a sandbox token gets a leaf on which every verifier reads neither a sandbox nor a workload. A request with one
  gets a leaf on which every verifier reads the sandbox an inventory within the node bound vouched for, for this key and this challenge.
  The inventory was asked about that sandbox; every image it reported is one the policy snapshot admits; and the leaf names a
  workload only if the reported containers match that one entry of the snapshot and no other, and then carries the version
  and the digest of that same snapshot.\<close>

theorem named_leaf:
  assumes "as_cache s0 = None \<or> (\<exists>c. as_cache s0 = Some c \<and> pc_held c = None)" and "s = fold (attest_step x h) es s0"
    and "HandleAttest x h m r s = (Inr leaf, s')"
  shows "\<exists>req nonce csr pub sid matched. ax_body x (fst (rq_Body r)) = Some req \<and> StdDecode (ab_Challenge req) = Some nonce \<and>
    attested x h r req nonce csr pub \<and> leaf_names leaf sid matched \<and>
    (if ab_SandboxToken req = [] then sid = [] \<and> matched = None
     else \<exists>host inventory resp snapshot. vouched x h req nonce pub sid host \<and> ah_SandboxDigests h = Some inventory \<and>
       is_FetchSandbox inventory host sid = Some resp \<and> fst (policySnapshot (x_H x) m (as_cache s)) = Inr snapshot \<and>
       members_admitted snapshot resp \<and>
       (\<forall>mw. matched = Some mw \<longrightarrow> uniquely_matched (x_H x) snapshot resp (mw_Name mw) \<and>
          mw_AllowlistVersion mw = ps_Version snapshot \<and> mw_AllowlistDigest mw = ps_Digest snapshot))"
proof -
  have "cache_inv (x_H x) (as_cache s0)" using assms(1) by (auto simp: cache_inv_def)
  hence cache: "cache_inv (x_H x) (as_cache s)" unfolding assms(2) by (rule attest_run_inv)
  from assms(3) obtain req nonce csr sandbox ev matched cache' p where a: "ax_body x (fst (rq_Body r)) = Some req"
      "StdDecode (ab_Challenge req) = Some nonce" "authenticate x h r req nonce = Inr (csr, sandbox, ev)"
      "resolveSandboxWorkload x h m (as_cache s) sandbox = (Inr matched, cache')" "SignCSR (x_H x) (ah_CA_Cert h \<and> ah_CA_Key h) (am_sign m) p = Inr leaf"
      "sp_SandboxID p = vs_SandboxID sandbox" "sp_MatchedWorkload p = matched"
    by (rule HandleAttest_Inr) (metis SignCSRParams.select_convs)
  from a(3) obtain pub where pub: "attested x h r req nonce csr pub"
      "if ab_SandboxToken req = [] then sandbox = no_sandbox
       else vouched x h req nonce pub (vs_SandboxID sandbox) (vs_InventoryHost sandbox)" by (rule authenticate_Inr)
  have names: "leaf_names leaf (vs_SandboxID sandbox) matched" using SignCSR_names[OF a(5)] a(6,7) by simp
  show ?thesis
  proof (cases "ab_SandboxToken req = []")
    case True
    hence "vs_SandboxID sandbox = []" "matched = None" using pub(2) a(4) resolve_no_sandbox by (auto simp: no_sandbox_def)
    thus ?thesis using a(1,2) pub(1) names True by fastforce
  next
    case False
    hence v: "vouched x h req nonce pub (vs_SandboxID sandbox) (vs_InventoryHost sandbox)" using pub(2) by simp
    from resolveSandboxWorkload_Inr[OF a(4) cache vouched_nonempty[OF v]] obtain inventory resp p where
      "ah_SandboxDigests h = Some inventory" "is_FetchSandbox inventory (vs_InventoryHost sandbox) (vs_SandboxID sandbox) = Some resp"
      "fst (policySnapshot (x_H x) m (as_cache s)) = Inr p" "members_admitted p resp"
      "\<And>mw. matched = Some mw \<Longrightarrow> uniquely_matched (x_H x) p resp (mw_Name mw) \<and> mw_AllowlistVersion mw = ps_Version p \<and>
         mw_AllowlistDigest mw = ps_Digest p" by metis
    thus ?thesis using a(1,2) pub(1) names False v
      by (intro exI[of _ req] exI[of _ nonce] exI[of _ csr] exI[of _ pub] exI[of _ "vs_SandboxID sandbox"] exI[of _ matched]) auto
  qed
qed

theorem named_leaf_witness:
  "\<exists>(leaf :: unit leaf_template) sid matched host inventory resp snapshot. leaf_names leaf sid matched \<and>
     vouched att_external att_handler att_body rel_nonce () sid host \<and> ah_SandboxDigests att_handler = Some inventory \<and>
     is_FetchSandbox inventory host sid = Some resp \<and> members_admitted snapshot resp"
proof -
  obtain leaf where i: "HandleAttest att_external att_handler att_moment att_request att_state = (Inr leaf, att_done)" using att_issue by blast
  have b: "ax_body att_external q = Some att_body" "StdDecode (ab_Challenge att_body) = Some rel_nonce" "ab_SandboxToken att_body \<noteq> []" for q
    by (simp_all add: att_external_def att_body_def rel_nonce_coded)
  have "as_cache att_state = None" by (simp add: att_state_def)
  from named_leaf[OF disjI1[OF this], where es = "[]" and x = att_external and h = att_handler, simplified, OF refl i]
  obtain sid matched host inventory resp snapshot where "leaf_names leaf sid matched" "vouched att_external att_handler att_body rel_nonce () sid host"
    "ah_SandboxDigests att_handler = Some inventory" "is_FetchSandbox inventory host sid = Some resp" "members_admitted snapshot resp"
    using b by auto
  thus ?thesis by (intro exI conjI)
qed

text \<open>\<^bold>\<open>The policy snapshot is current.\<close> For any history of allowlist writes with any database faults, and any calls that share
  a cache that starts empty, in the order of its lock: a snapshot that a call returns, its version and digest included, is the one
  that loading the store without a fault gives at the moment the call read the generation, or at the moment it loaded.\<close>

theorem snapshot_current:
  assumes "store_history N \<sigma>" and "lock_order ms" and "pc_held c = None"
    and "((i, flt, j), Inr p) \<in> set (zip ms (snapshot_reads H \<sigma> c ms))"
  shows "\<exists>k\<in>{i, j}. loadPolicySnapshot H no_fault (\<sigma> k) = Inr p"
proof -
  have "snap_ok H \<sigma> 0 c" using assms(3) by (simp add: snap_ok_def)
  from snapshot_reads_at[OF assms(1) this assms(2) _ assms(4)] show ?thesis by (auto simp: loadPolicySnapshot_no_fault)
qed

theorem snapshot_current_witness:
  "\<exists>p. \<exists>k\<in>{0, 1}. loadPolicySnapshot att_H no_fault (sample_history k) = Inr p"
proof -
  let ?ms = "[(0, no_fault, 1)] :: (nat \<times> fault \<times> nat) list"
  have "((0, no_fault, 1), Inr (snapshot_of att_H (sample_history 1))) \<in>
      set (zip ?ms (snapshot_reads att_H sample_history \<lparr>pc_held = None, pc_gen = 0\<rparr> ?ms))"
    by (simp add: cache_snapshot_def loadPolicySnapshot_no_fault)
  from snapshot_current[OF sample_history_ok _ _ this] show ?thesis by (auto simp: lock_order_def)
qed

end
