(* ===== verification/Secret_Operator.thy ===== *)
theory Secret_Operator
  imports Secret_Release
begin

text \<open>
  The operator's side of the secrets API: writes (\<^verbatim>\<open>src/internal/secrets/operator.go\<close>) and the diagnostic that explains a release
  decision (\<^verbatim>\<open>explain.go\<close>). The operator check and the JSON decoder of a body are parameters.
\<close>

section \<open>Operator writes\<close>

abbreviation (input) DefaultMaxOperatorBodyBytes :: int where
  "DefaultMaxOperatorBodyBytes \<equiv> 64 * 1024"

record PutRequest =
  pu_Value :: string
  pu_Overwrite :: bool

record PutResponse =
  pt_Path :: string
  pt_Created :: bool
  pt_Existing :: "Origin option"

record 'e OperatorHandler =
  oh_Authorize :: "(request \<Rightarrow> string \<Rightarrow> 'e + unit) option"
  oh_MaxBodyBytes :: int

definition operator_authorize :: "'e OperatorHandler \<Rightarrow> 'p tls_request \<Rightarrow> response + string" where
  "operator_authorize h r =
     (case oh_Authorize h of
        None \<Rightarrow> Inl (status StatusUnauthorized)
      | Some authorizer \<Rightarrow>
          let cap = (if oh_MaxBodyBytes h \<le> 0 then DefaultMaxOperatorBodyBytes else oh_MaxBodyBytes h) in
          bindE (ReadCappedBody (request.truncate r) cap) (\<lambda>body.
            case authorizer (request.truncate r) body of Inl _ \<Rightarrow> Inl (status StatusUnauthorized) | Inr _ \<Rightarrow> Inr body))"

definition origin_string :: "Origin \<Rightarrow> string" where
  "origin_string o' = (case o' of OriginOperator \<Rightarrow> ''operator'' | OriginWorkload \<Rightarrow> ''workload'')"

definition put_response_json :: "PutResponse \<Rightarrow> json" where
  "put_response_json p = JObj ([(''path'', JStr (pt_Path p)), (''created'', JBool (pt_Created p))] @
     (case pt_Existing p of None \<Rightarrow> [] | Some o' \<Rightarrow> [(''existing'', JStr (origin_string o'))]))"

definition writeResult :: "nat \<Rightarrow> PutResponse \<Rightarrow> response" where
  "writeResult st p = \<lparr>rs_Status = st, rs_ETag = None, rs_Body = Some (encode (put_response_json p) @ [CHR 0x0A])\<rparr>"

definition writeFailed :: "secret_error \<Rightarrow> response" where
  "writeFailed e =
     (if e = ErrStoreFull then writeError StatusInsufficientStorage ErrorCodeSecretStoreFull storage_limit
      else status StatusInternalServerError)"

definition operator_create :: "string \<Rightarrow> string \<Rightarrow> MemoryStore \<Rightarrow> response \<times> MemoryStore" where
  "operator_create path v store =
     (case ms_PutIfAbsent store path v OperatorHolder of
        (Inl e, store') \<Rightarrow> (writeFailed e, store')
      | (Inr (_, held), store') \<Rightarrow>
          if he_Exists held then (writeResult StatusConflict \<lparr>pt_Path = path, pt_Created = False, pt_Existing = he_Origin held\<rparr>, store')
          else (writeResult StatusCreated \<lparr>pt_Path = path, pt_Created = True, pt_Existing = None\<rparr>, store'))"

definition operator_replace :: "string \<Rightarrow> string \<Rightarrow> MemoryStore \<Rightarrow> response \<times> MemoryStore" where
  "operator_replace path v store =
     (case ms_Put store path v of
        (Inl e, store') \<Rightarrow> (writeFailed e, store')
      | (Inr held, store') \<Rightarrow>
          if \<not> he_Exists held then (writeResult StatusCreated \<lparr>pt_Path = path, pt_Created = True, pt_Existing = None\<rparr>, store')
          else (writeResult StatusOK \<lparr>pt_Path = path, pt_Created = False, pt_Existing = he_Origin held\<rparr>, store'))"

definition ServeOperator ::
  "(string \<Rightarrow> PutRequest option) \<Rightarrow> 'e OperatorHandler \<Rightarrow> 'p tls_request \<Rightarrow> MemoryStore \<Rightarrow> response \<times> MemoryStore" where
  "ServeOperator dec h r store =
     (case operator_authorize h r of
        Inl resp \<Rightarrow> (resp, store)
      | Inr body \<Rightarrow>
          (case requestPath r of
             Inl _ \<Rightarrow> (status StatusBadRequest, store)
           | Inr path \<Rightarrow>
               (case dec body of
                  None \<Rightarrow> (status StatusUnprocessableEntity, store)
                | Some req \<Rightarrow>
                    (case StdDecode (pu_Value req) of
                       None \<Rightarrow> (status StatusUnprocessableEntity, store)
                     | Some v \<Rightarrow>
                         if length v = 0 then (status StatusUnprocessableEntity, store)
                         else if pu_Overwrite req then operator_replace path v store
                         else operator_create path v store))))"

section \<open>Explaining a decision\<close>

text \<open>A nil argv is not told from an empty one in an explanation; the refusal texts are constructors.\<close>

record ReportedContainer =
  rp_Env :: "EnvObservation option"
  rp_Mounts :: "ObservedMount slice"
  rp_Digest :: string
  rp_Argv :: "string list"
  rp_Injected :: bool

record MissingContainer =
  mc_Digest :: string
  mc_Image :: string

record EntryVerdict =
  ev_Name :: string
  ev_Foreign :: "ReportedContainer list"
  ev_MissingMains :: "MissingContainer list"
  ev_Matches :: bool
  ev_HasGrant :: bool

datatype refusal = RefUnconfigured | RefUnbound | RefOutsideBound | RefPolicy | RefInventory | RefNoDetail | RefAllInjected | RefNoEntry
  | RefAmbiguous | RefNoGrant | RefUnpinned

record ExplainResponse =
  er_SandboxID :: string
  er_InventoryHost :: string
  er_Reported :: "ReportedContainer list"
  er_Candidates :: "ReportedContainer list"
  er_Entries :: "EntryVerdict list"
  er_Match :: string
  er_Grant :: "SecretsPolicy option"
  er_Refusal :: "refusal option"

definition new_response :: "string \<Rightarrow> ExplainResponse" where
  "new_response sandboxID = \<lparr>er_SandboxID = sandboxID, er_InventoryHost = [], er_Reported = [], er_Candidates = [], er_Entries = [],
     er_Match = [], er_Grant = None, er_Refusal = None\<rparr>"

definition reported_entry :: "Allowlist \<Rightarrow> SandboxContainer \<Rightarrow> ReportedContainer" where
  "reported_entry al c = \<lparr>rp_Env = sc_Env c, rp_Mounts = sc_Mounts c, rp_Digest = sc_Digest c, rp_Argv = elems (sc_Argv c),
     rp_Injected = isInjected al c\<rparr>"

definition sortedNames :: "(string \<times> Workload) list \<Rightarrow> string list" where
  "sortedNames m = sort (map fst m)"

definition entry_verdict :: "hash \<Rightarrow> Allowlist \<Rightarrow> RunningContainer list \<Rightarrow> string \<Rightarrow> EntryVerdict" where
  "entry_verdict H al candidates name =
     (let w = the (map_of (elems (al_Workloads al)) name); d = w_Diff H w candidates in
      \<lparr>ev_Name = name,
       ev_Foreign = map (\<lambda>f. \<lparr>rp_Env = rc_Env f, rp_Mounts = rc_Mounts f, rp_Digest = rc_Digest f, rp_Argv = rc_Argv f, rp_Injected = False\<rparr>)
         (ed_Foreign d),
       ev_MissingMains = map (\<lambda>c. \<lparr>mc_Digest = digest_string (c_Digest c), mc_Image = c_Image c\<rparr>) (ed_MissingMains d),
       ev_Matches = Describes d,
       ev_HasGrant = (w_Secrets w \<noteq> None)\<rparr>)"

text \<open>The last part of \<^verbatim>\<open>explain\<close>: the verdict of every entry, and the decision.\<close>

definition explain_entries :: "hash \<Rightarrow> Allowlist \<Rightarrow> SandboxContainer list \<Rightarrow> ExplainResponse \<Rightarrow> ExplainResponse" where
  "explain_entries H al reported resp0 =
     (let resp = resp0\<lparr>er_Reported := map (reported_entry al) reported,
                       er_Candidates := filter (\<lambda>e. \<not> rp_Injected e) (map (reported_entry al) reported)\<rparr>;
          candidates = WorkloadContainers al reported in
      if length candidates = 0 then resp\<lparr>er_Refusal := Some RefAllInjected\<rparr>
      else
        let verdicts = map (entry_verdict H al candidates) (sortedNames (elems (al_Workloads al)));
            resp = resp\<lparr>er_Entries := verdicts\<rparr>;
            matched = map ev_Name (filter ev_Matches verdicts) in
        (case matched of
           [] \<Rightarrow> resp\<lparr>er_Refusal := Some RefNoEntry\<rparr>
         | [n] \<Rightarrow>
             let resp = resp\<lparr>er_Match := n\<rparr>; w = the (map_of (elems (al_Workloads al)) n) in
             (case w_Secrets w of
                None \<Rightarrow> resp\<lparr>er_Refusal := Some RefNoGrant\<rparr>
              | Some g \<Rightarrow> if \<not> ArgvPinned w then resp\<lparr>er_Refusal := Some RefUnpinned\<rparr> else resp\<lparr>er_Grant := Some g\<rparr>)
         | _ \<Rightarrow> resp\<lparr>er_Refusal := Some RefAmbiguous\<rparr>))"

definition explain ::
  "hash \<Rightarrow> 'k SecretHandler \<Rightarrow> Ledger option \<Rightarrow> int \<Rightarrow> policy_read \<Rightarrow> CachedPolicy \<Rightarrow> string \<Rightarrow> ExplainResponse \<times> CachedPolicy" where
  "explain H h bindings now pr cp sandboxID =
     (let resp = new_response sandboxID in
      case (bindings, sh_Inventory h) of
        (Some ledger, Some inventory) \<Rightarrow>
          (case ledger_Lookup sandboxID now ledger of
             None \<Rightarrow> (resp\<lparr>er_Refusal := Some RefUnbound\<rparr>, cp)
           | Some host \<Rightarrow>
               let resp = resp\<lparr>er_InventoryHost := host\<rparr> in
               if (case sh_InventoryHosts h of None \<Rightarrow> True | Some hosts \<Rightarrow> \<not> hosts_Contains hosts host)
               then (resp\<lparr>er_Refusal := Some RefOutsideBound\<rparr>, cp)
               else (case cached_Allowlist pr cp of
                 (Inl _, cp') \<Rightarrow> (resp\<lparr>er_Refusal := Some RefPolicy\<rparr>, cp')
               | (Inr al, cp') \<Rightarrow>
                   (case is_FetchSandbox inventory host sandboxID of
                      None \<Rightarrow> (resp\<lparr>er_Refusal := Some RefInventory\<rparr>, cp')
                    | Some sandbox \<Rightarrow> (case RequireContainers sandbox of
                        Inl _ \<Rightarrow> (resp\<lparr>er_Refusal := Some RefNoDetail\<rparr>, cp')
                      | Inr reported \<Rightarrow> (explain_entries H al reported resp, cp')))))
      | _ \<Rightarrow> (resp\<lparr>er_Refusal := Some RefUnconfigured\<rparr>, cp))"

text \<open>The handler; the sandbox ID is the route's parameter and a body is not read.\<close>

definition ServeExplain ::
  "(request \<Rightarrow> string \<Rightarrow> 'e + unit) option \<Rightarrow> hash \<Rightarrow> 'k SecretHandler \<Rightarrow> Ledger option \<Rightarrow> int \<Rightarrow> policy_read \<Rightarrow> CachedPolicy \<Rightarrow> string \<Rightarrow>
   request \<Rightarrow> (nat + ExplainResponse) \<times> CachedPolicy" where
  "ServeExplain authorizer H h bindings now pr cp sandboxID r =
     (case authorizer of
        None \<Rightarrow> (Inl StatusUnauthorized, cp)
      | Some authorize \<Rightarrow> (case authorize r [] of
          Inl _ \<Rightarrow> (Inl StatusUnauthorized, cp)
        | Inr _ \<Rightarrow>
            if \<not> ValidateSandboxID sandboxID then (Inl StatusBadRequest, cp)
            else map_prod Inr id (explain H h bindings now pr cp sandboxID)))"

section \<open>Lemmas\<close>

lemma operator_authorize_Inr:
  "operator_authorize h r = Inr body \<Longrightarrow>
     (\<exists>authorizer u. oh_Authorize h = Some authorizer \<and> authorizer (request.truncate r) body = Inr u) \<and> body = fst (rq_Body r)"
  by (auto simp: operator_authorize_def Let_def bindE_Inr_iff ReadCappedBody_Inr_iff request.truncate_def split: option.splits sum.splits)

lemma operator_authorize_Inl:
  "operator_authorize h r = Inl resp \<Longrightarrow> rs_Status resp \<in> {StatusUnauthorized, StatusBadRequest, StatusRequestEntityTooLarge}"
  by (auto simp: operator_authorize_def Let_def bindE_def dest: ReadCappedBody_Inl split: option.splits sum.splits)

lemma operator_create_cases:
  assumes "operator_create path v store = (resp, store')"
  shows "store' = store \<and> rs_Status resp \<in> {StatusInsufficientStorage, StatusInternalServerError} \<or>
    store' = store \<and> rs_Status resp = StatusConflict \<and> okE (ms_Get store path) \<or>
    rs_Status resp = StatusCreated \<and> ms_Get store path = Inl ErrNotFound \<and> store' = storeLocked store path v OperatorHolder"
  using assms
  by (auto simp: operator_create_def writeFailed_def writeError_def writeResult_def ms_Get_def no_held_def dest!: ms_PutIfAbsent_cases
      split: prod.splits sum.splits if_splits)

lemma operator_replace_cases:
  assumes "operator_replace path v store = (resp, store')"
  shows "store' = store \<and> rs_Status resp \<in> {StatusInsufficientStorage, StatusInternalServerError} \<or>
    store' = storeLocked store path v OperatorHolder \<and> rs_Status resp = (if okE (ms_Get store path) then StatusOK else StatusCreated)"
  using assms
  by (auto simp: operator_replace_def writeFailed_def writeError_def writeResult_def ms_Get_def dest!: ms_Put_cases
      split: prod.splits sum.splits if_splits option.splits)

text \<open>What an operator request asks for, once it is authorised and well formed.\<close>

definition operator_asks ::
  "(string \<Rightarrow> PutRequest option) \<Rightarrow> 'e OperatorHandler \<Rightarrow> 'p tls_request \<Rightarrow> string \<Rightarrow> string \<Rightarrow> bool \<Rightarrow> bool" where
  "operator_asks dec h r path v overwrite \<longleftrightarrow>
     (\<exists>authorizer u req. oh_Authorize h = Some authorizer \<and> authorizer (request.truncate r) (fst (rq_Body r)) = Inr u \<and>
        tr_EscapedPath r = ''/secrets'' @ path \<and> canonical_path path \<and> dec (fst (rq_Body r)) = Some req \<and>
        StdDecode (pu_Value req) = Some v \<and> v \<noteq> [] \<and> overwrite = pu_Overwrite req)"

lemma ServeOperator_cases:
  assumes "ServeOperator dec h r store = (resp, store')"
  obtains (refused) "store' = store" "rs_Status resp \<notin> {StatusOK, StatusCreated, StatusConflict}"
  | (create) path v where "operator_asks dec h r path v False" "operator_create path v store = (resp, store')"
  | (replace) path v where "operator_asks dec h r path v True" "operator_replace path v store = (resp, store')"
proof (cases "operator_authorize h r")
  case (Inl e)
  thus ?thesis using assms operator_authorize_Inl[OF Inl] by (intro refused) (auto simp: ServeOperator_def)
next
  case (Inr body)
  note auth = operator_authorize_Inr[OF Inr]
  show ?thesis
  proof (cases "\<exists>path req v. requestPath r = Inr path \<and> dec body = Some req \<and> StdDecode (pu_Value req) = Some v \<and> v \<noteq> []")
    case False
    thus ?thesis using assms Inr by (intro refused) (auto simp: ServeOperator_def split: sum.splits option.splits if_splits)
  next
    case True
    then obtain path req v where q: "requestPath r = Inr path" "dec body = Some req" "StdDecode (pu_Value req) = Some v" "v \<noteq> []"
      by blast
    have ask: "operator_asks dec h r path v (pu_Overwrite req)"
      using auth q requestPath_Inr[OF q(1)] by (auto simp: operator_asks_def)
    have "ServeOperator dec h r store = (if pu_Overwrite req then operator_replace path v store else operator_create path v store)"
      using Inr q by (simp add: ServeOperator_def)
    thus ?thesis using assms ask create replace by (cases "pu_Overwrite req") auto
  qed
qed

lemma operator_asks_unique:
  "operator_asks dec h r p v b \<Longrightarrow> operator_asks dec h r p' v' b' \<Longrightarrow> p' = p \<and> v' = v \<and> b' = b"
  by (auto simp: operator_asks_def)

text \<open>The API as a whole: workloads and operators use one store.\<close>

datatype 'p api_event = FromWorkload "'p secret_event" | FromOperator "'p tls_request"

fun api_step ::
  "('p, 'k) external \<Rightarrow> 'k SecretHandler \<Rightarrow> (string \<Rightarrow> PutRequest option) \<Rightarrow> 'e OperatorHandler \<Rightarrow> 'p api_event \<Rightarrow> secret_state \<Rightarrow> secret_state" where
  "api_step x h dec oh (FromWorkload e) s = secret_step x h e s"
| "api_step x h dec oh (FromOperator r) s = s\<lparr>ss_store := snd (ServeOperator dec oh r (ss_store s))\<rparr>"

lemma ServeSecret_keeps:
  assumes "ServeSecret x h m r s = (resp, s')" and "ms_Get (ss_store s) p = Inr v"
  shows "ms_Get (ss_store s') p = Inr v"
  using assms(1) by (cases rule: ServeSecret_cases) (use assms(2) in \<open>auto simp: storeLocked_Get\<close>)

lemma ServeOperator_keeps:
  assumes "ServeOperator dec oh r store = (resp, store')" and "ms_Get store p = Inr v" and "\<not> (\<exists>u. operator_asks dec oh r p u True)"
  shows "ms_Get store' p = Inr v"
  using assms(1)
proof (cases rule: ServeOperator_cases)
  case (create path u)
  thus ?thesis using operator_create_cases[OF create(2)] assms(2) by (auto simp: storeLocked_Get)
next
  case (replace path u)
  have "path \<noteq> p" using assms(3) replace(1) by blast
  thus ?thesis using operator_replace_cases[OF replace(2)] assms(2) by (auto simp: storeLocked_Get)
qed (use assms(2) in simp)

lemma api_keeps:
  assumes "ms_Get (ss_store s) p = Inr v" and "\<And>r u. FromOperator r \<in> set es \<Longrightarrow> \<not> operator_asks dec oh r p u True"
  shows "ms_Get (ss_store (fold (api_step x h dec oh) es s)) p = Inr v"
  using assms
proof (induction es arbitrary: s)
  case (Cons e es)
  have "ms_Get (ss_store (api_step x h dec oh e s)) p = Inr v"
  proof (cases e)
    case (FromWorkload f)
    thus ?thesis using Cons.prems(1) ServeSecret_keeps[OF surjective_pairing] by (cases f) auto
  next
    case (FromOperator r)
    hence "\<not> (\<exists>u. operator_asks dec oh r p u True)" using Cons.prems(2) by auto
    from ServeOperator_keeps[OF surjective_pairing Cons.prems(1) this] show ?thesis using FromOperator by simp
  qed
  thus ?case using Cons.IH Cons.prems(2) by simp
qed simp

text \<open>The entries that the explanation finds to match are those that matching considers.\<close>

lemma matched_names:
  assumes "uniq_keys (elems (al_Workloads al))"
  shows "map ev_Name (filter ev_Matches (map (entry_verdict H al cs) (sortedNames (elems (al_Workloads al))))) =
    sort (map fst (matching H al cs))"
proof -
  let ?es = "elems (al_Workloads al)"
  have "map ev_Name (filter ev_Matches (map (entry_verdict H al cs) ns)) = filter (\<lambda>n. describes H (the (map_of ?es n)) cs) ns" for ns
    by (induction ns) (auto simp: entry_verdict_def Let_def describes_def)
  moreover have "filter (\<lambda>n. describes H (the (map_of ?es n)) cs) (map fst xs) = map fst (filter (\<lambda>(n, w). describes H w cs) xs)"
    if "set xs \<subseteq> set ?es" for xs
    using that assms by (induction xs) auto
  ultimately show ?thesis by (simp add: sortedNames_def filter_sort matching_def)
qed

lemma explain_entries_decides:
  assumes "uniq_keys (elems (al_Workloads al))" and "resp = explain_entries H al reported (new_response sid\<lparr>er_InventoryHost := host\<rparr>)"
  shows "case MatchWorkload H al (WorkloadContainers al reported) of
      Inl _ \<Rightarrow> er_Grant resp = None \<and> er_Refusal resp \<noteq> None
    | Inr (n, w) \<Rightarrow> er_Match resp = n \<and>
        (if w_Secrets w \<noteq> None \<and> ArgvPinned w then er_Grant resp = w_Secrets w \<and> er_Refusal resp = None
         else er_Grant resp = None \<and> er_Refusal resp \<noteq> None)"
proof (cases "WorkloadContainers al reported = []")
  case True
  thus ?thesis using assms(2) by (simp add: explain_entries_def Let_def new_response_def MatchWorkload_eq)
next
  case False
  let ?cs = "WorkloadContainers al reported"
  have resp: "resp = explain_entries H al reported (new_response sid\<lparr>er_InventoryHost := host\<rparr>)" by (rule assms(2))
  note mn = matched_names[OF assms(1), of H ?cs]
  consider (none) "matching H al ?cs = []" | (one) n w where "matching H al ?cs = [(n, w)]" | (many) a b es where "matching H al ?cs = a # b # es"
    by (metis list.exhaust surj_pair)
  thus ?thesis
  proof cases
    case none
    thus ?thesis using False by (simp add: resp explain_entries_def Let_def new_response_def MatchWorkload_eq mn)
  next
    case (one n w)
    hence "(n, w) \<in> set (elems (al_Workloads al))"
      using list.set_intros(1)[of "(n, w)" "[]"] unfolding one[symmetric] matching_def by simp
    hence "map_of (elems (al_Workloads al)) n = Some w" using assms(1) by simp
    thus ?thesis using False one
      by (simp add: resp explain_entries_def Let_def new_response_def MatchWorkload_eq mn split: option.split)
  next
    case (many a b es)
    have "length (sort (map fst (matching H al ?cs))) = length (matching H al ?cs)" by simp
    then obtain c d e where "sort (map fst (matching H al ?cs)) = c # d # e"
      using many by (metis length_Suc_conv length_Cons)
    thus ?thesis using False many
      by (simp add: resp explain_entries_def Let_def new_response_def MatchWorkload_eq mn)
  qed
qed

section \<open>Properties\<close>

text \<open>\<^bold>\<open>An operator write does exactly what its signed body asks.\<close> A request that the operator check did not accept with the body it
  delivered, or that is malformed, changes nothing and is never answered 200, 201 or 409. An accepted one names a canonical path and a value
  that is not empty. 201 is answered exactly when the path held nothing and now holds the value; 200 when the body asks to overwrite, the path held a
  value and now holds the new one; 409 when the body does not ask to overwrite and the path holds a value, which is kept. Every other path
  is as it was, and any other answer means the store is.\<close>

theorem operator_write_exact:
  assumes "ServeOperator dec h r store = (resp, store')"
  shows "store' = store \<and> rs_Status resp \<notin> {StatusOK, StatusCreated, StatusConflict} \<or>
    (\<exists>path v overwrite. operator_asks dec h r path v overwrite \<and>
       (rs_Status resp = StatusCreated \<and> ms_Get store path = Inl ErrNotFound \<and>
          (\<forall>q. ms_Get store' q = (if q = path then Inr v else ms_Get store q)) \<or>
        rs_Status resp = StatusOK \<and> overwrite \<and> okE (ms_Get store path) \<and>
          (\<forall>q. ms_Get store' q = (if q = path then Inr v else ms_Get store q)) \<or>
        rs_Status resp = StatusConflict \<and> \<not> overwrite \<and> okE (ms_Get store path) \<and> store' = store))"
  using assms
proof (cases rule: ServeOperator_cases)
  case (create path v)
  have stored: "\<forall>q. ms_Get (storeLocked store path v OperatorHolder) q = (if q = path then Inr v else ms_Get store q)"
    by (simp add: storeLocked_Get)
  from operator_create_cases[OF create(2)] show ?thesis
  proof (elim disjE conjE)
    assume "store' = storeLocked store path v OperatorHolder" "rs_Status resp = StatusCreated" "ms_Get store path = Inl ErrNotFound"
    thus ?thesis using create(1) stored by blast
  qed (use create(1) in auto)
next
  case (replace path v)
  have absent: "\<not> okE (ms_Get store path) \<Longrightarrow> ms_Get store path = Inl ErrNotFound"
    by (auto simp: ms_Get_def okE_def split: option.splits)
  have stored: "\<forall>q. ms_Get (storeLocked store path v OperatorHolder) q = (if q = path then Inr v else ms_Get store q)"
    by (simp add: storeLocked_Get)
  from operator_replace_cases[OF replace(2)] show ?thesis
  proof (elim disjE conjE)
    assume "store' = storeLocked store path v OperatorHolder"
      "rs_Status resp = (if okE (ms_Get store path) then StatusOK else StatusCreated)"
    thus ?thesis using replace(1) stored absent by (cases "okE (ms_Get store path)") (simp_all, blast+)
  qed (use replace(1) in auto)
qed simp

definition op_body :: string where "op_body = ''b''"

definition op_dec :: "string \<Rightarrow> PutRequest option" where
  "op_dec b = (if b = op_body then Some \<lparr>pu_Value = StdEncode ''pw'', pu_Overwrite = False\<rparr> else None)"

definition op_handler :: "unit OperatorHandler" where
  "op_handler = \<lparr>oh_Authorize = Some (\<lambda>_ b. if b = op_body then Inr () else Inl ()), oh_MaxBodyBytes = 0\<rparr>"

definition op_request :: "unit tls_request" where
  "op_request = (rel_request ''PUT'')\<lparr>rq_Body := (op_body, False)\<rparr>"

lemma op_create:
  "ServeOperator op_dec op_handler op_request (ss_store (rel_state [])) =
     (writeResult StatusCreated \<lparr>pt_Path = ''/db'', pt_Created = True, pt_Existing = None\<rparr>,
      storeLocked (ss_store (rel_state [])) ''/db'' ''pw'' OperatorHolder)"
proof -
  have path: "requestPath op_request = Inr ''/db''" using rel_path[of "''PUT''"] by (simp add: op_request_def requestPath_def)
  have auth: "operator_authorize op_handler op_request = Inr op_body"
    by (simp add: operator_authorize_def op_handler_def ReadCappedBody_def ReadAll_def MaxInt64_def
        op_request_def op_body_def request.truncate_def Let_def)
  have "int (length ''pw'') \<le> 99" by simp
  thus ?thesis unfolding ServeOperator_def auth path
    by (simp add: op_dec_def StdDecode_StdEncode operator_create_def ms_PutIfAbsent_def checkValue_def checkRoomLocked_def rel_state_def
        OperatorHolder_def no_held_def del: StdEncode.simps)
qed

theorem operator_write_exact_witness:
  "\<exists>path v overwrite. operator_asks op_dec op_handler op_request path v overwrite \<and>
     ms_Get (storeLocked (ss_store (rel_state [])) ''/db'' ''pw'' OperatorHolder) path = Inr v"
proof -
  let ?t = "storeLocked (ss_store (rel_state [])) ''/db'' ''pw'' OperatorHolder"
  have "rs_Status (writeResult StatusCreated \<lparr>pt_Path = ''/db'', pt_Created = True, pt_Existing = None\<rparr>) = StatusCreated"
    by (simp add: writeResult_def)
  with operator_write_exact[OF op_create] obtain path v overwrite where "operator_asks op_dec op_handler op_request path v overwrite"
      "\<forall>q. ms_Get ?t q = (if q = path then Inr v else ms_Get (ss_store (rel_state [])) q)" by auto
  thus ?thesis by metis
qed

text \<open>C18: \<^bold>\<open>What an operator stores is what workloads are given.\<close> After an operator write that was answered 200 or 201, and whatever workloads
  and operators do afterwards short of an accepted overwrite of the same path, every request for that path that is answered 200 is
  given exactly the operator's value.\<close>

theorem operator_value_released:
  assumes "ServeOperator dec oh r0 (ss_store s) = (resp0, store)" and "rs_Status resp0 \<in> {StatusOK, StatusCreated}"
    and "operator_asks dec oh r0 path v overwrite"
    and "\<And>q u. FromOperator q \<in> set es \<Longrightarrow> \<not> operator_asks dec oh q path u True"
    and "ServeSecret x h m r (fold (api_step x h dec oh) es (s\<lparr>ss_store := store\<rparr>)) = (resp, s')"
    and "tr_EscapedPath r = ''/secrets'' @ path" and "rs_Status resp = StatusOK"
  shows "resp = writeValue v StatusOK"
proof -
  have "ms_Get store path = Inr v"
    using assms(1)
  proof (cases rule: ServeOperator_cases)
    case refused
    thus ?thesis using assms(2) by auto
  next
    case (create p u)
    thus ?thesis using operator_create_cases[OF create(2)] assms(2) operator_asks_unique[OF assms(3) create(1)]
      by (auto simp: storeLocked_Get)
  next
    case (replace p u)
    thus ?thesis using operator_replace_cases[OF replace(2)] assms(2) operator_asks_unique[OF assms(3) replace(1)]
      by (auto simp: storeLocked_Get)
  qed
  hence "ms_Get (ss_store (fold (api_step x h dec oh) es (s\<lparr>ss_store := store\<rparr>))) path = Inr v"
    by (intro api_keeps) (use assms(4) in auto)
  moreover obtain res s1 where adm: "admit_request x h m r (fold (api_step x h dec oh) es (s\<lparr>ss_store := store\<rparr>)) = (res, s1)" by fastforce
  note frame = admit_request_frame[OF adm]
  have "\<exists>p g. admit_request x h m r (fold (api_step x h dec oh) es (s\<lparr>ss_store := store\<rparr>)) = (Inr (p, g), s1) \<and>
      resp = serveGet g p (ss_store (fold (api_step x h dec oh) es (s\<lparr>ss_store := store\<rparr>)))"
    using assms(5,7) adm frame
    by (auto simp: ServeSecret_admit dest!: admit_request_Inl servePost_cases simp: writeValue_def split: sum.splits if_splits prod.splits)
  then obtain p g where pg: "admit_request x h m r (fold (api_step x h dec oh) es (s\<lparr>ss_store := store\<rparr>)) = (Inr (p, g), s1)"
      "resp = serveGet g p (ss_store (fold (api_step x h dec oh) es (s\<lparr>ss_store := store\<rparr>)))" by blast
  have "p = path" using admit_request_Inr[OF pg(1)] assms(6) by (metis justified_def same_append_eq)
  ultimately show ?thesis
    using serveGet_cases[of g p "ss_store (fold (api_step x h dec oh) es (s\<lparr>ss_store := store\<rparr>))"] pg(2) assms(7) by auto
qed

lemma rel_get_store:
  assumes "ms_Get st ''/db'' = Inr v"
  shows "fst (ServeSecret rel_external rel_handler rel_moments (rel_request ''GET'') ((rel_state vs)\<lparr>ss_store := st\<rparr>)) = writeValue v StatusOK"
proof -
  have "Allows (w_Secrets rel_workload) ''/db'' OpRead"
    by (simp add: Allows_def rel_workload_def matchGlob_def CutSuffix_def HasSuffix_def subtreeSuffix_def suffix_def)
  moreover have "rq_Method (rel_request ''GET'') = ''GET''" by (simp add: rel_request_def)
  ultimately show ?thesis using assms by (simp add: ServeSecret_admit admit_request_store rel_admit serveGet_def)
qed

theorem operator_value_released_witness:
  "\<exists>v. fst (ServeSecret rel_external rel_handler rel_moments (rel_request ''GET'')
      ((rel_state [])\<lparr>ss_store := storeLocked (ss_store (rel_state [])) ''/db'' ''pw'' OperatorHolder\<rparr>)) = writeValue v StatusOK"
proof -
  let ?st = "storeLocked (ss_store (rel_state [])) ''/db'' ''pw'' OperatorHolder"
  let ?call = "ServeSecret rel_external rel_handler rel_moments (rel_request ''GET'')
      (fold (api_step rel_external rel_handler op_dec op_handler) [] ((rel_state [])\<lparr>ss_store := ?st\<rparr>))"
  have ask: "operator_asks op_dec op_handler op_request ''/db'' ''pw'' False"
  proof -
    have "canonical_path ''/db''" using requestPath_Inr[OF rel_path] by blast
    thus ?thesis
      by (simp add: operator_asks_def op_handler_def op_dec_def op_request_def StdDecode_StdEncode del: StdEncode.simps)
        (simp add: rel_request_def)
  qed
  have st: "rs_Status (fst ?call) = StatusOK"
    using rel_get_store[of ?st "''pw''" "[]"] by (simp add: storeLocked_Get writeValue_def)
  have esc: "tr_EscapedPath (rel_request ''GET'') = ''/secrets'' @ ''/db''" by (simp add: rel_request_def)
  have "fst ?call = writeValue ''pw'' StatusOK"
    by (rule operator_value_released[OF op_create _ ask _ surjective_pairing esc st]) (simp_all add: writeResult_def)
  thus ?thesis by auto
qed

text \<open>\<^bold>\<open>The explanation is the decision.\<close> For a caller that proved its sandbox, the explanation computed at the same moments names the
  entry and the grant that authorisation resolves, with no refusal, exactly when authorisation succeeds; when it fails the
  explanation carries a refusal and no grant.\<close>

theorem explain_agrees:
  assumes "identify x h (ss_bindings s) (mo_lookup m) r nonce = Inr (sid, host)"
    and "\<And>al. fst (cached_Allowlist (mo_policy m) (ss_policy s)) = Inr al \<Longrightarrow> uniq_keys (elems (al_Workloads al))"
    and "explain (x_H x) h (ss_bindings s) (mo_lookup m) (mo_policy m) (ss_policy s) sid = (e, cp)"
  shows "case fst (release_authorize x h m r nonce s) of
      Inr g \<Rightarrow> er_Match e = gr_workload g \<and> er_Grant e = gr_secrets g \<and> er_Grant e \<noteq> None \<and> er_Refusal e = None
    | Inl _ \<Rightarrow> er_Grant e = None \<and> er_Refusal e \<noteq> None"
proof -
  from identify_Inr[OF assms(1)] obtain ledger hosts inventory where a: "ss_bindings s = Some ledger" "sh_InventoryHosts h = Some hosts"
      "sh_Inventory h = Some inventory" "ledger_Lookup sid (mo_lookup m) ledger = Some host" "hosts_Contains hosts host"
    unfolding authentic_def by blast
  obtain res cp1 where c: "cached_Allowlist (mo_policy m) (ss_policy s) = (res, cp1)" by fastforce
  show ?thesis
  proof (cases res)
    case (Inl err)
    thus ?thesis using assms(1,3) a c by (auto simp: explain_def release_authorize_def Let_def new_response_def)
  next
    case (Inr al)
    have u: "uniq_keys (elems (al_Workloads al))" using assms(2) c Inr by simp
    have auth: "fst (release_authorize x h m r nonce s) = resolve x h al sid host"
      using assms(1) c Inr by (simp add: release_authorize_def)
    consider (nofetch) "is_FetchSandbox inventory host sid = None"
      | (nodetail) sb err where "is_FetchSandbox inventory host sid = Some sb" "RequireContainers sb = Inl err"
      | (detail) sb cs where "is_FetchSandbox inventory host sid = Some sb" "RequireContainers sb = Inr cs"
      by (metis option.exhaust sum.exhaust)
    thus ?thesis
    proof cases
      case nofetch
      thus ?thesis using assms(3) a c Inr unfolding auth
        by (auto simp: explain_def resolve_def workloadContainers_def Let_def new_response_def bindE_def)
    next
      case (nodetail sb err)
      thus ?thesis using assms(3) a c Inr unfolding auth
        by (auto simp: explain_def resolve_def workloadContainers_def Let_def new_response_def bindE_def wrapE_def)
    next
      case (detail sb cs)
      have e: "e = explain_entries (x_H x) al cs (new_response sid\<lparr>er_InventoryHost := host\<rparr>)"
        using assms(3) a c Inr detail by (simp add: explain_def Let_def)
      have res: "resolve x h al sid host = (case MatchWorkload (x_H x) al (WorkloadContainers al cs) of
          Inl er \<Rightarrow> Inl (if WorkloadContainers al cs = [] then RelNoWorkload else RelMatch er)
        | Inr (n, w) \<Rightarrow> if w_Secrets w = None then Inl RelNoGrant else if \<not> ArgvPinned w then Inl RelUnpinned
            else Inr \<lparr>gr_workload = n, gr_secrets = w_Secrets w\<rparr>)"
        using a(3) detail by (auto simp: resolve_def workloadContainers_def Let_def bindE_def wrapE_def MatchWorkload_eq guardE_def split: sum.split)
      show ?thesis using explain_entries_decides[OF u e] unfolding auth res by (auto split: sum.splits if_splits)
    qed
  qed
qed

theorem explain_agrees_witness:
  "er_Match (fst (explain (\<lambda>s. s) rel_handler (ss_bindings (rel_state [])) 1 (mo_policy rel_moments) (ss_policy (rel_state [])) ''sbx'')) = ''web''"
proof -
  have H: "x_H rel_external = (\<lambda>s. s)" and m: "mo_lookup rel_moments = 1" by (simp_all add: rel_external_def rel_moments_def)
  have cache: "cached_Allowlist (mo_policy rel_moments) (ss_policy (rel_state [])) = (Inr rel_allowlist, ss_policy (rel_state []))"
    by (simp add: cached_Allowlist_def rel_moments_def rel_state_def store_Version_def query_def)
  have "fst (release_authorize rel_external rel_handler rel_moments (rel_request ''GET'') rel_nonce (rel_state [])) =
      Inr \<lparr>gr_workload = ''web'', gr_secrets = w_Secrets rel_workload\<rparr>"
    using rel_entitled by (auto simp: release_authorize_def m rel_identify cache resolve_Inr)
  moreover have "uniq_keys (elems (al_Workloads al))" if "fst (cached_Allowlist (mo_policy rel_moments) (ss_policy (rel_state []))) = Inr al" for al
    using that by (auto simp: cache rel_allowlist_def)
  ultimately show ?thesis
    using explain_agrees[where r = "rel_request ''GET''" and h = rel_handler and x = rel_external, OF _ _ surjective_pairing, of "rel_state []" rel_moments rel_nonce "''sbx''" sample_host]
      rel_identify[of "[]" "''GET''"] by (simp add: H m)
qed

end
