(* ===== verification/Allowlist_Handler.thy ===== *)
theory Allowlist_Handler
  imports Http Allowlist_Store Go_Net
begin

text \<open>
  The allowlist API of CDS (\<^verbatim>\<open>src/internal/allowlist/handler.go\<close>) over the store. The JSON decoder is a
  parameter (\<open>dec\<close> gives the decoded value or \<^const>\<open>None\<close>); validation and normalisation after it are modelled. The
  store is locked call by call, so a handler that makes two calls gets the store of each moment.
\<close>

section \<open>Parsing\<close>

definition ParseJSON :: "(string \<Rightarrow> Allowlist option) \<Rightarrow> hash \<Rightarrow> string \<Rightarrow> Allowlist option" where
  "ParseJSON dec H data =
     (case dec data of None \<Rightarrow> None | Some a \<Rightarrow> (case normalizeAllowlist H True a of Inl _ \<Rightarrow> None | Inr b \<Rightarrow> Some b))"

definition ParseWorkloadJSON :: "(string \<Rightarrow> Workload option) \<Rightarrow> hash \<Rightarrow> string \<Rightarrow> Workload option" where
  "ParseWorkloadJSON dec H data =
     (case dec data of None \<Rightarrow> None | Some w \<Rightarrow> (case normalizeWorkload H True w of Inl _ \<Rightarrow> None | Inr v \<Rightarrow> Some v))"

section \<open>Handlers\<close>

abbreviation (input) DefaultMaxWriteBodyBytes :: int where
  "DefaultMaxWriteBodyBytes \<equiv> 64 * 1024"

record 'e Handler =
  h_WriteAuthorizer :: "(request \<Rightarrow> string \<Rightarrow> 'e + unit) option"
  h_MaxWriteBodyBytes :: int

definition weak_tag :: "nat \<Rightarrow> string" where
  "weak_tag version = ''W/'' @ [CHR 0x22] @ Itoa version @ [CHR 0x22]"

definition HandleList :: "fault \<Rightarrow> Store \<Rightarrow> fault \<Rightarrow> Store \<Rightarrow> request \<Rightarrow> response" where
  "HandleList flt1 s1 flt2 s2 r =
     (let match = Header_Get r ''If-None-Match'' in
      if match \<noteq> [] \<and> (case store_Version flt1 s1 of Inl _ \<Rightarrow> False | Inr version \<Rightarrow> match = weak_tag version)
      then \<lparr>rs_Status = StatusNotModified, rs_ETag = Some match, rs_Body = None\<rparr>
      else (case LoadAll flt2 s2 of
              Inl _ \<Rightarrow> status StatusInternalServerError
            | Inr (doc, version) \<Rightarrow>
                \<lparr>rs_Status = StatusOK, rs_ETag = Some (weak_tag version), rs_Body = Some (Canonical doc)\<rparr>))"

definition handler_authorize :: "'e Handler \<Rightarrow> request \<Rightarrow> response + string" where
  "handler_authorize h r =
     (case h_WriteAuthorizer h of
        None \<Rightarrow> Inl (status StatusUnauthorized)
      | Some authorizer \<Rightarrow>
          let cap = (if h_MaxWriteBodyBytes h \<le> 0 then DefaultMaxWriteBodyBytes else h_MaxWriteBodyBytes h) in
          bindE (ReadCappedBody r cap) (\<lambda>body.
            case authorizer r body of Inl _ \<Rightarrow> Inl (status StatusUnauthorized) | Inr _ \<Rightarrow> Inr body))"

definition HandleReplaceAll ::
  "(string \<Rightarrow> Allowlist option) \<Rightarrow> hash \<Rightarrow> fault \<Rightarrow> 'e Handler \<Rightarrow> request \<Rightarrow> Store \<Rightarrow> response \<times> Store" where
  "HandleReplaceAll dec H flt h r s =
     (case handler_authorize h r of
        Inl resp \<Rightarrow> (resp, s)
      | Inr body \<Rightarrow> (case ParseJSON dec H body of
          None \<Rightarrow> (status StatusUnprocessableEntity, s)
        | Some al \<Rightarrow> (case ReplaceAll flt (Some al) s of
            (Inl _, s') \<Rightarrow> (status StatusInternalServerError, s')
          | (Inr _, s') \<Rightarrow> (status StatusNoContent, s'))))"

definition HandlePutWorkload ::
  "(string \<Rightarrow> Workload option) \<Rightarrow> hash \<Rightarrow> fault \<Rightarrow> 'e Handler \<Rightarrow> string \<Rightarrow> request \<Rightarrow> Store \<Rightarrow> response \<times> Store" where
  "HandlePutWorkload dec H flt h name r s =
     (case handler_authorize h r of
        Inl resp \<Rightarrow> (resp, s)
      | Inr body \<Rightarrow> (case ParseWorkloadJSON dec H body of
          None \<Rightarrow> (status StatusUnprocessableEntity, s)
        | Some e \<Rightarrow> (case PutWorkload flt H name e s of
            (Inl (ErrInvalidWorkload _), s') \<Rightarrow> (status StatusUnprocessableEntity, s')
          | (Inl _, s') \<Rightarrow> (status StatusInternalServerError, s')
          | (Inr _, s') \<Rightarrow> (status StatusNoContent, s'))))"

definition HandleDeleteWorkload :: "fault \<Rightarrow> 'e Handler \<Rightarrow> string \<Rightarrow> request \<Rightarrow> Store \<Rightarrow> response \<times> Store" where
  "HandleDeleteWorkload flt h name r s =
     (case handler_authorize h r of
        Inl resp \<Rightarrow> (resp, s)
      | Inr _ \<Rightarrow> (case DeleteWorkload flt name s of
          (Inl _, s') \<Rightarrow> (status StatusInternalServerError, s')
        | (Inr found, s') \<Rightarrow> (status (if found then StatusNoContent else StatusNotFound), s')))"

section \<open>Lemmas\<close>

lemma handler_authorize_Inr:
  "handler_authorize h r = Inr body \<Longrightarrow>
     \<exists>authorizer u. h_WriteAuthorizer h = Some authorizer \<and> authorizer r body = Inr u \<and> body = fst (rq_Body r)"
  by (auto simp: handler_authorize_def Let_def bindE_Inr_iff ReadCappedBody_Inr_iff split: option.splits sum.splits)

lemma handler_authorize_Inl:
  "handler_authorize h r = Inl resp \<Longrightarrow>
     rs_Status resp \<in> {StatusBadRequest, StatusUnauthorized, StatusRequestEntityTooLarge}"
  by (auto simp: handler_authorize_def Let_def bindE_def split: option.splits sum.splits if_splits dest!: ReadCappedBody_Inl)

lemma weak_tag_inj: "weak_tag m = weak_tag n \<longleftrightarrow> m = n"
  by (simp add: weak_tag_def Itoa_inj)

text \<open>The three mutations of the API.\<close>

datatype mutation = MReplaceAll | MPut string | MDelete string

fun serve_mutation ::
  "(string \<Rightarrow> Allowlist option) \<Rightarrow> (string \<Rightarrow> Workload option) \<Rightarrow> hash \<Rightarrow> fault \<Rightarrow> 'e Handler \<Rightarrow> mutation \<Rightarrow> request \<Rightarrow> Store \<Rightarrow>
   response \<times> Store" where
  "serve_mutation da dw H flt h MReplaceAll r s = HandleReplaceAll da H flt h r s"
| "serve_mutation da dw H flt h (MPut name) r s = HandlePutWorkload dw H flt h name r s"
| "serve_mutation da dw H flt h (MDelete name) r s = HandleDeleteWorkload flt h name r s"

text \<open>What the store holds after a mutation that was accepted.\<close>

fun mutation_effect ::
  "(string \<Rightarrow> Allowlist option) \<Rightarrow> (string \<Rightarrow> Workload option) \<Rightarrow> hash \<Rightarrow> mutation \<Rightarrow> string \<Rightarrow>
   (string \<rightharpoonup> Workload) \<Rightarrow> (string \<rightharpoonup> Workload) \<Rightarrow> bool" where
  "mutation_effect da dw H MReplaceAll body m m' = (\<exists>al. ParseJSON da H body = Some al \<and> m' = map_of (elems (al_Workloads al)))"
| "mutation_effect da dw H (MPut name) body m m' =
     (\<exists>e norm. ParseWorkloadJSON dw H body = Some e \<and> normalizeEntry H name e = Inr norm \<and> m' = m(name \<mapsto> norm))"
| "mutation_effect da dw H (MDelete name) body m m' = (m name \<noteq> None \<and> m' = m(name := None))"

abbreviation store_map :: "Store \<Rightarrow> string \<rightharpoonup> Workload" where
  "store_map s \<equiv> map_of (db_entries (st_db s))"

lemma fold_add_entries: "db_entries (fold add_entry es d) = db_entries d @ es"
  by (induction es arbitrary: d) auto

lemma fold_add_version: "db_version (fold add_entry es d) = db_version d"
  by (induction es arbitrary: d) (auto simp: add_entry_def split: prod.splits)

lemma HandleReplaceAll_effect:
  assumes "HandleReplaceAll da H flt h r s = (resp, s')"
  shows "s' = s \<and> rs_Status resp \<noteq> StatusNoContent \<or>
    rs_Status resp = StatusNoContent \<and> (\<exists>body. handler_authorize h r = Inr body \<and>
      mutation_effect da dw H MReplaceAll body (store_map s) (store_map s') \<and>
      db_version (st_db s') = Suc (db_version (st_db s)))"
proof (cases "handler_authorize h r")
  case (Inl e)
  thus ?thesis using assms handler_authorize_Inl[OF Inl] by (auto simp: HandleReplaceAll_def)
next
  case (Inr body)
  show ?thesis
  proof (cases "ParseJSON da H body")
    case (Some al)
    obtain res t where t: "ReplaceAll flt (Some al) s = (res, t)" by fastforce
    show ?thesis using ReplaceAll_cases[OF t] assms Inr Some t
      by (auto simp: HandleReplaceAll_def commits_def bump_def fold_add_entries fold_add_version)
  qed (use assms Inr in \<open>auto simp: HandleReplaceAll_def\<close>)
qed

lemma HandlePutWorkload_effect:
  assumes "HandlePutWorkload dw H flt h name r s = (resp, s')"
  shows "s' = s \<and> rs_Status resp \<noteq> StatusNoContent \<or>
    rs_Status resp = StatusNoContent \<and> (\<exists>body. handler_authorize h r = Inr body \<and>
      mutation_effect da dw H (MPut name) body (store_map s) (store_map s') \<and>
      db_version (st_db s') = Suc (db_version (st_db s)))"
proof (cases "handler_authorize h r")
  case (Inl e)
  thus ?thesis using assms handler_authorize_Inl[OF Inl] by (auto simp: HandlePutWorkload_def)
next
  case (Inr body)
  show ?thesis
  proof (cases "ParseWorkloadJSON dw H body")
    case (Some e)
    obtain res t where t: "PutWorkload flt H name e s = (res, t)" by fastforce
    show ?thesis using PutWorkload_cases[OF t]
    proof (elim disjE exE conjE)
      fix err assume "res = Inl err" "t = s"
      thus ?thesis using assms Inr Some t by (auto simp: HandlePutWorkload_def split: store_error.splits)
    next
      fix norm
      assume n: "normalizeEntry H name e = Inr norm" "res = Inr ()" "commits s t (bump (put_entry name norm (st_db s)))"
      hence "resp = status StatusNoContent" "s' = t" using assms Inr Some t by (auto simp: HandlePutWorkload_def)
      moreover have "store_map t = (store_map s)(name \<mapsto> norm)" "db_version (st_db t) = Suc (db_version (st_db s))"
        using n(3) by (simp_all add: commits_def bump_def put_entry_def fun_eq_iff)
      ultimately show ?thesis using Inr Some n(1) by auto
    qed
  qed (use assms Inr in \<open>auto simp: HandlePutWorkload_def\<close>)
qed

lemma HandleDeleteWorkload_effect:
  assumes "HandleDeleteWorkload flt h name r s = (resp, s')"
  shows "s' = s \<and> rs_Status resp \<noteq> StatusNoContent \<or>
    rs_Status resp = StatusNoContent \<and> (\<exists>body. handler_authorize h r = Inr body \<and>
      mutation_effect da dw H (MDelete name) body (store_map s) (store_map s') \<and>
      db_version (st_db s') = Suc (db_version (st_db s)))"
proof (cases "handler_authorize h r")
  case (Inl e)
  thus ?thesis using assms handler_authorize_Inl[OF Inl] by (auto simp: HandleDeleteWorkload_def)
next
  case (Inr body)
  obtain res t where t: "DeleteWorkload flt name s = (res, t)" by fastforce
  show ?thesis using DeleteWorkload_cases[OF t] assms Inr t
    by (auto simp: HandleDeleteWorkload_def commits_def bump_def del_entry_def fun_eq_iff)
qed

section \<open>Properties\<close>

text \<open>C26: \<^bold>\<open>Only an authorised body changes the allowlist.\<close> For every mutation, every request and every pattern of
  database faults: either the response is not 204 and the store is exactly as it was, or it is 204, the configured authoriser
  accepted this request with exactly the body that was delivered, the entries are those this body prescribes and the version went
  up by one. A handler without an authoriser refuses everything.\<close>

theorem mutation_authorized:
  assumes "serve_mutation da dw H flt h op r s = (resp, s')"
  shows "s' = s \<and> rs_Status resp \<noteq> StatusNoContent \<or>
    rs_Status resp = StatusNoContent \<and>
    (\<exists>authorizer u. h_WriteAuthorizer h = Some authorizer \<and> authorizer r (fst (rq_Body r)) = Inr u) \<and>
    mutation_effect da dw H op (fst (rq_Body r)) (store_map s) (store_map s') \<and>
    db_version (st_db s') = Suc (db_version (st_db s))"
proof -
  have "s' = s \<and> rs_Status resp \<noteq> StatusNoContent \<or>
    rs_Status resp = StatusNoContent \<and> (\<exists>body. handler_authorize h r = Inr body \<and>
      mutation_effect da dw H op body (store_map s) (store_map s') \<and> db_version (st_db s') = Suc (db_version (st_db s)))"
  proof (cases op)
    case MReplaceAll
    thus ?thesis using HandleReplaceAll_effect[of da H flt h r s resp s' dw] assms by simp
  next
    case (MPut name)
    thus ?thesis using HandlePutWorkload_effect[of dw H flt h name r s resp s' da] assms by simp
  next
    case (MDelete name)
    thus ?thesis using HandleDeleteWorkload_effect[of flt h name r s resp s' da dw H] assms by simp
  qed
  thus ?thesis using handler_authorize_Inr[of h r] by blast
qed

definition sample_write :: request where
  "sample_write = \<lparr>rq_Method = ''PUT'', rq_Path = ''/allowlist/workloads/web'', rq_RemoteAddr = [], rq_Header = [],
     rq_Body = (''b'', False)\<rparr>"

definition sample_entry :: Workload where
  "sample_entry = \<lparr>w_Label = [], w_InitContainers = None, w_Containers = None, w_Secrets = None\<rparr>"

lemma sample_entry_normal: "normalizeWorkload H True sample_entry = Inr sample_entry"
  by (simp add: normalizeWorkload_def sample_entry_def normalizeContainers_def normalizeSecrets_def)

theorem mutation_authorized_witness:
  "\<exists>resp s'. serve_mutation (\<lambda>_. None) (\<lambda>b. if b = ''b'' then Some sample_entry else None) (\<lambda>_. []) no_fault
      \<lparr>h_WriteAuthorizer = Some (\<lambda>r b. if b = ''b'' then Inr () else Inl ()), h_MaxWriteBodyBytes = 0\<rparr> (MPut ''web'')
      sample_write open_store = (resp, s') \<and> rs_Status resp = StatusNoContent \<and> store_map s' ''web'' = Some sample_entry"
proof -
  let ?h = "\<lparr>h_WriteAuthorizer = Some (\<lambda>r b. if b = ''b'' then Inr () else Inl ()), h_MaxWriteBodyBytes = 0\<rparr>"
  let ?dw = "\<lambda>b. if b = ''b'' then Some sample_entry else None"
  obtain resp s' where r: "serve_mutation (\<lambda>_. None) ?dw (\<lambda>_. []) no_fault ?h (MPut ''web'') sample_write open_store = (resp, s')"
    by fastforce
  have name: "workloadNameGrammarOK ''web''" "length ''web'' \<le> MaxWorkloadNameLen"
    by (simp_all add: workloadNameGrammarOK_def name_byte_def less_eq_char_def MaxWorkloadNameLen_def)
  have n: "normalizeEntry (\<lambda>_. []) ''web'' sample_entry = Inr sample_entry"
    using name by (simp add: normalizeEntry_def normalizeAllowlist_def sample_entry_normal)
  have ps: "ParseWorkloadJSON ?dw (\<lambda>_. []) ''b'' = Some sample_entry"
    by (simp add: ParseWorkloadJSON_def sample_entry_normal)
  have "rs_Status resp = StatusNoContent"
    using r PutWorkload_no_fault[OF n, of open_store] ps
    by (auto simp: HandlePutWorkload_def handler_authorize_def sample_write_def ReadCappedBody_def ReadAll_def
 MaxInt64_def split: prod.splits sum.splits)
  thus ?thesis using mutation_authorized[OF r] r ps n by (auto simp: sample_write_def)
qed

text \<open>\<^bold>\<open>A 304 is honest.\<close> A client that received the document under some entity tag, and later gets 304 for
  that tag, holds exactly the document the store would serve at that later moment, whatever was written in between and although
  the version and the document are read in separate calls.\<close>

theorem not_modified_honest:
  assumes "(store_step H)\<^sup>*\<^sup>* open_store s" and "(store_step H)\<^sup>*\<^sup>* s t"
    and "HandleList fa sv fb s r = \<lparr>rs_Status = StatusOK, rs_ETag = Some tag, rs_Body = Some body\<rparr>"
    and "Header_Get r' ''If-None-Match'' = tag" and "rs_Status (HandleList fc t fd u r') = StatusNotModified"
  shows "\<exists>doc v. LoadAll no_fault t = Inr (doc, v) \<and> body = Canonical doc \<and> tag = weak_tag v"
proof -
  from assms(3) obtain doc v where d: "LoadAll fb s = Inr (doc, v)" "tag = weak_tag v" "body = Canonical doc"
    by (auto simp: HandleList_def Let_def status_def split: if_splits sum.splits)
  hence v: "v = db_version (st_db s)" "doc = st_doc s"
    by (auto simp: LoadAll_def bindE_Inr_iff query_Inr st_doc_def)
  from assms(5) obtain w where w: "store_Version fc t = Inr w" "tag = weak_tag w"
    using assms(4) by (auto simp: HandleList_def Let_def split: if_splits sum.splits)
  hence "w = db_version (st_db t)" by (auto simp: store_Version_def bindE_Inr_iff query_Inr)
  hence "db_version (st_db t) = db_version (st_db s)" using w(2) d(2) v(1) by (simp add: weak_tag_inj)
  moreover have "db_inv (st_db s)"
    by (rule etag.reach_inv[OF assms(1)]) (simp add: open_store_def db_inv_def)
  ultimately have "st_db t = st_db s" using etag.not_modified[OF assms(2)] by blast
  thus ?thesis using d v by (simp add: LoadAll_no_fault st_doc_def)
qed

theorem not_modified_honest_witness:
  "\<exists>doc v. LoadAll no_fault open_store = Inr (doc, v) \<and>
     Canonical \<lparr>al_Schema = Schema, al_Workloads = Some []\<rparr> = Canonical doc \<and> weak_tag 1 = weak_tag v"
proof (rule not_modified_honest[where s = open_store and sv = open_store and u = open_store and fa = no_fault and fb = no_fault
      and fc = no_fault and fd = no_fault and H = "\<lambda>_. []"])
  let ?r = "sample_write\<lparr>rq_Header := []\<rparr>" and ?r' = "sample_write\<lparr>rq_Header := [(''If-None-Match'', weak_tag 1)]\<rparr>"
  show "HandleList no_fault open_store no_fault open_store ?r = \<lparr>rs_Status = StatusOK, rs_ETag = Some (weak_tag 1),
      rs_Body = Some (Canonical \<lparr>al_Schema = Schema, al_Workloads = Some []\<rparr>)\<rparr>"
    by (simp add: HandleList_def Header_Get_def LoadAll_no_fault st_doc_def open_store_def)
  show "Header_Get ?r' ''If-None-Match'' = weak_tag 1" by (simp add: Header_Get_def)
  show "rs_Status (HandleList no_fault open_store no_fault open_store ?r') = StatusNotModified"
    by (simp add: HandleList_def Header_Get_def store_Version_def query_def open_store_def weak_tag_def)
qed auto

end
