(* ===== verification/Rate_Limit.thy ===== *)
theory Rate_Limit
  imports C8s_Prelude
begin

text \<open>
  The keyed rate limiter of CDS (\<^verbatim>\<open>src/internal/issuer/ratelimit.go\<close>). One bucket is a
  \<^verbatim>\<open>rate.Limiter\<close> of \<^verbatim>\<open>golang.org/x/time/rate\<close>: its state is a type variable, a fresh one and its
  \<^verbatim>\<open>Allow\<close> are parameters, and nothing is assumed of them. What the file itself guarantees is that every
  caller is metered by a bucket of its own and that the map is bounded.
\<close>

section \<open>The limiter\<close>

record 'l ipLimiterEntry =
  lim_limiter :: 'l
  lim_lastSeen :: int

record 'l IPRateLimiter =
  rl_limiters :: "(string \<times> 'l ipLimiterEntry) list"
  rl_fresh :: 'l
  rl_maxEntries :: int

text \<open>\<open>fresh\<close> stands for \<^verbatim>\<open>rate.NewLimiter(rl.rate, rl.burst)\<close>.\<close>

definition NewIPRateLimiter :: "'l \<Rightarrow> int \<Rightarrow> 'l IPRateLimiter option" where
  "NewIPRateLimiter fresh maxEntries =
     (if maxEntries \<le> 0 then None
      else Some \<lparr>rl_limiters = [], rl_fresh = fresh, rl_maxEntries = maxEntries\<rparr>)"

definition rl_allow :: "(int \<Rightarrow> 'l \<Rightarrow> bool \<times> 'l) \<Rightarrow> string \<Rightarrow> int \<Rightarrow> 'l IPRateLimiter \<Rightarrow> bool \<times> 'l IPRateLimiter" where
  "rl_allow Allow key now rl =
     (case map_of (rl_limiters rl) key of
        None \<Rightarrow>
          if int (length (rl_limiters rl)) \<ge> rl_maxEntries rl then (False, rl)
          else let (ok, l) = Allow now (rl_fresh rl) in
            (ok, rl\<lparr>rl_limiters := AList.update key \<lparr>lim_limiter = l, lim_lastSeen = now\<rparr> (rl_limiters rl)\<rparr>)
      | Some e \<Rightarrow>
          let (ok, l) = Allow now (lim_limiter e) in
            (ok, rl\<lparr>rl_limiters := AList.update key \<lparr>lim_limiter = l, lim_lastSeen = now\<rparr> (rl_limiters rl)\<rparr>))"

definition rl_Len :: "'l IPRateLimiter \<Rightarrow> nat" where
  "rl_Len rl = length (rl_limiters rl)"

definition rl_evict :: "int \<Rightarrow> int \<Rightarrow> 'l IPRateLimiter \<Rightarrow> 'l IPRateLimiter" where
  "rl_evict idleTimeout now rl =
     rl\<lparr>rl_limiters := filter (\<lambda>(_, e). \<not> lim_lastSeen e < now - idleTimeout) (rl_limiters rl)\<rparr>"

section \<open>Keys and the middleware\<close>

text \<open>\<^verbatim>\<open>net.SplitHostPort\<close>, the host alone; the port and the error are discarded by the caller and an error
  leaves the host empty.\<close>

definition index_of :: "char \<Rightarrow> string \<Rightarrow> nat option" where
  "index_of c s = (if c \<in> set s then Some (length (takeWhile (\<lambda>x. x \<noteq> c) s)) else None)"

definition last_index_of :: "char \<Rightarrow> string \<Rightarrow> nat option" where
  "last_index_of c s = map_option (\<lambda>j. length s - Suc j) (index_of c (rev s))"

definition SplitHost :: "string \<Rightarrow> string" where
  "SplitHost hostport =
     (case last_index_of (CHR '':'') hostport of
        None \<Rightarrow> []
      | Some i \<Rightarrow>
          if hd hostport = CHR ''['' then
            (case index_of (CHR '']'') hostport of
               None \<Rightarrow> []
             | Some e \<Rightarrow>
                 if e + 1 \<noteq> i then []
                 else if CHR ''['' \<in> set (drop 1 hostport) then []
                 else if CHR '']'' \<in> set (drop (e + 1) hostport) then []
                 else take (e - 1) (drop 1 hostport))
          else if CHR '':'' \<in> set (take i hostport) then []
          else if CHR ''['' \<in> set hostport \<or> CHR '']'' \<in> set hostport then []
          else take i hostport)"

definition SourceAddrKey :: "string \<Rightarrow> string" where
  "SourceAddrKey remoteAddr =
     (let ip = SplitHost remoteAddr in ''addr:'' @ (if ip = [] then remoteAddr else ip))"

text \<open>\<^verbatim>\<open>RateLimitBy\<close>: the bucket is what the key function names, or the source address. The result says
  whether the wrapped handler runs; otherwise the response is 429.\<close>

definition rate_bucket :: "('r \<Rightarrow> string) option \<Rightarrow> ('r \<Rightarrow> string) \<Rightarrow> 'r \<Rightarrow> string" where
  "rate_bucket key remoteAddr r =
     (let bucket = (case key of None \<Rightarrow> [] | Some f \<Rightarrow> f r) in
      if bucket = [] then SourceAddrKey (remoteAddr r) else bucket)"

definition RateLimitBy ::
  "(int \<Rightarrow> 'l \<Rightarrow> bool \<times> 'l) \<Rightarrow> ('r \<Rightarrow> string) option \<Rightarrow> ('r \<Rightarrow> string) \<Rightarrow> 'r \<Rightarrow> int \<Rightarrow> 'l IPRateLimiter \<Rightarrow>
   bool \<times> 'l IPRateLimiter" where
  "RateLimitBy Allow key remoteAddr r now rl = rl_allow Allow (rate_bucket key remoteAddr r) now rl"

section \<open>Histories\<close>

datatype rl_event = Arrive string | Sweep int

fun rl_run :: "(int \<Rightarrow> 'l \<Rightarrow> bool \<times> 'l) \<Rightarrow> (int \<times> rl_event) list \<Rightarrow> 'l IPRateLimiter \<Rightarrow>
    (string \<times> bool) list \<times> 'l IPRateLimiter" where
  "rl_run Allow [] rl = ([], rl)"
| "rl_run Allow ((now, Arrive k) # es) rl =
     (let (ok, rl1) = rl_allow Allow k now rl; (ds, rl2) = rl_run Allow es rl1 in ((k, ok) # ds, rl2))"
| "rl_run Allow ((now, Sweep idle) # es) rl = rl_run Allow es (rl_evict idle now rl)"

text \<open>The reference: a limiter that nobody shares.\<close>

fun private_limiter :: "(int \<Rightarrow> 'l \<Rightarrow> bool \<times> 'l) \<Rightarrow> int list \<Rightarrow> 'l \<Rightarrow> bool list" where
  "private_limiter Allow [] l = []"
| "private_limiter Allow (t # ts) l = (let (ok, l1) = Allow t l in ok # private_limiter Allow ts l1)"

text \<open>No sweep finds \<open>k\<close> idle for longer than its timeout.\<close>

fun kept_alive :: "string \<Rightarrow> int \<Rightarrow> (int \<times> rl_event) list \<Rightarrow> bool" where
  "kept_alive k seen [] = True"
| "kept_alive k seen ((now, Arrive j) # es) = kept_alive k (if j = k then now else seen) es"
| "kept_alive k seen ((now, Sweep idle) # es) = (\<not> seen < now - idle \<and> kept_alive k seen es)"

fun arrivals :: "string \<Rightarrow> (int \<times> rl_event) list \<Rightarrow> int list" where
  "arrivals k [] = []"
| "arrivals k ((now, Arrive j) # es) = (if j = k then now # arrivals k es else arrivals k es)"
| "arrivals k ((now, Sweep idle) # es) = arrivals k es"

definition decisions :: "string \<Rightarrow> (string \<times> bool) list \<Rightarrow> bool list" where
  "decisions k ds = map snd (filter (\<lambda>d. fst d = k) ds)"

lemma decisions_simps [simp]:
  "decisions k [] = []" "decisions k ((j, b) # ds) = (if j = k then b # decisions k ds else decisions k ds)"
  by (simp_all add: decisions_def)

definition rl_inv :: "'l IPRateLimiter \<Rightarrow> bool" where
  "rl_inv rl = (uniq_keys (rl_limiters rl) \<and> 0 < rl_maxEntries rl \<and> int (length (rl_limiters rl)) \<le> rl_maxEntries rl)"

lemma NewIPRateLimiter_inv: "NewIPRateLimiter fresh mx = Some rl \<Longrightarrow> rl_inv rl"
  by (auto simp: NewIPRateLimiter_def rl_inv_def split: if_splits)

lemma rl_allow_inv: "rl_inv rl \<Longrightarrow> rl_inv (snd (rl_allow Allow k now rl))"
  by (auto simp: rl_allow_def rl_inv_def length_update split: option.splits prod.splits)

lemma rl_evict_inv: "rl_inv rl \<Longrightarrow> rl_inv (rl_evict idle now rl)"
  by (auto simp: rl_evict_def rl_inv_def uniq_keys_filter intro: order_trans[rotated])

lemma rl_allow_other:
  "j \<noteq> k \<Longrightarrow> map_of (rl_limiters (snd (rl_allow Allow j now rl))) k = map_of (rl_limiters rl) k"
  by (auto simp: rl_allow_def split: option.splits prod.splits)

lemma rl_allow_held:
  "map_of (rl_limiters rl) k = Some e \<Longrightarrow>
     fst (rl_allow Allow k now rl) = fst (Allow now (lim_limiter e)) \<and>
     map_of (rl_limiters (snd (rl_allow Allow k now rl))) k =
       Some \<lparr>lim_limiter = snd (Allow now (lim_limiter e)), lim_lastSeen = now\<rparr>"
  by (simp add: rl_allow_def split: prod.splits)

lemma rl_evict_kept:
  assumes "uniq_keys (rl_limiters rl)" and "map_of (rl_limiters rl) k = Some e" and "\<not> lim_lastSeen e < now - idle"
  shows "map_of (rl_limiters (rl_evict idle now rl)) k = Some e"
proof -
  have "(k, e) \<in> set (rl_limiters rl)" using assms(2) by (rule map_of_SomeD)
  thus ?thesis using assms(1,3) by (auto simp: rl_evict_def uniq_keys_filter intro: map_of_is_SomeI)
qed

lemma rl_run_inv: "rl_inv rl \<Longrightarrow> rl_inv (snd (rl_run Allow es rl))"
proof (induction Allow es rl rule: rl_run.induct)
  case (2 Allow now k es rl)
  thus ?case using rl_allow_inv[OF 2(2), of Allow k now] by (auto split: prod.splits)
qed (auto simp: rl_evict_inv)

lemma rl_run_private:
  "rl_inv rl \<Longrightarrow> map_of (rl_limiters rl) k = Some e \<Longrightarrow> kept_alive k (lim_lastSeen e) es \<Longrightarrow>
     decisions k (fst (rl_run Allow es rl)) = private_limiter Allow (arrivals k es) (lim_limiter e)"
proof (induction Allow es rl arbitrary: e rule: rl_run.induct)
  case (2 Allow now j es rl)
  let ?r = "rl_allow Allow j now rl"
  have IH: "decisions k (fst (rl_run Allow es (snd ?r))) = private_limiter Allow (arrivals k es) (lim_limiter e')"
    if "map_of (rl_limiters (snd ?r)) k = Some e'" "kept_alive k (lim_lastSeen e') es" for e'
    using 2(1)[OF refl prod.collapse rl_allow_inv[OF 2(2)] that] by simp
  show ?case
  proof (cases "j = k")
    case True
    thus ?thesis using rl_allow_held[OF 2(3), of Allow now] IH 2(4) by (auto split: prod.splits)
  next
    case False
    have "map_of (rl_limiters (snd ?r)) k = Some e" by (rule trans[OF rl_allow_other[OF False] 2(3)])
    thus ?thesis using IH[of e] False 2(4) by (auto split: prod.splits)
  qed
next
  case (3 Allow now idle es rl)
  have "map_of (rl_limiters (rl_evict idle now rl)) k = Some e"
    using rl_evict_kept[of rl k e now idle] 3(2-4) by (simp add: rl_inv_def)
  thus ?case using 3(1)[OF rl_evict_inv[OF 3(2)]] 3(4) by simp
qed simp

section \<open>Properties\<close>

text \<open>\<^bold>\<open>Every metered caller has a bucket of its own.\<close> Take any limiter built by
  \<^verbatim>\<open>NewIPRateLimiter\<close>, with any history behind it, in which \<open>k\<close> holds a bucket. Over any further sequence of
  requests by any keys and of idle sweeps that do not find \<open>k\<close> idle, the answers \<open>k\<close> gets are those of a
  \<^verbatim>\<open>rate.Limiter\<close> that only \<open>k\<close> uses: no other key can spend, reset or take its bucket. The map never holds
  more than \<^verbatim>\<open>maxEntries\<close> buckets, whatever keys arrive.\<close>

theorem rate_limit_isolated:
  assumes "NewIPRateLimiter fresh mx = Some rl0" and "rl = snd (rl_run Allow past rl0)"
    and "map_of (rl_limiters rl) k = Some e" and "kept_alive k (lim_lastSeen e) es"
  shows "decisions k (fst (rl_run Allow es rl)) = private_limiter Allow (arrivals k es) (lim_limiter e) \<and>
    int (rl_Len (snd (rl_run Allow es rl))) \<le> rl_maxEntries (snd (rl_run Allow es rl))"
proof -
  have "rl_inv rl" using rl_run_inv[OF NewIPRateLimiter_inv[OF assms(1)]] assms(2) by simp
  thus ?thesis using rl_run_private[OF _ assms(3,4)] rl_run_inv[of rl Allow es]
    by (simp add: rl_inv_def rl_Len_def)
qed

definition toy_allow :: "int \<Rightarrow> nat \<Rightarrow> bool \<times> nat" where
  "toy_allow now tokens = (0 < tokens, tokens - 1)"

theorem rate_limit_isolated_witness:
  "decisions ''a'' (fst (rl_run toy_allow [(2, Arrive ''b''), (3, Arrive ''a''), (4, Arrive ''c''), (9, Sweep 7), (9, Arrive ''a'')]
     (snd (rl_run toy_allow [(1, Arrive ''a'')] \<lparr>rl_limiters = [], rl_fresh = 2, rl_maxEntries = 2\<rparr>)))) = [True, False]"
proof -
  let ?rl = "snd (rl_run toy_allow [(1, Arrive ''a'')] \<lparr>rl_limiters = [], rl_fresh = 2, rl_maxEntries = 2\<rparr>)"
  let ?es = "[(2, Arrive ''b''), (3, Arrive ''a''), (4, Arrive ''c''), (9, Sweep 7), (9, Arrive ''a'')]"
  have "NewIPRateLimiter (2::nat) 2 = Some \<lparr>rl_limiters = [], rl_fresh = 2, rl_maxEntries = 2\<rparr>"
    by (simp add: NewIPRateLimiter_def)
  moreover have "map_of (rl_limiters ?rl) ''a'' = Some \<lparr>lim_limiter = 1, lim_lastSeen = 1\<rparr>"
    by (simp add: rl_allow_def toy_allow_def)
  ultimately show ?thesis
    using rate_limit_isolated[where es = ?es and k = "''a''" and rl = ?rl and Allow = toy_allow and past = "[(1, Arrive ''a'')]"]
    by (simp add: toy_allow_def)
qed

end
