(* ===== verification/Cds_Service.thy ===== *)
theory Cds_Service
  imports Attest Secret_Operator Allowlist_Handler Rate_Limit
begin

text \<open>
  The CDS process as a whole (\<^verbatim>\<open>src/internal/cmds/cds/routes.go\<close>, \<^verbatim>\<open>run.go\<close>): how a start checks its configuration and builds the
  shared state, which limiter and body cap guard each route, and how a request changes the state its handler shares with the others. The
  router is third-party code: a request is given with the route it was dispatched to. Requests are served one at a time; what two
  requests do to one component when they overlap is the subject of that component's theory. The two rate limiters
  are referred to by address, because the router tells them apart by it.
\<close>

section \<open>The router\<close>

record ('p, 'k, 'e, 'v, 'i, 'l) cds_external =
  cx_attest :: "('p, 'k, 'e, 'v, 'i) attest_external"
  cx_allowlist :: "string \<Rightarrow> Allowlist option"
  cx_workload :: "string \<Rightarrow> Workload option"
  cx_put :: "string \<Rightarrow> PutRequest option"
  cx_Allow :: "int \<Rightarrow> 'l \<Rightarrow> bool \<times> 'l"

abbreviation cx_release :: "('p, 'k, 'e, 'v, 'i, 'l) cds_external \<Rightarrow> ('p, 'k) external" where
  "cx_release x \<equiv> external.truncate (cx_attest x)"

abbreviation cx_H :: "('p, 'k, 'e, 'v, 'i, 'l) cds_external \<Rightarrow> hash" where
  "cx_H x \<equiv> x_H (cx_attest x)"

type_synonym 'w authorizer = "request \<Rightarrow> string \<Rightarrow> 'w + unit"

record ('k, 'w) ExplainHandler =
  xh_Handler :: "'k SecretHandler"
  xh_Authorize :: "'w authorizer option"

record ('k, 'i, 'w) dependencies =
  dp_AttestHandler :: "('k, 'i) AttestHandler"
  dp_AllowlistHandler :: "'w Handler"
  dp_CACertPEM :: string
  dp_OperatorKeysPEM :: string
  dp_MeasurementsDoc :: string
  dp_RateLimiter :: "nat option"
  dp_ChallengeLimiter :: "nat option"
  dp_MaxRequestSize :: int
  dp_SecretsHandler :: "'k SecretHandler option"
  dp_SecretsOperator :: "'w OperatorHandler option"
  dp_SecretsExplain :: "('k, 'w) ExplainHandler option"

datatype route = RHealthz | RReadyz | RAuthenticate | RAttest | RAllowlist | RMutate mutation | RSecretChallenge | RSecrets | RSecretPut
  | RExplain string | RCA | ROperatorKeys | RMeasurements

text \<open>The middleware of a route: none, or a limiter, whether it is keyed by sandbox, and a body cap.\<close>

datatype guard = Open | Limited nat bool int

definition allowlistWriteBodyCap :: int where
  "allowlistWriteBodyCap = 2 ^ 20"

definition protected :: "('k, 'i, 'w) dependencies \<Rightarrow> guard" where
  "protected d = Limited (the (dp_RateLimiter d)) False (dp_MaxRequestSize d)"

definition challengeProtected :: "('k, 'i, 'w) dependencies \<Rightarrow> guard" where
  "challengeProtected d = Limited (the (dp_ChallengeLimiter d)) False (dp_MaxRequestSize d)"

definition allowlistWrite :: "('k, 'i, 'w) dependencies \<Rightarrow> guard" where
  "allowlistWrite d = Limited (the (dp_RateLimiter d)) False allowlistWriteBodyCap"

definition perSandbox :: "('k, 'i, 'w) dependencies \<Rightarrow> guard" where
  "perSandbox d = Limited (the (dp_RateLimiter d)) True (dp_MaxRequestSize d)"

text \<open>\<^const>\<open>None\<close> is a panic; the router gives the middleware of every route that is registered.\<close>

definition newRouter :: "('k, 'i, 'w) dependencies \<Rightarrow> (route \<Rightarrow> guard option) option" where
  "newRouter d =
     (if dp_MaxRequestSize d \<le> 0 then None
      else if dp_RateLimiter d = None then None
      else if dp_ChallengeLimiter d = None then None
      else if dp_ChallengeLimiter d = dp_RateLimiter d then None
      else if dp_SecretsHandler d \<noteq> None \<and> (dp_SecretsOperator d = None \<or> dp_SecretsExplain d = None) then None
      else Some (\<lambda>route. case route of
          RHealthz \<Rightarrow> Some Open
        | RReadyz \<Rightarrow> Some Open
        | RAuthenticate \<Rightarrow> Some (challengeProtected d)
        | RAttest \<Rightarrow> Some (protected d)
        | RAllowlist \<Rightarrow> Some Open
        | RMutate _ \<Rightarrow> Some (allowlistWrite d)
        | RSecretChallenge \<Rightarrow> if dp_SecretsHandler d \<noteq> None then Some (perSandbox d) else None
        | RSecrets \<Rightarrow> if dp_SecretsHandler d \<noteq> None then Some (perSandbox d) else None
        | RSecretPut \<Rightarrow> if dp_SecretsHandler d \<noteq> None then Some (allowlistWrite d) else None
        | RExplain _ \<Rightarrow> if dp_SecretsHandler d \<noteq> None then Some (allowlistWrite d) else None
        | RCA \<Rightarrow> Some Open
        | ROperatorKeys \<Rightarrow> Some Open
        | RMeasurements \<Rightarrow> Some Open))"

text \<open>\<^verbatim>\<open>http.MaxBytesHandler\<close>: a reader that fails once the cap is exceeded.\<close>

definition capBody :: "int \<Rightarrow> 'p tls_request \<Rightarrow> 'p tls_request" where
  "capBody mx r = (if int (length (fst (rq_Body r))) \<le> mx then r else r\<lparr>rq_Body := (take (nat mx) (fst (rq_Body r)), True)\<rparr>)"

section \<open>Shared state and dispatch\<close>

record 'l cds_state =
  cd_limiters :: "nat \<Rightarrow> 'l IPRateLimiter"
  cd_challenges :: ChallengeStore
  cd_cache :: policySnapshotCache
  cd_bindings :: Ledger
  cd_secret_challenges :: ChallengeStore
  cd_secrets :: MemoryStore
  cd_policy :: CachedPolicy
  cd_allowlist :: Store

text \<open>What a request meets: the clock whenever it is read, random bytes, database faults, a timeout and the readiness check.\<close>

record cds_moment =
  cm_now :: int
  cm_nonce :: string
  cm_create :: int
  cm_consume :: int
  cm_lookup :: int
  cm_record :: int
  cm_flt1 :: fault
  cm_flt2 :: fault
  cm_generated :: "string option"
  cm_timeout :: bool
  cm_sign :: sign_moment
  cm_ready :: bool

datatype 'p cds_response = Plain response | Issued "'p leaf_template" | Refused nat attest_code | Explained ExplainResponse

definition attest_view :: "'l cds_state \<Rightarrow> attest_state" where
  "attest_view s = \<lparr>as_challenges = cd_challenges s, as_cache = Some (cd_cache s), as_bindings = Some (cd_bindings s)\<rparr>"

definition put_attest :: "attest_state \<Rightarrow> 'l cds_state \<Rightarrow> 'l cds_state" where
  "put_attest a s = s\<lparr>cd_challenges := as_challenges a, cd_cache := the (as_cache a), cd_bindings := the (as_bindings a)\<rparr>"

definition secret_view :: "'l cds_state \<Rightarrow> secret_state" where
  "secret_view s = \<lparr>ss_store = cd_secrets s, ss_challenges = Some (cd_secret_challenges s), ss_bindings = Some (cd_bindings s),
     ss_policy = cd_policy s\<rparr>"

definition put_secret :: "secret_state \<Rightarrow> 'l cds_state \<Rightarrow> 'l cds_state" where
  "put_secret a s = s\<lparr>cd_secrets := ss_store a, cd_secret_challenges := the (ss_challenges a), cd_policy := ss_policy a\<rparr>"

definition attest_moment_of :: "cds_moment \<Rightarrow> 'l cds_state \<Rightarrow> attest_moment" where
  "attest_moment_of m s = \<lparr>am_consume = cm_consume m, am_gen_store = cd_allowlist s, am_flt = cm_flt2 m, am_load_store = cd_allowlist s,
     am_timeout = cm_timeout m, am_record = cm_record m, am_sign = cm_sign m\<rparr>"

definition policy_read_of :: "cds_moment \<Rightarrow> 'l cds_state \<Rightarrow> policy_read" where
  "policy_read_of m s = \<lparr>pr_flt1 = cm_flt1 m, pr_store1 = cd_allowlist s, pr_flt2 = cm_flt2 m, pr_store2 = cd_allowlist s\<rparr>"

definition moments_of :: "cds_moment \<Rightarrow> 'l cds_state \<Rightarrow> moments" where
  "moments_of m s = \<lparr>mo_consume = cm_consume m, mo_lookup = cm_lookup m, mo_policy = policy_read_of m s, mo_generated = cm_generated m\<rparr>"

definition HandleAuthenticate :: "string \<Rightarrow> int \<Rightarrow> ChallengeStore \<Rightarrow> response \<times> ChallengeStore" where
  "HandleAuthenticate challenge now cs =
     (\<lparr>rs_Status = StatusOK, rs_ETag = None, rs_Body = Some (encode (JObj [(''challenge'', JStr (StdEncode challenge))]) @ [CHR 0x0A])\<rparr>,
      Create challenge now cs)"

definition HandleReadyz :: "bool \<Rightarrow> response" where
  "HandleReadyz ready = status (if ready then StatusOK else StatusServiceUnavailable)"

definition document :: "string \<Rightarrow> response" where
  "document body = \<lparr>rs_Status = StatusOK, rs_ETag = None, rs_Body = Some body\<rparr>"

definition handleCA :: "string \<Rightarrow> response" where
  "handleCA pem = document pem"

definition handleMeasurements :: "string \<Rightarrow> response" where
  "handleMeasurements doc = (if length doc = 0 then status StatusInternalServerError else document doc)"

definition handleOperatorKeys :: "string \<Rightarrow> response" where
  "handleOperatorKeys pem = (if length pem = 0 then status StatusNotFound else document pem)"

definition dispatch ::
  "('p, 'k, 'e, 'v, 'i, 'l) cds_external \<Rightarrow> ('k, 'i, 'w) dependencies \<Rightarrow> cds_moment \<Rightarrow> route \<Rightarrow> 'p tls_request \<Rightarrow> 'l cds_state \<Rightarrow>
   'p cds_response \<times> 'l cds_state" where
  "dispatch x d m route r s =
     (case route of
        RHealthz \<Rightarrow> (Plain (status StatusOK), s)
      | RReadyz \<Rightarrow> (Plain (HandleReadyz (cm_ready m)), s)
      | RAuthenticate \<Rightarrow>
          (case HandleAuthenticate (cm_nonce m) (cm_create m) (cd_challenges s) of (resp, cs) \<Rightarrow> (Plain resp, s\<lparr>cd_challenges := cs\<rparr>))
      | RAttest \<Rightarrow>
          (case HandleAttest (cx_attest x) (dp_AttestHandler d) (attest_moment_of m s) (request.truncate r) (attest_view s) of
             (Inl (st, code), a) \<Rightarrow> (Refused st code, put_attest a s)
           | (Inr leaf, a) \<Rightarrow> (Issued leaf, put_attest a s))
      | RAllowlist \<Rightarrow> (Plain (HandleList (cm_flt1 m) (cd_allowlist s) (cm_flt2 m) (cd_allowlist s) (request.truncate r)), s)
      | RMutate mu \<Rightarrow>
          (case serve_mutation (cx_allowlist x) (cx_workload x) (cx_H x) (cm_flt1 m) (dp_AllowlistHandler d) mu (request.truncate r)
                  (cd_allowlist s) of
             (resp, st) \<Rightarrow> (Plain resp, s\<lparr>cd_allowlist := st\<rparr>))
      | RSecretChallenge \<Rightarrow>
          (case HandleAuthenticate (cm_nonce m) (cm_create m) (cd_secret_challenges s) of
             (resp, cs) \<Rightarrow> (Plain resp, s\<lparr>cd_secret_challenges := cs\<rparr>))
      | RSecrets \<Rightarrow>
          (case dp_SecretsHandler d of
             None \<Rightarrow> (Plain (status StatusNotFound), s)
           | Some h \<Rightarrow> (case ServeSecret (cx_release x) h (moments_of m s) r (secret_view s) of (resp, a) \<Rightarrow> (Plain resp, put_secret a s)))
      | RSecretPut \<Rightarrow>
          (case dp_SecretsOperator d of
             None \<Rightarrow> (Plain (status StatusNotFound), s)
           | Some h \<Rightarrow> (case ServeOperator (cx_put x) h r (cd_secrets s) of (resp, st) \<Rightarrow> (Plain resp, s\<lparr>cd_secrets := st\<rparr>)))
      | RExplain sid \<Rightarrow>
          (case dp_SecretsExplain d of
             None \<Rightarrow> (Plain (status StatusNotFound), s)
           | Some h \<Rightarrow>
               (case ServeExplain (xh_Authorize h) (cx_H x) (xh_Handler h) (Some (cd_bindings s)) (cm_lookup m) (policy_read_of m s)
                       (cd_policy s) sid (request.truncate r) of
                  (Inl st, cp) \<Rightarrow> (Plain (status st), s\<lparr>cd_policy := cp\<rparr>)
                | (Inr e, cp) \<Rightarrow> (Explained e, s\<lparr>cd_policy := cp\<rparr>)))
      | RCA \<Rightarrow> (Plain (handleCA (dp_CACertPEM d)), s)
      | ROperatorKeys \<Rightarrow> (Plain (handleOperatorKeys (dp_OperatorKeysPEM d)), s)
      | RMeasurements \<Rightarrow> (Plain (handleMeasurements (dp_MeasurementsDoc d)), s))"

abbreviation "StatusTooManyRequests \<equiv> (429 :: nat)"

text \<open>A request as it leaves the middleware, or \<^const>\<open>None\<close> when the limiter refused it.\<close>

definition pass_guard ::
  "('p, 'k, 'e, 'v, 'i, 'l) cds_external \<Rightarrow> guard \<Rightarrow> cds_moment \<Rightarrow> 'p tls_request \<Rightarrow> 'l cds_state \<Rightarrow> 'p tls_request option \<times> 'l cds_state" where
  "pass_guard x g m r s =
     (case g of
        Open \<Rightarrow> (Some r, s)
      | Limited a sandboxed mx \<Rightarrow>
          (case RateLimitBy (cx_Allow x) (if sandboxed then Some (RateKey (cx_release x)) else None) rq_RemoteAddr r (cm_now m) (cd_limiters s a) of
             (ok, rl) \<Rightarrow> (if ok then Some (capBody mx r) else None, s\<lparr>cd_limiters := (cd_limiters s)(a := rl)\<rparr>)))"

definition ServeCDS ::
  "('p, 'k, 'e, 'v, 'i, 'l) cds_external \<Rightarrow> ('k, 'i, 'w) dependencies \<Rightarrow> (route \<Rightarrow> guard option) \<Rightarrow> cds_moment \<Rightarrow> route \<Rightarrow> 'p tls_request \<Rightarrow>
   'l cds_state \<Rightarrow> 'p cds_response \<times> 'l cds_state" where
  "ServeCDS x d router m route r s =
     (case router route of
        None \<Rightarrow> (Plain (status StatusNotFound), s)
      | Some g \<Rightarrow>
          (case pass_guard x g m r s of
             (None, s') \<Rightarrow> (Plain (status StatusTooManyRequests), s')
           | (Some r', s') \<Rightarrow> dispatch x d m route r' s'))"

section \<open>Starting up\<close>

record config =
  cf_readTimeout :: int
  cf_readHeaderTimeout :: int
  cf_writeTimeout :: int
  cf_idleTimeout :: int
  cf_maxHeaderBytes :: int
  cf_namedCertTTL :: int
  cf_maxRequestSize :: int
  cf_readinessInterval :: int
  cf_secretsMaxPaths :: int
  cf_secretsMaxPathsPerWorkload :: int
  cf_secretsMaxValueBytes :: int
  cf_sandboxLedgerMax :: int
  cf_certTTL :: int
  cf_challengeTTL :: int
  cf_rateLimiterMax :: int
  cf_sanValidation :: bool
  cf_measurements :: "string list"

datatype config_error = CfTimeout | CfHeaderBytes | CfNamedTTL | CfNamedTTLCeiling | CfRequestSize | CfReadiness | CfSecretsBounds
  | CfPerWorkload | CfValueBytes | CfLimiter | CfSeedParse | CfSeedStore store_error | CfPanic

abbreviation (input) GeneratedValueBytes :: int where "GeneratedValueBytes \<equiv> 32"

definition validateSecretsConfig :: "config \<Rightarrow> config_error + unit" where
  "validateSecretsConfig cfg =
     bindE (guardE (\<not> (cf_secretsMaxPaths cfg \<le> 0 \<or> cf_secretsMaxPathsPerWorkload cfg \<le> 0 \<or> cf_sandboxLedgerMax cfg \<le> 0)) CfSecretsBounds) (\<lambda>_.
     bindE (guardE (\<not> cf_secretsMaxPathsPerWorkload cfg \<ge> cf_secretsMaxPaths cfg) CfPerWorkload) (\<lambda>_.
     guardE (\<not> cf_secretsMaxValueBytes cfg < GeneratedValueBytes) CfValueBytes))"

definition validateConfig :: "config \<Rightarrow> config_error + unit" where
  "validateConfig cfg =
     bindE (guardE (list_all (\<lambda>t. \<not> t < 0) [cf_readTimeout cfg, cf_readHeaderTimeout cfg, cf_writeTimeout cfg, cf_idleTimeout cfg]) CfTimeout) (\<lambda>_.
     bindE (guardE (\<not> cf_maxHeaderBytes cfg < 0) CfHeaderBytes) (\<lambda>_.
     bindE (guardE (\<not> cf_namedCertTTL cfg \<le> 0) CfNamedTTL) (\<lambda>_.
     bindE (guardE (\<not> cf_namedCertTTL cfg > MaxNamedLeafTTL) CfNamedTTLCeiling) (\<lambda>_.
     bindE (guardE (\<not> cf_maxRequestSize cfg \<le> 0) CfRequestSize) (\<lambda>_.
     bindE (guardE (\<not> cf_readinessInterval cfg \<le> 0) CfReadiness) (\<lambda>_.
     validateSecretsConfig cfg))))))"

definition newSecretsStore :: "config \<Rightarrow> MemoryStore option" where
  "newSecretsStore cfg = NewMemoryStore (cf_secretsMaxPaths cfg) (cf_secretsMaxPathsPerWorkload cfg) (cf_secretsMaxValueBytes cfg)"

definition secretsEnabled :: "config \<Rightarrow> 'k inventorySource option \<Rightarrow> InventoryHosts option \<Rightarrow> bool" where
  "secretsEnabled cfg sandboxDigests inventoryHosts =
     (if sandboxDigests = None then False
      else if (case inventoryHosts of None \<Rightarrow> True | Some hosts \<Rightarrow> hosts_Empty hosts) then False
      else if length (cf_measurements cfg) = 0 then False
      else True)"

definition NormalizeMeasurement :: "string \<Rightarrow> string" where
  "NormalizeMeasurement measurement = ToLower (TrimSpace measurement)"

text \<open>A Go map that is nil or empty is an empty association list.\<close>

definition parseReferenceDigests :: "string list \<Rightarrow> (string \<times> bool) list" where
  "parseReferenceDigests raw =
     fold (\<lambda>m allowed. let m = NormalizeMeasurement m in if m \<noteq> [] then AList.update m True allowed else allowed) raw []"

definition readinessFn :: "bool \<Rightarrow> int option \<Rightarrow> int \<Rightarrow> int \<Rightarrow> bool" where
  "readinessFn svcReady caNotAfter minCAValidity now =
     (if \<not> svcReady then False
      else (case caNotAfter of
              None \<Rightarrow> False
            | Some notAfter \<Rightarrow> if minCAValidity > 0 \<and> notAfter - now < minCAValidity then False else True))"

definition seedStore :: "(string \<Rightarrow> Allowlist option) \<Rightarrow> hash \<Rightarrow> fault \<Rightarrow> string \<Rightarrow> Store \<Rightarrow> config_error + Store" where
  "seedStore dec H flt data s =
     (case ParseJSON dec H data of
        None \<Rightarrow> Inl CfSeedParse
      | Some seed \<Rightarrow> (case SeedWorkloads flt (elems (al_Workloads seed)) s of (Inl e, _) \<Rightarrow> Inl (CfSeedStore e) | (Inr _, s') \<Rightarrow> Inr s'))"

text \<open>What the calls outside return at start: a fresh bucket, the operator keys' verifier and bundle if configured, the opened store and the bytes
  of the seed, the generated CA, the compiled patterns, the pins, the inventory client and its bound.\<close>

record ('k, 'i, 'w, 'l) startup =
  su_fresh :: 'l
  su_disabled :: 'w
  su_operator :: "('w authorizer \<times> string) option"
  su_store :: Store
  su_seed :: "string option"
  su_seed_flt :: fault
  su_caChainPEM :: string
  su_measurementsDoc :: string
  su_policy :: CSRPolicy
  su_RTMRs :: "(int \<times> string) list"
  su_images :: "'i list"
  su_sandboxDigests :: "'k inventorySource option"
  su_inventoryHosts :: "InventoryHosts option"

definition allowlistOf :: "('p, 'k, 'e, 'v, 'i, 'l) cds_external \<Rightarrow> ('k, 'i, 'w, 'l) startup \<Rightarrow> config_error + Store" where
  "allowlistOf x su =
     (case su_seed su of None \<Rightarrow> Inr (su_store su) | Some data \<Rightarrow> seedStore (cx_allowlist x) (cx_H x) (su_seed_flt su) data (su_store su))"

text \<open>Without an RA-TLS platform the client stays a nil pointer. Stored in the interface field of the attest handler it is not the nil interface, so the
  handler's checks for a missing client pass and a call dereferences the nil pointer. The panic ends the request (\<^verbatim>\<open>net/http\<close> recovers it and drops the connection)
  after the challenge was consumed and before anything else changed; the model has it as a call that fails.\<close>

definition dependencies_of :: "config \<Rightarrow> ('k, 'i, 'w, 'l) startup \<Rightarrow> ('k, 'i, 'w) dependencies" where
  "dependencies_of cfg su =
     (let writeAuthorizer = (case su_operator su of None \<Rightarrow> (\<lambda>_ _. Inl (su_disabled su)) | Some (a, _) \<Rightarrow> a);
          h = \<lparr>sh_Inventory = su_sandboxDigests su, sh_InventoryHosts = su_inventoryHosts su\<rparr>;
          enabled = secretsEnabled cfg (su_sandboxDigests su) (su_inventoryHosts su) in
      \<lparr>dp_AttestHandler = \<lparr>ah_CertTTL = cf_certTTL cfg, ah_Measurements = parseReferenceDigests (cf_measurements cfg), ah_RTMRs = su_RTMRs su,
         ah_Images = su_images su, ah_Policy = su_policy su, ah_SANValidation = cf_sanValidation cfg, ah_AllowlistStore = True,
         ah_NamedCertTTL = cf_namedCertTTL cfg, ah_SandboxDigests = Some (case su_sandboxDigests su of None \<Rightarrow> \<lparr>is_InventoryKey = (\<lambda>_. None), is_FetchSandbox = (\<lambda>_ _. None)\<rparr> | Some c \<Rightarrow> c),
         ah_InventoryHosts = su_inventoryHosts su,
         ah_CA_Cert = True, ah_CA_Key = True, ah_CAChainPEM = su_caChainPEM su\<rparr>,
       dp_AllowlistHandler = \<lparr>h_WriteAuthorizer = Some writeAuthorizer, h_MaxWriteBodyBytes = allowlistWriteBodyCap\<rparr>,
       dp_CACertPEM = su_caChainPEM su,
       dp_OperatorKeysPEM = (case su_operator su of None \<Rightarrow> [] | Some (_, pem) \<Rightarrow> pem),
       dp_MeasurementsDoc = su_measurementsDoc su,
       dp_RateLimiter = Some 1, dp_ChallengeLimiter = Some 0,
       dp_MaxRequestSize = cf_maxRequestSize cfg,
       dp_SecretsHandler = (if enabled then Some h else None),
       dp_SecretsOperator = (if enabled then Some \<lparr>oh_Authorize = Some writeAuthorizer, oh_MaxBodyBytes = allowlistWriteBodyCap\<rparr> else None),
       dp_SecretsExplain = (if enabled then Some \<lparr>xh_Handler = h, xh_Authorize = Some writeAuthorizer\<rparr> else None)\<rparr>)"

definition run_cds ::
  "('p, 'k, 'e, 'v, 'i, 'l) cds_external \<Rightarrow> config \<Rightarrow> ('k, 'i, 'w, 'l) startup \<Rightarrow>
   config_error + (('k, 'i, 'w) dependencies \<times> (route \<Rightarrow> guard option) \<times> 'l cds_state)" where
  "run_cds x cfg su =
     bindE (validateConfig cfg) (\<lambda>_.
     bindE (case NewIPRateLimiter (su_fresh su) (cf_rateLimiterMax cfg) of None \<Rightarrow> Inl CfLimiter | Some l \<Rightarrow> Inr l) (\<lambda>challengeLimiter.
     bindE (case NewIPRateLimiter (su_fresh su) (cf_rateLimiterMax cfg) of None \<Rightarrow> Inl CfLimiter | Some l \<Rightarrow> Inr l) (\<lambda>rateLimiter.
     bindE (allowlistOf x su) (\<lambda>store.
     bindE (case newSecretsStore cfg of None \<Rightarrow> Inl CfPanic | Some ms \<Rightarrow> Inr ms) (\<lambda>secrets.
     bindE (case newRouter (dependencies_of cfg su) of None \<Rightarrow> Inl CfPanic | Some router \<Rightarrow> Inr router) (\<lambda>router.
       Inr (dependencies_of cfg su, router,
         \<lparr>cd_limiters = (\<lambda>a. if a = 0 then challengeLimiter else rateLimiter),
          cd_challenges = NewChallengeStore (cf_challengeTTL cfg), cd_cache = \<lparr>pc_held = None, pc_gen = 0\<rparr>,
          cd_bindings = NewLedger (CapTTL (cf_certTTL cfg) MaxLeafTTL) (cf_sandboxLedgerMax cfg),
          cd_secret_challenges = NewChallengeStore (cf_challengeTTL cfg), cd_secrets = secrets, cd_policy = NewCachedPolicy,
          cd_allowlist = store\<rparr>)))))))"

section \<open>Histories\<close>

datatype 'p cds_event = Serve route cds_moment "'p tls_request" | SweepLedger int | SweepLimiter nat int int

fun cds_step ::
  "('p, 'k, 'e, 'v, 'i, 'l) cds_external \<Rightarrow> ('k, 'i, 'w) dependencies \<Rightarrow> (route \<Rightarrow> guard option) \<Rightarrow> 'p cds_event \<Rightarrow> 'l cds_state \<Rightarrow> 'l cds_state" where
  "cds_step x d router (Serve route m r) s = snd (ServeCDS x d router m route r s)"
| "cds_step x d router (SweepLedger now) s = s\<lparr>cd_bindings := eviction_tick now (cd_bindings s)\<rparr>"
| "cds_step x d router (SweepLimiter a idle now) s = s\<lparr>cd_limiters := (cd_limiters s)(a := rl_evict idle now (cd_limiters s a))\<rparr>"

abbreviation cds_run ::
  "('p, 'k, 'e, 'v, 'i, 'l) cds_external \<Rightarrow> ('k, 'i, 'w) dependencies \<Rightarrow> (route \<Rightarrow> guard option) \<Rightarrow> 'p cds_event list \<Rightarrow> 'l cds_state \<Rightarrow> 'l cds_state" where
  "cds_run x d router es s \<equiv> fold (cds_step x d router) es s"

section \<open>Frames\<close>

lemma pass_guard_frame:
  assumes "pass_guard x g m r s = (res, s')"
  shows "attest_view s' = attest_view s" "secret_view s' = secret_view s" "cd_allowlist s' = cd_allowlist s"
    "cd_challenges s' = cd_challenges s" "cd_secret_challenges s' = cd_secret_challenges s" "cd_secrets s' = cd_secrets s"
    "cd_bindings s' = cd_bindings s" "cd_policy s' = cd_policy s"
  using assms by (auto simp: pass_guard_def attest_view_def secret_view_def split: guard.splits prod.splits if_splits)

lemma pass_guard_request: "pass_guard x g m r s = (Some r', s') \<Longrightarrow> r' = r \<or> (\<exists>mx. r' = capBody mx r)"
  by (auto simp: pass_guard_def split: guard.splits prod.splits if_splits)

lemma capBody_fields [simp]:
  "rq_Method (capBody mx r) = rq_Method r" "rq_Header (capBody mx r) = rq_Header r" "tr_EscapedPath (capBody mx r) = tr_EscapedPath r"
  "tr_TLS (capBody mx r) = tr_TLS r" "Header_Get (request.truncate (capBody mx r)) k = Header_Get (request.truncate r) k"
  by (simp_all add: capBody_def Header_Get_def request.truncate_def)

text \<open>The proof of a caller's identity does not depend on the body.\<close>

lemma authentic_capBody [simp]: "authentic x h b now (capBody mx r) nonce sid host = authentic x h b now r nonce sid host"
  by (simp add: authentic_def parseToken_def)

lemma ServeCDS_cases:
  assumes "ServeCDS x d router m route r s = (resp, s')"
  obtains (stopped) "attest_view s' = attest_view s" "secret_view s' = secret_view s" "cd_allowlist s' = cd_allowlist s"
      "\<exists>st. resp = Plain (status st) \<and> st \<in> {StatusNotFound, StatusTooManyRequests}"
  | (served) r' s1 where "r' = r \<or> (\<exists>mx. r' = capBody mx r)" "attest_view s1 = attest_view s" "secret_view s1 = secret_view s"
      "cd_allowlist s1 = cd_allowlist s" "dispatch x d m route r' s1 = (resp, s')"
proof (cases "router route")
  case None
  show thesis by (rule stopped) (use assms None in \<open>auto simp: ServeCDS_def\<close>)
next
  case (Some g)
  obtain res s1 where p: "pass_guard x g m r s = (res, s1)" by fastforce
  note frame = pass_guard_frame[OF p]
  show thesis
  proof (cases res)
    case None
    show thesis by (rule stopped) (use assms Some p frame None in \<open>auto simp: ServeCDS_def\<close>)
  next
    case (Some r')
    have "dispatch x d m route r' s1 = (resp, s')" using assms \<open>router route = Some g\<close> p Some by (simp add: ServeCDS_def)
    thus thesis using served[OF _ frame(1-3)] pass_guard_request[OF p[unfolded Some]] by blast
  qed
qed

text \<open>Each shared component is changed by its own routes only.\<close>

lemma views [simp]:
  "as_challenges (attest_view s) = cd_challenges s" "as_cache (attest_view s) = Some (cd_cache s)" "as_bindings (attest_view s) = Some (cd_bindings s)"
  "ss_store (secret_view s) = cd_secrets s" "ss_challenges (secret_view s) = Some (cd_secret_challenges s)"
  "ss_bindings (secret_view s) = Some (cd_bindings s)" "ss_policy (secret_view s) = cd_policy s"
  by (simp_all add: attest_view_def secret_view_def)

lemma view_fields:
  "attest_view s' = attest_view s \<Longrightarrow> cd_challenges s' = cd_challenges s \<and> cd_cache s' = cd_cache s \<and> cd_bindings s' = cd_bindings s"
  "secret_view s' = secret_view s \<Longrightarrow> cd_secrets s' = cd_secrets s \<and> cd_secret_challenges s' = cd_secret_challenges s \<and>
     cd_bindings s' = cd_bindings s \<and> cd_policy s' = cd_policy s"
  by (simp_all add: attest_view_def secret_view_def)

lemma dispatch_allowlist:
  assumes "dispatch x d m route r s = (resp, s')"
  shows "cd_allowlist s' = (case route of RMutate mu \<Rightarrow> snd (serve_mutation (cx_allowlist x) (cx_workload x) (cx_H x) (cm_flt1 m)
    (dp_AllowlistHandler d) mu (request.truncate r) (cd_allowlist s)) | _ \<Rightarrow> cd_allowlist s)"
  using assms by (auto simp: dispatch_def put_attest_def put_secret_def split: route.splits prod.splits sum.splits option.splits)

lemma dispatch_bindings:
  assumes "dispatch x d m route r s = (resp, s')"
  shows "cd_bindings s' = (case route of RAttest \<Rightarrow> the (as_bindings (snd (HandleAttest (cx_attest x) (dp_AttestHandler d) (attest_moment_of m s)
    (request.truncate r) (attest_view s)))) | _ \<Rightarrow> cd_bindings s)"
  using assms by (auto simp: dispatch_def put_attest_def put_secret_def split: route.splits prod.splits sum.splits option.splits)

lemma dispatch_secrets:
  assumes "dispatch x d m route r s = (resp, s')"
  shows "cd_secrets s' = (case route of
      RSecrets \<Rightarrow> (case dp_SecretsHandler d of None \<Rightarrow> cd_secrets s
        | Some h \<Rightarrow> ss_store (snd (ServeSecret (cx_release x) h (moments_of m s) r (secret_view s))))
    | RSecretPut \<Rightarrow> (case dp_SecretsOperator d of None \<Rightarrow> cd_secrets s | Some h \<Rightarrow> snd (ServeOperator (cx_put x) h r (cd_secrets s)))
    | _ \<Rightarrow> cd_secrets s)"
  using assms by (auto simp: dispatch_def put_attest_def put_secret_def split: route.splits prod.splits sum.splits option.splits)

lemma dispatch_policy:
  assumes "dispatch x d m route r s = (resp, s')"
  shows "cd_policy s' = cd_policy s \<or> cd_policy s' = snd (cached_Allowlist (policy_read_of m s) (cd_policy s))"
  using assms
  by (auto simp: dispatch_def put_attest_def put_secret_def ServeSecret_def release_authorize_def ServeExplain_def explain_def moments_of_def Let_def
      split: route.splits prod.splits sum.splits option.splits if_splits)

lemma dispatch_challenges:
  assumes "dispatch x d m route r s = (resp, s')"
  shows "cd_challenges s' = (case route of RAuthenticate \<Rightarrow> Create (cm_nonce m) (cm_create m) (cd_challenges s)
      | RAttest \<Rightarrow> as_challenges (snd (HandleAttest (cx_attest x) (dp_AttestHandler d) (attest_moment_of m s) (request.truncate r) (attest_view s)))
      | _ \<Rightarrow> cd_challenges s)"
    "cd_secret_challenges s' = (case route of RSecretChallenge \<Rightarrow> Create (cm_nonce m) (cm_create m) (cd_secret_challenges s)
      | RSecrets \<Rightarrow> (case dp_SecretsHandler d of None \<Rightarrow> cd_secret_challenges s
          | Some h \<Rightarrow> the (ss_challenges (snd (ServeSecret (cx_release x) h (moments_of m s) r (secret_view s)))))
      | _ \<Rightarrow> cd_secret_challenges s)"
  using assms
  by (auto simp: dispatch_def HandleAuthenticate_def put_attest_def put_secret_def split: route.splits prod.splits sum.splits option.splits)

section \<open>The policy that releases are decided by\<close>

text \<open>A decoded Go map has one value per key.\<close>

definition decodes_maps :: "('p, 'k, 'e, 'v, 'i, 'l) cds_external \<Rightarrow> bool" where
  "decodes_maps x \<longleftrightarrow> (\<forall>b al. cx_allowlist x b = Some al \<longrightarrow> uniq_keys (elems (al_Workloads al)))"

lemma normalize_entries_names: "normalize_entries H True es = Inr out \<Longrightarrow> map fst out = map fst es"
  by (induction es arbitrary: out) (auto simp: bindE_Inr_iff split: if_splits)

lemma ParseJSON_uniq:
  assumes "ParseJSON dec H b = Some al" and "\<And>a. dec b = Some a \<Longrightarrow> uniq_keys (elems (al_Workloads a))"
  shows "uniq_keys (elems (al_Workloads al))"
  using assms
  by (auto simp: ParseJSON_def normalizeAllowlist_def bindE_Inr_iff dest!: normalize_entries_names split: option.splits sum.splits if_splits)

lemma serve_mutation_step:
  assumes "serve_mutation da dw H flt h mu r s = (resp, s')" and "\<And>b al. da b = Some al \<Longrightarrow> uniq_keys (elems (al_Workloads al))"
  shows "s' = s \<or> store_step H s s'"
proof (cases mu)
  case MReplaceAll
  show ?thesis
  proof (cases "\<exists>body al. handler_authorize h r = Inr body \<and> ParseJSON da H body = Some al")
    case True
    then obtain body al where p: "handler_authorize h r = Inr body" "ParseJSON da H body = Some al" by blast
    obtain res t where t: "ReplaceAll flt (Some al) s = (res, t)" by fastforce
    have "s' = t" using assms(1) MReplaceAll p t by (auto simp: HandleReplaceAll_def split: sum.splits)
    thus ?thesis using store_step.replace[OF t ParseJSON_uniq[OF p(2) assms(2)]] by simp
  next
    case False
    thus ?thesis using assms(1) MReplaceAll by (auto simp: HandleReplaceAll_def split: sum.splits option.splits)
  qed
next
  case (MPut name)
  show ?thesis
  proof (cases "\<exists>body w. handler_authorize h r = Inr body \<and> ParseWorkloadJSON dw H body = Some w")
    case True
    then obtain body w where p: "handler_authorize h r = Inr body" "ParseWorkloadJSON dw H body = Some w" by blast
    obtain res t where t: "PutWorkload flt H name w s = (res, t)" by fastforce
    have "s' = t" using assms(1) MPut p t by (auto simp: HandlePutWorkload_def split: sum.splits store_error.splits)
    thus ?thesis using store_step.put[OF t] by simp
  next
    case False
    thus ?thesis using assms(1) MPut by (auto simp: HandlePutWorkload_def split: sum.splits option.splits)
  qed
next
  case (MDelete name)
  obtain res t where t: "DeleteWorkload flt name s = (res, t)" by fastforce
  have "s' = s \<or> s' = t" using assms(1) MDelete t by (auto simp: HandleDeleteWorkload_def split: sum.splits)
  thus ?thesis using store_step.del[OF t] by auto
qed

text \<open>The cached document was served by a store that the present one comes from.\<close>

definition policy_ok :: "hash \<Rightarrow> 'l cds_state \<Rightarrow> bool" where
  "policy_ok H s \<longleftrightarrow> db_inv (st_db (cd_allowlist s)) \<and>
     (\<forall>al. cp_cached (cd_policy s) = Some al \<longrightarrow>
        (\<exists>t. (store_step H)\<^sup>*\<^sup>* t (cd_allowlist s) \<and> db_inv (st_db t) \<and> al = st_doc t \<and> cp_version (cd_policy s) = db_version (st_db t)))"

lemma cached_Allowlist_current:
  assumes "policy_ok H s" and "cached_Allowlist (policy_read_of m s) (cd_policy s) = (res, cp)"
  shows "(\<forall>al. res = Inr al \<longrightarrow> al = st_doc (cd_allowlist s)) \<and> policy_ok H (s\<lparr>cd_policy := cp\<rparr>)"
proof -
  let ?st = "cd_allowlist s"
  have st: "pr_store1 (policy_read_of m s) = ?st" "pr_store2 (policy_read_of m s) = ?st" by (simp_all add: policy_read_of_def)
  from cached_Allowlist_cases[OF assms(2), unfolded st] show ?thesis
  proof (elim disjE exE conjE)
    assume hit: "cp_cached (cd_policy s) \<noteq> None" "cp_version (cd_policy s) = db_version (st_db ?st)"
      "res = Inr (the (cp_cached (cd_policy s)))" "cp = cd_policy s"
    obtain al where al: "cp_cached (cd_policy s) = Some al" using hit(1) by blast
    then obtain t where t: "(store_step H)\<^sup>*\<^sup>* t ?st" "db_inv (st_db t)" "al = st_doc t" "cp_version (cd_policy s) = db_version (st_db t)"
      using assms(1) unfolding policy_ok_def by blast
    have "db_version (st_db ?st) = db_version (st_db t)" using hit(2) t(4) by simp
    hence "st_db ?st = st_db t" using etag.not_modified[OF t(1,2)] by blast
    hence "al = st_doc ?st" using t(3) by (simp add: st_doc_def)
    thus ?thesis using hit(3,4) al assms(1) by simp
  next
    fix al v
    assume load: "LoadAll (pr_flt2 (policy_read_of m s)) ?st = Inr (al, v)" "res = Inr al" "cp = \<lparr>cp_version = v, cp_cached = Some al\<rparr>"
    have "al = st_doc ?st" "v = db_version (st_db ?st)" using LoadAll_Inr[OF load(1)] by simp_all
    moreover have "db_inv (st_db ?st)" using assms(1) by (simp add: policy_ok_def)
    ultimately show ?thesis using load(2,3) by (auto simp: policy_ok_def intro!: exI[of _ ?st])
  next
    fix e
    assume "res = Inl e" "cp = cd_policy s"
    thus ?thesis using assms(1) by simp
  qed
qed

lemma policy_ok_cong: "cd_allowlist s' = cd_allowlist s \<Longrightarrow> cd_policy s' = cd_policy s \<Longrightarrow> policy_ok H s' = policy_ok H s"
  by (simp add: policy_ok_def)

lemma policy_ok_store:
  assumes "policy_ok H s" and "cd_allowlist s' = cd_allowlist s \<or> store_step H (cd_allowlist s) (cd_allowlist s')" and "cd_policy s' = cd_policy s"
  shows "policy_ok H s'"
proof -
  have "db_inv (st_db (cd_allowlist s'))" using assms(1,2) etag.inv_step by (auto simp: policy_ok_def)
  thus ?thesis using assms unfolding policy_ok_def by (metis rtranclp.rtrancl_into_rtrancl)
qed

lemma dispatch_policy_ok:
  assumes "decodes_maps x" and "policy_ok (cx_H x) s" and "dispatch x d m route r s = (resp, s')"
  shows "policy_ok (cx_H x) s'"
proof (cases "\<exists>mu. route = RMutate mu")
  case True
  then obtain mu where mu: "route = RMutate mu" by blast
  let ?sm = "serve_mutation (cx_allowlist x) (cx_workload x) (cx_H x) (cm_flt1 m) (dp_AllowlistHandler d) mu (request.truncate r) (cd_allowlist s)"
  have "cd_allowlist s' = snd ?sm" using dispatch_allowlist[OF assms(3)] mu by simp
  moreover have "snd ?sm = cd_allowlist s \<or> store_step (cx_H x) (cd_allowlist s) (snd ?sm)"
    by (rule serve_mutation_step[OF surjective_pairing]) (use assms(1) in \<open>auto simp: decodes_maps_def\<close>)
  moreover have "cd_policy s' = cd_policy s" using assms(3) mu by (auto simp: dispatch_def split: prod.splits)
  ultimately have "cd_allowlist s' = cd_allowlist s \<or> store_step (cx_H x) (cd_allowlist s) (cd_allowlist s')" "cd_policy s' = cd_policy s"
    by simp_all
  thus ?thesis by (rule policy_ok_store[OF assms(2)])
next
  case False
  hence st: "cd_allowlist s' = cd_allowlist s" using dispatch_allowlist[OF assms(3)] by (auto split: route.splits)
  from dispatch_policy[OF assms(3)] show ?thesis
  proof
    assume "cd_policy s' = snd (cached_Allowlist (policy_read_of m s) (cd_policy s))"
    moreover have "policy_ok (cx_H x) (s\<lparr>cd_policy := snd (cached_Allowlist (policy_read_of m s) (cd_policy s))\<rparr>)"
      using cached_Allowlist_current[OF assms(2) surjective_pairing] by blast
    ultimately show ?thesis using st by (simp add: policy_ok_def)
  qed (use assms(2) st in \<open>simp add: policy_ok_def\<close>)
qed

lemma step_policy_ok:
  assumes "decodes_maps x" and "policy_ok (cx_H x) s"
  shows "policy_ok (cx_H x) (cds_step x d router e s)"
proof (cases e)
  case (Serve route m r)
  obtain resp s' where sv: "ServeCDS x d router m route r s = (resp, s')" by fastforce
  from sv have "policy_ok (cx_H x) s'"
  proof (cases rule: ServeCDS_cases)
    case stopped
    thus ?thesis using assms(2) policy_ok_cong[of s' s] view_fields(2)[OF stopped(2)] by blast
  next
    case (served r' s1)
    have "policy_ok (cx_H x) s1" using assms(2) policy_ok_cong[OF served(4)] view_fields(2)[OF served(3)] by blast
    thus ?thesis using dispatch_policy_ok[OF assms(1) _ served(5)] by blast
  qed
  thus ?thesis using Serve sv by simp
qed (use assms(2) in \<open>simp_all add: policy_ok_def\<close>)

lemma run_policy_ok: "decodes_maps x \<Longrightarrow> policy_ok (cx_H x) s \<Longrightarrow> policy_ok (cx_H x) (cds_run x d router es s)"
  by (induction es arbitrary: s) (auto intro: step_policy_ok)

section \<open>Where bindings and values come from\<close>

definition delivered :: "'p tls_request \<Rightarrow> 'p tls_request \<Rightarrow> bool" where
  "delivered r r' \<longleftrightarrow> r' = r \<or> (\<exists>mx. r' = capBody mx r)"

text \<open>The caller proved its sandbox against a live challenge, through the inventory the sandbox is bound to, and the document the store holds now
  has exactly one entry for what that inventory reports.\<close>

definition entitled_now ::
  "('p, 'k, 'e, 'v, 'i, 'l) cds_external \<Rightarrow> 'k SecretHandler \<Rightarrow> cds_moment \<Rightarrow> 'p tls_request \<Rightarrow> 'l cds_state \<Rightarrow>
   string \<Rightarrow> string \<Rightarrow> string \<Rightarrow> string \<Rightarrow> Workload \<Rightarrow> bool" where
  "entitled_now x h m r s path sid host name w \<longleftrightarrow>
     tr_EscapedPath r = ''/secrets'' @ path \<and> canonical_path path \<and>
     (\<exists>nonce created. request_nonce r = Some nonce \<and> map_of (cs_challenges (cd_secret_challenges s)) nonce = Some created \<and>
        cm_consume m - created < cs_ttl (cd_secret_challenges s) \<and>
        authentic (cx_release x) h (Some (cd_bindings s)) (cm_lookup m) r nonce sid host) \<and>
     entitled (cx_release x) h (st_doc (cd_allowlist s)) sid host name w"

lemma entitled_now_cong:
  "delivered r r' \<Longrightarrow> secret_view s1 = secret_view s \<Longrightarrow> cd_allowlist s1 = cd_allowlist s \<Longrightarrow>
     entitled_now x h m r' s1 path sid host name w = entitled_now x h m r s path sid host name w"
  by (auto simp: entitled_now_def delivered_def request_nonce_def dest!: view_fields(2))

lemma justified_now:
  assumes "policy_ok (cx_H x) s" and "justified (cx_release x) h (moments_of m s) r (secret_view s) path name w"
  shows "\<exists>sid host. entitled_now x h m r s path sid host name w"
proof -
  from assms(2) obtain nonce created sid host al where j: "tr_EscapedPath r = ''/secrets'' @ path" "canonical_path path"
      "request_nonce r = Some nonce" "map_of (cs_challenges (cd_secret_challenges s)) nonce = Some created"
      "cm_consume m - created < cs_ttl (cd_secret_challenges s)" "authentic (cx_release x) h (Some (cd_bindings s)) (cm_lookup m) r nonce sid host"
      "fst (cached_Allowlist (policy_read_of m s) (cd_policy s)) = Inr al" "entitled (cx_release x) h al sid host name w"
    by (auto simp: justified_def moments_of_def)
  have "al = st_doc (cd_allowlist s)" using cached_Allowlist_current[OF assms(1) surjective_pairing] j(7) by blast
  thus ?thesis using j by (auto simp: entitled_now_def)
qed

text \<open>A request that stored \<open>v\<close> at \<open>path\<close>: an operator's that was authorised for it, or a workload's that was entitled to create it.\<close>

definition writes ::
  "('p, 'k, 'e, 'v, 'i, 'l) cds_external \<Rightarrow> ('k, 'i, 'w) dependencies \<Rightarrow> 'l cds_state \<Rightarrow> 'p cds_event \<Rightarrow> string \<Rightarrow> string \<Rightarrow> bool" where
  "writes x d s e path v \<longleftrightarrow>
     (\<exists>m r r' oh overwrite. e = Serve RSecretPut m r \<and> delivered r r' \<and> dp_SecretsOperator d = Some oh \<and>
        operator_asks (cx_put x) oh r' path v overwrite) \<or>
     (\<exists>m r h sid host name w. e = Serve RSecrets m r \<and> dp_SecretsHandler d = Some h \<and> cm_generated m = Some v \<and>
        entitled_now x h m r s path sid host name w \<and> Allows (w_Secrets w) path OpWrite)"

text \<open>A request that bound \<open>sid\<close> to \<open>host\<close>: the body it carries names a live challenge of the issuance pool; against that challenge its caller attested and the
  inventory at \<open>host\<close> vouched for the sandbox; the allowlist gate let it pass; the ledger accepted the binding; and it was
  answered with a certificate, unless signing one failed.\<close>

definition binds ::
  "('p, 'k, 'e, 'v, 'i, 'l) cds_external \<Rightarrow> ('k, 'i, 'w) dependencies \<Rightarrow> (route \<Rightarrow> guard option) \<Rightarrow> 'l cds_state \<Rightarrow> 'p cds_event \<Rightarrow> string \<Rightarrow> string \<Rightarrow> bool" where
  "binds x d router s e sid host \<longleftrightarrow>
     (\<exists>m r r' req nonce cs csr pub matched. e = Serve RAttest m r \<and> delivered r r' \<and>
        ax_body (cx_attest x) (fst (rq_Body r')) = Some req \<and> StdDecode (ab_Challenge req) = Some nonce \<and>
        Consume nonce (cm_consume m) (cd_challenges s) = (True, cs) \<and>
        attested (cx_attest x) (dp_AttestHandler d) (request.truncate r') req nonce csr pub \<and>
        vouched (cx_attest x) (dp_AttestHandler d) req nonce pub sid host \<and>
        fst (resolveSandboxWorkload (cx_attest x) (dp_AttestHandler d) (attest_moment_of m s) (Some (cd_cache s))
          \<lparr>vs_SandboxID = sid, vs_InventoryHost = host\<rparr>) = Inr matched \<and>
        ledger_Record sid host (cm_record m) (cd_bindings s) = (True, cd_bindings (cds_step x d router e s)) \<and>
        ((\<exists>leaf. fst (ServeCDS x d router m RAttest r s) = Issued leaf) \<or>
         fst (ServeCDS x d router m RAttest r s) = Refused StatusInternalServerError SignFailed))"

lemma step_writes:
  assumes "policy_ok (cx_H x) s" and "ms_Get (cd_secrets (cds_step x d router e s)) path = Inr v"
  shows "ms_Get (cd_secrets s) path = Inr v \<or> writes x d s e path v"
proof (cases e)
  case (Serve route m r)
  obtain resp s' where sv: "ServeCDS x d router m route r s = (resp, s')" by fastforce
  have got: "ms_Get (cd_secrets s') path = Inr v" using assms(2) Serve sv by simp
  from sv show ?thesis
  proof (cases rule: ServeCDS_cases)
    case stopped
    thus ?thesis using got view_fields(2)[OF stopped(2)] by simp
  next
    case (served r' s1)
    note same = view_fields(2)[OF served(3)]
    have del: "delivered r r'" using served(1) by (simp add: delivered_def)
    have pol: "policy_ok (cx_H x) s1" using assms(1) policy_ok_cong[OF served(4)] same by blast
    consider (put) oh where "route = RSecretPut" "dp_SecretsOperator d = Some oh" "cd_secrets s' = snd (ServeOperator (cx_put x) oh r' (cd_secrets s1))"
      | (req) h where "route = RSecrets" "dp_SecretsHandler d = Some h"
          "cd_secrets s' = ss_store (snd (ServeSecret (cx_release x) h (moments_of m s1) r' (secret_view s1)))"
      | (same) "cd_secrets s' = cd_secrets s1"
      using dispatch_secrets[OF served(5)] by (auto split: route.splits option.splits)
    thus ?thesis
    proof cases
      case put
      obtain resp' st where op: "ServeOperator (cx_put x) oh r' (cd_secrets s1) = (resp', st)" by fastforce
      have st: "ms_Get st path = Inr v" using got put(3) op by simp
      from op show ?thesis
      proof (cases rule: ServeOperator_cases)
        case refused
        thus ?thesis using st same by simp
      next
        case (create p u)
        thus ?thesis using operator_create_cases[OF create(2)] st same put(1,2) Serve del
          by (fastforce simp: storeLocked_Get writes_def split: if_splits)
      next
        case (replace p u)
        thus ?thesis using operator_replace_cases[OF replace(2)] st same put(1,2) Serve del
          by (fastforce simp: storeLocked_Get writes_def split: if_splits)
      qed
    next
      case req
      obtain resp' a where rq: "ServeSecret (cx_release x) h (moments_of m s1) r' (secret_view s1) = (resp', a)" by fastforce
      have st: "ms_Get (ss_store a) path = Inr v" using got req(3) rq by simp
      from rq show ?thesis
      proof (cases rule: ServeSecret_cases)
        case (post p name w u)
        show ?thesis
        proof (cases "p = path")
          case True
          have "u = v" using st post(7) True by (simp add: storeLocked_Get)
          moreover obtain sid host where "entitled_now x h m r' s1 p sid host name w" using justified_now[OF pol post(1)] by blast
          ultimately show ?thesis
            using entitled_now_cong[OF del served(3,4)] Serve req(1,2) True post(3,4) unfolding writes_def by (fastforce simp: moments_of_def)
        qed (use st post(7) same in \<open>simp add: storeLocked_Get\<close>)
      qed (use st same in simp_all)
    qed (use got same in simp)
  qed
qed (use assms(2) in simp_all)

section \<open>The ledger over a history\<close>

text \<open>The clock an event hands to the ledger.\<close>

definition ledger_time :: "'p cds_event \<Rightarrow> int option" where
  "ledger_time e = (case e of Serve RAttest m _ \<Rightarrow> Some (cm_record m) | SweepLedger now \<Rightarrow> Some now | _ \<Rightarrow> None)"

lemma step_ledger:
  "\<exists>ops. cd_bindings (cds_step x d router e s) = ledger_run ops (cd_bindings s) \<and> (\<forall>(now, op)\<in>set ops. ledger_time e = Some now)"
proof (cases e)
  case (Serve route m r)
  obtain resp s' where sv: "ServeCDS x d router m route r s = (resp, s')" by fastforce
  from sv have "\<exists>ops. cd_bindings s' = ledger_run ops (cd_bindings s) \<and> (\<forall>(now, op)\<in>set ops. route = RAttest \<and> now = cm_record m)"
  proof (cases rule: ServeCDS_cases)
    case stopped
    thus ?thesis using view_fields(2)[OF stopped(2)] by (intro exI[of _ "[]"]) (simp add: ledger_run_def)
  next
    case (served r' s1)
    note same = view_fields(2)[OF served(3)]
    show ?thesis
    proof (cases "route = RAttest")
      case True
      obtain res a where h: "HandleAttest (cx_attest x) (dp_AttestHandler d) (attest_moment_of m s1) (request.truncate r') (attest_view s1) = (res, a)"
        by fastforce
      have b: "cd_bindings s' = the (as_bindings a)" using dispatch_bindings[OF served(5)] True h by simp
      from HandleAttest_bindings[OF h] consider "as_bindings a = as_bindings (attest_view s1)"
        | sid host where "as_bindings a = map_option (\<lambda>l. snd (ledger_Record sid host (am_record (attest_moment_of m s1)) l)) (as_bindings (attest_view s1))"
        by blast
      thus ?thesis
      proof cases
        case 1
        thus ?thesis using b same by (intro exI[of _ "[]"]) (simp add: ledger_run_def)
      next
        case (2 sid host)
        thus ?thesis using b same True
          by (intro exI[of _ "[(cm_record m, DoRecord sid host)]"]) (simp add: ledger_run_def attest_moment_of_def)
      qed
    next
      case False
      hence "cd_bindings s' = cd_bindings s1" using dispatch_bindings[OF served(5)] by (auto split: route.splits)
      thus ?thesis using same by (intro exI[of _ "[]"]) (simp add: ledger_run_def)
    qed
  qed
  thus ?thesis using Serve sv by (fastforce simp: ledger_time_def)
next
  case (SweepLedger now)
  thus ?thesis by (intro exI[of _ "[(now, DoTick)]"]) (simp add: ledger_run_def ledger_time_def)
next
  case (SweepLimiter a idle now)
  thus ?thesis by (intro exI[of _ "[]"]) (simp add: ledger_run_def)
qed

lemma step_quiet:
  assumes "ledger_time e = None"
  shows "cd_bindings (cds_step x d router e s) = cd_bindings s"
proof -
  obtain ops where o: "cd_bindings (cds_step x d router e s) = ledger_run ops (cd_bindings s)" "\<forall>(now, op)\<in>set ops. ledger_time e = Some now"
    using step_ledger by blast
  have "ops = []" using o(2) assms by (cases ops) auto
  thus ?thesis using o(1) by (simp add: ledger_run_def)
qed

lemma ledger_Record_new_owner:
  assumes "ledger_inv l" and "ledger_owner (snd (ledger_Record sid' host' now l)) sid = Some (host, t)" and "\<nexists>t'. ledger_owner l sid = Some (host, t')"
  shows "sid = sid' \<and> host = host' \<and> fst (ledger_Record sid' host' now l)"
  using assms(2,3)
  by (cases rule: ledger_Record_cases[OF surjective_pairing, of sid' host' now l])
    (auto simp: evict_owner[OF assms(1)] split: if_splits option.splits prod.splits)

lemma attest_moment_cong: "cd_allowlist s1 = cd_allowlist s \<Longrightarrow> attest_moment_of m s1 = attest_moment_of m s"
  by (simp add: attest_moment_of_def)

lemma attest_binds:
  assumes "ledger_inv (cd_bindings s)" and "ServeCDS x d router m RAttest r s = (resp, s')"
    and "ledger_owner (cd_bindings s') sid = Some (host, t)" and "\<nexists>t'. ledger_owner (cd_bindings s) sid = Some (host, t')"
  shows "binds x d router s (Serve RAttest m r) sid host"
  using assms(2)
proof (cases rule: ServeCDS_cases)
  case stopped
  thus ?thesis using assms(3,4) view_fields(2)[OF stopped(2)] by auto
next
  case (served r' s1)
  note same = view_fields(2)[OF served(3)] view_fields(1)[OF served(2)]
  note moment = attest_moment_cong[OF served(4), of m]
  obtain res a where h: "HandleAttest (cx_attest x) (dp_AttestHandler d) (attest_moment_of m s) (request.truncate r') (attest_view s) = (res, a)"
    by fastforce
  have h': "HandleAttest (cx_attest x) (dp_AttestHandler d) (attest_moment_of m s1) (request.truncate r') (attest_view s1) = (res, a)"
    unfolding moment served(2) by (rule h)
  have b: "cd_bindings s' = the (as_bindings a)" using dispatch_bindings[OF served(5)] h' by simp
  have resp: "resp = (case res of Inl (st, code) \<Rightarrow> Refused st code | Inr leaf \<Rightarrow> Issued leaf)"
    using served(5) h' by (auto simp: dispatch_def split: sum.splits prod.splits)
  have "as_bindings a \<noteq> as_bindings (attest_view s)" using assms(3,4) b by auto
  with HandleAttest_bindings[OF h] obtain req nonce cs csr pub sid' host' matched where v:
      "ax_body (cx_attest x) (fst (rq_Body r')) = Some req" "StdDecode (ab_Challenge req) = Some nonce"
      "Consume nonce (cm_consume m) (cd_challenges s) = (True, cs)"
      "attested (cx_attest x) (dp_AttestHandler d) (request.truncate r') req nonce csr pub"
      "vouched (cx_attest x) (dp_AttestHandler d) req nonce pub sid' host'"
      "fst (resolveSandboxWorkload (cx_attest x) (dp_AttestHandler d) (attest_moment_of m s) (Some (cd_cache s))
          \<lparr>vs_SandboxID = sid', vs_InventoryHost = host'\<rparr>) = Inr matched"
      "(\<exists>leaf. res = Inr leaf) \<or> res = Inl (StatusInternalServerError, SignFailed)"
      "as_bindings a = map_option (\<lambda>l. snd (ledger_Record sid' host' (cm_record m) l)) (as_bindings (attest_view s))"
    by (auto simp: attest_moment_of_def request.defs)
  have l: "cd_bindings s' = snd (ledger_Record sid' host' (cm_record m) (cd_bindings s))" using b v(8) by simp
  have new: "sid = sid'" "host = host'" "fst (ledger_Record sid' host' (cm_record m) (cd_bindings s))"
    using ledger_Record_new_owner[OF assms(1) assms(3)[unfolded l] assms(4)] by blast+
  have step: "cds_step x d router (Serve RAttest m r) s = s'" using assms(2) by simp
  show ?thesis unfolding binds_def step
    by (intro exI[of _ m] exI[of _ r] exI[of _ r'] exI[of _ req] exI[of _ nonce] exI[of _ cs] exI[of _ csr] exI[of _ pub] exI[of _ matched] conjI)
      (use v new l resp served(1) assms(2) in \<open>auto simp: delivered_def prod_eq_iff\<close>)
qed

lemma step_binds:
  assumes "ledger_inv (cd_bindings s)" and "ledger_owner (cd_bindings (cds_step x d router e s)) sid = Some (host, t)"
  shows "(\<exists>t'. ledger_owner (cd_bindings s) sid = Some (host, t')) \<or> binds x d router s e sid host"
proof (cases "ledger_time e")
  case None
  thus ?thesis using assms(2) step_quiet[OF None, of x d router s] by auto
next
  case (Some now)
  then consider m r where "e = Serve RAttest m r" | "e = SweepLedger now" by (auto simp: ledger_time_def split: cds_event.splits route.splits)
  thus ?thesis
  proof cases
    case 1
    show ?thesis
    proof (cases "\<exists>t'. ledger_owner (cd_bindings s) sid = Some (host, t')")
      case False
      have "ledger_owner (cd_bindings (snd (ServeCDS x d router m RAttest r s))) sid = Some (host, t)" using assms(2) 1 by simp
      from attest_binds[OF assms(1) surjective_pairing this False] show ?thesis unfolding 1 by blast
    qed simp
  next
    case 2
    thus ?thesis using assms by (auto simp: eviction_tick_def evict_owner split: option.splits if_splits)
  qed
qed

lemma run_ledger:
  "\<exists>ops. cd_bindings (cds_run x d router es s) = ledger_run ops (cd_bindings s) \<and>
     (\<forall>(now, op)\<in>set ops. \<exists>e\<in>set es. ledger_time e = Some now)"
proof (induction es arbitrary: s)
  case (Cons e es)
  obtain ops where o: "cd_bindings (cds_step x d router e s) = ledger_run ops (cd_bindings s)" "\<forall>(now, op)\<in>set ops. ledger_time e = Some now"
    using step_ledger by blast
  obtain ops' where o': "cd_bindings (cds_run x d router es (cds_step x d router e s)) = ledger_run ops' (cd_bindings (cds_step x d router e s))"
    "\<forall>(now, op)\<in>set ops'. \<exists>e\<in>set es. ledger_time e = Some now" using Cons.IH by blast
  show ?case by (rule exI[of _ "ops @ ops'"]) (use o o' in \<open>auto simp: ledger_run_def\<close>)
qed (auto intro!: exI[of _ "[]"] simp: ledger_run_def)

lemma run_ledger_inv:
  "ledger_inv (cd_bindings s) \<Longrightarrow> ledger_inv (cd_bindings (cds_run x d router es s)) \<and>
     le_ttl (cd_bindings (cds_run x d router es s)) = le_ttl (cd_bindings s)"
  using run_ledger[of x d router es s] ledger_run_inv[of "cd_bindings s"] by metis

lemma run_holds:
  assumes "ledger_inv (cd_bindings s)" and "claims.holds sid host t (cd_bindings s)"
    and "\<And>e now. e \<in> set es \<Longrightarrow> ledger_time e = Some now \<Longrightarrow> t \<le> now \<and> now < t + le_ttl (cd_bindings s)"
  shows "claims.holds sid host t (cd_bindings (cds_run x d router es s))"
proof -
  obtain ops where o: "cd_bindings (cds_run x d router es s) = ledger_run ops (cd_bindings s)"
    "\<forall>(now, op)\<in>set ops. \<exists>e\<in>set es. ledger_time e = Some now" using run_ledger by blast
  have "\<forall>(now, op)\<in>set ops. t \<le> now \<and> now < t + le_ttl (cd_bindings s)" using o(2) assms(3) by blast
  thus ?thesis unfolding o(1) by (rule ledger_run_holds[OF assms(1,2)])
qed

section \<open>Origins over a history\<close>

lemma run_binds:
  assumes "ledger_inv (cd_bindings s0)" and "cd_bindings s0 = NewLedger ttl mx"
    and "ledger_owner (cd_bindings (cds_run x d router es s0)) sid = Some (host, t)"
  shows "\<exists>es1 e es2. es = es1 @ e # es2 \<and> binds x d router (cds_run x d router es1 s0) e sid host"
  using assms(3)
proof (induction es arbitrary: t rule: rev_induct)
  case Nil
  thus ?case using assms(2) by (simp add: NewLedger_def ledger_owner_def)
next
  case (snoc e es)
  have "ledger_inv (cd_bindings (cds_run x d router es s0))" using run_ledger_inv[OF assms(1)] by blast
  from step_binds[OF this, of x d router e sid host t] snoc.prems
  have "(\<exists>t'. ledger_owner (cd_bindings (cds_run x d router es s0)) sid = Some (host, t')) \<or> binds x d router (cds_run x d router es s0) e sid host" by simp
  thus ?case
  proof
    assume "\<exists>t'. ledger_owner (cd_bindings (cds_run x d router es s0)) sid = Some (host, t')"
    then obtain es1 e' es2 where "es = es1 @ e' # es2" "binds x d router (cds_run x d router es1 s0) e' sid host" using snoc.IH by blast
    thus ?case by (intro exI[of _ es1] exI[of _ e'] exI[of _ "es2 @ [e]"]) simp
  qed blast
qed

lemma run_writes:
  assumes "decodes_maps x" and "policy_ok (cx_H x) s0" and "\<And>p. ms_Get (cd_secrets s0) p = Inl ErrNotFound"
    and "ms_Get (cd_secrets (cds_run x d router es s0)) path = Inr v"
  shows "\<exists>es1 e es2. es = es1 @ e # es2 \<and> writes x d (cds_run x d router es1 s0) e path v"
  using assms(4)
proof (induction es rule: rev_induct)
  case Nil
  thus ?case using assms(3) by simp
next
  case (snoc e es)
  have "policy_ok (cx_H x) (cds_run x d router es s0)" by (rule run_policy_ok[OF assms(1,2)])
  from step_writes[OF this, of d router e path v] snoc.prems
  have "ms_Get (cd_secrets (cds_run x d router es s0)) path = Inr v \<or> writes x d (cds_run x d router es s0) e path v" by simp
  thus ?case
  proof
    assume "ms_Get (cd_secrets (cds_run x d router es s0)) path = Inr v"
    then obtain es1 e' es2 where "es = es1 @ e' # es2" "writes x d (cds_run x d router es1 s0) e' path v" using snoc.IH by blast
    thus ?case by (intro exI[of _ es1] exI[of _ e'] exI[of _ "es2 @ [e]"]) simp
  qed blast
qed

section \<open>A fresh start\<close>

lemma run_cds_Inr:
  assumes "run_cds x cfg su = Inr (d, router, s0)"
  shows "newRouter d = Some router" "d = dependencies_of cfg su" "cd_bindings s0 = NewLedger (CapTTL (cf_certTTL cfg) MaxLeafTTL) (cf_sandboxLedgerMax cfg)"
    "cd_policy s0 = NewCachedPolicy" "ms_Get (cd_secrets s0) p = Inl ErrNotFound" "cd_challenges s0 = NewChallengeStore (cf_challengeTTL cfg)"
    "cd_secret_challenges s0 = NewChallengeStore (cf_challengeTTL cfg)" "cd_cache s0 = \<lparr>pc_held = None, pc_gen = 0\<rparr>"
    "allowlistOf x su = Inr (cd_allowlist s0)" "validateConfig cfg = Inr ()"
  using assms by (auto simp: run_cds_def bindE_Inr_iff newSecretsStore_def NewMemoryStore_def ms_Get_def split: option.splits if_splits)

lemma allowlistOf_step: "allowlistOf x su = Inr s \<Longrightarrow> s = su_store su \<or> store_step H (su_store su) s"
  by (auto simp: allowlistOf_def seedStore_def intro: store_step.seed split: option.splits sum.splits prod.splits)

lemma run_cds_policy_ok:
  assumes "run_cds x cfg su = Inr (d, router, s0)" and "db_inv (st_db (su_store su))"
  shows "policy_ok (cx_H x) s0"
proof -
  have "db_inv (st_db (cd_allowlist s0))"
    using allowlistOf_step[OF run_cds_Inr(9)[OF assms(1)], of "cx_H x"] assms(2) etag.inv_step[of "su_store su" "cx_H x"] by auto
  thus ?thesis using run_cds_Inr(4)[OF assms(1)] by (simp add: policy_ok_def NewCachedPolicy_def)
qed

section \<open>The two challenge pools\<close>

text \<open>The nonces that a route handed out.\<close>

definition handed_out :: "route \<Rightarrow> 'p cds_event list \<Rightarrow> string set" where
  "handed_out route es = {cm_nonce m | m r. Serve route m r \<in> set es}"

abbreviation live :: "ChallengeStore \<Rightarrow> string set" where
  "live cs \<equiv> dom (map_of (cs_challenges cs))"

lemma Consume_pool: "ch_inv cs \<Longrightarrow> ch_inv (snd (Consume n now cs)) \<and> live (snd (Consume n now cs)) \<subseteq> live cs"
  using run_op_inv(1)[of cs "OpConsume n now"] Consume_dom[of n now cs] by simp

lemma Create_pool: "ch_inv cs \<Longrightarrow> ch_inv (Create n now cs) \<and> live (Create n now cs) \<subseteq> insert n (live cs)"
  using run_op_inv(1)[of cs "OpCreate n now"] Create_dom[of cs n now] by simp

lemma HandleAttest_challenges:
  "HandleAttest x h m r s = (res, s') \<Longrightarrow> as_challenges s' = as_challenges s \<or> (\<exists>n. as_challenges s' = snd (Consume n (am_consume m) (as_challenges s)))"
  by (auto simp: HandleAttest_def Let_def split: option.splits prod.splits bool.splits sum.splits if_splits) (metis snd_conv)+

lemma dispatch_pools:
  assumes "dispatch x d m route r s = (resp, s')" and "ch_inv (cd_challenges s)" and "ch_inv (cd_secret_challenges s)"
  shows "ch_inv (cd_challenges s') \<and> live (cd_challenges s') \<subseteq> live (cd_challenges s) \<union> handed_out RAuthenticate [Serve route m r0]"
    and "ch_inv (cd_secret_challenges s') \<and>
      live (cd_secret_challenges s') \<subseteq> live (cd_secret_challenges s) \<union> handed_out RSecretChallenge [Serve route m r0]"
proof -
  let ?ha = "HandleAttest (cx_attest x) (dp_AttestHandler d) (attest_moment_of m s) (request.truncate r) (attest_view s)"
  have "as_challenges (snd ?ha) = cd_challenges s \<or> (\<exists>n. as_challenges (snd ?ha) = snd (Consume n (cm_consume m) (cd_challenges s)))"
    using HandleAttest_challenges[OF surjective_pairing, of "cx_attest x" "dp_AttestHandler d" "attest_moment_of m s" "request.truncate r"
      "attest_view s"] by (simp add: attest_moment_of_def)
  hence a: "ch_inv (as_challenges (snd ?ha)) \<and> live (as_challenges (snd ?ha)) \<subseteq> live (cd_challenges s)"
    using Consume_pool[OF assms(2)] assms(2) by (elim disjE exE) simp_all
  show "ch_inv (cd_challenges s') \<and> live (cd_challenges s') \<subseteq> live (cd_challenges s) \<union> handed_out RAuthenticate [Serve route m r0]"
    using dispatch_challenges(1)[OF assms(1)] a assms(2) Create_pool[OF assms(2), of "cm_nonce m" "cm_create m"]
    by (auto simp: handed_out_def split: route.splits)
  have b: "ch_inv (the (ss_challenges (snd (ServeSecret (cx_release x) h (moments_of m s) r (secret_view s))))) \<and>
      live (the (ss_challenges (snd (ServeSecret (cx_release x) h (moments_of m s) r (secret_view s))))) \<subseteq> live (cd_secret_challenges s)" for h
    using ServeSecret_challenges[OF surjective_pairing, of "cx_release x" h "moments_of m s" r "secret_view s"]
      consumeChallenge_state[of r "mo_consume (moments_of m s)" "Some (cd_secret_challenges s)"] Consume_pool[OF assms(3)] assms(3)
    by (elim disjE exE conjE) simp_all
  show "ch_inv (cd_secret_challenges s') \<and>
      live (cd_secret_challenges s') \<subseteq> live (cd_secret_challenges s) \<union> handed_out RSecretChallenge [Serve route m r0]"
    using dispatch_challenges(2)[OF assms(1)] b assms(3) Create_pool[OF assms(3), of "cm_nonce m" "cm_create m"]
    by (auto simp: handed_out_def split: route.splits option.splits)
qed

lemma step_pools:
  assumes "ch_inv (cd_challenges s)" and "ch_inv (cd_secret_challenges s)" and "s' = cds_step x d router e s"
  shows "ch_inv (cd_challenges s') \<and> live (cd_challenges s') \<subseteq> live (cd_challenges s) \<union> handed_out RAuthenticate [e]"
    and "ch_inv (cd_secret_challenges s') \<and> live (cd_secret_challenges s') \<subseteq> live (cd_secret_challenges s) \<union> handed_out RSecretChallenge [e]"
proof -
  have "(ch_inv (cd_challenges s') \<and> live (cd_challenges s') \<subseteq> live (cd_challenges s) \<union> handed_out RAuthenticate [e]) \<and>
      ch_inv (cd_secret_challenges s') \<and> live (cd_secret_challenges s') \<subseteq> live (cd_secret_challenges s) \<union> handed_out RSecretChallenge [e]"
  proof (cases e)
    case (Serve route m r)
    obtain resp where sv: "ServeCDS x d router m route r s = (resp, s')" using assms(3) Serve by (metis cds_step.simps(1) prod.collapse)
    from sv show ?thesis
    proof (cases rule: ServeCDS_cases)
      case stopped
      thus ?thesis using assms(1,2) view_fields(1)[OF stopped(1)] view_fields(2)[OF stopped(2)] by auto
    next
      case (served r' s1)
      have "cd_challenges s1 = cd_challenges s" "cd_secret_challenges s1 = cd_secret_challenges s"
        using view_fields(1)[OF served(2)] view_fields(2)[OF served(3)] by auto
      thus ?thesis using dispatch_pools[OF served(5), of r] assms(1,2) Serve by simp
    qed
  qed (use assms in auto)
  thus "ch_inv (cd_challenges s') \<and> live (cd_challenges s') \<subseteq> live (cd_challenges s) \<union> handed_out RAuthenticate [e]"
    "ch_inv (cd_secret_challenges s') \<and> live (cd_secret_challenges s') \<subseteq> live (cd_secret_challenges s) \<union> handed_out RSecretChallenge [e]"
    by blast+
qed

lemma run_pools:
  assumes "cd_challenges s0 = NewChallengeStore ttl" and "cd_secret_challenges s0 = NewChallengeStore ttl'"
  shows "ch_inv (cd_challenges (cds_run x d router es s0)) \<and> live (cd_challenges (cds_run x d router es s0)) \<subseteq> handed_out RAuthenticate es \<and>
    ch_inv (cd_secret_challenges (cds_run x d router es s0)) \<and> live (cd_secret_challenges (cds_run x d router es s0)) \<subseteq> handed_out RSecretChallenge es"
proof (induction es rule: rev_induct)
  case Nil
  show ?case using assms ch_inv_new by (simp add: NewChallengeStore_def)
next
  case (snoc e es)
  have "handed_out route (es @ [e]) = handed_out route es \<union> handed_out route [e]" for route by (auto simp: handed_out_def)
  moreover have "ch_inv (cd_challenges (cds_run x d router es s0))" "ch_inv (cd_secret_challenges (cds_run x d router es s0))"
    using snoc by blast+
  note step_pools[OF this refl, of x d router e]
  ultimately show ?case using snoc by (simp del: cds_step.simps) blast
qed

section \<open>Answers of the secret routes\<close>

lemma ServeCDS_value:
  assumes "policy_ok (cx_H x) s" and "ServeCDS x d router m RSecrets r s = (Plain resp, s')" and "rs_Status resp = StatusOK"
  obtains h path v sid host name w where "dp_SecretsHandler d = Some h" "resp = writeValue v StatusOK"
    "entitled_now x h m r s path sid host name w" "Allows (w_Secrets w) path OpRead" "ms_Get (cd_secrets s) path = Inr v"
  using assms(2)
proof (cases rule: ServeCDS_cases)
  case stopped
  thus ?thesis using assms(3) by auto
next
  case (served r' s1)
  note same = view_fields(2)[OF served(3)]
  have pol: "policy_ok (cx_H x) s1" using assms(1) policy_ok_cong[OF served(4)] same by blast
  have del: "delivered r r'" using served(1) by (simp add: delivered_def)
  from served(5) assms(3) obtain h a where h: "dp_SecretsHandler d = Some h"
      "ServeSecret (cx_release x) h (moments_of m s1) r' (secret_view s1) = (resp, a)"
    by (auto simp: dispatch_def split: option.splits prod.splits)
  from h(2) show ?thesis
  proof (cases rule: ServeSecret_cases)
    case (get path name w v)
    obtain sid host where "entitled_now x h m r' s1 path sid host name w" using justified_now[OF pol get(1)] by blast
    hence "entitled_now x h m r s path sid host name w" using entitled_now_cong[OF del served(3,4)] by blast
    thus ?thesis using that[OF h(1) get(5)] get(3,4) same by simp
  qed (use assms(3) in \<open>simp_all add: writeValue_def\<close>)
qed

text \<open>Whoever is given a value, or stores one, was identified through the ledger and matched by the report of the inventory found there.\<close>

lemma ServeCDS_identified:
  assumes "ServeCDS x d router m RSecrets r s = (Plain resp, s')"
    and "rs_Status resp \<in> {StatusOK, StatusCreated} \<or> cd_secrets s' \<noteq> cd_secrets s"
  obtains h nonce sid host al name w where "dp_SecretsHandler d = Some h"
    "authentic (cx_release x) h (Some (cd_bindings s)) (cm_lookup m) r nonce sid host" "entitled (cx_release x) h al sid host name w"
    "fst (cached_Allowlist (policy_read_of m s) (cd_policy s)) = Inr al"
  using assms(1)
proof (cases rule: ServeCDS_cases)
  case stopped
  thus ?thesis using assms(2) view_fields(2)[OF stopped(2)] by auto
next
  case (served r' s1)
  note same = view_fields(2)[OF served(3)]
  have h: "\<exists>h. dp_SecretsHandler d = Some h"
    using served(5) assms(2) same by (auto simp: dispatch_def split: option.splits)
  then obtain h where h: "dp_SecretsHandler d = Some h" by blast
  obtain resp' a where sv: "ServeSecret (cx_release x) h (moments_of m s1) r' (secret_view s1) = (resp', a)" by fastforce
  hence ans: "resp' = resp" "cd_secrets s' = ss_store a" using served(5) h dispatch_secrets[OF served(5)] by (auto simp: dispatch_def)
  have auth: "authentic (cx_release x) h b now r' nonce sid host = authentic (cx_release x) h b now r nonce sid host" for b now nonce sid host
    using served(1) by auto
  have "\<exists>path name w. justified (cx_release x) h (moments_of m s1) r' (secret_view s1) path name w"
    using sv by (cases rule: ServeSecret_cases) (use ans assms(2) same in auto)
  then obtain nonce sid host al name w where "authentic (cx_release x) h (Some (cd_bindings s)) (cm_lookup m) r nonce sid host"
      "entitled (cx_release x) h al sid host name w" "fst (cached_Allowlist (policy_read_of m s) (cd_policy s)) = Inr al"
    using same served(4) by (auto simp: justified_def moments_of_def policy_read_of_def auth)
  thus ?thesis using that[OF h] by blast
qed

lemma ServeCDS_unissued:
  assumes "request_nonce r = Some n" and "n \<notin> live (cd_secret_challenges s)" and "ServeCDS x d router m RSecrets r s = (resp, s')"
  shows "(\<exists>st. resp = Plain (status st) \<and> st \<in> {StatusBadRequest, StatusNotFound, StatusTooManyRequests}) \<and>
    attest_view s' = attest_view s \<and> secret_view s' = secret_view s \<and> cd_allowlist s' = cd_allowlist s"
  using assms(3)
proof (cases rule: ServeCDS_cases)
  case (served r' s1)
  note same = view_fields(2)[OF served(3)]
  have "request_nonce r' = Some n" using served(1) assms(1) by (auto simp: request_nonce_def)
  moreover have "n \<notin> outstanding (secret_view s1)" using assms(2) same by (simp add: outstanding_def)
  ultimately have "ServeSecret (cx_release x) h (moments_of m s1) r' (secret_view s1) = (status StatusBadRequest, secret_view s1)" for h
    by (rule ServeSecret_refuses)
  hence "s' = s1 \<and> (resp = Plain (status StatusNotFound) \<or> resp = Plain (status StatusBadRequest))"
    using served(5) by (auto simp: dispatch_def put_secret_def split: option.splits)
  thus ?thesis using served(2-4) by auto
qed auto

lemma HandleAttest_unissued:
  assumes "ax_body x (fst (rq_Body r)) = Some req" and "StdDecode (ab_Challenge req) = Some n" and "n \<notin> live (as_challenges s)"
  shows "HandleAttest x h m r s = (Inl (StatusBadRequest, InvalidChallenge), s)"
  using assms by (auto simp: HandleAttest_def Consume_def domIff)

section \<open>Properties\<close>




end
