(* ===== verification/Cds_Sample.thy ===== *)
theory Cds_Sample
  imports Cds_Service
begin

text \<open>
  One concrete service, from its start to the release of a secret: a pod attests, an operator stores a value, the pod asks for a challenge and
  then for the value. It shows that the hypotheses of the properties of the whole service can hold together.
\<close>

definition cds_attest :: "(unit, unit, unit, unit, unit) attest_external" where
  "cds_attest = \<lparr>x_H = (\<lambda>s. s), x_pkix = (\<lambda>_. Some ''k''), x_verify = (\<lambda>_ _ g. g = ''sig''), x_ia5 = (\<lambda>_. Some (''sbx'', [])),
     x_token = (\<lambda>_. Some (token_body sample_host ''sbx'' ''k'' rel_nonce, [])),
     x_json = (\<lambda>_. Some \<lparr>st_Token = ''t'', st_Signature = ''sig''\<rparr>),
     ax_body = (\<lambda>_. Some att_body), ax_parse_csr = (\<lambda>_. Some att_csr), ax_report_data = (\<lambda>_ _. Some ''d''),
     ax_evidence_json = (\<lambda>_. Some ''e''), ax_verify = (\<lambda>_ _. Inr ()), ax_LaunchDigest = (\<lambda>_. ''m''), ax_HasRegisters = (\<lambda>_. False),
     ax_EnforceImages = (\<lambda>_ _ _. True), ax_EnforceRTMRs = (\<lambda>_ _. False)\<rparr>"

definition cds_x :: "(unit, unit, unit, unit, unit, unit) cds_external" where
  "cds_x = \<lparr>cx_attest = cds_attest, cx_allowlist = (\<lambda>_. None), cx_workload = (\<lambda>_. None), cx_put = op_dec, cx_Allow = (\<lambda>_ l. (True, l))\<rparr>"

definition cds_cfg :: config where
  "cds_cfg = \<lparr>cf_readTimeout = 0, cf_readHeaderTimeout = 0, cf_writeTimeout = 0, cf_idleTimeout = 0, cf_maxHeaderBytes = 0, cf_namedCertTTL = 60,
     cf_maxRequestSize = 9, cf_readinessInterval = 1, cf_secretsMaxPaths = 9, cf_secretsMaxPathsPerWorkload = 3, cf_secretsMaxValueBytes = 99,
     cf_sandboxLedgerMax = 9, cf_certTTL = 60, cf_challengeTTL = 60, cf_rateLimiterMax = 9, cf_sanValidation = False, cf_measurements = [''m'']\<rparr>"

definition cds_store :: Store where
  "cds_store = \<lparr>st_db = \<lparr>db_version = 1, db_entries = [(''web'', rel_workload)], db_rows = entry_rows ''web'' rel_workload\<rparr>, st_gen = 0\<rparr>"

definition cds_su :: "(unit, unit, unit, unit) startup" where
  "cds_su = \<lparr>su_fresh = (), su_disabled = (), su_operator = Some ((\<lambda>_ b. if b = op_body then Inr () else Inl ()), ''p''), su_store = cds_store,
     su_seed = None, su_seed_flt = no_fault, su_caChainPEM = [], su_measurementsDoc = [], su_policy = ah_Policy att_handler, su_RTMRs = [],
     su_images = [()], su_sandboxDigests = sh_Inventory rel_handler, su_inventoryHosts = sh_InventoryHosts rel_handler\<rparr>"

definition cds_d :: "(unit, unit, unit) dependencies" where
  "cds_d = dependencies_of cds_cfg cds_su"

definition cds_router :: "route \<Rightarrow> guard option" where
  "cds_router = the (newRouter cds_d)"

definition cds_s0 :: "unit cds_state" where
  "cds_s0 = snd (snd (projr (run_cds cds_x cds_cfg cds_su)))"

definition cds_m :: "int \<Rightarrow> cds_moment" where
  "cds_m t = \<lparr>cm_now = t, cm_nonce = rel_nonce, cm_create = 0, cm_consume = 1, cm_lookup = 1, cm_record = 0, cm_flt1 = no_fault,
     cm_flt2 = no_fault, cm_generated = None, cm_timeout = False, cm_sign = \<lparr>sm_serial = Some 7, sm_now = 1, sm_ok = True\<rparr>, cm_ready = True\<rparr>"

definition cds_get :: "unit tls_request" where
  "cds_get = rel_request ''GET''"

definition cds_events :: "unit cds_event list" where
  "cds_events = [Serve RAuthenticate (cds_m 0) cds_get, Serve RAttest (cds_m 1) cds_get, Serve RSecretPut (cds_m 2) op_request,
     Serve RSecretChallenge (cds_m 3) cds_get]"

section \<open>The start\<close>

lemma cds_d_parts:
  "dp_SecretsHandler cds_d = Some rel_handler" "dp_RateLimiter cds_d = Some 1" "dp_ChallengeLimiter cds_d = Some 0" "dp_MaxRequestSize cds_d = 9"
  "dp_SecretsOperator cds_d = Some \<lparr>oh_Authorize = Some (\<lambda>_ b. if b = op_body then Inr () else Inl ()), oh_MaxBodyBytes = allowlistWriteBodyCap\<rparr>"
  "dp_SecretsExplain cds_d \<noteq> None"
  by (simp_all add: cds_d_def dependencies_of_def cds_su_def cds_cfg_def secretsEnabled_def Let_def rel_handler_def)

lemma cds_router_guards:
  "newRouter cds_d = Some cds_router" "cds_router RAuthenticate = Some (Limited 0 False 9)" "cds_router RAttest = Some (Limited 1 False 9)"
  "cds_router RSecretPut = Some (Limited 1 False allowlistWriteBodyCap)" "cds_router RSecretChallenge = Some (Limited 1 True 9)"
  "cds_router RSecrets = Some (Limited 1 True 9)"
  using cds_d_parts
  by (auto simp: cds_router_def newRouter_def challengeProtected_def protected_def allowlistWrite_def perSandbox_def)

lemma cds_valid: "validateConfig cds_cfg = Inr ()"
  by (simp add: validateConfig_def validateSecretsConfig_def cds_cfg_def MaxNamedLeafTTL_def guardE_def bindE_def)

lemma cds_started:
  "run_cds cds_x cds_cfg cds_su = Inr (cds_d, cds_router, cds_s0)"
  "cds_s0 = \<lparr>cd_limiters = cd_limiters cds_s0, cd_challenges = NewChallengeStore 60, cd_cache = \<lparr>pc_held = None, pc_gen = 0\<rparr>,
     cd_bindings = NewLedger 60 9, cd_secret_challenges = NewChallengeStore 60, cd_secrets = ss_store (rel_state []),
     cd_policy = NewCachedPolicy, cd_allowlist = cds_store\<rparr>"
  "\<forall>a. length (rl_limiters (cd_limiters cds_s0 a)) \<le> 0 \<and> rl_maxEntries (cd_limiters cds_s0 a) = 9"
proof -
  have l: "NewIPRateLimiter () (cf_rateLimiterMax cds_cfg) = Some \<lparr>rl_limiters = [], rl_fresh = (), rl_maxEntries = 9\<rparr>"
    by (simp add: NewIPRateLimiter_def cds_cfg_def)
  have st: "allowlistOf cds_x cds_su = Inr cds_store" by (simp add: allowlistOf_def cds_su_def)
  have sec: "newSecretsStore cds_cfg = Some (ss_store (rel_state []))"
    by (simp add: newSecretsStore_def NewMemoryStore_def cds_cfg_def rel_state_def)
  have ttl: "cf_challengeTTL cds_cfg = 60" "cf_sandboxLedgerMax cds_cfg = 9" "CapTTL (cf_certTTL cds_cfg) MaxLeafTTL = 60"
    by (simp_all add: cds_cfg_def CapTTL_def MaxLeafTTL_def)
  have r: "run_cds cds_x cds_cfg cds_su = Inr (cds_d, cds_router,
      \<lparr>cd_limiters = (\<lambda>_. \<lparr>rl_limiters = [], rl_fresh = (), rl_maxEntries = 9\<rparr>), cd_challenges = NewChallengeStore 60,
       cd_cache = \<lparr>pc_held = None, pc_gen = 0\<rparr>, cd_bindings = NewLedger 60 9, cd_secret_challenges = NewChallengeStore 60,
       cd_secrets = ss_store (rel_state []), cd_policy = NewCachedPolicy, cd_allowlist = cds_store\<rparr>)"
    unfolding run_cds_def by (simp add: cds_valid l st sec ttl cds_router_guards(1)[unfolded cds_d_def] bindE_def cds_d_def if_distrib cong: if_cong)
  show "run_cds cds_x cds_cfg cds_su = Inr (cds_d, cds_router, cds_s0)"
    "cds_s0 = \<lparr>cd_limiters = cd_limiters cds_s0, cd_challenges = NewChallengeStore 60, cd_cache = \<lparr>pc_held = None, pc_gen = 0\<rparr>,
     cd_bindings = NewLedger 60 9, cd_secret_challenges = NewChallengeStore 60, cd_secrets = ss_store (rel_state []),
     cd_policy = NewCachedPolicy, cd_allowlist = cds_store\<rparr>"
    "\<forall>a. length (rl_limiters (cd_limiters cds_s0 a)) \<le> 0 \<and> rl_maxEntries (cd_limiters cds_s0 a) = 9"
    by (simp_all add: cds_s0_def r)
qed

section \<open>The run\<close>

text \<open>The limiters never refuse here; only how many keys they hold is followed.\<close>

definition room :: "nat \<Rightarrow> unit cds_state \<Rightarrow> bool" where
  "room n s \<longleftrightarrow> (\<forall>a. length (rl_limiters (cd_limiters s a)) \<le> n \<and> rl_maxEntries (cd_limiters s a) = 9)"

lemma cds_pass:
  assumes "room n s" and "n < 9" and "int (length (fst (rq_Body r))) \<le> mx"
  obtains L where "pass_guard cds_x (Limited a b mx) m r s = (Some r, s\<lparr>cd_limiters := L\<rparr>)" "room (Suc n) (s\<lparr>cd_limiters := L\<rparr>)"
proof -
  let ?key = "rate_bucket (if b then Some (RateKey (cx_release cds_x)) else None) rq_RemoteAddr r"
  let ?rl = "cd_limiters s a"
  define rl' where "rl' = snd (rl_allow (\<lambda>_ l. (True, l)) ?key (cm_now m) ?rl)"
  have len: "length (AList.update k e m) \<le> Suc (length m)" for k :: string and e :: "unit ipLimiterEntry" and m
    by (induction m) auto
  have h: "length (rl_limiters ?rl) \<le> n" "rl_maxEntries ?rl = 9" using assms(1) by (simp_all add: room_def)
  have rl: "rl_allow (\<lambda>_ l. (True, l)) ?key (cm_now m) ?rl = (True, rl')" "length (rl_limiters rl') \<le> Suc n" "rl_maxEntries rl' = 9"
    using h assms(2) le_trans[OF len] by (simp_all add: rl'_def rl_allow_def split: option.split)
  have "pass_guard cds_x (Limited a b mx) m r s = (Some r, s\<lparr>cd_limiters := (cd_limiters s)(a := rl')\<rparr>)"
  proof -
    have "cx_Allow cds_x = (\<lambda>_ l. (True, l))" "capBody mx r = r" using assms(3) by (simp_all add: cds_x_def capBody_def)
    thus ?thesis using rl(1) by (simp only: pass_guard_def RateLimitBy_def guard.case prod.case if_True)
  qed
  moreover have "room (Suc n) (s\<lparr>cd_limiters := (cd_limiters s)(a := rl')\<rparr>)" using assms(1) rl(2,3) by (auto simp: room_def le_SucI)
  ultimately show thesis by (rule that)
qed

text \<open>A request that passes its guard changes, besides a limiter, what its handler changes.\<close>

lemma cds_serve:
  assumes "room n s" and "n < 9" and "cds_router route = Some (Limited a b mx)" and "int (length (fst (rq_Body r))) \<le> mx"
    and "\<And>L. dispatch cds_x cds_d m route r (s\<lparr>cd_limiters := L\<rparr>) = (resp, s'\<lparr>cd_limiters := L\<rparr>)"
  obtains L where "ServeCDS cds_x cds_d cds_router m route r s = (resp, s'\<lparr>cd_limiters := L\<rparr>)" "room (Suc n) (s'\<lparr>cd_limiters := L\<rparr>)"
proof -
  obtain L where L: "pass_guard cds_x (Limited a b mx) m r s = (Some r, s\<lparr>cd_limiters := L\<rparr>)" "room (Suc n) (s\<lparr>cd_limiters := L\<rparr>)"
    using assms(1,2,4) by (rule cds_pass)
  show thesis by (rule that[of L]) (use L assms(3,5) in \<open>simp_all add: ServeCDS_def room_def\<close>)
qed

lemma HandleAttest_records:
  assumes "ax_body x (fst (rq_Body r)) = Some req" and "StdDecode (ab_Challenge req) = Some nonce"
    and "Consume nonce (am_consume m) (as_challenges s) = (True, cs)" and "authenticate x h r req nonce = Inr (csr, sandbox, ev)"
    and "resolveSandboxWorkload x h m (as_cache s) sandbox = (Inr matched, cache)" and "\<not> am_timeout m"
  shows "snd (HandleAttest x h m r s) =
    \<lparr>as_challenges = cs, as_cache = cache, as_bindings = recordSandboxBinding sandbox (am_record m) (as_bindings s)\<rparr>"
  using assms by (auto simp: HandleAttest_def Let_def split: sum.split)

abbreviation "cds_h \<equiv> dp_AttestHandler cds_d"

lemma cds_h_parts:
  "ah_SandboxDigests cds_h = sh_Inventory rel_handler" "ah_InventoryHosts cds_h = sh_InventoryHosts rel_handler" "ah_Images cds_h = [()]"
  "ah_AllowlistStore cds_h" "\<not> ah_SANValidation cds_h" "ah_Policy cds_h = ah_Policy att_handler"
  by (simp_all add: cds_d_def dependencies_of_def cds_su_def cds_cfg_def Let_def split: option.split) (simp_all add: rel_handler_def)

lemma cds_token: "verifySandboxToken cds_attest cds_h ''t'' () rel_nonce = Inr att_sandbox"
proof -
  have "length (v4_in_6 [10, 0, 0, 1]) = 16" by (simp add: v4_in_6_def)
  hence contains: "cidr_contains [host_route (v4_in_6 [10, 0, 0, 1])] sample_host"
    by (simp add: cidr_contains_def sample_host_ip host_route_self del: One_nat_def)
  have valid: "ValidateSandboxID ''sbx''"
    by (simp add: ValidateSandboxID_def sandbox_id_char_def name_byte_def less_eq_char_def)
  have "token_Verify (\<lambda>s. s) (\<lambda>_. Some ''k'') (\<lambda>_ _ g. g = ''sig'') (\<lambda>_. Some (token_body sample_host ''sbx'' ''k'' rel_nonce, []))
      \<lparr>st_Token = ''t'', st_Signature = ''sig''\<rparr> (Some ()) () rel_nonce = Inr att_sandbox"
    using sample_host_valid rel_nonce_coded(3)
    by (auto simp: token_Verify_def token_body_def RequesterKeyDigest_def NewSandboxTokenSigner_def bindE_Inr_iff)
  thus ?thesis using contains valid
    by (simp add: verifySandboxToken_def cds_attest_def cds_h_parts rel_handler_def UnverifiedInventoryHost_def token_body_def bindE_def wrapE_def
        del: One_nat_def)
qed

lemma cds_authenticate: "authenticate cds_attest cds_h r att_body rel_nonce = Inr (att_csr, att_sandbox, ''e'')"
proof -
  have "ValidateCSR att_csr (ah_Policy cds_h) = Inr ()"
    by (simp add: ValidateCSR_Inr att_csr_def cds_h_parts att_handler_def)
  moreover have "check_verdict cds_attest cds_h () ()" by (simp add: check_verdict_def cds_h_parts cds_attest_def)
  moreover have "ax_parse_csr cds_attest (ab_CSR att_body) = Some att_csr" "cr_PublicKey att_csr = ECDSAKey ()"
    "ax_report_data cds_attest () rel_nonce = Some ''d''" "ax_evidence_json cds_attest (ab_Evidence att_body) = Some ''e''"
    "ax_verify cds_attest (ab_Evidence att_body) (take 48 ''d'') = Inr ()" "ab_SandboxToken att_body = ''t''"
    by (simp_all add: cds_attest_def att_csr_def att_body_def)
  ultimately show ?thesis using cds_token cds_h_parts by (simp add: authenticate_def bindE_def wrapE_def guardE_def)
qed

lemma cds_resolve:
  assumes "am_load_store m = cds_store" and "am_flt m = no_fault"
  obtains matched cache where
    "resolveSandboxWorkload cds_attest cds_h m (Some \<lparr>pc_held = None, pc_gen = 0\<rparr>) att_sandbox = (Inr matched, Some cache)"
proof -
  let ?p = "snapshot_of (\<lambda>s. s) cds_store"
  have ps: "policySnapshot (\<lambda>s. s) m (Some \<lparr>pc_held = None, pc_gen = 0\<rparr>) = (Inr ?p, Some \<lparr>pc_held = Some ?p, pc_gen = Generation (am_gen_store m)\<rparr>)"
    using assms by (simp add: policySnapshot_def cache_snapshot_def loadPolicySnapshot_no_fault Let_def)
  have "snapshot_Contains ?p rel_digest"
    by (simp add: snapshot_Contains_def snapshot_of_def NewPolicySnapshot_def Itoa_nonempty st_doc_def cds_store_def rel_workload_def w_Digests_def
        w_containers_def)
  moreover have "ParseDigest rel_digest = Inr (Digest rel_digest)"
    using att_parse by (simp add: att_digest_def rel_digest_def)
  ultimately have "membership_loop ?p [rel_digest] [] = Inr [rel_digest]" by simp
  thus thesis using that ps
    by (simp add: resolveSandboxWorkload_def cds_h_parts rel_handler_def cds_attest_def bindE_def del: membership_loop.simps)
qed

abbreviation cds_base :: "ChallengeStore \<Rightarrow> policySnapshotCache \<Rightarrow> Ledger \<Rightarrow> ChallengeStore \<Rightarrow> MemoryStore \<Rightarrow> unit cds_state" where
  "cds_base cs cache l scs ms \<equiv> \<lparr>cd_limiters = cd_limiters cds_s0, cd_challenges = cs, cd_cache = cache, cd_bindings = l,
     cd_secret_challenges = scs, cd_secrets = ms, cd_policy = NewCachedPolicy, cd_allowlist = cds_store\<rparr>"

abbreviation "cds_pool \<equiv> Create rel_nonce 0 (NewChallengeStore 60)"

lemma cds_pool_consume: "\<exists>cs. Consume rel_nonce 1 cds_pool = (True, cs)"
  using rel_nonce_coded(3) by (simp add: Consume_def Create_def NewChallengeStore_def dropExpired_def maxChallenges_def Let_def)

abbreviation "cds_ledger \<equiv> snd (ledger_Record ''sbx'' sample_host 0 (NewLedger 60 9))"

lemma cds_ledger_is: "Some cds_ledger = ss_bindings (rel_state [])"
proof -
  have "sample_host \<noteq> []" by (simp add: sample_host_def)
  thus ?thesis by (simp add: ledger_Record_def NewLedger_def rel_state_def)
qed

abbreviation "cds_values \<equiv> storeLocked (ss_store (rel_state [])) ''/db'' ''pw'' OperatorHolder"

lemma cds_issue:
  "\<exists>resp cs cache. \<forall>L. dispatch cds_x cds_d (cds_m t) RAttest cds_get
      ((cds_base cds_pool \<lparr>pc_held = None, pc_gen = 0\<rparr> (NewLedger 60 9) scs ms)\<lparr>cd_limiters := L\<rparr>) =
    (resp, (cds_base cs cache cds_ledger scs ms)\<lparr>cd_limiters := L\<rparr>)"
proof -
  let ?s = "cds_base cds_pool \<lparr>pc_held = None, pc_gen = 0\<rparr> (NewLedger 60 9) scs ms"
  let ?m = "attest_moment_of (cds_m t) ?s" and ?r = "request.truncate cds_get"
  obtain cs where cs: "Consume rel_nonce 1 cds_pool = (True, cs)" using cds_pool_consume by blast
  obtain matched cache where rs: "resolveSandboxWorkload cds_attest cds_h ?m (Some \<lparr>pc_held = None, pc_gen = 0\<rparr>) att_sandbox = (Inr matched, Some cache)"
    by (rule cds_resolve[of ?m]) (simp_all add: attest_moment_of_def cds_m_def)
  have "snd (HandleAttest cds_attest cds_h ?m ?r (attest_view ?s)) =
      \<lparr>as_challenges = cs, as_cache = Some cache, as_bindings = recordSandboxBinding att_sandbox (am_record ?m) (as_bindings (attest_view ?s))\<rparr>"
    by (rule HandleAttest_records[OF _ _ _ cds_authenticate])
      (use cs rs in \<open>simp_all add: cds_attest_def att_body_def rel_nonce_coded attest_moment_of_def cds_m_def\<close>)
  then obtain res where h: "HandleAttest cds_attest cds_h ?m ?r (attest_view ?s) = (res, \<lparr>as_challenges = cs, as_cache = Some cache, as_bindings = Some cds_ledger\<rparr>)"
    by (cases "HandleAttest cds_attest cds_h ?m ?r (attest_view ?s)") (auto simp: recordSandboxBinding_def attest_moment_of_def cds_m_def)
  have x: "cx_attest cds_x = cds_attest" by (simp add: cds_x_def)
  show ?thesis
    by (intro exI[of _ "case res of Inl (st, code) \<Rightarrow> Refused st code | Inr leaf \<Rightarrow> Issued leaf"] exI[of _ cs] exI[of _ cache] allI)
      (use h[unfolded attest_view_def attest_moment_of_def, simplified] in
        \<open>simp add: dispatch_def x attest_view_def attest_moment_of_def put_attest_def split: sum.split\<close>)
qed

lemma cds_put: "dispatch cds_x cds_d (cds_m t) RSecretPut op_request ((cds_base cs cache l scs (ss_store (rel_state [])))\<lparr>cd_limiters := L\<rparr>) =
    (Plain (writeResult StatusCreated \<lparr>pt_Path = ''/db'', pt_Created = True, pt_Existing = None\<rparr>),
     (cds_base cs cache l scs cds_values)\<lparr>cd_limiters := L\<rparr>)"
proof -
  let ?h = "\<lparr>oh_Authorize = Some (\<lambda>_ b. if b = op_body then Inr () else Inl ()), oh_MaxBodyBytes = allowlistWriteBodyCap\<rparr>"
  have path: "requestPath op_request = Inr ''/db''" using rel_path[of "''PUT''"] by (simp add: op_request_def requestPath_def)
  have auth: "operator_authorize ?h op_request = Inr op_body"
    by (simp add: operator_authorize_def ReadCappedBody_def ReadAll_def allowlistWriteBodyCap_def MaxInt64_def op_request_def op_body_def
        request.truncate_def Let_def)
  have "ServeOperator op_dec ?h op_request (ss_store (rel_state [])) =
      (writeResult StatusCreated \<lparr>pt_Path = ''/db'', pt_Created = True, pt_Existing = None\<rparr>, cds_values)"
    using op_create unfolding ServeOperator_def auth path
    by (simp add: operator_authorize_def op_handler_def ReadCappedBody_def ReadAll_def MaxInt64_def
        op_request_def op_body_def request.truncate_def Let_def path[unfolded op_request_def op_body_def])
  thus ?thesis by (simp add: dispatch_def cds_d_parts cds_x_def)
qed

lemma cds_release:
  assumes "s = (cds_base cs cache cds_ledger cds_pool cds_values)\<lparr>cd_limiters := L\<rparr>"
  obtains s' where "dispatch cds_x cds_d (cds_m t) RSecrets cds_get s = (Plain (writeValue ''pw'' StatusOK), s')"
proof -
  let ?m = "moments_of (cds_m t) s" and ?v = "secret_view s"
  have x: "cx_release cds_x = rel_external" by (simp add: cds_x_def cds_attest_def rel_external_def external.truncate_def)
  have doc: "st_doc cds_store = rel_allowlist" by (simp add: st_doc_def cds_store_def rel_allowlist_def)
  have "cached_Allowlist (mo_policy ?m) (ss_policy ?v) = (Inr rel_allowlist, \<lparr>cp_version = 1, cp_cached = Some rel_allowlist\<rparr>)"
    using assms doc by (simp add: cached_Allowlist_def moments_of_def policy_read_of_def cds_m_def store_Version_def query_def LoadAll_no_fault
        NewCachedPolicy_def) (simp add: cds_store_def)
  from rel_admit_with[OF _ _ _ _ this, of "''GET''"]
  obtain s1 where adm: "admit_request rel_external rel_handler ?m cds_get ?v =
      (Inr (''/db'', \<lparr>gr_workload = ''web'', gr_secrets = w_Secrets rel_workload\<rparr>), s1)"
    using assms cds_ledger_is by (simp add: cds_get_def moments_of_def cds_m_def) (simp add: rel_state_def)
  have "Allows (w_Secrets rel_workload) ''/db'' OpRead"
    by (simp add: Allows_def rel_workload_def matchGlob_def CutSuffix_def HasSuffix_def subtreeSuffix_def suffix_def)
  moreover have "ms_Get (ss_store s1) ''/db'' = Inr ''pw''"
    using admit_request_frame[OF adm] assms by (simp add: storeLocked_Get)
  moreover have "rq_Method cds_get = ''GET''" by (simp add: cds_get_def rel_request_def)
  ultimately have "ServeSecret rel_external rel_handler ?m cds_get ?v = (writeValue ''pw'' StatusOK, s1)"
    by (simp add: ServeSecret_admit adm serveGet_def)
  thus thesis using that by (simp add: dispatch_def cds_d_parts x)
qed

lemma cds_body: "length (fst (rq_Body cds_get)) = 0" "int (length (fst (rq_Body op_request))) \<le> allowlistWriteBodyCap"
  by (simp_all add: cds_get_def rel_request_def op_request_def op_body_def allowlistWriteBodyCap_def)

lemma cds_run_ends:
  obtains cs cache L where "cds_run cds_x cds_d cds_router cds_events cds_s0 = (cds_base cs cache cds_ledger cds_pool cds_values)\<lparr>cd_limiters := L\<rparr>"
    "room 4 (cds_run cds_x cds_d cds_router cds_events cds_s0)"
proof -
  let ?n = "NewChallengeStore 60" and ?c = "\<lparr>pc_held = None, pc_gen = 0\<rparr>" and ?l = "NewLedger 60 9" and ?v = "ss_store (rel_state [])"
  have s0: "cds_s0 = cds_base ?n ?c ?l ?n ?v" "room 0 cds_s0"
    by (rule cds_started(2)) (unfold room_def, rule cds_started(3))
  have auth: "dispatch cds_x cds_d (cds_m 0) RAuthenticate cds_get (cds_s0\<lparr>cd_limiters := L\<rparr>) =
      (Plain (fst (HandleAuthenticate rel_nonce 0 ?n)), (cds_base cds_pool ?c ?l ?n ?v)\<lparr>cd_limiters := L\<rparr>)" for L
    by (subst s0(1)) (simp add: dispatch_def HandleAuthenticate_def cds_m_def)
  obtain L1 where 1: "ServeCDS cds_x cds_d cds_router (cds_m 0) RAuthenticate cds_get cds_s0 =
      (Plain (fst (HandleAuthenticate rel_nonce 0 ?n)), (cds_base cds_pool ?c ?l ?n ?v)\<lparr>cd_limiters := L1\<rparr>)"
      "room (Suc 0) ((cds_base cds_pool ?c ?l ?n ?v)\<lparr>cd_limiters := L1\<rparr>)"
    by (rule cds_serve[OF s0(2) _ cds_router_guards(2) _ auth]) (simp, simp add: cds_body(1), assumption)
  obtain resp cs cache where iss: "\<forall>L. dispatch cds_x cds_d (cds_m 1) RAttest cds_get ((cds_base cds_pool ?c ?l ?n ?v)\<lparr>cd_limiters := L\<rparr>) =
      (resp, (cds_base cs cache cds_ledger ?n ?v)\<lparr>cd_limiters := L\<rparr>)" using cds_issue[of 1 ?n ?v] by blast
  obtain L2 where 2: "ServeCDS cds_x cds_d cds_router (cds_m 1) RAttest cds_get ((cds_base cds_pool ?c ?l ?n ?v)\<lparr>cd_limiters := L1\<rparr>) =
      (resp, (cds_base cs cache cds_ledger ?n ?v)\<lparr>cd_limiters := L2\<rparr>)" "room 2 ((cds_base cs cache cds_ledger ?n ?v)\<lparr>cd_limiters := L2\<rparr>)"
    by (rule cds_serve[OF 1(2) _ cds_router_guards(3), of cds_get "cds_m 1" resp "cds_base cs cache cds_ledger ?n ?v"])
      (use cds_body(1) iss in \<open>simp_all add: numeral_2_eq_2\<close>)
  obtain L3 resp3 where 3: "ServeCDS cds_x cds_d cds_router (cds_m 2) RSecretPut op_request ((cds_base cs cache cds_ledger ?n ?v)\<lparr>cd_limiters := L2\<rparr>) =
      (resp3, (cds_base cs cache cds_ledger ?n cds_values)\<lparr>cd_limiters := L3\<rparr>)" "room 3 ((cds_base cs cache cds_ledger ?n cds_values)\<lparr>cd_limiters := L3\<rparr>)"
    by (rule cds_serve[OF 2(2) _ cds_router_guards(4), of op_request "cds_m 2" _ "cds_base cs cache cds_ledger ?n cds_values"])
      (use cds_body(2) cds_put[where t = 2 and cs = cs and cache = cache and l = cds_ledger and scs = ?n] in \<open>simp_all add: numeral_3_eq_3 numeral_2_eq_2\<close>)
  have ch: "dispatch cds_x cds_d (cds_m 3) RSecretChallenge cds_get ((cds_base cs cache cds_ledger ?n cds_values)\<lparr>cd_limiters := L\<rparr>) =
      (Plain (fst (HandleAuthenticate rel_nonce 0 ?n)), (cds_base cs cache cds_ledger cds_pool cds_values)\<lparr>cd_limiters := L\<rparr>)" for L
    by (simp add: dispatch_def HandleAuthenticate_def cds_m_def)
  obtain L4 resp4 where 4: "ServeCDS cds_x cds_d cds_router (cds_m 3) RSecretChallenge cds_get ((cds_base cs cache cds_ledger ?n cds_values)\<lparr>cd_limiters := L3\<rparr>) =
      (resp4, (cds_base cs cache cds_ledger cds_pool cds_values)\<lparr>cd_limiters := L4\<rparr>)" "room 4 ((cds_base cs cache cds_ledger cds_pool cds_values)\<lparr>cd_limiters := L4\<rparr>)"
    by (rule cds_serve[OF 3(2) _ cds_router_guards(5), of cds_get "cds_m 3" _ "cds_base cs cache cds_ledger cds_pool cds_values"])
      (use cds_body(1) ch in \<open>simp_all add: eval_nat_numeral\<close>)
  have run: "cds_run cds_x cds_d cds_router cds_events cds_s0 = (cds_base cs cache cds_ledger cds_pool cds_values)\<lparr>cd_limiters := L4\<rparr>"
    unfolding cds_events_def using 1(1) 2(1) 3(1) 4(1) by simp
  show thesis by (rule that[OF run]) (use run 4(2) in simp)
qed

lemma cds_served:
  obtains s' where "ServeCDS cds_x cds_d cds_router (cds_m 4) RSecrets cds_get (cds_run cds_x cds_d cds_router cds_events cds_s0) =
    (Plain (writeValue ''pw'' StatusOK), s')"
proof -
  obtain cs cache L where run: "cds_run cds_x cds_d cds_router cds_events cds_s0 = (cds_base cs cache cds_ledger cds_pool cds_values)\<lparr>cd_limiters := L\<rparr>"
    "room 4 (cds_run cds_x cds_d cds_router cds_events cds_s0)" by (rule cds_run_ends)
  obtain L' where p: "pass_guard cds_x (Limited 1 True 9) (cds_m 4) cds_get (cds_run cds_x cds_d cds_router cds_events cds_s0) =
      (Some cds_get, (cds_base cs cache cds_ledger cds_pool cds_values)\<lparr>cd_limiters := L'\<rparr>)"
    by (rule cds_pass[OF run(2), of cds_get 9 1 True "cds_m 4"]) (use cds_body(1) run(1) in simp_all)
  obtain s' where "dispatch cds_x cds_d (cds_m 4) RSecrets cds_get ((cds_base cs cache cds_ledger cds_pool cds_values)\<lparr>cd_limiters := L'\<rparr>) =
      (Plain (writeValue ''pw'' StatusOK), s')" by (rule cds_release[OF refl])
  thus thesis using that[of s'] p cds_router_guards(6) by (simp add: ServeCDS_def)
qed


end
