(* ===== verification/Nri_Mounts.thy ===== *)
theory Nri_Mounts
  imports Allowlist
begin

text \<open>
  The runtime's view of a pod and a container as the node plugin gets it, and how the plugin classifies the mounts of a container
  (\<^verbatim>\<open>src/internal/cmds/nri-image-policy/mounts.go\<close>). The runtime's messages are decoded ones: a repeated field holds no nil
  element, and a missing submessage reads as its zero value. What a path is stored on is the parameter \<open>storage\<close>; the inspector
  that answers it on Linux reads the kernel's mount table and is not modelled.
\<close>

section \<open>Pods, containers, mounts\<close>

record Mount =
  mt_Destination :: string
  mt_Type :: string
  mt_Source :: string
  mt_Options :: "string list"

record Hooks =
  hk_Prestart :: "string list"
  hk_CreateRuntime :: "string list"
  hk_CreateContainer :: "string list"
  hk_StartContainer :: "string list"
  hk_Poststart :: "string list"
  hk_Poststop :: "string list"

record PodSandbox =
  pd_Id :: string
  pd_Uid :: string
  pd_Name :: string
  pd_Namespace :: string
  pd_Labels :: "(string \<times> string) list"
  pd_Annotations :: "(string \<times> string) list"
  pd_Namespaces :: "string list"

record nri_Container =
  ct_Id :: string
  ct_PodSandboxId :: string
  ct_Name :: string
  ct_Annotations :: "(string \<times> string) list"
  ct_Args :: "string list"
  ct_Env :: "string list"
  ct_Mounts :: "Mount list"
  ct_Hooks :: Hooks
  ct_CDIDevices :: "string list"
  ct_Namespaces :: "string list"
  ct_Devices :: "string list"
  ct_Sysctl :: "(string \<times> string) list"
  ct_NetDevices :: "(string \<times> string) list"
  ct_Seccomp :: "string option"

text \<open>Reading a Go map: the zero value at a missing key.\<close>

definition map_get :: "(string \<times> string) list \<Rightarrow> string \<Rightarrow> string" where
  "map_get m k = (case map_of m k of None \<Rightarrow> [] | Some v \<Rightarrow> v)"

definition AnnotationInjected :: string where "AnnotationInjected = ''confidential.ai/c8s-injected''"
abbreviation SidecarSocketDir :: string where "SidecarSocketDir \<equiv> ''/run/c8s/workload-claims''"
definition CertContainerName :: string where "CertContainerName = ''c8s-cert''"
definition SecretContainerName :: string where "SecretContainerName = ''c8s-secret''"
definition VolumeContainerName :: string where "VolumeContainerName = ''c8s-volume''"

definition IsSidecarContainer :: "string \<Rightarrow> bool" where
  "IsSidecarContainer name = (name = CertContainerName \<or> name = SecretContainerName \<or> name = VolumeContainerName)"

section \<open>Classifying a mount\<close>

definition kubeletRoot :: string where "kubeletRoot = ''/var/lib/kubelet''"
abbreviation emptyDirPlugin :: string where "emptyDirPlugin \<equiv> ''kubernetes.io~empty-dir''"
abbreviation projectedPlugin :: string where "projectedPlugin \<equiv> ''kubernetes.io~projected''"
abbreviation serviceAccountDestination :: string where "serviceAccountDestination \<equiv> ''/var/run/secrets/kubernetes.io/serviceaccount''"
definition KubeVolumePrefix :: string where "KubeVolumePrefix = ''c8s-volume-''"

definition containerdRoots :: "string list" where
  "containerdRoots = [''/var/lib/containerd'', ''/run/containerd'', ''/var/lib/rancher/rke2/agent/containerd'', ''/run/k3s/containerd'']"

record MountContext =
  mc_PodUID :: string
  mc_SandboxID :: string
  mc_Container :: nri_Container
  mc_Storage :: "string \<Rightarrow> string"

definition ctx_valid :: "MountContext \<Rightarrow> bool" where
  "ctx_valid c = (mc_PodUID c \<noteq> [] \<and> mc_SandboxID c \<noteq> [] \<and> ct_PodSandboxId (mc_Container c) = mc_SandboxID c)"

definition observed :: "Mount \<Rightarrow> string \<Rightarrow> string \<Rightarrow> ObservedMount" where
  "observed m class storage =
     \<lparr>om_Destination = mt_Destination m, om_Source = mt_Source m, om_Class = class, om_Storage = storage, om_HostSourceDigest = [],
      om_ReadOnly = False\<rparr>"

definition criSandboxes :: string where "criSandboxes = ''/io.containerd.grpc.v1.cri/sandboxes/''"

definition containerdSandboxSource :: "string \<Rightarrow> string \<Rightarrow> string \<Rightarrow> bool" where
  "containerdSandboxSource source sandboxID leaf =
     (sandboxID \<noteq> [] \<and> list_ex (\<lambda>root. source = root @ criSandboxes @ sandboxID @ ''/'' @ leaf) containerdRoots)"

definition direct_child :: "string \<Rightarrow> string \<Rightarrow> bool" where
  "direct_child src pre = (HasPrefix src pre \<and> \<not> Contains (TrimPrefix src pre) ''/'')"

definition platform_source :: "MountContext \<Rightarrow> string \<Rightarrow> string \<Rightarrow> bool" where
  "platform_source ctx src dst =
     (if dst = ''/etc/hosts'' then src = kubeletRoot @ ''/pods/'' @ mc_PodUID ctx @ ''/etc-hosts''
      else if dst = ''/dev/termination-log'' then
        direct_child src (kubeletRoot @ ''/pods/'' @ mc_PodUID ctx @ ''/containers/'' @ ct_Name (mc_Container ctx) @ ''/'')
      else if dst = ''/etc/hostname'' \<or> dst = ''/etc/resolv.conf'' \<or> dst = ''/dev/shm'' then
        containerdSandboxSource src (mc_SandboxID ctx) (if dst = ''/dev/shm'' then ''shm'' else TrimPrefix dst ''/etc/'')
      else if dst = serviceAccountDestination then
        direct_child src (kubeletRoot @ ''/pods/'' @ mc_PodUID ctx @ ''/volumes/'' @ projectedPlugin @ ''/kube-api-access-'')
      else False)"

definition platformMountHandler :: "MountContext \<Rightarrow> Mount \<Rightarrow> ObservedMount option" where
  "platformMountHandler ctx m =
     (if \<not> ctx_valid ctx \<or> \<not> clean_abs (mt_Source m) \<or> \<not> clean_abs (mt_Destination m) then None
      else if \<not> platform_source ctx (mt_Source m) (mt_Destination m) then None
      else Some (observed m MountPlatform MountUnknown))"

definition cutTwoOrMore :: "string \<Rightarrow> (string \<times> string) option" where
  "cutTwoOrMore s = (case Cut s ''/'' of Some (a, b) \<Rightarrow> if a \<noteq> [] \<and> b \<noteq> [] then Some (a, b) else None | None \<Rightarrow> None)"

definition currentPodVolume :: "MountContext \<Rightarrow> Mount \<Rightarrow> (string \<times> string) option" where
  "currentPodVolume ctx m =
     (if \<not> ctx_valid ctx \<or> \<not> clean_abs (mt_Source m) \<or> \<not> clean_abs (mt_Destination m) then None
      else (case CutPrefix (mt_Source m) (kubeletRoot @ ''/pods/'' @ mc_PodUID ctx @ ''/volumes/'') of
              None \<Rightarrow> None
            | Some rest \<Rightarrow> cutTwoOrMore rest))"

definition emptyDirMountHandler :: "MountContext \<Rightarrow> Mount \<Rightarrow> ObservedMount option" where
  "emptyDirMountHandler ctx m =
     (case currentPodVolume ctx m of
        None \<Rightarrow> None
      | Some (plugin, volumePath) \<Rightarrow>
          if plugin \<noteq> emptyDirPlugin then None
          else Some (observed m (if HasPrefix volumePath KubeVolumePrefix then MountData else MountEmptyDir) (mc_Storage ctx (mt_Source m))))"

definition kubeletDataMountHandler :: "MountContext \<Rightarrow> Mount \<Rightarrow> ObservedMount option" where
  "kubeletDataMountHandler ctx m =
     (case currentPodVolume ctx m of
        None \<Rightarrow> None
      | Some (plugin, _) \<Rightarrow> if plugin = emptyDirPlugin then None else Some (observed m MountData (mc_Storage ctx (mt_Source m))))"

definition kubeletSubpathHandler :: "MountContext \<Rightarrow> Mount \<Rightarrow> ObservedMount option" where
  "kubeletSubpathHandler ctx m =
     (if \<not> ctx_valid ctx \<or> \<not> clean_abs (mt_Source m) \<or> \<not> clean_abs (mt_Destination m) then None
      else (case CutPrefix (mt_Source m) (kubeletRoot @ ''/pods/'' @ mc_PodUID ctx @ ''/volume-subpaths/'') of
              None \<Rightarrow> None
            | Some rest \<Rightarrow>
                let parts = split_on (CHR ''/'') rest in
                if length parts \<noteq> 3 \<or> parts ! 0 = [] \<or> parts ! 1 \<noteq> ct_Name (mc_Container ctx) \<or> parts ! 2 = [] then None
                else Some (observed m MountData (mc_Storage ctx (mt_Source m)))))"

definition isBindMount :: "Mount \<Rightarrow> bool" where
  "isBindMount m = (mt_Type m = ''bind'' \<or> ''bind'' \<in> set (mt_Options m) \<or> ''rbind'' \<in> set (mt_Options m))"

definition carriesHostBytes :: "Mount \<Rightarrow> bool" where
  "carriesHostBytes m = (rooted_path (mt_Source m) \<or> isBindMount m)"

text \<open>The loop over the options of a host mount: the read-only flag so far, and whether \<^verbatim>\<open>rro\<close> or \<^verbatim>\<open>rrw\<close> ended it.\<close>

fun host_options :: "string list \<Rightarrow> bool \<Rightarrow> bool \<times> bool" where
  "host_options [] ro = (ro, False)"
| "host_options (option # options) ro =
     (if option = ''ro'' then host_options options True
      else if option = ''rw'' then host_options options False
      else if option = ''rro'' \<or> option = ''rrw'' then (ro, True)
      else host_options options ro)"

definition observeHostMount :: "hash \<Rightarrow> Mount \<Rightarrow> ObservedMount" where
  "observeHostMount H m =
     (case host_options (mt_Options m) False of
        (ro, stopped) \<Rightarrow>
          let mount = (observed m MountHost MountUnknown)\<lparr>om_ReadOnly := ro\<rparr> in
          if stopped then mount
          else (case HostSourceDigest H (mt_Source m) of Inl _ \<Rightarrow> mount | Inr digest \<Rightarrow> mount\<lparr>om_HostSourceDigest := digest\<rparr>))"

definition mountHandlers :: "(MountContext \<Rightarrow> Mount \<Rightarrow> ObservedMount option) list" where
  "mountHandlers = [platformMountHandler, emptyDirMountHandler, kubeletDataMountHandler, kubeletSubpathHandler]"

fun first_handler :: "(MountContext \<Rightarrow> Mount \<Rightarrow> ObservedMount option) list \<Rightarrow> MountContext \<Rightarrow> Mount \<Rightarrow> ObservedMount option" where
  "first_handler [] ctx m = None"
| "first_handler (handler # hs) ctx m = (case handler ctx m of Some mount \<Rightarrow> Some mount | None \<Rightarrow> first_handler hs ctx m)"

definition observeMount :: "hash \<Rightarrow> MountContext \<Rightarrow> Mount \<Rightarrow> ObservedMount" where
  "observeMount H ctx m = (case first_handler mountHandlers ctx m of Some mount \<Rightarrow> mount | None \<Rightarrow> observeHostMount H m)"

definition mounts_Observe :: "hash \<Rightarrow> (string \<Rightarrow> string) \<Rightarrow> PodSandbox \<Rightarrow> nri_Container \<Rightarrow> ObservedMount list" where
  "mounts_Observe H storage pod ctr =
     (let ctx = \<lparr>mc_PodUID = pd_Uid pod, mc_SandboxID = pd_Id pod, mc_Container = ctr, mc_Storage = storage\<rparr> in
      map (observeMount H ctx) (filter carriesHostBytes (ct_Mounts ctr)))"

section \<open>A mount that is not a host mount is the pod's own\<close>

text \<open>The directories that the kubelet and the runtime keep for a pod, by their components. A slash in an identifier separates
  components, as it does in the path.\<close>

definition pod_dirs :: "PodSandbox \<Rightarrow> string list list" where
  "pod_dirs pod =
     ([''var'', ''lib'', ''kubelet'', ''pods''] @ split_on (CHR ''/'') (pd_Uid pod)) #
     map (\<lambda>root. path_comps root @ [''io.containerd.grpc.v1.cri'', ''sandboxes''] @ split_on (CHR ''/'') (pd_Id pod)) containerdRoots"

definition owned_by :: "PodSandbox \<Rightarrow> string \<Rightarrow> bool" where
  "owned_by pod src \<longleftrightarrow> clean_abs src \<and> (\<exists>dir\<in>set (pod_dirs pod). \<exists>rest. rest \<noteq> [] \<and> path_comps src = dir @ rest)"

lemma split_on_append_sep: "split_on c (a @ c # b) = split_on c a @ split_on c b"
  by (induction a) (auto split: list.splits)

lemma clean_abs_comps: "clean_abs p \<Longrightarrow> p \<noteq> ''/'' \<Longrightarrow> split_on (CHR ''/'') p = [] # path_comps p"
proof -
  assume p: "clean_abs p" "p \<noteq> ''/''"
  have fixed: "p = CHR ''/'' # Join ''/'' (path_comps p)" "list_all plain_comp (path_comps p)"
    using p path_clean_fixed unfolding clean_abs_def by blast+
  have "path_comps p \<noteq> []"
  proof
    assume "path_comps p = []"
    thus False using fixed(1) p(2) by simp
  qed
  hence "split_on (CHR ''/'') (Join ''/'' (path_comps p)) = path_comps p"
    using fixed(2) by (intro split_on_Join) (auto simp: list_all_iff plain_comp_def)
  thus ?thesis by (subst fixed(1)) simp
qed

lemma clean_abs_below:
  assumes "clean_abs src" and "src = dir @ CHR ''/'' # rest" and "dir \<noteq> []"
  shows "path_comps src = tl (split_on (CHR ''/'') dir) @ split_on (CHR ''/'') rest"
proof -
  have "src \<noteq> ''/''" using assms(2,3) by (cases dir) auto
  hence "[] # path_comps src = split_on (CHR ''/'') dir @ split_on (CHR ''/'') rest"
    using clean_abs_comps[OF assms(1)] assms(2) by (simp add: split_on_append_sep)
  thus ?thesis by (metis list.sel(3) split_on_nonempty tl_append2)
qed

lemma owned_kubelet:
  assumes "clean_abs src" and "src = kubeletRoot @ ''/pods/'' @ pd_Uid pod @ ''/'' @ rest"
  shows "owned_by pod src"
proof -
  have "src = (kubeletRoot @ ''/pods/'' @ pd_Uid pod) @ CHR ''/'' # rest" using assms(2) by simp
  hence "path_comps src = tl (split_on (CHR ''/'') (kubeletRoot @ ''/pods/'' @ pd_Uid pod)) @ split_on (CHR ''/'') rest"
    by (rule clean_abs_below[OF assms(1)]) (simp add: kubeletRoot_def)
  also have "tl (split_on (CHR ''/'') (kubeletRoot @ ''/pods/'' @ pd_Uid pod)) = hd (pod_dirs pod)"
    using split_on_append_sep[of "CHR ''/''" "''/var/lib/kubelet/pods''" "pd_Uid pod"] by (simp add: kubeletRoot_def pod_dirs_def)
  finally show ?thesis using assms(1) by (auto simp: owned_by_def pod_dirs_def)
qed

lemma containerdRoots_comps: "root \<in> set containerdRoots \<Longrightarrow> split_on (CHR ''/'') root = [] # path_comps root"
  by (auto simp: containerdRoots_def path_comps_def rooted_path_def dot_def dotdot_def)

lemma owned_containerd:
  assumes "clean_abs src" and "root \<in> set containerdRoots" and "src = root @ criSandboxes @ pd_Id pod @ ''/'' @ rest"
  shows "owned_by pod src"
proof -
  let ?mid = "criSandboxes"
  have root: "split_on (CHR ''/'') root = [] # path_comps root" by (rule containerdRoots_comps[OF assms(2)])
  have "src = (root @ ?mid @ pd_Id pod) @ CHR ''/'' # rest" using assms(3) by simp
  hence "path_comps src = tl (split_on (CHR ''/'') (root @ ?mid @ pd_Id pod)) @ split_on (CHR ''/'') rest"
    by (rule clean_abs_below[OF assms(1)]) (simp add: criSandboxes_def)
  also have "split_on (CHR ''/'') (root @ ?mid @ pd_Id pod) =
      split_on (CHR ''/'') root @ [''io.containerd.grpc.v1.cri'', ''sandboxes''] @ split_on (CHR ''/'') (pd_Id pod)"
    using split_on_append_sep[of "CHR ''/''" root "''io.containerd.grpc.v1.cri/sandboxes/'' @ pd_Id pod"]
      split_on_append_sep[of "CHR ''/''" "''io.containerd.grpc.v1.cri/sandboxes''" "pd_Id pod"] by (simp add: criSandboxes_def)
  finally have "path_comps src = (path_comps root @ [''io.containerd.grpc.v1.cri'', ''sandboxes''] @ split_on (CHR ''/'') (pd_Id pod)) @ split_on (CHR ''/'') rest"
    using root by simp
  moreover have "path_comps root @ [''io.containerd.grpc.v1.cri'', ''sandboxes''] @ split_on (CHR ''/'') (pd_Id pod) \<in> set (pod_dirs pod)"
    using assms(2) by (simp add: pod_dirs_def)
  ultimately show ?thesis using assms(1) unfolding owned_by_def by (metis split_on_nonempty)
qed

definition platform_dests :: "string set" where
  "platform_dests = {''/etc/hosts'', ''/dev/termination-log'', ''/etc/hostname'', ''/etc/resolv.conf'', ''/dev/shm'', serviceAccountDestination}"

text \<open>What an observation of a mount says about the mount.\<close>

definition faithful_mount :: "(string \<Rightarrow> string) \<Rightarrow> PodSandbox \<Rightarrow> nri_Container \<Rightarrow> Mount \<Rightarrow> ObservedMount \<Rightarrow> bool" where
  "faithful_mount storage pod ctr m om \<longleftrightarrow>
     om_Destination om = mt_Destination m \<and> om_Source om = mt_Source m \<and>
     (om_Class om = MountHost \<or>
      owned_by pod (mt_Source m) \<and> clean_abs (mt_Destination m) \<and> ct_PodSandboxId ctr = pd_Id pod \<and> pd_Uid pod \<noteq> [] \<and> pd_Id pod \<noteq> [] \<and>
      (om_Class om = MountPlatform \<and> mt_Destination m \<in> platform_dests \<or>
       om_Class om \<in> {MountEmptyDir, MountData} \<and> om_Storage om = storage (mt_Source m)))"

abbreviation ctx_of :: "(string \<Rightarrow> string) \<Rightarrow> PodSandbox \<Rightarrow> nri_Container \<Rightarrow> MountContext" where
  "ctx_of storage pod ctr \<equiv> \<lparr>mc_PodUID = pd_Uid pod, mc_SandboxID = pd_Id pod, mc_Container = ctr, mc_Storage = storage\<rparr>"

lemma direct_childD: "direct_child src pre \<Longrightarrow> prefix pre src"
  by (simp add: direct_child_def HasPrefix_def)

lemma owned_prefix:
  assumes "clean_abs src"
  shows "prefix (kubeletRoot @ ''/pods/'' @ pd_Uid pod @ ''/'') src \<Longrightarrow> owned_by pod src"
    and "root \<in> set containerdRoots \<Longrightarrow> prefix (root @ criSandboxes @ pd_Id pod @ ''/'') src \<Longrightarrow> owned_by pod src"
  using owned_kubelet[OF assms] owned_containerd[OF assms] by (auto simp: prefix_def)

lemma if_chain: "(if a then P else if b then Q else if c then R else if d then S else False) \<Longrightarrow> P \<or> Q \<or> R \<or> S"
  by (simp split: if_splits)

lemma platform_source_owned:
  assumes "clean_abs src" and "platform_source (ctx_of storage pod ctr) src dst"
  shows "owned_by pod src \<and> dst \<in> platform_dests"
proof -
  have "dst \<in> platform_dests" using assms(2) by (auto simp: platform_source_def platform_dests_def split: if_splits)
  moreover consider "prefix (kubeletRoot @ ''/pods/'' @ pd_Uid pod @ ''/'') src"
    | root where "root \<in> set containerdRoots" "prefix (root @ criSandboxes @ pd_Id pod @ ''/'') src"
  proof -
    let ?k = "kubeletRoot @ ''/pods/'' @ pd_Uid pod"
    have k: "prefix (?k @ ''/'') src" if "prefix (?k @ t) src" "prefix ''/'' t" for t
      by (rule prefix_order.trans[OF _ that(1)]) (simp add: that(2))
    have c: "\<exists>root\<in>set containerdRoots. prefix (root @ criSandboxes @ pd_Id pod @ ''/'') src"
      if "containerdSandboxSource src (pd_Id pod) leaf" for leaf
    proof -
      from that obtain root where "root \<in> set containerdRoots" "src = root @ criSandboxes @ pd_Id pod @ ''/'' @ leaf"
        unfolding containerdSandboxSource_def list_ex_iff by blast
      moreover from this(2) have "prefix (root @ criSandboxes @ pd_Id pod @ ''/'') src" by simp
      ultimately show ?thesis by blast
    qed
    have "prefix (?k @ ''/'') src \<or> (\<exists>leaf. containerdSandboxSource src (pd_Id pod) leaf)"
    proof -
      have "src = ?k @ ''/etc-hosts'' \<or> direct_child src (?k @ ''/containers/'' @ ct_Name ctr @ ''/'') \<or>
          direct_child src (?k @ ''/volumes/'' @ projectedPlugin @ ''/kube-api-access-'') \<or> (\<exists>leaf. containerdSandboxSource src (pd_Id pod) leaf)"
        using if_chain[OF assms(2)[unfolded platform_source_def MountContext.simps]] unfolding append_assoc by blast
      thus ?thesis using k[of "''/etc-hosts''"] k[of "''/containers/'' @ ct_Name ctr @ ''/''"]
          k[of "''/volumes/'' @ projectedPlugin @ ''/kube-api-access-''"] direct_childD
        by (elim disjE) (simp_all add: direct_childD)
    qed
    thus thesis using c that unfolding append_assoc by blast
  qed
  hence "owned_by pod src" using owned_prefix[OF assms(1)] by cases blast+
  ultimately show ?thesis by blast
qed

lemma currentPodVolume_owned:
  "currentPodVolume (ctx_of storage pod ctr) m = Some v \<Longrightarrow>
     owned_by pod (mt_Source m) \<and> ctx_valid (ctx_of storage pod ctr) \<and> clean_abs (mt_Destination m)"
  by (auto simp: currentPodVolume_def go_string split: if_splits option.splits intro!: owned_kubelet)

lemmas handler_defs = platformMountHandler_def emptyDirMountHandler_def kubeletDataMountHandler_def kubeletSubpathHandler_def

lemma platform_faithful: "platformMountHandler (ctx_of storage pod ctr) m = Some om \<Longrightarrow> faithful_mount storage pod ctr m om"
  using platform_source_owned
  by (fastforce simp: platformMountHandler_def faithful_mount_def observed_def ctx_valid_def split: if_splits)

lemma volume_faithful:
  assumes "emptyDirMountHandler (ctx_of storage pod ctr) m = Some om \<or> kubeletDataMountHandler (ctx_of storage pod ctr) m = Some om"
  shows "faithful_mount storage pod ctr m om"
proof -
  from assms obtain v where "currentPodVolume (ctx_of storage pod ctr) m = Some v"
      and "om_Class om \<in> {MountEmptyDir, MountData}" "om_Storage om = storage (mt_Source m)"
      "om_Destination om = mt_Destination m" "om_Source om = mt_Source m"
    by (auto simp: handler_defs observed_def split: option.splits prod.splits if_splits)
  thus ?thesis using currentPodVolume_owned[where storage=storage and pod=pod and ctr=ctr and m=m and v=v] by (simp add: faithful_mount_def ctx_valid_def)
qed

lemma subpath_faithful: "kubeletSubpathHandler (ctx_of storage pod ctr) m = Some om \<Longrightarrow> faithful_mount storage pod ctr m om"
  by (auto simp: kubeletSubpathHandler_def faithful_mount_def observed_def ctx_valid_def go_string Let_def
      split: if_splits option.splits intro!: owned_kubelet)

lemma observeHostMount_class: "om_Class (observeHostMount H m) = MountHost \<and> om_Destination (observeHostMount H m) = mt_Destination m \<and>
    om_Source (observeHostMount H m) = mt_Source m"
  by (simp add: observeHostMount_def observed_def Let_def split: prod.split sum.split)

lemma first_handler_prop: "first_handler hs ctx m = Some om \<Longrightarrow> (\<And>h. h \<in> set hs \<Longrightarrow> h ctx m = Some om \<Longrightarrow> P) \<Longrightarrow> P"
  by (induction hs) (auto split: option.splits)

lemma observeMount_faithful: "faithful_mount storage pod ctr m (observeMount H (ctx_of storage pod ctr) m)"
proof (cases "first_handler mountHandlers (ctx_of storage pod ctr) m")
  case None
  thus ?thesis using observeHostMount_class[of H m] by (simp add: observeMount_def faithful_mount_def)
next
  case (Some om)
  hence "faithful_mount storage pod ctr m om"
    by (rule first_handler_prop) (auto simp: mountHandlers_def intro: platform_faithful volume_faithful subpath_faithful)
  thus ?thesis using Some by (simp add: observeMount_def)
qed

text \<open>C16: \<^bold>\<open>The mount table is complete, and only the pod's own directories escape the host class.\<close> Every mount that brings in bytes from outside
  is observed, in order, with its source and destination. One that is not classified as a host mount has a clean source below the kubelet directory or the
  runtime's sandbox directory of this very pod, for a container the runtime places in this sandbox; it is a platform mount only at a platform
  destination, and otherwise carries the storage verdict of its source.\<close>

theorem mounts_observed:
  "list_all2 (faithful_mount storage pod ctr) (filter carriesHostBytes (ct_Mounts ctr)) (mounts_Observe H storage pod ctr)"
  by (simp add: mounts_Observe_def Let_def list_all2_map2 observeMount_faithful list.rel_refl)

end
