(* ===== verification/Nri_Sandbox.thy ===== *)
theory Nri_Sandbox
  imports Nri_Mounts
begin

text \<open>
  The host-privilege policy of the node plugin (\<^verbatim>\<open>src/internal/cmds/nri-image-policy/sandbox.go\<close>): what a container's spec holds of
  the host, and which of it violates the sandbox.
\<close>

section \<open>Observation\<close>

definition SandboxOff :: string where "SandboxOff = ''off''"
definition SandboxAudit :: string where "SandboxAudit = ''audit''"
definition SandboxEnforce :: string where "SandboxEnforce = ''enforce''"

definition sandboxNamespaces :: "string list" where
  "sandboxNamespaces = [''ipc'', ''network'', ''pid'', ''uts'']"

abbreviation cgroupNamespace :: string where "cgroupNamespace \<equiv> ''cgroup''"

abbreviation kernelFSTypes :: "string list" where "kernelFSTypes \<equiv> [''sysfs'', ''cgroup'']"

record sandboxObservation =
  so_PodNamespaces :: "string list"
  so_CtrNamespaces :: "string list"
  so_HostBinds :: "string list"
  so_WritableKernelFS :: "string list"
  so_Devices :: "string list"
  so_CDIDevices :: "string list"
  so_Hooks :: "string list"
  so_NetDevices :: "string list"
  so_Sysctls :: "string list"
  so_Seccomp :: string

definition isInjectedSocketMount :: "PodSandbox \<Rightarrow> nri_Container \<Rightarrow> Mount \<Rightarrow> bool" where
  "isInjectedSocketMount pod ctr m =
     (mt_Destination m = SidecarSocketDir \<and> ''ro'' \<in> set (mt_Options m) \<and>
      map_get (pd_Annotations pod) AnnotationInjected = ''true'' \<and> IsSidecarContainer (ct_Name ctr))"

definition owned_prefixes :: "PodSandbox \<Rightarrow> string list" where
  "owned_prefixes pod =
     (if pd_Uid pod \<noteq> [] then [kubeletRoot @ ''/pods/'' @ pd_Uid pod @ ''/''] else []) @
     (if pd_Id pod \<noteq> [] then map (\<lambda>root. root @ criSandboxes @ pd_Id pod @ ''/'') containerdRoots else [])"

definition is_host_bind :: "PodSandbox \<Rightarrow> nri_Container \<Rightarrow> string \<Rightarrow> Mount \<Rightarrow> bool" where
  "is_host_bind pod ctr ownSocketDir m =
     (let src = mt_Source m in
      if \<not> HasPrefix src ''/'' then False
      else if clean_abs src \<and> list_ex (HasPrefix src) (owned_prefixes pod) then False
      else if ownSocketDir \<noteq> [] \<and> src = ownSocketDir \<and> isInjectedSocketMount pod ctr m then False
      else True)"

definition hostBinds :: "PodSandbox \<Rightarrow> nri_Container \<Rightarrow> string \<Rightarrow> string list" where
  "hostBinds pod ctr ownSocketDir = map mt_Source (filter (is_host_bind pod ctr ownSocketDir) (ct_Mounts ctr))"

definition writableKernelFS :: "nri_Container \<Rightarrow> string list" where
  "writableKernelFS ctr =
     map mt_Destination (filter (\<lambda>m. mt_Type m \<in> set kernelFSTypes \<and> ''ro'' \<notin> set (mt_Options m)) (ct_Mounts ctr))"

definition hookStages :: "Hooks \<Rightarrow> string list" where
  "hookStages h =
     map fst (filter (\<lambda>(_, hooks). length hooks > 0)
       [(''prestart'', hk_Prestart h), (''createRuntime'', hk_CreateRuntime h), (''createContainer'', hk_CreateContainer h),
        (''startContainer'', hk_StartContainer h), (''poststart'', hk_Poststart h), (''poststop'', hk_Poststop h)])"

definition observeSandbox :: "PodSandbox \<Rightarrow> nri_Container \<Rightarrow> string \<Rightarrow> sandboxObservation" where
  "observeSandbox pod ctr ownSocketDir =
     \<lparr>so_PodNamespaces = pd_Namespaces pod, so_CtrNamespaces = ct_Namespaces ctr, so_HostBinds = hostBinds pod ctr ownSocketDir,
      so_WritableKernelFS = writableKernelFS ctr, so_Devices = ct_Devices ctr, so_CDIDevices = ct_CDIDevices ctr,
      so_Hooks = hookStages (ct_Hooks ctr), so_NetDevices = sort (map fst (ct_NetDevices ctr)), so_Sysctls = sort (map fst (ct_Sysctl ctr)),
      so_Seccomp = (case ct_Seccomp ctr of None \<Rightarrow> ''none'' | Some s \<Rightarrow> s)\<rparr>"

datatype violation = HostNamespace string | NoCgroupNamespace | WritableKernelFS | HostPathBind | HostDevice | CDIInjection | OCIHook
  | HostNetDevice | ContainerSysctl

definition violations :: "sandboxObservation \<Rightarrow> violation list" where
  "violations o' =
     map HostNamespace (filter (\<lambda>ns. ns \<notin> set (so_PodNamespaces o')) sandboxNamespaces) @
     (if cgroupNamespace \<notin> set (so_CtrNamespaces o') then [NoCgroupNamespace] else []) @
     (if length (so_WritableKernelFS o') > 0 then [WritableKernelFS] else []) @
     (if length (so_HostBinds o') > 0 then [HostPathBind] else []) @
     (if length (so_Devices o') > 0 then [HostDevice] else []) @
     (if length (so_CDIDevices o') > 0 then [CDIInjection] else []) @
     (if length (so_Hooks o') > 0 then [OCIHook] else []) @
     (if length (so_NetDevices o') > 0 then [HostNetDevice] else []) @
     (if length (so_Sysctls o') > 0 then [ContainerSysctl] else [])"

section \<open>What an empty list of violations means\<close>

text \<open>A container confined to its pod: its own namespaces, no device, hook or kernel knob of the host, and no mount source outside the
  pod's own directories but the plugin's socket directory, read-only, in a sidecar that gets it.\<close>

definition confined :: "PodSandbox \<Rightarrow> nri_Container \<Rightarrow> string \<Rightarrow> bool" where
  "confined pod ctr ownSocketDir \<longleftrightarrow>
     {''ipc'', ''network'', ''pid'', ''uts''} \<subseteq> set (pd_Namespaces pod) \<and> ''cgroup'' \<in> set (ct_Namespaces ctr) \<and>
     ct_Devices ctr = [] \<and> ct_CDIDevices ctr = [] \<and> ct_NetDevices ctr = [] \<and> ct_Sysctl ctr = [] \<and>
     hk_Prestart (ct_Hooks ctr) = [] \<and> hk_CreateRuntime (ct_Hooks ctr) = [] \<and> hk_CreateContainer (ct_Hooks ctr) = [] \<and>
     hk_StartContainer (ct_Hooks ctr) = [] \<and> hk_Poststart (ct_Hooks ctr) = [] \<and> hk_Poststop (ct_Hooks ctr) = [] \<and>
     (\<forall>m\<in>set (ct_Mounts ctr).
        (mt_Type m \<in> {''sysfs'', ''cgroup''} \<longrightarrow> ''ro'' \<in> set (mt_Options m)) \<and>
        (rooted_path (mt_Source m) \<longrightarrow> owned_by pod (mt_Source m) \<or>
           mt_Source m = ownSocketDir \<and> mt_Destination m = SidecarSocketDir \<and> ''ro'' \<in> set (mt_Options m) \<and>
           IsSidecarContainer (ct_Name ctr) \<and> map_get (pd_Annotations pod) AnnotationInjected = ''true''))"

lemma HasPrefix_rooted: "HasPrefix src ''/'' \<longleftrightarrow> rooted_path src"
  by (cases src) (auto simp: HasPrefix_def rooted_path_def)

lemma owned_prefixes_owned:
  assumes "clean_abs src" and "p \<in> set (owned_prefixes pod)" and "HasPrefix src p"
  shows "owned_by pod src"
  using assms owned_prefix[OF assms(1), where pod=pod] by (auto simp: owned_prefixes_def HasPrefix_def split: if_splits)

lemma hookStages_empty: "hookStages h = [] \<longleftrightarrow>
    hk_Prestart h = [] \<and> hk_CreateRuntime h = [] \<and> hk_CreateContainer h = [] \<and> hk_StartContainer h = [] \<and> hk_Poststart h = [] \<and> hk_Poststop h = []"
  by (simp add: hookStages_def)

lemma violations_empty: "violations o' = [] \<longleftrightarrow>
    set sandboxNamespaces \<subseteq> set (so_PodNamespaces o') \<and> cgroupNamespace \<in> set (so_CtrNamespaces o') \<and> so_WritableKernelFS o' = [] \<and>
    so_HostBinds o' = [] \<and> so_Devices o' = [] \<and> so_CDIDevices o' = [] \<and> so_Hooks o' = [] \<and> so_NetDevices o' = [] \<and> so_Sysctls o' = []"
  by (auto simp: violations_def filter_empty_conv)

lemma sort_empty_iff: "sort xs = [] \<longleftrightarrow> xs = []"
  by (metis length_sort length_0_conv)

lemma no_violation_confined:
  assumes "violations (observeSandbox pod ctr dir) = []"
  shows "confined pod ctr dir"
proof -
  note v = assms[unfolded violations_empty observeSandbox_def sandboxObservation.simps]
  have "owned_by pod (mt_Source m) \<or> mt_Source m = dir \<and> isInjectedSocketMount pod ctr m"
    if "m \<in> set (ct_Mounts ctr)" "rooted_path (mt_Source m)" for m
  proof -
    have "\<not> is_host_bind pod ctr dir m" using v that(1) by (auto simp: hostBinds_def filter_empty_conv)
    thus ?thesis using that(2) owned_prefixes_owned
      by (auto simp: is_host_bind_def HasPrefix_rooted list_ex_iff Let_def split: if_splits)
  qed
  moreover have "''ro'' \<in> set (mt_Options m)" if "m \<in> set (ct_Mounts ctr)" "mt_Type m \<in> {''sysfs'', ''cgroup''}" for m
    using v that by (auto simp: writableKernelFS_def filter_empty_conv)
  ultimately show ?thesis using v
    unfolding confined_def isInjectedSocketMount_def hookStages_empty sort_empty_iff sandboxNamespaces_def by auto
qed

end
