(* ===== verification/Nri_Config.thy ===== *)
theory Nri_Config
  imports Nri_Sandbox Allowlist_Normalize
begin

text \<open>
  The configuration of the node plugin (\<^verbatim>\<open>src/internal/cmds/nri-image-policy/config.go\<close>). The YAML decoder, the URL parser, the
  TEE family and pin parsers and the Kubernetes label selectors are parameters.
\<close>

section \<open>Configuration\<close>

abbreviation ModeFailClosed :: string where "ModeFailClosed \<equiv> ''fail-closed''"
abbreviation ModeAudit :: string where "ModeAudit \<equiv> ''audit''"

abbreviation OpIn :: string where "OpIn \<equiv> ''In''"
abbreviation OpNotIn :: string where "OpNotIn \<equiv> ''NotIn''"
abbreviation OpExists :: string where "OpExists \<equiv> ''Exists''"
abbreviation OpDoesNotExist :: string where "OpDoesNotExist \<equiv> ''DoesNotExist''"

record labelExpression =
  le_Key :: string
  le_Operator :: string
  le_Values :: "string list"

text \<open>A compiled selector is its list of requirements.\<close>

record 'r labelRule =
  lr_Name :: string
  lr_MatchExpressions :: "labelExpression list"
  lr_selector :: "'r list option"

record pullConfig =
  pu_URL :: string
  pu_Interval :: int
  pu_Timeout :: int
  pu_AttestationApiURL :: string
  pu_CDSMeasurements :: "string list"
  pu_CDSRTMRs :: "string list"
  pu_CDSMeasurementsConfig :: string

record 'r policyConfig =
  po_Mode :: string
  po_EnforceExisting :: bool
  po_DenyMissingAnnotation :: bool
  po_LabelRules :: "'r labelRule list"
  po_Sandbox :: string
  po_ExemptNamespaces :: "string list"
  po_ExemptSnapshotPath :: string
  po_FatalExisting :: bool
  po_BootMarkerPath :: string

record 'r nri_config =
  nc_Platform :: string
  nc_Base :: "Allowlist option"
  nc_NodeTCB :: bool
  nc_Pull :: pullConfig
  nc_Policy :: "'r policyConfig"
  nc_SocketDir :: string

datatype selector_op = SelIn | SelNotIn | SelExists | SelDoesNotExist

record 'r config_external =
  xc_FamilySNP :: string
  xc_ParseFamily :: "string \<Rightarrow> string option"
  xc_Scheme :: "string \<Rightarrow> string option"
  xc_MeasurementsOK :: "string list \<Rightarrow> bool"
  xc_PinsOK :: "string list \<Rightarrow> bool"
  xc_NewRequirement :: "string \<Rightarrow> selector_op \<Rightarrow> string list \<Rightarrow> 'r option"
  xc_Matches :: "'r list \<Rightarrow> (string \<times> string) list \<Rightarrow> bool"
  xc_yaml :: "string \<Rightarrow> 'r nri_config \<Rightarrow> 'r nri_config option"

datatype nri_config_error = BadYAML | BadBase norm_error | BadPlatform | FatalNeedsFailClosed | FatalNeedsEnforce | FatalNeedsMarker | PullNeedsBase
  | CompetingPins | BadPullTimeout | BadPullInterval | BadPullURL | BadPullScheme | NoAttestationApi | BadMeasurements | BadRTMRs | NothingEnabled
  | BadMode | BadSandbox | NodeTCBNeedsBase | ClaimsNeedAllowlist | ExemptNeedsPath | RuleName | RuleDuplicate | RuleEmpty | RuleKey | RuleOperator
  | RuleRequirement

definition validatePolicyInputs :: "pullConfig \<Rightarrow> nri_config_error + unit" where
  "validatePolicyInputs c =
     guardE (\<not> (pu_CDSMeasurementsConfig c \<noteq> [] \<and> (length (pu_CDSMeasurements c) \<noteq> 0 \<or> length (pu_CDSRTMRs c) \<noteq> 0))) CompetingPins"

definition foldHexPins :: "string list \<Rightarrow> string list" where
  "foldHexPins vals = map ToLower vals"

definition NormalizedPlatform :: "'r config_external \<Rightarrow> 'r nri_config \<Rightarrow> string" where
  "NormalizedPlatform x c =
     (if TrimSpace (nc_Platform c) = [] then xc_FamilySNP x
      else (case xc_ParseFamily x (nc_Platform c) of None \<Rightarrow> nc_Platform c | Some family \<Rightarrow> family))"

definition PullEnabled :: "'r nri_config \<Rightarrow> bool" where
  "PullEnabled c = (pu_URL (nc_Pull c) \<noteq> [])"

definition baseEnabled :: "'r nri_config \<Rightarrow> bool" where
  "baseEnabled c = (case nc_Base c of None \<Rightarrow> False | Some base \<Rightarrow> length (elems (al_Workloads base)) > 0)"

definition sandboxMode :: "'r nri_config \<Rightarrow> string" where
  "sandboxMode c = (if po_Sandbox (nc_Policy c) = [] then SandboxOff else po_Sandbox (nc_Policy c))"

definition sandboxObserved :: "'r nri_config \<Rightarrow> bool" where
  "sandboxObserved c = (sandboxMode c \<noteq> SandboxOff)"

definition AllowlistEnabled :: "'r nri_config \<Rightarrow> bool" where
  "AllowlistEnabled c = (PullEnabled c \<or> baseEnabled c)"

definition labelOperator :: "string \<Rightarrow> nri_config_error + selector_op" where
  "labelOperator op =
     (if op = OpIn then Inr SelIn
      else if op = OpNotIn then Inr SelNotIn
      else if op = OpExists then Inr SelExists
      else if op = OpDoesNotExist then Inr SelDoesNotExist
      else Inl RuleOperator)"

definition buildLabelSelector :: "'r config_external \<Rightarrow> 'r labelRule \<Rightarrow> nri_config_error + 'r list" where
  "buildLabelSelector x rule =
     mapE (\<lambda>expr.
       bindE (guardE (le_Key expr \<noteq> []) RuleKey) (\<lambda>_.
       bindE (labelOperator (le_Operator expr)) (\<lambda>op.
       (case xc_NewRequirement x (le_Key expr) op (le_Values expr) of None \<Rightarrow> Inl RuleRequirement | Some req \<Rightarrow> Inr req))))
       (lr_MatchExpressions rule)"

fun label_rules_loop :: "'r config_external \<Rightarrow> string list \<Rightarrow> 'r labelRule list \<Rightarrow> nri_config_error + 'r labelRule list" where
  "label_rules_loop x seen [] = Inr []"
| "label_rules_loop x seen (r # rules) =
     bindE (guardE (lr_Name r \<noteq> []) RuleName) (\<lambda>_.
     bindE (guardE (lr_Name r \<notin> set seen) RuleDuplicate) (\<lambda>_.
     bindE (guardE (length (lr_MatchExpressions r) \<noteq> 0) RuleEmpty) (\<lambda>_.
     bindE (buildLabelSelector x r) (\<lambda>selector.
     bindE (label_rules_loop x (lr_Name r # seen) rules) (\<lambda>rules'.
       Inr (r\<lparr>lr_selector := Some selector\<rparr> # rules'))))))"

definition validateLabelRules :: "'r config_external \<Rightarrow> 'r labelRule list \<Rightarrow> nri_config_error + 'r labelRule list" where
  "validateLabelRules x rules = label_rules_loop x [] rules"

definition validate_fatal :: "'r nri_config \<Rightarrow> nri_config_error + unit" where
  "validate_fatal c =
     (if po_FatalExisting (nc_Policy c) then
        bindE (guardE (po_Mode (nc_Policy c) = ModeFailClosed) FatalNeedsFailClosed) (\<lambda>_.
        bindE (guardE (po_EnforceExisting (nc_Policy c)) FatalNeedsEnforce) (\<lambda>_.
        guardE (HasPrefix (po_BootMarkerPath (nc_Policy c)) ''/'') FatalNeedsMarker))
      else Inr ())"

definition validate_pull :: "'r config_external \<Rightarrow> 'r nri_config \<Rightarrow> nri_config_error + unit" where
  "validate_pull x c =
     bindE (guardE (\<not> (PullEnabled c \<and> \<not> baseEnabled c)) PullNeedsBase) (\<lambda>_.
     if PullEnabled c then
       bindE (validatePolicyInputs (nc_Pull c)) (\<lambda>_.
       bindE (guardE (\<not> pu_Timeout (nc_Pull c) \<le> 0) BadPullTimeout) (\<lambda>_.
       bindE (guardE (\<not> pu_Interval (nc_Pull c) \<le> 0) BadPullInterval) (\<lambda>_.
       bindE (case xc_Scheme x (pu_URL (nc_Pull c)) of None \<Rightarrow> Inl BadPullURL | Some scheme \<Rightarrow> Inr scheme) (\<lambda>scheme.
       bindE (guardE (scheme = ''https'') BadPullScheme) (\<lambda>_.
       bindE (guardE (pu_AttestationApiURL (nc_Pull c) \<noteq> []) NoAttestationApi) (\<lambda>_.
       bindE (guardE (xc_MeasurementsOK x (pu_CDSMeasurements (nc_Pull c))) BadMeasurements) (\<lambda>_.
       guardE (xc_PinsOK x (pu_CDSRTMRs (nc_Pull c))) BadRTMRs)))))))
     else Inr ())"

definition validate_sandbox :: "string \<Rightarrow> nri_config_error + string" where
  "validate_sandbox mode =
     (if mode = SandboxEnforce \<or> mode = SandboxAudit \<or> mode = SandboxOff then Inr mode
      else if mode = [] then Inr SandboxEnforce
      else Inl BadSandbox)"

text \<open>The default for the sandbox mode and the compiled selectors are written into the configuration that is returned.\<close>

definition config_Validate :: "'r config_external \<Rightarrow> 'r nri_config \<Rightarrow> nri_config_error + 'r nri_config" where
  "config_Validate x c =
     bindE (guardE (xc_ParseFamily x (NormalizedPlatform x c) \<noteq> None) BadPlatform) (\<lambda>_.
     bindE (validate_fatal c) (\<lambda>_.
     bindE (validate_pull x c) (\<lambda>_.
     bindE (guardE (\<not> (\<not> AllowlistEnabled c \<and> length (po_LabelRules (nc_Policy c)) = 0)) NothingEnabled) (\<lambda>_.
     bindE (guardE (po_Mode (nc_Policy c) = ModeFailClosed \<or> po_Mode (nc_Policy c) = ModeAudit) BadMode) (\<lambda>_.
     bindE (validate_sandbox (po_Sandbox (nc_Policy c))) (\<lambda>sandbox.
     bindE (guardE (\<not> (nc_NodeTCB c \<and> \<not> baseEnabled c)) NodeTCBNeedsBase) (\<lambda>_.
     bindE (guardE (\<not> (nc_SocketDir c \<noteq> [] \<and> \<not> AllowlistEnabled c)) ClaimsNeedAllowlist) (\<lambda>_.
     bindE (guardE (\<not> (length (po_ExemptNamespaces (nc_Policy c)) > 0 \<and> po_ExemptSnapshotPath (nc_Policy c) = [])) ExemptNeedsPath) (\<lambda>_.
     bindE (validateLabelRules x (po_LabelRules (nc_Policy c))) (\<lambda>rules.
       Inr (c\<lparr>nc_Policy := (nc_Policy c)\<lparr>po_Sandbox := sandbox, po_LabelRules := rules\<rparr>\<rparr>)))))))))))"

abbreviation (input) defaultPullInterval :: int where "defaultPullInterval \<equiv> 5000000000"
abbreviation (input) defaultPullTimeout :: int where "defaultPullTimeout \<equiv> 30000000000"

definition default_config :: "'r nri_config" where
  "default_config =
     \<lparr>nc_Platform = [], nc_Base = None, nc_NodeTCB = False,
      nc_Pull = \<lparr>pu_URL = [], pu_Interval = defaultPullInterval, pu_Timeout = defaultPullTimeout, pu_AttestationApiURL = [],
        pu_CDSMeasurements = [], pu_CDSRTMRs = [], pu_CDSMeasurementsConfig = []\<rparr>,
      nc_Policy = \<lparr>po_Mode = ModeFailClosed, po_EnforceExisting = True, po_DenyMissingAnnotation = True, po_LabelRules = [],
        po_Sandbox = SandboxEnforce, po_ExemptNamespaces = [], po_ExemptSnapshotPath = [], po_FatalExisting = False, po_BootMarkerPath = []\<rparr>,
      nc_SocketDir = []\<rparr>"

definition parseConfig :: "hash \<Rightarrow> 'r config_external \<Rightarrow> string \<Rightarrow> nri_config_error + 'r nri_config" where
  "parseConfig H x data =
     bindE (case xc_yaml x data default_config of None \<Rightarrow> Inl BadYAML | Some cfg \<Rightarrow> Inr cfg) (\<lambda>cfg.
     let cfg1 = cfg\<lparr>nc_Pull := (nc_Pull cfg)\<lparr>pu_CDSMeasurements := foldHexPins (pu_CDSMeasurements (nc_Pull cfg)),
                                   pu_CDSRTMRs := foldHexPins (pu_CDSRTMRs (nc_Pull cfg))\<rparr>\<rparr> in
     bindE (case nc_Base cfg1 of
              None \<Rightarrow> Inr cfg1
            | Some base \<Rightarrow> bindE (wrapE BadBase (normalizeAllowlist H True base)) (\<lambda>base'. Inr (cfg1\<lparr>nc_Base := Some base'\<rparr>))) (\<lambda>cfg2.
     config_Validate x cfg2))"

definition evaluateRule :: "'r config_external \<Rightarrow> 'r labelRule \<Rightarrow> (string \<times> string) list \<Rightarrow> bool" where
  "evaluateRule x rule podLabels = (case lr_selector rule of None \<Rightarrow> False | Some selector \<Rightarrow> xc_Matches x selector podLabels)"

section \<open>What a configuration that loads promises\<close>

lemma buildLabelSelector_frame [simp]: "buildLabelSelector x (r\<lparr>lr_selector := s\<rparr>) = buildLabelSelector x r"
  by (simp add: buildLabelSelector_def)

lemma label_rules_loop_Inr:
  assumes "label_rules_loop x seen rules = Inr rules'"
  shows "map lr_Name rules' = map lr_Name rules \<and> distinct (map lr_Name rules') \<and> set seen \<inter> set (map lr_Name rules') = {} \<and>
    (\<forall>r\<in>set rules'. lr_selector r \<noteq> None \<and> lr_MatchExpressions r \<noteq> []) \<and> label_rules_loop x seen rules' = Inr rules'"
  using assms
proof (induction rules arbitrary: seen rules')
  case (Cons r rules)
  from Cons.prems obtain selector rest where r: "lr_Name r \<noteq> []" "lr_Name r \<notin> set seen" "lr_MatchExpressions r \<noteq> []"
      "buildLabelSelector x r = Inr selector" "label_rules_loop x (lr_Name r # seen) rules = Inr rest" "rules' = r\<lparr>lr_selector := Some selector\<rparr> # rest"
    by (auto simp: bindE_Inr_iff)
  note ih = Cons.IH[OF r(5)]
  hence "lr_Name ` set rest = lr_Name ` set rules" by (metis list.set_map)
  thus ?case using ih r by auto
qed simp

lemma validate_sandbox_Inr:
  "validate_sandbox mode = Inr m \<Longrightarrow> m \<in> {SandboxEnforce, SandboxAudit, SandboxOff} \<and> validate_sandbox m = Inr m"
  by (auto simp: validate_sandbox_def split: if_splits)

lemma config_Validate_Inr:
  assumes "config_Validate x c = Inr c'"
  obtains sandbox rules where "c' = c\<lparr>nc_Policy := (nc_Policy c)\<lparr>po_Sandbox := sandbox, po_LabelRules := rules\<rparr>\<rparr>"
    "xc_ParseFamily x (NormalizedPlatform x c) \<noteq> None" "validate_fatal c = Inr ()" "validate_pull x c = Inr ()"
    "AllowlistEnabled c \<or> po_LabelRules (nc_Policy c) \<noteq> []" "po_Mode (nc_Policy c) \<in> {ModeFailClosed, ModeAudit}"
    "sandbox \<in> {SandboxEnforce, SandboxAudit, SandboxOff}" "nc_NodeTCB c \<longrightarrow> baseEnabled c" "nc_SocketDir c \<noteq> [] \<longrightarrow> AllowlistEnabled c"
    "po_ExemptNamespaces (nc_Policy c) \<noteq> [] \<longrightarrow> po_ExemptSnapshotPath (nc_Policy c) \<noteq> []"
    "label_rules_loop x [] (po_LabelRules (nc_Policy c)) = Inr rules" "validate_sandbox sandbox = Inr sandbox"
proof -
  from assms obtain sandbox rules where "validate_sandbox (po_Sandbox (nc_Policy c)) = Inr sandbox"
      "validateLabelRules x (po_LabelRules (nc_Policy c)) = Inr rules"
      "c' = c\<lparr>nc_Policy := (nc_Policy c)\<lparr>po_Sandbox := sandbox, po_LabelRules := rules\<rparr>\<rparr>"
      "xc_ParseFamily x (NormalizedPlatform x c) \<noteq> None" "validate_fatal c = Inr ()" "validate_pull x c = Inr ()"
      "AllowlistEnabled c \<or> po_LabelRules (nc_Policy c) \<noteq> []" "po_Mode (nc_Policy c) = ModeFailClosed \<or> po_Mode (nc_Policy c) = ModeAudit"
      "nc_NodeTCB c \<longrightarrow> baseEnabled c" "nc_SocketDir c \<noteq> [] \<longrightarrow> AllowlistEnabled c"
      "po_ExemptNamespaces (nc_Policy c) \<noteq> [] \<longrightarrow> po_ExemptSnapshotPath (nc_Policy c) \<noteq> []"
    unfolding config_Validate_def bindE_Inr_iff guardE_Inr_iff sum.inject length_0_conv length_greater_0_conv
    by (elim exE conjE) (rule that, assumption, assumption, simp_all, blast+)
  thus thesis using that[where sandbox=sandbox and rules=rules] validate_sandbox_Inr by (simp add: validateLabelRules_def)
qed

lemma frame_simps [simp]:
  "PullEnabled (c\<lparr>nc_Policy := p\<rparr>) = PullEnabled c" "baseEnabled (c\<lparr>nc_Policy := p\<rparr>) = baseEnabled c"
  "AllowlistEnabled (c\<lparr>nc_Policy := p\<rparr>) = AllowlistEnabled c" "NormalizedPlatform x (c\<lparr>nc_Policy := p\<rparr>) = NormalizedPlatform x c"
  "validate_pull x (c\<lparr>nc_Policy := p\<rparr>) = validate_pull x c"
  by (simp_all add: PullEnabled_def baseEnabled_def AllowlistEnabled_def NormalizedPlatform_def validate_pull_def split: option.split)

lemma config_Validate_idem:
  assumes "config_Validate x c = Inr c'"
  shows "config_Validate x c' = Inr c'"
proof -
  from assms obtain sandbox rules where c': "c' = c\<lparr>nc_Policy := (nc_Policy c)\<lparr>po_Sandbox := sandbox, po_LabelRules := rules\<rparr>\<rparr>"
    and v: "xc_ParseFamily x (NormalizedPlatform x c) \<noteq> None" "validate_fatal c = Inr ()" "validate_pull x c = Inr ()"
    "AllowlistEnabled c \<or> po_LabelRules (nc_Policy c) \<noteq> []" "po_Mode (nc_Policy c) \<in> {ModeFailClosed, ModeAudit}"
    "sandbox \<in> {SandboxEnforce, SandboxAudit, SandboxOff}" "nc_NodeTCB c \<longrightarrow> baseEnabled c" "nc_SocketDir c \<noteq> [] \<longrightarrow> AllowlistEnabled c"
    "po_ExemptNamespaces (nc_Policy c) \<noteq> [] \<longrightarrow> po_ExemptSnapshotPath (nc_Policy c) \<noteq> []"
    "label_rules_loop x [] (po_LabelRules (nc_Policy c)) = Inr rules" "validate_sandbox sandbox = Inr sandbox"
    by (rule config_Validate_Inr)
  have loop: "label_rules_loop x [] rules = Inr rules" and "map lr_Name rules = map lr_Name (po_LabelRules (nc_Policy c))"
    using label_rules_loop_Inr[OF v(10)] by blast+
  from this(2) have ne: "rules = [] \<longleftrightarrow> po_LabelRules (nc_Policy c) = []" by (metis map_is_Nil_conv)
  have fatal: "validate_fatal c' = Inr ()" using v(2) by (simp add: c' validate_fatal_def split: if_splits)
  show ?thesis using v(1,3,4,5,7,8,9,11) fatal loop ne
    by (auto simp: c' config_Validate_def validateLabelRules_def)
qed

text \<open>C29: \<^bold>\<open>A configuration that loads is one the plugin can enforce.\<close> The mode is one of the two known ones and the sandbox mode one of the
  three, never unset. The boot gate comes with fail-closed mode, a startup check that enforces, and an absolute marker path. Pulling comes with a
  non-empty base, an https URL and positive times; a trusted node base is not empty; exempt namespaces come with a file to freeze them in; something is
  enforced at all. The base is in normal form, every label rule is named apart, is not empty and has its selector compiled. Validating the result
  again changes nothing.\<close>

theorem config_loaded:
  assumes "parseConfig H x data = Inr c"
  shows "po_Mode (nc_Policy c) \<in> {ModeFailClosed, ModeAudit} \<and> po_Sandbox (nc_Policy c) \<in> {SandboxEnforce, SandboxAudit, SandboxOff} \<and>
    (po_FatalExisting (nc_Policy c) \<longrightarrow>
       po_Mode (nc_Policy c) = ModeFailClosed \<and> po_EnforceExisting (nc_Policy c) \<and> rooted_path (po_BootMarkerPath (nc_Policy c))) \<and>
    (PullEnabled c \<longrightarrow> baseEnabled c \<and> xc_Scheme x (pu_URL (nc_Pull c)) = Some ''https'' \<and> 0 < pu_Timeout (nc_Pull c) \<and> 0 < pu_Interval (nc_Pull c)) \<and>
    (nc_NodeTCB c \<longrightarrow> baseEnabled c) \<and> (nc_SocketDir c \<noteq> [] \<longrightarrow> AllowlistEnabled c) \<and>
    (po_ExemptNamespaces (nc_Policy c) \<noteq> [] \<longrightarrow> po_ExemptSnapshotPath (nc_Policy c) \<noteq> []) \<and>
    (AllowlistEnabled c \<or> po_LabelRules (nc_Policy c) \<noteq> []) \<and>
    (\<forall>base. nc_Base c = Some base \<longrightarrow> wf_allowlist H True base) \<and>
    distinct (map lr_Name (po_LabelRules (nc_Policy c))) \<and>
    (\<forall>r\<in>set (po_LabelRules (nc_Policy c)). lr_selector r \<noteq> None \<and> lr_MatchExpressions r \<noteq> []) \<and>
    config_Validate x c = Inr c"
proof -
  from assms obtain c0 where c0: "config_Validate x c0 = Inr c" and base: "\<And>base. nc_Base c0 = Some base \<Longrightarrow> wf_allowlist H True base"
    by (fastforce simp: parseConfig_def bindE_Inr_iff Let_def split: option.splits dest: normalizeAllowlist_wf)
  from c0 obtain sandbox rules where c: "c = c0\<lparr>nc_Policy := (nc_Policy c0)\<lparr>po_Sandbox := sandbox, po_LabelRules := rules\<rparr>\<rparr>"
    and v: "validate_fatal c0 = Inr ()" "validate_pull x c0 = Inr ()"
    "AllowlistEnabled c0 \<or> po_LabelRules (nc_Policy c0) \<noteq> []" "po_Mode (nc_Policy c0) \<in> {ModeFailClosed, ModeAudit}"
    "sandbox \<in> {SandboxEnforce, SandboxAudit, SandboxOff}" "nc_NodeTCB c0 \<longrightarrow> baseEnabled c0" "nc_SocketDir c0 \<noteq> [] \<longrightarrow> AllowlistEnabled c0"
    "po_ExemptNamespaces (nc_Policy c0) \<noteq> [] \<longrightarrow> po_ExemptSnapshotPath (nc_Policy c0) \<noteq> []"
    "label_rules_loop x [] (po_LabelRules (nc_Policy c0)) = Inr rules"
    by (rule config_Validate_Inr)
  note rules = label_rules_loop_Inr[OF v(9)]
  hence ne: "rules = [] \<longleftrightarrow> po_LabelRules (nc_Policy c0) = []" by (metis map_is_Nil_conv)
  have "po_FatalExisting (nc_Policy c0) \<longrightarrow>
      po_Mode (nc_Policy c0) = ModeFailClosed \<and> po_EnforceExisting (nc_Policy c0) \<and> rooted_path (po_BootMarkerPath (nc_Policy c0))"
    using v(1) by (auto simp: validate_fatal_def bindE_Inr_iff HasPrefix_rooted)
  moreover have "PullEnabled c0 \<longrightarrow> baseEnabled c0 \<and> xc_Scheme x (pu_URL (nc_Pull c0)) = Some ''https'' \<and>
      0 < pu_Timeout (nc_Pull c0) \<and> 0 < pu_Interval (nc_Pull c0)"
    using v(2) by (auto simp: validate_pull_def bindE_Inr_iff split: option.splits)
  moreover have "\<forall>base. nc_Base c0 = Some base \<longrightarrow> wf_allowlist H True base" using base by blast
  moreover have "distinct (map lr_Name rules)" "\<forall>r\<in>set rules. lr_selector r \<noteq> None \<and> lr_MatchExpressions r \<noteq> []" using rules by blast+
  ultimately show ?thesis using v(3-8) ne config_Validate_idem[OF c0] unfolding c by simp
qed

text \<open>A measured node image's configuration: a base of one entry, claimed as the node's own, with the boot gate on.\<close>

definition sample_base :: Allowlist where
  "sample_base = \<lparr>al_Schema = Schema, al_Workloads = Some [(''web'', DigestEntry (Digest ''d'') ''img'')]\<rparr>"

lemma sample_base_normal: "normalizeAllowlist H True sample_base = Inr sample_base"
  by (simp add: sample_base_def normalizeAllowlist_def workloadNameGrammarOK_def name_byte_def less_eq_char_def
      MaxWorkloadNameLen_def normalizeWorkload_def DigestEntry_def normalizeContainers_def
      normalizeContainer_eq normalizeArgv_def normalizeMounts_def normalizeEnv_def normalizeSecrets_def sortContainers_def)

definition sample_policy :: "unit policyConfig" where
  "sample_policy = (nc_Policy default_config)\<lparr>po_FatalExisting := True, po_BootMarkerPath := ''/run/m'', po_Sandbox := [],
     po_LabelRules := [\<lparr>lr_Name = ''team'', lr_MatchExpressions = [\<lparr>le_Key = ''team'', le_Operator = OpExists, le_Values = []\<rparr>], lr_selector = None\<rparr>]\<rparr>"

definition sample_external :: "unit config_external" where
  "sample_external = \<lparr>xc_FamilySNP = ''snp'', xc_ParseFamily = Some, xc_Scheme = (\<lambda>_. None), xc_MeasurementsOK = (\<lambda>_. True), xc_PinsOK = (\<lambda>_. True),
     xc_NewRequirement = (\<lambda>_ _ _. Some ()), xc_Matches = (\<lambda>_ labels. labels \<noteq> []),
     xc_yaml = (\<lambda>_ c. Some (c\<lparr>nc_Base := Some sample_base, nc_NodeTCB := True, nc_Policy := sample_policy\<rparr>))\<rparr>"

theorem config_loaded_witness:
  "\<exists>c. parseConfig (\<lambda>_. []) sample_external [] = Inr c \<and> po_FatalExisting (nc_Policy c) \<and> po_Mode (nc_Policy c) = ModeFailClosed \<and>
     po_Sandbox (nc_Policy c) \<in> {SandboxEnforce, SandboxAudit, SandboxOff} \<and> config_Validate sample_external c = Inr c"
proof -
  have ne: "elems (al_Workloads sample_base) \<noteq> []" by (simp add: sample_base_def)
  obtain c where c: "parseConfig (\<lambda>_. []) sample_external [] = Inr c" "po_FatalExisting (nc_Policy c)"
    using ne
    by (simp add: parseConfig_def sample_external_def sample_base_normal wrapE_def config_Validate_def validate_fatal_def validate_pull_def PullEnabled_def
        AllowlistEnabled_def baseEnabled_def validate_sandbox_def validateLabelRules_def buildLabelSelector_def labelOperator_def
        default_config_def sample_policy_def HasPrefix_def SandboxEnforce_def SandboxAudit_def SandboxOff_def)
  from config_loaded[OF c(1)] c show ?thesis by blast
qed

end
