(* ===== verification/Nri_Exempt.thy ===== *)
theory Nri_Exempt
  imports C8s_Prelude "HOL-Library.List_Lexorder" "HOL-Library.Char_ord"
begin

text \<open>
  The frozen set of digests that were running in an exempt namespace
  (\<^verbatim>\<open>src/internal/cmds/nri-image-policy/exempt.go\<close>). The lookup index maps a namespace to a set of digests; a set is a list without
  repetition. Of the file only the two exported fields survive; its JSON encoding and the file system are parameters.
\<close>

record exemptSnapshot =
  ex_Namespaces :: "string list"
  ex_Digests :: "(string \<times> string list) list"
  ex_index :: "(string \<times> string list) list"

definition newExemptSnapshot :: "string list \<Rightarrow> exemptSnapshot" where
  "newExemptSnapshot namespaces = \<lparr>ex_Namespaces = namespaces, ex_Digests = [], ex_index = []\<rparr>"

definition list_at :: "(string \<times> string list) list \<Rightarrow> string \<Rightarrow> string list" where
  "list_at m k = (case map_of m k of None \<Rightarrow> [] | Some v \<Rightarrow> v)"

definition exempt_add :: "string \<Rightarrow> string \<Rightarrow> exemptSnapshot \<Rightarrow> exemptSnapshot" where
  "exempt_add namespace digest s =
     (if digest = [] then s
      else
        let set' = list_at (ex_index s) namespace in
        if digest \<in> set set' then s
        else s\<lparr>ex_index := AList.update namespace (digest # set') (ex_index s),
               ex_Digests := AList.update namespace (sort (list_at (ex_Digests s) namespace @ [digest])) (ex_Digests s)\<rparr>)"

definition exempt_admits :: "exemptSnapshot option \<Rightarrow> string \<Rightarrow> string \<Rightarrow> bool" where
  "exempt_admits s namespace digest =
     (case s of None \<Rightarrow> False | Some s' \<Rightarrow> if digest = [] then False else digest \<in> set (list_at (ex_index s') namespace))"

definition exempt_empty :: "exemptSnapshot \<Rightarrow> bool" where
  "exempt_empty s = (length (ex_index s) = 0)"

definition exempt_count :: "exemptSnapshot \<Rightarrow> nat" where
  "exempt_count s = sum_list (map (length \<circ> snd) (ex_index s))"

definition exempt_buildIndex :: "exemptSnapshot \<Rightarrow> exemptSnapshot" where
  "exempt_buildIndex s = s\<lparr>ex_index := map (\<lambda>(ns, digests). (ns, remdups digests)) (ex_Digests s)\<rparr>"

text \<open>The file holds the decoded fields, or does not decode.\<close>

datatype exempt_file = NoFile | Unreadable | Holds "string list \<times> (string \<times> string list) list"

definition loadExemptSnapshot :: "exempt_file \<Rightarrow> unit + exemptSnapshot option" where
  "loadExemptSnapshot f =
     (case f of
        NoFile \<Rightarrow> Inr None
      | Unreadable \<Rightarrow> Inl ()
      | Holds (namespaces, digests) \<Rightarrow> Inr (Some (exempt_buildIndex \<lparr>ex_Namespaces = namespaces, ex_Digests = digests, ex_index = []\<rparr>)))"

definition exempt_persist :: "exemptSnapshot \<Rightarrow> exempt_file" where
  "exempt_persist s = Holds (ex_Namespaces s, ex_Digests s)"

section \<open>The index and the file agree\<close>

definition exempt_inv :: "exemptSnapshot \<Rightarrow> bool" where
  "exempt_inv s \<longleftrightarrow>
     uniq_keys (ex_index s) \<and> uniq_keys (ex_Digests s) \<and>
     (\<forall>ns. set (list_at (ex_index s) ns) = set (list_at (ex_Digests s) ns) \<and> distinct (list_at (ex_index s) ns) \<and>
           sorted (list_at (ex_Digests s) ns) \<and> distinct (list_at (ex_Digests s) ns) \<and> [] \<notin> set (list_at (ex_index s) ns))"

lemma list_at_update [simp]: "list_at (AList.update k v m) x = (if x = k then v else list_at m x)"
  by (simp add: list_at_def)

lemma exempt_inv_new: "exempt_inv (newExemptSnapshot nss)"
  by (simp add: exempt_inv_def newExemptSnapshot_def list_at_def)

lemma exempt_inv_add: "exempt_inv s \<Longrightarrow> exempt_inv (exempt_add ns d s)"
  by (auto simp: exempt_inv_def exempt_add_def Let_def)

lemma exempt_admits_add:
  "exempt_admits (Some (exempt_add ns d s)) n x \<longleftrightarrow> exempt_admits (Some s) n x \<or> n = ns \<and> x = d \<and> d \<noteq> []"
  by (auto simp: exempt_admits_def exempt_add_def Let_def)

lemma exempt_admits_new [simp]: "\<not> exempt_admits (Some (newExemptSnapshot nss)) n x"
  by (simp add: exempt_admits_def newExemptSnapshot_def list_at_def)

lemma list_at_map: "list_at (map (\<lambda>(k, v). (k, f v)) m) k = (case map_of m k of None \<Rightarrow> [] | Some v \<Rightarrow> f v)"
  by (induction m) (auto simp: list_at_def)

lemma exempt_admits_loaded:
  "loadExemptSnapshot (Holds (nss, digests)) = Inr (Some s) \<Longrightarrow> exempt_admits (Some s) n x \<longleftrightarrow> x \<noteq> [] \<and> x \<in> set (list_at digests n)"
  by (auto simp: loadExemptSnapshot_def exempt_buildIndex_def exempt_admits_def list_at_map) (auto simp: list_at_def split: option.splits)

lemma exempt_roundtrip:
  assumes "exempt_inv s"
  obtains s' where "loadExemptSnapshot (exempt_persist s) = Inr (Some s')" "\<And>n x. exempt_admits (Some s') n x = exempt_admits (Some s) n x"
proof -
  obtain s' where s': "loadExemptSnapshot (exempt_persist s) = Inr (Some s')" by (simp add: loadExemptSnapshot_def exempt_persist_def)
  have "exempt_admits (Some s') n x = exempt_admits (Some s) n x" for n x
    using assms exempt_admits_loaded[OF s'[unfolded exempt_persist_def]] by (auto simp: exempt_inv_def exempt_admits_def)
  thus thesis using that s' by blast
qed

end
