(* ===== verification/Nri_Inventory.thy ===== *)
theory Nri_Inventory
  imports Sandbox_Claims
begin

text \<open>
  The node's inventory of what runs in which sandbox (\<^verbatim>\<open>src/internal/cmds/nri-image-policy/inventory.go\<close>), how it binds a calling
  process to its container (\<^verbatim>\<open>cgroup.go\<close> and \<^verbatim>\<open>peercred_linux.go\<close> under \<^verbatim>\<open>src/pkg/workloadclaims\<close>), and the two routes that
  serve it (\<^verbatim>\<open>ServeTokens\<close> and \<^verbatim>\<open>ServeDigests\<close> of \<^verbatim>\<open>workloadclaims.go\<close>). The contents of \<^verbatim>\<open>/proc\<close> are a function from
  process numbers, the answers of \<^verbatim>\<open>poll\<close> a list.
\<close>

section \<open>Records and their operations\<close>

record ctrRec =
  ce_sandboxID :: string
  ce_name :: string
  ce_digest :: string
  ce_argv :: "string slice"

record admissionInventory =
  ai_containers :: "(string \<times> ctrRec) list"
  ai_admitted :: "(string \<times> History) list"
  ai_sandboxes :: "(string \<times> unit) list"

definition newAdmissionInventory :: admissionInventory where
  "newAdmissionInventory = \<lparr>ai_containers = [], ai_admitted = [], ai_sandboxes = []\<rparr>"

definition history_at :: "admissionInventory \<Rightarrow> string \<Rightarrow> History" where
  "history_at b sandboxID = (case map_of (ai_admitted b) sandboxID of None \<Rightarrow> empty_history | Some h \<Rightarrow> h)"

definition recordObserved ::
  "(string \<Rightarrow> bool) \<Rightarrow> string \<Rightarrow> string \<Rightarrow> string \<Rightarrow> string \<Rightarrow> string slice \<Rightarrow> EnvObservation option \<Rightarrow> ObservedMount slice \<Rightarrow>
   admissionInventory \<Rightarrow> admissionInventory" where
  "recordObserved pr containerID sandboxID name digest argv env mounts b =
     (if containerID = [] \<or> sandboxID = [] then b
      else
        let b1 = b\<lparr>ai_containers := AList.update containerID
                     \<lparr>ce_sandboxID = sandboxID, ce_name = name, ce_digest = digest, ce_argv = argv\<rparr> (ai_containers b)\<rparr>;
            rec = history_Record pr containerID digest argv env mounts (history_at b1 sandboxID);
            b2 = b1\<lparr>ai_admitted := AList.update sandboxID rec (ai_admitted b1)\<rparr>
        in b2\<lparr>ai_sandboxes := AList.update sandboxID () (ai_sandboxes b2)\<rparr>)"

definition inv_remove :: "string \<Rightarrow> admissionInventory \<Rightarrow> admissionInventory" where
  "inv_remove containerID b = b\<lparr>ai_containers := AList.delete containerID (ai_containers b)\<rparr>"

definition recordSandbox :: "string \<Rightarrow> admissionInventory \<Rightarrow> admissionInventory" where
  "recordSandbox sandboxID b =
     (if sandboxID = [] then b else b\<lparr>ai_sandboxes := AList.update sandboxID () (ai_sandboxes b)\<rparr>)"

definition removeSandbox :: "string \<Rightarrow> admissionInventory \<Rightarrow> admissionInventory" where
  "removeSandbox sandboxID b =
     (if sandboxID = [] then b
      else b\<lparr>ai_sandboxes := AList.delete sandboxID (ai_sandboxes b), ai_admitted := AList.delete sandboxID (ai_admitted b),
             ai_containers := filter (\<lambda>(_, rec). ce_sandboxID rec \<noteq> sandboxID) (ai_containers b)\<rparr>)"

text \<open>The answer of \<^verbatim>\<open>DigestsForSandbox\<close>: unknown, an error, or the two views.\<close>

definition DigestsForSandbox ::
  "(string \<Rightarrow> bool) \<Rightarrow> admissionInventory \<Rightarrow> string \<Rightarrow> (history_error + (string list \<times> SandboxContainer list)) option" where
  "DigestsForSandbox pr b sandboxID =
     (if map_of (ai_sandboxes b) sandboxID = None then None else Some (Snapshot pr (history_at b sandboxID)))"

section \<open>Binding the caller\<close>

text \<open>\<^verbatim>\<open>FindAllString\<close> with the pattern \<^verbatim>\<open>[0-9a-f]{64}\<close>: leftmost matches, not overlapping.\<close>

function find_ids :: "string \<Rightarrow> string list" where
  "find_ids s =
     (if length s < 64 then []
      else if list_all lower_hex (take 64 s) then take 64 s # find_ids (drop 64 s)
      else find_ids (tl s))"
  by pat_completeness auto
termination by (relation "measure length") auto

declare find_ids.simps [simp del]

text \<open>The loop that drops an identifier seen before.\<close>

fun fresh_ids :: "string list \<Rightarrow> string list \<Rightarrow> string list" where
  "fresh_ids seen [] = []"
| "fresh_ids seen (id' # ids) = (if id' \<in> set seen then fresh_ids seen ids else id' # fresh_ids (id' # seen) ids)"

datatype peer_error = PeerNoPID | PeerCgroup | PeerNoContainer | PeerGone | PeerUntracked

definition ContainerIDCandidatesForPID :: "(int \<Rightarrow> string option) \<Rightarrow> int \<Rightarrow> peer_error + string list" where
  "ContainerIDCandidatesForPID proc pid =
     (if pid \<le> 0 then Inl PeerNoPID
      else (case proc pid of
              None \<Rightarrow> Inl PeerCgroup
            | Some data \<Rightarrow>
                let candidates = fresh_ids [] (concat (map find_ids (split_on (CHR 0x0A) (TrimSpace data)))) in
                if length candidates = 0 then Inl PeerNoContainer else Inr candidates))"

abbreviation (input) pidfdNone :: int where "pidfdNone \<equiv> -1"
abbreviation (input) pidfdSkip :: int where "pidfdSkip \<equiv> -2"

record Peer =
  pe_pid :: int
  pe_pidfd :: int

text \<open>One answer of \<^verbatim>\<open>poll\<close>: interrupted, failed, or the returned events, as whether the descriptor is bad and whether it is readable.\<close>

datatype poll = PollEINTR | PollError | PollEvents bool bool

fun poll_loop :: "nat \<Rightarrow> poll list \<Rightarrow> bool" where
  "poll_loop 0 ps = False"
| "poll_loop (Suc n) [] = False"
| "poll_loop (Suc n) (PollEINTR # ps) = poll_loop n ps"
| "poll_loop (Suc n) (PollError # ps) = False"
| "poll_loop (Suc n) (PollEvents bad readable # ps) = (\<not> bad \<and> \<not> readable)"

definition IsAlive :: "poll list \<Rightarrow> Peer \<Rightarrow> bool" where
  "IsAlive polls p = (if pe_pidfd p = pidfdSkip then True else if pe_pidfd p < 0 then False else poll_loop 8 polls)"

fun first_tracked :: "(string \<times> ctrRec) list \<Rightarrow> string list \<Rightarrow> ctrRec option" where
  "first_tracked containers [] = None"
| "first_tracked containers (id' # ids) = (case map_of containers id' of Some rec \<Rightarrow> Some rec | None \<Rightarrow> first_tracked containers ids)"

definition callerForPeer :: "(int \<Rightarrow> string option) \<Rightarrow> poll list \<Rightarrow> admissionInventory \<Rightarrow> Peer \<Rightarrow> peer_error + ctrRec" where
  "callerForPeer proc polls b peer =
     bindE (guardE (\<not> pe_pid peer \<le> 0) PeerNoPID) (\<lambda>_.
     bindE (ContainerIDCandidatesForPID proc (pe_pid peer)) (\<lambda>candidates.
     bindE (guardE (IsAlive polls peer) PeerGone) (\<lambda>_.
     (case first_tracked (ai_containers b) candidates of None \<Rightarrow> Inl PeerUntracked | Some rec \<Rightarrow> Inr rec))))"

definition SandboxForPeer :: "(int \<Rightarrow> string option) \<Rightarrow> poll list \<Rightarrow> admissionInventory \<Rightarrow> Peer \<Rightarrow> peer_error + string" where
  "SandboxForPeer proc polls b peer = bindE (callerForPeer proc polls b peer) (\<lambda>caller. Inr (ce_sandboxID caller))"

section \<open>The routes\<close>

record SandboxTokenRequest =
  tr_PublicKey :: string
  tr_Nonce :: string

text \<open>\<^verbatim>\<open>POST /sandbox\<close>: the request is the decoded body, if it decodes; the signer is its host and its signing function.\<close>

definition serve_token ::
  "hash \<Rightarrow> (string \<Rightarrow> 'p option) \<Rightarrow> ('p \<Rightarrow> string option) \<Rightarrow> (int \<Rightarrow> string option) \<Rightarrow> poll list \<Rightarrow> (string \<times> (string \<Rightarrow> string option)) option \<Rightarrow>
   admissionInventory \<Rightarrow> Peer \<Rightarrow> SandboxTokenRequest option \<Rightarrow> nat + SignedSandboxToken" where
  "serve_token H parse pkix proc polls signer b peer body =
     (case signer of
        None \<Rightarrow> Inl 404
      | Some (host, sign) \<Rightarrow>
          (case body of
             None \<Rightarrow> Inl 400
           | Some req \<Rightarrow>
               (case parse (tr_PublicKey req) of
                  None \<Rightarrow> Inl 400
                | Some pub \<Rightarrow>
                    (case RequesterKeyDigest H pkix pub of
                       Inl _ \<Rightarrow> Inl 400
                     | Inr keyDigest \<Rightarrow>
                         if length (tr_Nonce req) = 0 then Inl 400
                         else (case SandboxForPeer proc polls b peer of
                                 Inl _ \<Rightarrow> Inl 500
                               | Inr sid \<Rightarrow> wrapE (\<lambda>_. 500) (token_Sign H sign host sid keyDigest (tr_Nonce req)))))))"

definition serve_digests :: "(string \<Rightarrow> bool) \<Rightarrow> admissionInventory \<Rightarrow> string \<Rightarrow> nat + SandboxDigestsResponse" where
  "serve_digests pr b sandboxID =
     (case DigestsForSandbox pr b sandboxID of
        None \<Rightarrow> Inl 404
      | Some (Inl _) \<Rightarrow> Inl 500
      | Some (Inr (digests, containers)) \<Rightarrow> Inr \<lparr>sd_Digests = digests, sd_Containers = containers\<rparr>)"

section \<open>Refinement of a log of admissions\<close>

text \<open>One call of the inventory, and the abstract inventory: who is live where, everything admitted in a sandbox since it came up, and which
  sandboxes are up.\<close>

datatype inv_event = Admitted string string string admission_event | Stopped string | SandboxUp string | SandboxGone string

record inv_spec =
  iv_live :: "string \<Rightarrow> string option"
  iv_log :: "string \<Rightarrow> admission_event list"
  iv_up :: "string set"

definition spec_empty :: inv_spec where
  "spec_empty = \<lparr>iv_live = (\<lambda>_. None), iv_log = (\<lambda>_. []), iv_up = {}\<rparr>"

fun spec_step :: "inv_event \<Rightarrow> inv_spec \<Rightarrow> inv_spec" where
  "spec_step (Admitted id' sid name e) a =
     (if id' = [] \<or> sid = [] then a
      else a\<lparr>iv_live := (iv_live a)(id' \<mapsto> sid), iv_log := (iv_log a)(sid := iv_log a sid @ [e\<lparr>ev_id := id'\<rparr>]), iv_up := insert sid (iv_up a)\<rparr>)"
| "spec_step (Stopped id') a = a\<lparr>iv_live := (iv_live a)(id' := None)\<rparr>"
| "spec_step (SandboxUp sid) a = (if sid = [] then a else a\<lparr>iv_up := insert sid (iv_up a)\<rparr>)"
| "spec_step (SandboxGone sid) a =
     (if sid = [] then a
      else a\<lparr>iv_live := (\<lambda>i. if iv_live a i = Some sid then None else iv_live a i), iv_log := (iv_log a)(sid := []), iv_up := iv_up a - {sid}\<rparr>)"

fun inv_step :: "(string \<Rightarrow> bool) \<Rightarrow> inv_event \<Rightarrow> admissionInventory \<Rightarrow> admissionInventory" where
  "inv_step pr (Admitted id' sid name e) b = recordObserved pr id' sid name (ev_digest e) (ev_argv e) (ev_env e) (ev_mounts e) b"
| "inv_step pr (Stopped id') b = inv_remove id' b"
| "inv_step pr (SandboxUp sid) b = recordSandbox sid b"
| "inv_step pr (SandboxGone sid) b = removeSandbox sid b"

locale simulation =
  fixes abs_step :: "'e \<Rightarrow> 'a \<Rightarrow> 'a" and conc_step :: "'e \<Rightarrow> 'c \<Rightarrow> 'c" and R :: "'a \<Rightarrow> 'c \<Rightarrow> bool"
  assumes step: "R a c \<Longrightarrow> R (abs_step e a) (conc_step e c)"
begin

lemma run: "R a c \<Longrightarrow> R (fold abs_step es a) (fold conc_step es c)"
  by (induction es arbitrary: a c) (auto intro: step)

end

definition inv_rel :: "(string \<Rightarrow> bool) \<Rightarrow> inv_spec \<Rightarrow> admissionInventory \<Rightarrow> bool" where
  "inv_rel pr a b \<longleftrightarrow>
     uniq_keys (ai_containers b) \<and> (\<lambda>i. map_option ce_sandboxID (map_of (ai_containers b) i)) = iv_live a \<and>
     (\<forall>sid. history_at b sid = history_of pr (iv_log a sid)) \<and> {sid. map_of (ai_sandboxes b) sid \<noteq> None} = iv_up a"

lemma map_of_filter_val:
  "uniq_keys m \<Longrightarrow> map_of (filter (\<lambda>(_, v). P v) m) k = (case map_of m k of Some v \<Rightarrow> if P v then Some v else None | None \<Rightarrow> None)"
  by (induction m) (auto simp: map_of_eq_None_iff image_iff split: option.splits dest: map_of_SomeD)

lemma rel_admitted:
  assumes "inv_rel pr a b"
  shows "inv_rel pr (spec_step (Admitted i sid name e) a) (inv_step pr (Admitted i sid name e) b)"
proof (cases "i = [] \<or> sid = []")
  case False
  have log: "history_at (inv_step pr (Admitted i sid name e) b) s = history_of pr (iv_log (spec_step (Admitted i sid name e) a) s)" for s
    using assms False by (simp add: recordObserved_def Let_def history_at_def inv_rel_def history_of_snoc record_event_def)
  have "(\<lambda>j. map_option ce_sandboxID (map_of (ai_containers (inv_step pr (Admitted i sid name e) b)) j)) = iv_live (spec_step (Admitted i sid name e) a)"
    using assms False by (auto simp: recordObserved_def Let_def inv_rel_def fun_eq_iff)
  moreover have "{s. map_of (ai_sandboxes (inv_step pr (Admitted i sid name e) b)) s \<noteq> None} = iv_up (spec_step (Admitted i sid name e) a)"
    using assms False by (auto simp: recordObserved_def Let_def inv_rel_def)
  moreover have "uniq_keys (ai_containers (inv_step pr (Admitted i sid name e) b))"
    using assms by (auto simp: recordObserved_def Let_def inv_rel_def)
  ultimately show ?thesis using log unfolding inv_rel_def by blast
qed (use assms in \<open>auto simp: recordObserved_def\<close>)

lemma rel_gone:
  assumes "inv_rel pr a b"
  shows "inv_rel pr (spec_step (SandboxGone sid) a) (inv_step pr (SandboxGone sid) b)"
proof (cases "sid = []")
  case False
  have log: "history_at (removeSandbox sid b) s = history_of pr (iv_log (spec_step (SandboxGone sid) a) s)" for s
    using assms False by (simp add: removeSandbox_def history_at_def inv_rel_def history_of_def)
  have u: "uniq_keys (ai_containers b)" using assms by (simp add: inv_rel_def)
  have "map_option ce_sandboxID (map_of (ai_containers (removeSandbox sid b)) j) = iv_live (spec_step (SandboxGone sid) a) j" for j
  proof -
    have "iv_live a j = map_option ce_sandboxID (map_of (ai_containers b) j)" using assms unfolding inv_rel_def by metis
    thus ?thesis using False by (simp add: removeSandbox_def map_of_filter_val[OF u] split: option.split)
  qed
  moreover have "{s. map_of (ai_sandboxes (removeSandbox sid b)) s \<noteq> None} = iv_up (spec_step (SandboxGone sid) a)"
    using assms False by (auto simp: removeSandbox_def inv_rel_def)
  moreover have "uniq_keys (ai_containers (removeSandbox sid b))" using u by (simp add: removeSandbox_def uniq_keys_filter)
  ultimately show ?thesis using log unfolding inv_rel_def inv_step.simps by blast
qed (use assms in \<open>simp add: removeSandbox_def\<close>)

lemma rel_step: "inv_rel pr a b \<Longrightarrow> inv_rel pr (spec_step e a) (inv_step pr e b)"
proof (cases e)
  case (Stopped i)
  assume "inv_rel pr a b"
  thus ?thesis using Stopped by (auto simp: inv_rel_def inv_remove_def history_at_def fun_eq_iff)
next
  case (SandboxUp sid)
  assume "inv_rel pr a b"
  thus ?thesis using SandboxUp by (auto simp: inv_rel_def recordSandbox_def history_at_def)
qed (simp_all only: rel_admitted rel_gone)

interpretation inventory: simulation spec_step "inv_step pr" "inv_rel pr" for pr
  by unfold_locales (rule rel_step)

lemma rel_empty: "inv_rel pr spec_empty newAdmissionInventory"
  by (simp add: inv_rel_def spec_empty_def newAdmissionInventory_def history_at_def history_of_def)

abbreviation inv_run :: "(string \<Rightarrow> bool) \<Rightarrow> inv_event list \<Rightarrow> admissionInventory" where
  "inv_run pr es \<equiv> fold (inv_step pr) es newAdmissionInventory"

abbreviation spec_run :: "inv_event list \<Rightarrow> inv_spec" where
  "spec_run es \<equiv> fold spec_step es spec_empty"

lemma inv_run_rel: "inv_rel pr (spec_run es) (inv_run pr es)"
  by (rule inventory.run[OF rel_empty])

text \<open>C14: \<^bold>\<open>The inventory implements a log of admissions.\<close> Run any calls of the inventory beside a log that only remembers what was admitted where,
  who is live and which sandboxes are up. The inventory answers for a sandbox exactly when it is up. It refuses exactly when the last record of some
  container of it named no digest. Otherwise it reports every digest of the log, sorted and without repetition, and one container for each distinct
  admission of the log, whether the container still runs or not. What a removed sandbox ran is in no answer.\<close>

theorem inventory_refines:
  "case DigestsForSandbox pr (inv_run pr es) sid of
     None \<Rightarrow> sid \<notin> iv_up (spec_run es)
   | Some (Inl _) \<Rightarrow> sid \<in> iv_up (spec_run es) \<and> unresolved_ids (iv_log (spec_run es) sid) \<noteq> {}
   | Some (Inr (ds, cs)) \<Rightarrow>
       sid \<in> iv_up (spec_run es) \<and> unresolved_ids (iv_log (spec_run es) sid) = {} \<and>
       set ds = ev_digest ` {e \<in> set (iv_log (spec_run es) sid). ev_digest e \<noteq> []} \<and> sorted ds \<and> distinct ds \<and>
       evidence ` set cs = evidence ` event_admission ` {e \<in> set (iv_log (spec_run es) sid). ev_digest e \<noteq> []} \<and> distinct (map evidence cs)"
proof -
  have R: "history_at (inv_run pr es) sid = history_of pr (iv_log (spec_run es) sid)"
    "map_of (ai_sandboxes (inv_run pr es)) sid = None \<longleftrightarrow> sid \<notin> iv_up (spec_run es)"
    using inv_run_rel[of pr es] unfolding inv_rel_def by blast+
  show ?thesis
    using Snapshot_complete[where pr=pr and es="iv_log (spec_run es) sid"] R(2)
    by (auto simp: DigestsForSandbox_def R(1) split: sum.splits prod.splits)
qed

section \<open>A process cannot leave its container by nesting\<close>

lemma find_ids_sep:
  assumes "\<not> lower_hex c"
  shows "find_ids (a @ c # b) = find_ids a @ find_ids b"
proof (induction "length a" arbitrary: a rule: less_induct)
  case less
  let ?s = "a @ c # b"
  show ?case
  proof (cases "length a \<ge> 64 \<and> list_all lower_hex (take 64 a)")
    case True
    hence "find_ids ?s = take 64 a # find_ids (drop 64 a @ c # b)" "find_ids a = take 64 a # find_ids (drop 64 a)"
      by (simp_all add: find_ids.simps[of ?s] find_ids.simps[of a])
    moreover have "length (drop 64 a) < length a" using True by (cases a) auto
    ultimately show ?thesis using less[of "drop 64 a"] by simp
  next
    case False
    have nohex: "\<not> (length ?s \<ge> 64 \<and> list_all lower_hex (take 64 ?s))"
    proof (cases "length a \<ge> 64")
      case short: False
      hence "64 - length a \<noteq> 0" by simp
      then obtain k where "64 - length a = Suc k" using not0_implies_Suc by blast
      hence "c \<in> set (take 64 ?s)" using short by simp
      thus ?thesis using assms by (auto simp: list_all_iff)
    qed (use False in simp)
    hence step: "find_ids ?s = (if length ?s < 64 then [] else find_ids (tl ?s))"
      unfolding find_ids.simps[of ?s] using leI by auto
    have short: "length t < 64 \<Longrightarrow> find_ids t = []" for t by (simp add: find_ids.simps[of t])
    show ?thesis
    proof (cases "length ?s < 64")
      case True
      thus ?thesis using step short[of a] short[of b] by simp
    next
      case long: False
      show ?thesis
      proof (cases a)
        case Nil
        thus ?thesis using step long short[of "[]"] by simp
      next
        case (Cons x t)
        have "find_ids a = find_ids t"
          using False short[of a] short[of t] by (cases "length a < 64") (auto simp: Cons find_ids.simps[of "x # t"])
        thus ?thesis using step long less[of t] Cons by simp
      qed
    qed
  qed
qed

lemma first_tracked_append: "first_tracked m xs = Some rec \<Longrightarrow> first_tracked m (xs @ ys) = Some rec"
  by (induction xs) (auto split: option.splits)

lemma first_tracked_fresh:
  "(\<And>i. i \<in> set seen \<Longrightarrow> map_of m i = None) \<Longrightarrow> first_tracked m (fresh_ids seen ids) = first_tracked m ids"
proof (induction ids arbitrary: seen)
  case (Cons i ids)
  thus ?case using Cons.IH[of "i # seen"] by (auto split: option.splits)
qed simp

lemma split_on_head: "c \<notin> set x \<Longrightarrow> \<exists>y ys. split_on c (x @ s) = (x @ y) # ys \<and> prefix y s"
proof (induction x)
  case Nil
  have "\<exists>y ys. split_on c s = y # ys \<and> prefix y s" by (induction s) (auto split: list.splits)
  thus ?case by simp
qed (auto split: list.splits)

text \<open>C34: \<^bold>\<open>Nesting deeper never changes who a process is.\<close> A process whose control group lies below the scope of a container that the inventory
  tracks, under any child groups it may have made and whatever it named them, is bound to that container: identifiers of other containers further down
  the path are never reached. The scope is found in the first line, as the runtime writes it.\<close>

theorem nested_cgroup_harmless:
  assumes "first_tracked (ai_containers b) (find_ids (c # scope)) = Some rec" and "plain_byte c" and "CHR 0x0A \<notin> set (c # scope)"
    and "proc (pe_pid peer) = Some (c # scope @ CHR ''/'' # child)" and "0 < pe_pid peer" and "IsAlive polls peer"
  shows "SandboxForPeer proc polls b peer = Inr (ce_sandboxID rec)"
proof -
  have slash: "plain_byte (CHR ''/'')" "\<not> lower_hex (CHR ''/'')"
    by (simp_all add: plain_byte_def space_runes_def lower_hex_def less_eq_char_def)
  obtain ch where t: "TrimSpace (c # scope @ CHR ''/'' # child) = c # scope @ CHR ''/'' # ch"
    using TrimSpace_between[OF assms(2) slash(1)] by blast
  have "CHR 0x0A \<notin> set (c # scope @ ''/'')" using assms(3) by auto
  then obtain y ys where y: "split_on (CHR 0x0A) ((c # scope @ ''/'') @ ch) = ((c # scope @ ''/'') @ y) # ys"
    using split_on_head by blast
  have ids: "find_ids ((c # scope) @ CHR ''/'' # y) = find_ids (c # scope) @ find_ids y" by (rule find_ids_sep[OF slash(2)])
  let ?ids = "concat (map find_ids (split_on (CHR 0x0A) (TrimSpace (c # scope @ CHR ''/'' # child))))"
  have "first_tracked (ai_containers b) ?ids = Some rec"
    using first_tracked_append[OF assms(1)] y ids unfolding t by simp
  hence ft: "first_tracked (ai_containers b) (fresh_ids [] ?ids) = Some rec" using first_tracked_fresh[of "[]"] by simp
  hence "fresh_ids [] ?ids \<noteq> []" by auto
  thus ?thesis using ft assms(4-6) by (simp add: SandboxForPeer_def callerForPeer_def ContainerIDCandidatesForPID_def Let_def)
qed

text \<open>A tracked container names a child group after another tracked one.\<close>

definition node_inventory :: admissionInventory where
  "node_inventory = inv_run (\<lambda>_. True)
     [Admitted (replicate 64 (CHR ''0'')) ''own'' ''c'' \<lparr>ev_id = [], ev_digest = ''d'', ev_argv = None, ev_env = None, ev_mounts = None\<rparr>,
      Admitted (replicate 64 (CHR ''1'')) ''victim'' ''c'' \<lparr>ev_id = [], ev_digest = ''d'', ev_argv = None, ev_env = None, ev_mounts = None\<rparr>]"

lemma find_ids_replicate: "lower_hex c \<Longrightarrow> find_ids (replicate 64 c) = [replicate 64 c]"
  by (simp add: find_ids.simps[of "replicate 64 c"] find_ids.simps[of "[]"] list_all_iff)

theorem nested_cgroup_harmless_witness:
  "SandboxForPeer (\<lambda>_. Some (CHR ''0'' # ('':'' @ CHR '':'' # replicate 64 (CHR ''0'')) @ CHR ''/'' # replicate 64 (CHR ''1''))) [PollEvents False False]
     node_inventory \<lparr>pe_pid = 7, pe_pidfd = 3\<rparr> = Inr ''own''"
proof -
  let ?own = "replicate 64 (CHR ''0'')"
  let ?rec = "\<lparr>ce_sandboxID = ''own'', ce_name = ''c'', ce_digest = ''d'', ce_argv = None\<rparr>"
  have ne: "replicate 64 (CHR ''1'') \<noteq> ?own" by (simp add: replicate_eq_replicate)
  have hex: "lower_hex (CHR ''0'')" "\<not> lower_hex (CHR '':'')" by (simp_all add: lower_hex_def less_eq_char_def)
  have "find_ids (''0:'' @ CHR '':'' # ?own) = [?own]"
    by (simp only: find_ids_sep[OF hex(2)] find_ids_replicate[OF hex(1)]) (simp add: find_ids.simps)
  hence "find_ids (CHR ''0'' # '':'' @ CHR '':'' # ?own) = [?own]" by simp
  moreover have "map_of (ai_containers node_inventory) ?own = Some ?rec"
    using ne by (simp add: node_inventory_def recordObserved_def newAdmissionInventory_def Let_def)
  ultimately have "first_tracked (ai_containers node_inventory) (find_ids (CHR ''0'' # '':'' @ CHR '':'' # ?own)) = Some ?rec" by simp
  from nested_cgroup_harmless[OF this, where proc="\<lambda>_. Some (CHR ''0'' # ('':'' @ CHR '':'' # ?own) @ CHR ''/'' # replicate 64 (CHR ''1''))"
      and peer="\<lparr>pe_pid = 7, pe_pidfd = 3\<rparr>" and polls="[PollEvents False False]"]
  show ?thesis
    by (simp add: plain_byte_def space_runes_def IsAlive_def) (simp add: eval_nat_numeral del: replicate.simps)
qed

end
