(* ===== verification/Nri_Admission.thy ===== *)
theory Nri_Admission
  imports Nri_Config Nri_Exempt Nri_Inventory Allowlist_Match "HOL-Library.Word"
begin

text \<open>
  The decisions of the node plugin (\<^verbatim>\<open>src/internal/cmds/nri-image-policy/plugin.go\<close>): the policy store with its
  rollback check, and the label, image, exemption and sandbox checks of a container. The runtime's content store is the
  parameter \<open>resolve\<close> of a call, what a path is stored on the parameter \<open>storage\<close>. Audit records and logs are left out; a denial is a constructor.
\<close>

section \<open>The policy store\<close>

record policyStore =
  ps_base :: Index
  ps_index :: Index
  ps_version :: "64 word"

definition empty_doc :: Allowlist where
  "empty_doc = \<lparr>al_Schema = [], al_Workloads = None\<rparr>"

definition newPolicyStore :: "Allowlist option \<Rightarrow> policyStore" where
  "newPolicyStore base =
     \<lparr>ps_base = BuildIndex (case base of None \<Rightarrow> empty_doc | Some b \<Rightarrow> b), ps_index = BuildIndex empty_doc, ps_version = 0\<rparr>"

datatype launchPhase = launchPreliminary | launchFinal

definition baseAdmits :: "hash \<Rightarrow> policyStore \<Rightarrow> RunningContainer \<Rightarrow> launchPhase \<Rightarrow> bool" where
  "baseAdmits H s r phase = (if phase = launchPreliminary then AdmitsProcess H (ps_base s) r else AdmitsContainer H (ps_base s) r)"

definition store_apply :: "Allowlist \<Rightarrow> 64 word \<Rightarrow> policyStore \<Rightarrow> bool \<times> policyStore" where
  "store_apply pulled version s =
     (if version < ps_version s then (False, s) else (True, s\<lparr>ps_index := BuildIndex pulled, ps_version := version\<rparr>))"

section \<open>What is observed of a container\<close>

abbreviation annotationImageName :: string where "annotationImageName \<equiv> ''io.kubernetes.cri.image-name''"
abbreviation cdiAnnotationPrefix :: string where "cdiAnnotationPrefix \<equiv> ''cdi.k8s.io/''"

definition image_of :: "nri_Container \<Rightarrow> string" where
  "image_of ctr = map_get (ct_Annotations ctr) annotationImageName"

definition extractDigest :: "string \<Rightarrow> string" where
  "extractDigest imageRef = (case NormalizeDigest imageRef of Inl _ \<Rightarrow> [] | Inr d \<Rightarrow> digest_string d)"

definition cdiInjected :: "nri_Container \<Rightarrow> bool" where
  "cdiInjected ctr = (length (ct_CDIDevices ctr) > 0 \<or> list_ex (\<lambda>(key, _). HasPrefix key cdiAnnotationPrefix) (ct_Annotations ctr))"

definition observeEnv :: "hash \<Rightarrow> nri_Container \<Rightarrow> env_error + EnvObservation" where
  "observeEnv H ctr =
     (case ObserveEnv H (ct_Env ctr) of
        Inr obs \<Rightarrow> Inr obs
      | Inl e \<Rightarrow> if \<not> cdiInjected ctr then Inl e else ObserveLaunchEnv H (ct_Env ctr))"

definition containerEnv :: "hash \<Rightarrow> nri_Container \<Rightarrow> EnvObservation option" where
  "containerEnv H ctr =
     (if length (ct_Args ctr) = 0 then None else (case observeEnv H ctr of Inl _ \<Rightarrow> None | Inr env \<Rightarrow> Some env))"

definition observedMounts :: "hash \<Rightarrow> (string \<Rightarrow> string) \<Rightarrow> PodSandbox option \<Rightarrow> nri_Container \<Rightarrow> ObservedMount slice" where
  "observedMounts H storage pod ctr = map_option (\<lambda>p. mounts_Observe H storage p ctr) pod"

definition resolveDigest :: "(string \<Rightarrow> string option) \<Rightarrow> string \<Rightarrow> string" where
  "resolveDigest resolve imageRef =
     (let d = extractDigest imageRef in
      if d \<noteq> [] then d
      else if imageRef = [] then []
      else (case resolve imageRef of None \<Rightarrow> [] | Some dig \<Rightarrow> dig))"

section \<open>Verdicts\<close>

datatype imageVerdict = verdictAllow | verdictDeny | verdictSkip

datatype denial = DenyLabelRule string | DenyNoAnnotation | DenyResolve | DenyNoAllowlist | DenyNotListed | DenyLaunch | DenySandbox "violation list"

definition checkLabels :: "'r config_external \<Rightarrow> 'r nri_config \<Rightarrow> (string \<times> string) list \<Rightarrow> imageVerdict \<times> denial option" where
  "checkLabels x cfg podLabels =
     (case find (\<lambda>rule. \<not> evaluateRule x rule podLabels) (po_LabelRules (nc_Policy cfg)) of
        Some rule \<Rightarrow> (verdictDeny, Some (DenyLabelRule (lr_Name rule)))
      | None \<Rightarrow> (verdictAllow, None))"

record imageCheck =
  ic_ImageRef :: string
  ic_Argv :: "string list"
  ic_Env :: "EnvObservation option"
  ic_Mounts :: "ObservedMount slice"

definition checkImagePhase ::
  "hash \<Rightarrow> (string \<Rightarrow> string option) \<Rightarrow> 'r nri_config \<Rightarrow> policyStore \<Rightarrow> imageCheck \<Rightarrow> launchPhase \<Rightarrow> imageVerdict \<times> denial option" where
  "checkImagePhase H resolve cfg store check phase =
     (if ic_ImageRef check = [] then
        (if po_DenyMissingAnnotation (nc_Policy cfg) then (verdictDeny, Some DenyNoAnnotation) else (verdictSkip, None))
      else
        (case (if extractDigest (ic_ImageRef check) = [] then resolve (ic_ImageRef check) else Some (extractDigest (ic_ImageRef check))) of
           None \<Rightarrow> (verdictDeny, Some DenyResolve)
         | Some digest \<Rightarrow>
             if ps_index store = None then (verdictDeny, Some DenyNoAllowlist)
             else
               let rc = \<lparr>rc_Digest = digest, rc_Argv = ic_Argv check, rc_Mounts = ic_Mounts check, rc_Env = ic_Env check\<rparr>;
                   admitted = (if phase = launchFinal then AdmitsContainer H (ps_index store) rc else AdmitsProcess H (ps_index store) rc) in
               if \<not> baseAdmits H store rc phase \<and> \<not> admitted then
                 (verdictDeny, Some (if AdmitsDigest (ps_index store) digest then DenyLaunch else DenyNotListed))
               else (verdictAllow, None)))"

definition exemptNamespace ::
  "(string \<Rightarrow> string option) \<Rightarrow> 'r nri_config \<Rightarrow> exemptSnapshot option \<Rightarrow> PodSandbox \<Rightarrow> string \<Rightarrow> imageVerdict \<times> denial option \<Rightarrow>
   imageVerdict \<times> denial option" where
  "exemptNamespace resolve cfg exempt pod imageRef vr =
     (if fst vr \<noteq> verdictDeny \<or> pd_Namespace pod \<notin> set (po_ExemptNamespaces (nc_Policy cfg)) then vr
      else if exempt_admits exempt (pd_Namespace pod) (resolveDigest resolve imageRef) then (verdictSkip, None)
      else vr)"

definition checkContainerObserved ::
  "hash \<Rightarrow> (string \<Rightarrow> string option) \<Rightarrow> 'r config_external \<Rightarrow> 'r nri_config \<Rightarrow> policyStore \<Rightarrow> exemptSnapshot option \<Rightarrow> PodSandbox \<Rightarrow> nri_Container \<Rightarrow>
   string \<Rightarrow> launchPhase \<Rightarrow> EnvObservation option \<Rightarrow> ObservedMount slice \<Rightarrow> imageVerdict \<times> denial option" where
  "checkContainerObserved H resolve x cfg store exempt pod ctr imageRef phase env mounts =
     (let vr = checkLabels x cfg (pd_Labels pod);
          vr' = (if fst vr \<noteq> verdictDeny \<and> AllowlistEnabled cfg then
                   checkImagePhase H resolve cfg store \<lparr>ic_ImageRef = imageRef, ic_Argv = ct_Args ctr, ic_Env = env, ic_Mounts = mounts\<rparr> phase
                 else vr) in
      exemptNamespace resolve cfg exempt pod imageRef vr')"

definition checkSandbox ::
  "hash \<Rightarrow> (string \<Rightarrow> string option) \<Rightarrow> 'r nri_config \<Rightarrow> policyStore \<Rightarrow> PodSandbox \<Rightarrow> nri_Container \<Rightarrow> string \<Rightarrow> EnvObservation option \<Rightarrow>
   ObservedMount slice \<Rightarrow> imageVerdict \<times> denial option" where
  "checkSandbox H resolve cfg store pod ctr imageRef env mounts =
     (let vs = violations (observeSandbox pod ctr (nc_SocketDir cfg)) in
      if length vs = 0 then (verdictAllow, None)
      else if nc_NodeTCB cfg \<and>
         baseAdmits H store \<lparr>rc_Digest = resolveDigest resolve imageRef, rc_Argv = ct_Args ctr, rc_Mounts = mounts, rc_Env = env\<rparr> launchFinal
      then (verdictAllow, None)
      else if sandboxMode cfg = SandboxAudit then (verdictAllow, None)
      else (verdictDeny, Some (DenySandbox vs)))"

definition checkContainerPhase ::
  "hash \<Rightarrow> (string \<Rightarrow> string) \<Rightarrow> (string \<Rightarrow> string option) \<Rightarrow> 'r config_external \<Rightarrow> 'r nri_config \<Rightarrow> policyStore \<Rightarrow> exemptSnapshot option \<Rightarrow>
   PodSandbox \<Rightarrow> nri_Container \<Rightarrow> string \<Rightarrow> launchPhase \<Rightarrow> imageVerdict \<times> denial option" where
  "checkContainerPhase H storage resolve x cfg store exempt pod ctr imageRef phase =
     (let mounts = (if phase = launchFinal then Some (mounts_Observe H storage pod ctr) else None);
          vr = checkContainerObserved H resolve x cfg store exempt pod ctr imageRef phase (containerEnv H ctr) mounts in
      if fst vr = verdictDeny \<or> phase \<noteq> launchFinal \<or> \<not> sandboxObserved cfg then vr
      else
        let sv = checkSandbox H resolve cfg store pod ctr imageRef (containerEnv H ctr) mounts in
        if fst sv = verdictDeny then sv else vr)"

definition checkContainer ::
  "hash \<Rightarrow> (string \<Rightarrow> string) \<Rightarrow> (string \<Rightarrow> string option) \<Rightarrow> 'r config_external \<Rightarrow> 'r nri_config \<Rightarrow> policyStore \<Rightarrow> exemptSnapshot option \<Rightarrow>
   PodSandbox \<Rightarrow> nri_Container \<Rightarrow> string \<Rightarrow> imageVerdict \<times> denial option" where
  "checkContainer H storage resolve x cfg store exempt pod ctr imageRef =
     checkContainerPhase H storage resolve x cfg store exempt pod ctr imageRef launchFinal"

section \<open>What the final check admits\<close>

text \<open>The launch that the documents are asked about.\<close>

definition launch_of :: "hash \<Rightarrow> (string \<Rightarrow> string) \<Rightarrow> (string \<Rightarrow> string option) \<Rightarrow> PodSandbox \<Rightarrow> nri_Container \<Rightarrow> RunningContainer" where
  "launch_of H storage resolve pod ctr =
     \<lparr>rc_Digest = resolveDigest resolve (image_of ctr), rc_Argv = ct_Args ctr, rc_Mounts = Some (mounts_Observe H storage pod ctr),
      rc_Env = containerEnv H ctr\<rparr>"

text \<open>Both rules together: the image rule with the exemption, and the sandbox rule.\<close>

definition image_rule ::
  "hash \<Rightarrow> (string \<Rightarrow> string) \<Rightarrow> (string \<Rightarrow> string option) \<Rightarrow> 'r config_external \<Rightarrow> 'r nri_config \<Rightarrow> policyStore \<Rightarrow> exemptSnapshot option \<Rightarrow>
   PodSandbox \<Rightarrow> nri_Container \<Rightarrow> bool" where
  "image_rule H storage resolve x cfg store exempt pod ctr \<longleftrightarrow>
     (\<forall>r\<in>set (po_LabelRules (nc_Policy cfg)). evaluateRule x r (pd_Labels pod)) \<and>
     (AllowlistEnabled cfg \<longrightarrow>
        (if image_of ctr = [] then \<not> po_DenyMissingAnnotation (nc_Policy cfg)
         else AdmitsContainer H (ps_base store) (launch_of H storage resolve pod ctr) \<or>
              AdmitsContainer H (ps_index store) (launch_of H storage resolve pod ctr))) \<or>
     pd_Namespace pod \<in> set (po_ExemptNamespaces (nc_Policy cfg)) \<and>
       exempt_admits exempt (pd_Namespace pod) (resolveDigest resolve (image_of ctr))"

definition sandbox_rule ::
  "hash \<Rightarrow> (string \<Rightarrow> string) \<Rightarrow> (string \<Rightarrow> string option) \<Rightarrow> 'r nri_config \<Rightarrow> policyStore \<Rightarrow> PodSandbox \<Rightarrow> nri_Container \<Rightarrow> bool" where
  "sandbox_rule H storage resolve cfg store pod ctr \<longleftrightarrow>
     sandboxMode cfg \<in> {SandboxOff, SandboxAudit} \<or> violations (observeSandbox pod ctr (nc_SocketDir cfg)) = [] \<or>
     nc_NodeTCB cfg \<and> AdmitsContainer H (ps_base store) (launch_of H storage resolve pod ctr)"

lemma AdmitsContainer_no_digest: "rc_Digest r = [] \<Longrightarrow> \<not> AdmitsContainer H i r"
  by (simp add: AdmitsContainer_def ParseDigest_def CutPrefix_def algo_def split: option.split)

lemma checkLabels_iff: "fst (checkLabels x cfg ls) \<noteq> verdictDeny \<longleftrightarrow> (\<forall>r\<in>set (po_LabelRules (nc_Policy cfg)). evaluateRule x r ls)"
  by (auto simp: checkLabels_def find_None_iff find_Some_iff split: option.splits)

lemma checkImage_iff:
  assumes "ps_index store \<noteq> None"
  shows "fst (checkImagePhase H resolve cfg store \<lparr>ic_ImageRef = ref, ic_Argv = argv, ic_Env = env, ic_Mounts = mounts\<rparr> launchFinal) \<noteq> verdictDeny \<longleftrightarrow>
    (let rc = \<lparr>rc_Digest = resolveDigest resolve ref, rc_Argv = argv, rc_Mounts = mounts, rc_Env = env\<rparr> in
     if ref = [] then \<not> po_DenyMissingAnnotation (nc_Policy cfg) else AdmitsContainer H (ps_base store) rc \<or> AdmitsContainer H (ps_index store) rc)"
  using assms
  by (auto simp: checkImagePhase_def resolveDigest_def baseAdmits_def Let_def AdmitsContainer_no_digest split: option.splits if_splits)

lemma checkObserved_iff:
  assumes "ps_index store \<noteq> None"
  shows "fst (checkContainerObserved H resolve x cfg store exempt pod ctr (image_of ctr) launchFinal (containerEnv H ctr)
      (Some (mounts_Observe H storage pod ctr))) \<noteq> verdictDeny \<longleftrightarrow> image_rule H storage resolve x cfg store exempt pod ctr"
proof -
  let ?img = "fst (checkImagePhase H resolve cfg store \<lparr>ic_ImageRef = image_of ctr, ic_Argv = ct_Args ctr, ic_Env = containerEnv H ctr,
      ic_Mounts = Some (mounts_Observe H storage pod ctr)\<rparr> launchFinal) \<noteq> verdictDeny"
  have "?img \<longleftrightarrow> (if image_of ctr = [] then \<not> po_DenyMissingAnnotation (nc_Policy cfg)
      else AdmitsContainer H (ps_base store) (launch_of H storage resolve pod ctr) \<or> AdmitsContainer H (ps_index store) (launch_of H storage resolve pod ctr))"
    by (simp add: checkImage_iff[OF assms] launch_of_def Let_def)
  thus ?thesis unfolding image_rule_def checkContainerObserved_def exemptNamespace_def Let_def
    by (auto simp flip: checkLabels_iff)
qed

lemma checkSandbox_iff:
  "fst (checkSandbox H resolve cfg store pod ctr (image_of ctr) (containerEnv H ctr) (Some (mounts_Observe H storage pod ctr))) \<noteq> verdictDeny \<longleftrightarrow>
     sandboxMode cfg = SandboxAudit \<or> violations (observeSandbox pod ctr (nc_SocketDir cfg)) = [] \<or>
     nc_NodeTCB cfg \<and> AdmitsContainer H (ps_base store) (launch_of H storage resolve pod ctr)"
  by (auto simp: checkSandbox_def Let_def baseAdmits_def launch_of_def)

lemma checkContainer_iff:
  assumes "ps_index store \<noteq> None"
  shows "fst (checkContainer H storage resolve x cfg store exempt pod ctr (image_of ctr)) \<noteq> verdictDeny \<longleftrightarrow>
    image_rule H storage resolve x cfg store exempt pod ctr \<and> sandbox_rule H storage resolve cfg store pod ctr"
  using checkObserved_iff[OF assms, of H resolve x cfg exempt pod ctr storage] checkSandbox_iff[of H resolve cfg store pod ctr storage]
  by (auto simp: checkContainer_def checkContainerPhase_def Let_def sandboxObserved_def sandbox_rule_def)

text \<open>The check at creation is never the stricter one.\<close>

lemma AdmitsContainer_process: "AdmitsContainer H i r \<Longrightarrow> AdmitsProcess H i (r\<lparr>rc_Mounts := ms\<rparr>)"
  by (auto simp: AdmitsContainer_def AdmitsProcess_def list_ex_iff container_admits_iff admitsProcess_def process_admits_def split: option.splits sum.splits)

end
