(* ===== verification/Nri_Plugin.thy ===== *)
theory Nri_Plugin
  imports Nri_Admission
begin

text \<open>
  The node plugin as a state machine (\<^verbatim>\<open>plugin.go\<close> and \<^verbatim>\<open>bootgate.go\<close> under
  \<^verbatim>\<open>src/internal/cmds/nri-image-policy\<close>): the hooks the runtime calls, the startup check, the exemption snapshot and the boot gate. The two files
  the plugin keeps, the frozen snapshot and the boot marker, are part of the state, so that a restart is a step. A power-off or exit is the result
  \<^const>\<open>None\<close>.
\<close>

section \<open>State\<close>

record plugin =
  pg_store :: policyStore
  pg_ready :: bool
  pg_exempt :: "exemptSnapshot option"
  pg_inventory :: "admissionInventory option"
  pg_bootRestart :: bool
  pg_deferredPods :: "PodSandbox list"
  pg_deferredCtrs :: "nri_Container list"
  pg_file :: exempt_file
  pg_marker :: bool

text \<open>What the plugin is built with: the hash, the configuration with its selectors, the printable runes of the key format and the storage inspector.\<close>

record 'r plugin_env =
  en_H :: hash
  en_x :: "'r config_external"
  en_cfg :: "'r nri_config"
  en_pr :: "string \<Rightarrow> bool"
  en_storage :: "string \<Rightarrow> string"

text \<open>What a call meets outside: the image store, stopping a container, and the failures of the two files.\<close>

record outside =
  ou_resolve :: "string \<Rightarrow> string option"
  ou_stopped :: "string \<Rightarrow> bool"
  ou_stat_fails :: bool
  ou_claim_fails :: bool
  ou_persist_fails :: bool

definition newPlugin :: "'r plugin_env \<Rightarrow> exempt_file \<Rightarrow> bool \<Rightarrow> plugin" where
  "newPlugin e file marker =
     \<lparr>pg_store = newPolicyStore (nc_Base (en_cfg e)), pg_ready = False, pg_exempt = None,
      pg_inventory = (if nc_SocketDir (en_cfg e) \<noteq> [] then Some newAdmissionInventory else None),
      pg_bootRestart = False, pg_deferredPods = [], pg_deferredCtrs = [], pg_file = file, pg_marker = marker\<rparr>"

section \<open>Recording\<close>

definition recordDigest :: "'r plugin_env \<Rightarrow> nri_Container \<Rightarrow> string \<Rightarrow> ObservedMount slice \<Rightarrow> plugin \<Rightarrow> plugin" where
  "recordDigest e ctr digest mounts p =
     (case pg_inventory p of
        None \<Rightarrow> p
      | Some b \<Rightarrow> p\<lparr>pg_inventory := Some (recordObserved (en_pr e) (ct_Id ctr) (ct_PodSandboxId ctr) (ct_Name ctr) digest (Some (ct_Args ctr))
                      (containerEnv (en_H e) ctr) mounts b)\<rparr>)"

definition recordForInventory :: "'r plugin_env \<Rightarrow> outside \<Rightarrow> PodSandbox option \<Rightarrow> nri_Container \<Rightarrow> string \<Rightarrow> plugin \<Rightarrow> plugin" where
  "recordForInventory e ou pod ctr imageRef p =
     (let digest = extractDigest imageRef;
          digest' = (if digest = [] \<and> imageRef \<noteq> [] then
                       (case ou_resolve ou imageRef of Some r \<Rightarrow> extractDigest r | None \<Rightarrow> [])
                     else digest) in
      recordDigest e ctr digest' (observedMounts (en_H e) (en_storage e) pod ctr) p)"

definition recordUncheckedForInventory :: "'r plugin_env \<Rightarrow> PodSandbox \<Rightarrow> nri_Container \<Rightarrow> string \<Rightarrow> plugin \<Rightarrow> plugin" where
  "recordUncheckedForInventory e pod ctr imageRef p =
     recordDigest e ctr (extractDigest imageRef) (observedMounts (en_H e) (en_storage e) (Some pod) ctr) p"

definition RemoveContainer :: "nri_Container \<Rightarrow> plugin \<Rightarrow> plugin" where
  "RemoveContainer ctr p = p\<lparr>pg_inventory := map_option (inv_remove (ct_Id ctr)) (pg_inventory p)\<rparr>"

definition RunPodSandbox :: "PodSandbox \<Rightarrow> plugin \<Rightarrow> plugin" where
  "RunPodSandbox pod p = p\<lparr>pg_inventory := map_option (recordSandbox (pd_Id pod)) (pg_inventory p)\<rparr>"

definition RemovePodSandbox :: "PodSandbox \<Rightarrow> plugin \<Rightarrow> plugin" where
  "RemovePodSandbox pod p = p\<lparr>pg_inventory := map_option (removeSandbox (pd_Id pod)) (pg_inventory p)\<rparr>"

section \<open>Creating, validating and starting a container\<close>

abbreviation plugin_check :: "'r plugin_env \<Rightarrow> outside \<Rightarrow> plugin \<Rightarrow> PodSandbox \<Rightarrow> nri_Container \<Rightarrow> launchPhase \<Rightarrow> imageVerdict \<times> denial option" where
  "plugin_check e ou p pod ctr phase \<equiv>
     checkContainerPhase (en_H e) (en_storage e) (ou_resolve ou) (en_x e) (en_cfg e) (pg_store p) (pg_exempt p) pod ctr (image_of ctr) phase"

definition socketDirAdjustment :: "'r plugin_env \<Rightarrow> PodSandbox \<Rightarrow> nri_Container \<Rightarrow> plugin \<Rightarrow> Mount option" where
  "socketDirAdjustment e pod ctr p =
     (if pg_inventory p = None then None
      else if map_get (pd_Annotations pod) AnnotationInjected \<noteq> ''true'' then None
      else if \<not> IsSidecarContainer (ct_Name ctr) then None
      else Some \<lparr>mt_Destination = SidecarSocketDir, mt_Type = ''bind'', mt_Source = nc_SocketDir (en_cfg e),
                 mt_Options = [''rbind'', ''ro'', ''rprivate'', ''nosuid'', ''nodev'', ''noexec'']\<rparr>)"

text \<open>A refusal is marked when the plugin is still initializing.\<close>

definition CreateContainer :: "'r plugin_env \<Rightarrow> outside \<Rightarrow> PodSandbox \<Rightarrow> nri_Container \<Rightarrow> plugin \<Rightarrow> (bool \<times> denial option) + Mount option" where
  "CreateContainer e ou pod ctr p =
     (case plugin_check e ou p pod ctr launchPreliminary of
        (verdict, reason) \<Rightarrow>
          if verdict = verdictDeny \<and> po_Mode (nc_Policy (en_cfg e)) \<noteq> ModeAudit then Inl (\<not> pg_ready p, reason)
          else Inr (socketDirAdjustment e pod ctr p))"

definition admitWhileInitializing :: "'r plugin_env \<Rightarrow> outside \<Rightarrow> PodSandbox \<Rightarrow> nri_Container \<Rightarrow> plugin \<Rightarrow> (bool \<times> denial option) + unit" where
  "admitWhileInitializing e ou pod ctr p =
     (if po_Mode (nc_Policy (en_cfg e)) = ModeAudit then Inr ()
      else (case plugin_check e ou p pod ctr launchFinal of
              (verdict, reason) \<Rightarrow> if verdict = verdictDeny then Inl (True, reason) else Inr ()))"

definition StartContainer :: "'r plugin_env \<Rightarrow> outside \<Rightarrow> PodSandbox \<Rightarrow> nri_Container \<Rightarrow> plugin \<Rightarrow> ((bool \<times> denial option) + unit) \<times> plugin" where
  "StartContainer e ou pod ctr p =
     (if \<not> pg_ready p then
        (case admitWhileInitializing e ou pod ctr p of
           Inl err \<Rightarrow> (Inl err, p)
         | Inr _ \<Rightarrow> (Inr (), recordUncheckedForInventory e pod ctr (image_of ctr) p))
      else
        (case plugin_check e ou p pod ctr launchFinal of
           (verdict, reason) \<Rightarrow>
             if verdict = verdictDeny \<and> po_Mode (nc_Policy (en_cfg e)) \<noteq> ModeAudit then (Inl (False, reason), p)
             else (Inr (), recordForInventory e ou (Some pod) ctr (image_of ctr) p)))"

section \<open>The startup check\<close>

definition pod_by_id :: "PodSandbox list \<Rightarrow> string \<Rightarrow> PodSandbox option" where
  "pod_by_id pods i = map_of (rev (map (\<lambda>pod. (pd_Id pod, pod)) pods)) i"

definition shouldCheckExisting :: "'r plugin_env \<Rightarrow> plugin \<Rightarrow> bool" where
  "shouldCheckExisting e p = (po_EnforceExisting (nc_Policy (en_cfg e)) \<or> pg_inventory p \<noteq> None)"

definition escalateOnRestart :: "'r plugin_env \<Rightarrow> plugin \<Rightarrow> bool" where
  "escalateOnRestart e p =
     (if \<not> po_FatalExisting (nc_Policy (en_cfg e)) \<or> \<not> pg_bootRestart p then False
      else if PullEnabled (en_cfg e) then False
      else ps_version (pg_store p) > 0)"

text \<open>The loop over the containers: the state and the identifiers it asked the runtime to stop, or \<^const>\<open>None\<close> once the node powers off.\<close>

fun existing_loop :: "'r plugin_env \<Rightarrow> outside \<Rightarrow> PodSandbox list \<Rightarrow> nri_Container list \<Rightarrow> plugin \<times> string list \<Rightarrow> (plugin \<times> string list) option" where
  "existing_loop e ou pods [] st = Some st"
| "existing_loop e ou pods (ctr # ctrs) (p, stops) =
     (let pod = pod_by_id pods (ct_PodSandboxId ctr);
          p1 = recordForInventory e ou pod ctr (image_of ctr) p in
      case pod of
        None \<Rightarrow> existing_loop e ou pods ctrs (p1, stops)
      | Some pod' \<Rightarrow>
          if fst (plugin_check e ou p1 pod' ctr launchFinal) \<noteq> verdictDeny then existing_loop e ou pods ctrs (p1, stops)
          else if pd_Namespace pod' \<in> set (po_ExemptNamespaces (nc_Policy (en_cfg e))) then existing_loop e ou pods ctrs (p1, stops)
          else if po_Mode (nc_Policy (en_cfg e)) = ModeAudit \<or> \<not> po_EnforceExisting (nc_Policy (en_cfg e)) then existing_loop e ou pods ctrs (p1, stops)
          else if escalateOnRestart e p1 then None
          else existing_loop e ou pods ctrs (p1, stops @ [ct_Id ctr]))"

definition checkExisting :: "'r plugin_env \<Rightarrow> outside \<Rightarrow> PodSandbox list \<Rightarrow> nri_Container list \<Rightarrow> plugin \<Rightarrow> (plugin \<times> string list) option" where
  "checkExisting e ou pods ctrs p = existing_loop e ou pods ctrs (p, [])"

definition captureExempt :: "'r plugin_env \<Rightarrow> outside \<Rightarrow> PodSandbox list \<Rightarrow> nri_Container list \<Rightarrow> exemptSnapshot" where
  "captureExempt e ou pods ctrs =
     fold (\<lambda>ctr snap.
       case pod_by_id pods (ct_PodSandboxId ctr) of
         None \<Rightarrow> snap
       | Some pod \<Rightarrow>
           if pd_Namespace pod \<notin> set (po_ExemptNamespaces (nc_Policy (en_cfg e))) then snap
           else
             let digest = resolveDigest (ou_resolve ou) (image_of ctr) in
             if digest = [] then snap else exempt_add (pd_Namespace pod) digest snap)
       ctrs (newExemptSnapshot (po_ExemptNamespaces (nc_Policy (en_cfg e))))"

definition initExempt :: "'r plugin_env \<Rightarrow> outside \<Rightarrow> PodSandbox list \<Rightarrow> nri_Container list \<Rightarrow> plugin \<Rightarrow> plugin" where
  "initExempt e ou pods ctrs p =
     (if length (po_ExemptNamespaces (nc_Policy (en_cfg e))) = 0 then p
      else (case loadExemptSnapshot (pg_file p) of
              Inl _ \<Rightarrow> p
            | Inr (Some s) \<Rightarrow> p\<lparr>pg_exempt := Some s\<rparr>
            | Inr None \<Rightarrow>
                let captured = captureExempt e ou pods ctrs in
                if exempt_empty captured then p
                else p\<lparr>pg_exempt := Some captured, pg_file := (if ou_persist_fails ou then pg_file p else exempt_persist captured)\<rparr>))"

definition firstBoot :: "'r plugin_env \<Rightarrow> outside \<Rightarrow> plugin \<Rightarrow> bool option" where
  "firstBoot e ou p =
     (if po_BootMarkerPath (nc_Policy (en_cfg e)) = [] then None
      else if ou_stat_fails ou then None
      else Some (\<not> pg_marker p))"

text \<open>\<^verbatim>\<open>check\<close> of the gate: \<^const>\<open>None\<close> when it powers the node off, otherwise whether this is a restart.\<close>

definition boot_check :: "'r plugin_env \<Rightarrow> outside \<Rightarrow> nri_Container list \<Rightarrow> plugin \<Rightarrow> (bool \<times> plugin) option" where
  "boot_check e ou ctrs p =
     (if \<not> po_FatalExisting (nc_Policy (en_cfg e)) then Some (False, p)
      else
        let first = (case firstBoot e ou p of None \<Rightarrow> True | Some first \<Rightarrow> first) in
        if \<not> first then Some (True, p)
        else if length ctrs > 0 then None
        else if ou_claim_fails ou \<or> pg_marker p then None
        else Some (False, p\<lparr>pg_marker := True\<rparr>))"

definition Synchronize :: "'r plugin_env \<Rightarrow> outside \<Rightarrow> PodSandbox list \<Rightarrow> nri_Container list \<Rightarrow> plugin \<Rightarrow> (plugin \<times> string list) option" where
  "Synchronize e ou pods ctrs p =
     (let p1 = fold RunPodSandbox pods p in
      case boot_check e ou ctrs p1 of
        None \<Rightarrow> None
      | Some (restart, p2) \<Rightarrow>
          let p3 = (if restart then p2\<lparr>pg_bootRestart := True\<rparr> else p2);
              p4 = initExempt e ou pods ctrs p3 in
          if \<not> shouldCheckExisting e p4 then Some (p4, [])
          else if \<not> pg_ready p4 then Some (p4\<lparr>pg_deferredPods := pods, pg_deferredCtrs := ctrs\<rparr>, [])
          else checkExisting e ou pods ctrs p4)"

definition RunDeferredCheck :: "'r plugin_env \<Rightarrow> outside \<Rightarrow> plugin \<Rightarrow> (plugin \<times> string list) option" where
  "RunDeferredCheck e ou p =
     (if \<not> shouldCheckExisting e p then Some (p, [])
      else
        let p1 = p\<lparr>pg_deferredPods := [], pg_deferredCtrs := []\<rparr> in
        if length (pg_deferredCtrs p) = 0 then Some (p1, []) else checkExisting e ou (pg_deferredPods p) (pg_deferredCtrs p) p1)"

definition SetReady :: "plugin \<Rightarrow> plugin" where
  "SetReady p = p\<lparr>pg_ready := True\<rparr>"

definition plugin_apply :: "Allowlist \<Rightarrow> 64 word \<Rightarrow> plugin \<Rightarrow> plugin" where
  "plugin_apply doc version p = p\<lparr>pg_store := snd (store_apply doc version (pg_store p))\<rparr>"

section \<open>What each operation leaves alone\<close>

abbreviation plugin_frame :: "plugin \<Rightarrow> plugin \<Rightarrow> bool" where
  "plugin_frame p p' \<equiv> pg_store p' = pg_store p \<and> pg_ready p' = pg_ready p \<and> pg_exempt p' = pg_exempt p \<and> pg_bootRestart p' = pg_bootRestart p \<and>
     pg_file p' = pg_file p \<and> pg_marker p' = pg_marker p \<and> pg_deferredPods p' = pg_deferredPods p \<and> pg_deferredCtrs p' = pg_deferredCtrs p"

lemma record_frame [simp]:
  "plugin_frame p (recordDigest e ctr d ms p)" "plugin_frame p (recordForInventory e ou pod ctr ref p)"
  "plugin_frame p (recordUncheckedForInventory e pod' ctr ref p)" "plugin_frame p (RunPodSandbox pod' p)" "plugin_frame p (RemovePodSandbox pod' p)"
  "plugin_frame p (RemoveContainer ctr p)"
  by (simp_all add: recordDigest_def recordForInventory_def recordUncheckedForInventory_def RunPodSandbox_def RemovePodSandbox_def RemoveContainer_def
      Let_def split: option.split)

lemma fold_pods_frame: "plugin_frame p (fold RunPodSandbox pods p)"
  by (induction pods arbitrary: p) simp_all

text \<open>One round of the loop: whether it asks for a stop is decided by the configuration and the check.\<close>

definition stops_container :: "'r plugin_env \<Rightarrow> outside \<Rightarrow> PodSandbox list \<Rightarrow> plugin \<Rightarrow> nri_Container \<Rightarrow> bool" where
  "stops_container e ou pods p ctr \<longleftrightarrow>
     po_Mode (nc_Policy (en_cfg e)) \<noteq> ModeAudit \<and> po_EnforceExisting (nc_Policy (en_cfg e)) \<and>
     (\<exists>pod. pod_by_id pods (ct_PodSandboxId ctr) = Some pod \<and> fst (plugin_check e ou p pod ctr launchFinal) = verdictDeny \<and>
            pd_Namespace pod \<notin> set (po_ExemptNamespaces (nc_Policy (en_cfg e))))"

lemma existing_loop_Cons:
  "existing_loop e ou pods (ctr # ctrs) (p, stops) =
     (let p1 = recordForInventory e ou (pod_by_id pods (ct_PodSandboxId ctr)) ctr (image_of ctr) p in
      if \<not> stops_container e ou pods p ctr then existing_loop e ou pods ctrs (p1, stops)
      else if escalateOnRestart e p then None
      else existing_loop e ou pods ctrs (p1, stops @ [ct_Id ctr]))"
proof -
  have "escalateOnRestart e (recordForInventory e ou pod ctr ref p) = escalateOnRestart e p" for pod ref by (simp add: escalateOnRestart_def)
  thus ?thesis by (simp add: Let_def stops_container_def split: option.split)
qed

declare existing_loop.simps(2) [simp del]

lemma existing_frame: "existing_loop e ou pods ctrs (p, stops) = Some (p', stops') \<Longrightarrow> plugin_frame p p'"
proof (induction ctrs arbitrary: p stops)
  case (Cons ctr ctrs)
  let ?p1 = "recordForInventory e ou (pod_by_id pods (ct_PodSandboxId ctr)) ctr (image_of ctr) p"
  obtain stops1 where "existing_loop e ou pods ctrs (?p1, stops1) = Some (p', stops')"
    using Cons.prems unfolding existing_loop_Cons Let_def by (auto split: if_splits)
  from Cons.IH[OF this] show ?case by simp
qed simp

section \<open>Steps\<close>

datatype label = LSync outside "PodSandbox list" "nri_Container list" | LReady | LDeferred outside | LPull Allowlist "64 word"
  | LStart outside PodSandbox nri_Container | LRemoveCtr nri_Container | LRunPod PodSandbox | LRemovePod PodSandbox | LRestart | LReboot

inductive plugin_step :: "'r plugin_env \<Rightarrow> plugin \<Rightarrow> label \<Rightarrow> plugin \<Rightarrow> bool" for e where
  sync: "Synchronize e ou pods ctrs p = Some (p', stops) \<Longrightarrow> plugin_step e p (LSync ou pods ctrs) p'"
| ready: "plugin_step e p LReady (SetReady p)"
| deferred: "RunDeferredCheck e ou p = Some (p', stops) \<Longrightarrow> plugin_step e p (LDeferred ou) p'"
| pull: "PullEnabled (en_cfg e) \<Longrightarrow> plugin_step e p (LPull doc version) (plugin_apply doc version p)"
| start: "StartContainer e ou pod ctr p = (res, p') \<Longrightarrow> plugin_step e p (LStart ou pod ctr) p'"
| remove_ctr: "plugin_step e p (LRemoveCtr ctr) (RemoveContainer ctr p)"
| run_pod: "plugin_step e p (LRunPod pod) (RunPodSandbox pod p)"
| remove_pod: "plugin_step e p (LRemovePod pod) (RemovePodSandbox pod p)"
| restart: "plugin_step e p LRestart (newPlugin e (pg_file p) (pg_marker p))"
| reboot: "plugin_step e p LReboot (newPlugin e (pg_file p) False)"

inductive plugin_run :: "'r plugin_env \<Rightarrow> plugin \<Rightarrow> label list \<Rightarrow> plugin \<Rightarrow> bool" for e where
  nil: "plugin_run e p [] p"
| step: "plugin_step e p l p1 \<Longrightarrow> plugin_run e p1 ls p2 \<Longrightarrow> plugin_run e p (l # ls) p2"

inductive_cases plugin_runE: "plugin_run e p (l # ls) p2"
inductive_cases plugin_run_nilE: "plugin_run e p [] p2"

lemma run_invariant:
  assumes "plugin_run e p ls p'" and "I p" and "\<And>q l q'. plugin_step e q l q' \<Longrightarrow> l \<in> set ls \<Longrightarrow> I q \<Longrightarrow> I q'"
  shows "I p'"
  using assms by (induction rule: plugin_run.induct) auto

lemma initExempt_frame: "pg_store (initExempt e ou pods ctrs p) = pg_store p \<and> pg_ready (initExempt e ou pods ctrs p) = pg_ready p \<and>
    pg_inventory (initExempt e ou pods ctrs p) = pg_inventory p \<and> pg_marker (initExempt e ou pods ctrs p) = pg_marker p \<and>
    pg_bootRestart (initExempt e ou pods ctrs p) = pg_bootRestart p"
  by (simp add: initExempt_def Let_def split: sum.split option.split)

lemma boot_check_frame:
  "boot_check e ou ctrs p = Some (r, p') \<Longrightarrow> p' = p \<or> p' = p\<lparr>pg_marker := True\<rparr> \<and> \<not> r \<and> ctrs = [] \<and> \<not> pg_marker p"
  by (auto simp: boot_check_def Let_def split: if_splits)

lemma StartContainer_frame: "StartContainer e ou pod ctr p = (res, p') \<Longrightarrow> plugin_frame p p'"
  by (auto simp: StartContainer_def split: if_splits sum.splits prod.splits)

text \<open>Synchronising is: the pods, the gate, the snapshot, and then the deferral or the loop.\<close>

lemma Synchronize_cases:
  assumes "Synchronize e ou pods ctrs p = Some (p', stops)"
  obtains restart p2 p4 where "boot_check e ou ctrs (fold RunPodSandbox pods p) = Some (restart, p2)"
    "p4 = initExempt e ou pods ctrs (if restart then p2\<lparr>pg_bootRestart := True\<rparr> else p2)"
    "p' = p4 \<and> stops = [] \<or> p' = p4\<lparr>pg_deferredPods := pods, pg_deferredCtrs := ctrs\<rparr> \<and> stops = [] \<and> \<not> pg_ready p4 \<or>
     existing_loop e ou pods ctrs (p4, []) = Some (p', stops)"
  using assms by (auto simp: Synchronize_def Let_def checkExisting_def split: option.splits prod.splits if_splits)

lemma Deferred_cases:
  assumes "RunDeferredCheck e ou p = Some (p', stops)"
  shows "p' = p \<and> stops = [] \<or> p' = p\<lparr>pg_deferredPods := [], pg_deferredCtrs := []\<rparr> \<and> stops = [] \<or>
    existing_loop e ou (pg_deferredPods p) (pg_deferredCtrs p) (p\<lparr>pg_deferredPods := [], pg_deferredCtrs := []\<rparr>, []) = Some (p', stops)"
  using assms by (auto simp: RunDeferredCheck_def Let_def checkExisting_def split: if_splits)

lemma Synchronize_store: "Synchronize e ou pods ctrs p = Some (p', stops) \<Longrightarrow> pg_store p' = pg_store p \<and> pg_ready p' = pg_ready p"
proof -
  assume "Synchronize e ou pods ctrs p = Some (p', stops)"
  then obtain restart p2 p4 where b: "boot_check e ou ctrs (fold RunPodSandbox pods p) = Some (restart, p2)"
    "p4 = initExempt e ou pods ctrs (if restart then p2\<lparr>pg_bootRestart := True\<rparr> else p2)"
    "p' = p4 \<and> stops = [] \<or> p' = p4\<lparr>pg_deferredPods := pods, pg_deferredCtrs := ctrs\<rparr> \<and> stops = [] \<and> \<not> pg_ready p4 \<or>
     existing_loop e ou pods ctrs (p4, []) = Some (p', stops)"
    by (rule Synchronize_cases)
  have "pg_store p4 = pg_store p \<and> pg_ready p4 = pg_ready p"
    using boot_check_frame[OF b(1)] fold_pods_frame[where p=p and pods=pods] b(2) by (auto simp: initExempt_frame)
  thus ?thesis using b(3) existing_frame[of e ou pods ctrs p4 "[]" p' stops] by auto
qed

lemma Deferred_store: "RunDeferredCheck e ou p = Some (p', stops) \<Longrightarrow> pg_store p' = pg_store p \<and> pg_ready p' = pg_ready p"
  using Deferred_cases[of e ou p p' stops] existing_frame by fastforce

section \<open>The policy in force\<close>

definition base_doc :: "'r plugin_env \<Rightarrow> Allowlist" where
  "base_doc e = (case nc_Base (en_cfg e) of None \<Rightarrow> empty_doc | Some b \<Rightarrow> b)"

definition store_inv :: "'r plugin_env \<Rightarrow> label set \<Rightarrow> policyStore \<Rightarrow> bool" where
  "store_inv e L s \<longleftrightarrow> ps_base s = BuildIndex (base_doc e) \<and>
     (\<exists>doc. ps_index s = BuildIndex doc \<and> (doc = empty_doc \<and> ps_version s = 0 \<or> LPull doc (ps_version s) \<in> L \<and> PullEnabled (en_cfg e)))"

lemma store_inv_new: "store_inv e L (newPolicyStore (nc_Base (en_cfg e)))"
  by (simp add: store_inv_def newPolicyStore_def base_doc_def) blast

lemma step_store:
  assumes "plugin_step e p l p'"
  shows "pg_store p' = pg_store p \<or> (\<exists>doc v. l = LPull doc v \<and> PullEnabled (en_cfg e) \<and> pg_store p' = snd (store_apply doc v (pg_store p))) \<or>
    l \<in> {LRestart, LReboot} \<and> pg_store p' = newPolicyStore (nc_Base (en_cfg e))"
  using assms
proof cases
  case (start ou pod ctr res)
  thus ?thesis using StartContainer_frame by blast
qed (auto dest: Synchronize_store Deferred_store simp: SetReady_def plugin_apply_def newPlugin_def)

lemma step_store_inv: "plugin_step e p l p' \<Longrightarrow> l \<in> L \<Longrightarrow> store_inv e L (pg_store p) \<Longrightarrow> store_inv e L (pg_store p')"
  using step_store[of e p l p'] store_inv_new[of e L] by (auto simp: store_inv_def store_apply_def split: if_splits)

lemma run_store_inv:
  assumes "plugin_run e (newPlugin e file marker) ls p"
  shows "store_inv e (set ls) (pg_store p)"
  using assms
  by (rule run_invariant) (auto simp: newPlugin_def intro: store_inv_new step_store_inv)

lemma store_inv_index: "store_inv e L s \<Longrightarrow> ps_index s \<noteq> None"
  by (auto simp: store_inv_def BuildIndex_def)

lemma StartContainer_iff:
  assumes "ps_index (pg_store p) \<noteq> None"
  shows "okE (fst (StartContainer e ou pod ctr p)) \<longleftrightarrow> po_Mode (nc_Policy (en_cfg e)) = ModeAudit \<or>
    image_rule (en_H e) (en_storage e) (ou_resolve ou) (en_x e) (en_cfg e) (pg_store p) (pg_exempt p) pod ctr \<and>
    sandbox_rule (en_H e) (en_storage e) (ou_resolve ou) (en_cfg e) (pg_store p) pod ctr"
  using checkContainer_iff[OF assms, of "en_H e" "en_storage e" "ou_resolve ou" "en_x e" "en_cfg e" "pg_exempt p" pod ctr]
  by (auto simp: StartContainer_def admitWhileInitializing_def checkContainer_def split: prod.splits sum.splits if_splits)

text \<open>C4: \<^bold>\<open>Exactly what may start.\<close> After any run of the plugin, the base in force is the configured one and the served policy is empty or one that was pulled
  (and is in force at its version). A container may start exactly when the plugin only audits, or when both rules hold. The image rule: every label rule matches
  and, with an allowlist configured, an entry of the base or of the served policy admits this digest with these arguments, environment and mounts
  (a container without an image only if the configuration lets it); or else the namespace is exempt and this digest is in its frozen set. The sandbox rule:
  it is off or auditing, or nothing in the spec reaches the host, or the base is the node's own and admits this very launch.\<close>

theorem start_decided:
  assumes "plugin_run e (newPlugin e file marker) ls p"
  shows "\<exists>doc v. pg_store p = \<lparr>ps_base = BuildIndex (base_doc e), ps_index = BuildIndex doc, ps_version = v\<rparr> \<and>
      (doc = empty_doc \<and> v = 0 \<or> LPull doc v \<in> set ls) \<and>
      (\<forall>ou pod ctr. okE (fst (StartContainer e ou pod ctr p)) \<longleftrightarrow> po_Mode (nc_Policy (en_cfg e)) = ModeAudit \<or>
         image_rule (en_H e) (en_storage e) (ou_resolve ou) (en_x e) (en_cfg e) (pg_store p) (pg_exempt p) pod ctr \<and>
         sandbox_rule (en_H e) (en_storage e) (ou_resolve ou) (en_cfg e) (pg_store p) pod ctr)"
proof -
  note inv = run_store_inv[OF assms]
  then obtain doc where "pg_store p = \<lparr>ps_base = BuildIndex (base_doc e), ps_index = BuildIndex doc, ps_version = ps_version (pg_store p)\<rparr>"
      "doc = empty_doc \<and> ps_version (pg_store p) = 0 \<or> LPull doc (ps_version (pg_store p)) \<in> set ls"
    by (cases "pg_store p") (auto simp: store_inv_def)
  thus ?thesis using StartContainer_iff[OF store_inv_index[OF inv]] by blast
qed

text \<open>C7: \<^bold>\<open>A container that starts is confined to its pod.\<close> With the sandbox rule enforced outside audit mode, a container that was let start has its own
  namespaces, no device, hook, interface or kernel setting of the host, and mounts from nowhere but its pod's own directories and, read-only in
  a sidecar, the plugin's socket directory. The only other containers that start are launches the measured base itself admits.\<close>

theorem started_confined:
  assumes "plugin_run e (newPlugin e file marker) ls p" and "StartContainer e ou pod ctr p = (Inr (), p')"
    and "po_Mode (nc_Policy (en_cfg e)) \<noteq> ModeAudit" and "sandboxMode (en_cfg e) = SandboxEnforce"
  shows "confined pod ctr (nc_SocketDir (en_cfg e)) \<or>
    nc_NodeTCB (en_cfg e) \<and> (\<exists>d. ParseDigest (resolveDigest (ou_resolve ou) (image_of ctr)) = Inr d \<and>
      (\<exists>c\<in>set (all_containers (base_doc e)). container_admits (en_H e) c
         ((launch_of (en_H e) (en_storage e) (ou_resolve ou) pod ctr)\<lparr>rc_Digest := digest_string d\<rparr>)))"
proof -
  note inv = run_store_inv[OF assms(1)]
  have base: "ps_base (pg_store p) = BuildIndex (base_doc e)" using inv by (simp add: store_inv_def)
  have "sandbox_rule (en_H e) (en_storage e) (ou_resolve ou) (en_cfg e) (pg_store p) pod ctr"
    using StartContainer_iff[OF store_inv_index[OF inv], of e ou pod ctr] assms(2,3) by simp
  thus ?thesis using assms(4) no_violation_confined
    by (auto simp: sandbox_rule_def base AdmitsContainer_BuildIndex SandboxEnforce_def SandboxOff_def SandboxAudit_def launch_of_def)
qed

section \<open>Creation\<close>

lemma exemptNamespace_deny:
  "fst (exemptNamespace resolve cfg ex pod ref vr) \<noteq> verdictDeny \<longleftrightarrow> fst vr \<noteq> verdictDeny \<or>
     pd_Namespace pod \<in> set (po_ExemptNamespaces (nc_Policy cfg)) \<and> exempt_admits ex (pd_Namespace pod) (resolveDigest resolve ref)"
  by (auto simp: exemptNamespace_def)

lemma checkImage_preliminary:
  assumes "fst (checkImagePhase H resolve cfg store \<lparr>ic_ImageRef = ref, ic_Argv = argv, ic_Env = env, ic_Mounts = ms\<rparr> launchFinal) \<noteq> verdictDeny"
  shows "fst (checkImagePhase H resolve cfg store \<lparr>ic_ImageRef = ref, ic_Argv = argv, ic_Env = env, ic_Mounts = None\<rparr> launchPreliminary) \<noteq> verdictDeny"
proof -
  have "AdmitsContainer H i \<lparr>rc_Digest = d, rc_Argv = argv, rc_Mounts = ms, rc_Env = env\<rparr> \<Longrightarrow>
      AdmitsProcess H i \<lparr>rc_Digest = d, rc_Argv = argv, rc_Mounts = None, rc_Env = env\<rparr>" for i d
    using AdmitsContainer_process[of H i "\<lparr>rc_Digest = d, rc_Argv = argv, rc_Mounts = ms, rc_Env = env\<rparr>" None] by simp
  thus ?thesis using assms by (auto simp: checkImagePhase_def baseAdmits_def Let_def split: option.splits if_splits)
qed

lemma check_preliminary:
  assumes "fst (checkContainerPhase H storage resolve x cfg store ex pod ctr ref launchFinal) \<noteq> verdictDeny"
  shows "fst (checkContainerPhase H storage resolve x cfg store ex pod ctr ref launchPreliminary) \<noteq> verdictDeny"
proof -
  have "fst (checkContainerObserved H resolve x cfg store ex pod ctr ref launchFinal (containerEnv H ctr) (Some (mounts_Observe H storage pod ctr))) \<noteq> verdictDeny"
    using assms by (auto simp: checkContainerPhase_def Let_def split: if_splits)
  hence "fst (checkContainerObserved H resolve x cfg store ex pod ctr ref launchPreliminary (containerEnv H ctr) None) \<noteq> verdictDeny"
    unfolding checkContainerObserved_def Let_def exemptNamespace_deny
    using checkImage_preliminary[of H resolve cfg store ref "ct_Args ctr" "containerEnv H ctr" "Some (mounts_Observe H storage pod ctr)"]
    by (auto split: if_splits)
  thus ?thesis by (simp add: checkContainerPhase_def)
qed

text \<open>\<^bold>\<open>The early check refuses nothing the final one would let start.\<close> A container that the plugin would let start is also let through at creation, where only
  its digest and arguments are known.\<close>

theorem create_lenient:
  assumes "okE (fst (StartContainer e ou pod ctr p))"
  shows "CreateContainer e ou pod ctr p = Inr (socketDirAdjustment e pod ctr p)"
  using assms check_preliminary[of "en_H e" "en_storage e" "ou_resolve ou" "en_x e" "en_cfg e" "pg_store p" "pg_exempt p" pod ctr "image_of ctr"]
  by (auto simp: StartContainer_def admitWhileInitializing_def CreateContainer_def split: prod.splits sum.splits if_splits)

section \<open>Containers found running\<close>

lemma stops_frame: "plugin_frame p p' \<Longrightarrow> stops_container e ou pods p' ctr = stops_container e ou pods p ctr"
  by (simp add: stops_container_def)

lemma existing_stops:
  "existing_loop e ou pods ctrs (p, stops) = Some (p', stops') \<Longrightarrow>
     stops' = stops @ map ct_Id (filter (stops_container e ou pods p) ctrs) \<and> (stops' \<noteq> stops \<longrightarrow> \<not> escalateOnRestart e p)"
proof (induction ctrs arbitrary: p stops)
  case (Cons ctr ctrs)
  let ?p1 = "recordForInventory e ou (pod_by_id pods (ct_PodSandboxId ctr)) ctr (image_of ctr) p"
  have f: "stops_container e ou pods ?p1 = stops_container e ou pods p" "escalateOnRestart e ?p1 = escalateOnRestart e p"
    by (auto simp: fun_eq_iff stops_container_def escalateOnRestart_def)
  show ?case using Cons.prems unfolding existing_loop_Cons Let_def
    by (auto split: if_splits dest!: Cons.IH simp: f)
qed simp

lemma escalate_record [simp]: "escalateOnRestart e (recordForInventory e ou pod ctr ref p) = escalateOnRestart e p"
  by (simp add: escalateOnRestart_def)

lemma no_escalation:
  assumes "plugin_run e (newPlugin e file marker) ls p"
  shows "\<not> escalateOnRestart e p"
  using run_store_inv[OF assms] by (auto simp: store_inv_def escalateOnRestart_def)

text \<open>C30: \<^bold>\<open>The check of running containers stops the denied ones, and never powers the node off.\<close> In every state the plugin can reach, the check of the
  containers found running ends, and asks the runtime to stop exactly those whose pod is known, whose namespace is not exempt and that the final
  check denies; in audit mode or without enforcement it asks for none. The power-off on a denied container after a restart does not happen: it needs a policy
  version above zero without a policy pull, and only a pull sets a version.\<close>

theorem existing_exact:
  assumes "plugin_run e (newPlugin e file marker) ls p"
  shows "\<exists>p'. checkExisting e ou pods ctrs p = Some (p', map ct_Id (filter (stops_container e ou pods p) ctrs))"
proof -
  have "\<not> escalateOnRestart e q \<Longrightarrow> existing_loop e ou pods cs (q, stops) \<noteq> None" for q cs stops
  proof (induction cs arbitrary: q stops)
    case (Cons c cs)
    let ?q = "recordForInventory e ou (pod_by_id pods (ct_PodSandboxId c)) c (image_of c) q"
    have "\<not> escalateOnRestart e ?q" using Cons.prems by simp
    from Cons.IH[OF this] Cons.prems show ?case unfolding existing_loop_Cons Let_def by auto
  qed simp
  from this[OF no_escalation[OF assms]] obtain p' stops where r: "existing_loop e ou pods ctrs (p, []) = Some (p', stops)" by fastforce
  thus ?thesis using existing_stops[OF r] by (simp add: checkExisting_def)
qed

section \<open>The boot gate\<close>

lemma Synchronize_marker:
  assumes "Synchronize e ou pods ctrs p = Some (p', stops)"
  shows "pg_marker p' \<longleftrightarrow> pg_marker p \<or> po_FatalExisting (nc_Policy (en_cfg e))"
    and "po_FatalExisting (nc_Policy (en_cfg e)) \<Longrightarrow> ctrs = [] \<or> pg_marker p"
proof -
  let ?p1 = "fold RunPodSandbox pods p"
  obtain restart p2 p4 where b: "boot_check e ou ctrs ?p1 = Some (restart, p2)"
    "p4 = initExempt e ou pods ctrs (if restart then p2\<lparr>pg_bootRestart := True\<rparr> else p2)"
    "p' = p4 \<and> stops = [] \<or> p' = p4\<lparr>pg_deferredPods := pods, pg_deferredCtrs := ctrs\<rparr> \<and> stops = [] \<and> \<not> pg_ready p4 \<or>
     existing_loop e ou pods ctrs (p4, []) = Some (p', stops)"
    using assms by (rule Synchronize_cases)
  have m1: "pg_marker ?p1 = pg_marker p" using fold_pods_frame[where p=p and pods=pods] by simp
  have "pg_marker p' = pg_marker p4" using b(3) existing_frame[of e ou pods ctrs p4 "[]" p' stops] by auto
  hence m: "pg_marker p' = pg_marker p2" using b(2) by (simp add: initExempt_frame)
  show "pg_marker p' \<longleftrightarrow> pg_marker p \<or> po_FatalExisting (nc_Policy (en_cfg e))"
    "po_FatalExisting (nc_Policy (en_cfg e)) \<Longrightarrow> ctrs = [] \<or> pg_marker p"
    using b(1) m m1 by (auto simp: boot_check_def firstBoot_def Let_def split: if_splits)
qed

lemma step_marker:
  assumes "plugin_step e p l p'" and "pg_marker p'"
  shows "pg_marker p \<or> (\<exists>ou pods. l = LSync ou pods [])"
  using assms(1)
proof cases
  case (sync ou pods ctrs stops)
  thus ?thesis using Synchronize_marker[of e ou pods ctrs p p' stops] assms(2) by auto
next
  case (deferred ou stops)
  thus ?thesis using Deferred_cases[of e ou p p' stops] existing_frame assms(2) by fastforce
next
  case (start ou pod ctr res)
  thus ?thesis using StartContainer_frame[of e ou pod ctr p res p'] assms(2) by simp
qed (use assms(2) in \<open>auto simp: SetReady_def plugin_apply_def newPlugin_def\<close>)

lemma run_marker: "plugin_run e p ls p' \<Longrightarrow> pg_marker p' \<Longrightarrow> pg_marker p \<or> (\<exists>ou pods. LSync ou pods [] \<in> set ls)"
  by (induction rule: plugin_run.induct) (auto dest: step_marker)

lemma plugin_run_append: "plugin_run e p (xs @ l # ys) p' \<Longrightarrow> \<exists>q q'. plugin_run e p xs q \<and> plugin_step e q l q' \<and> plugin_run e q' ys p'"
proof (induction xs arbitrary: p)
  case Nil
  thus ?case by (auto elim!: plugin_runE intro: plugin_run.nil)
next
  case (Cons x xs)
  then obtain p1 where "plugin_step e p x p1" "plugin_run e p1 (xs @ l # ys) p'" by (auto elim: plugin_runE)
  with Cons.IH[of p1] show ?case by (auto intro: plugin_run.step)
qed

text \<open>C20: \<^bold>\<open>Nothing runs before the plugin.\<close> With the boot gate on, follow the plugin from a boot, through any number of restarts: if it ever survives a
  synchronisation that lists a running container, then it had before, in the same boot, been through one that listed none. So every container on
  the node was created after the plugin was first in place.\<close>

theorem boot_gate:
  assumes "plugin_run e (newPlugin e file False) (pre @ LSync ou pods ctrs # post) p"
    and "po_FatalExisting (nc_Policy (en_cfg e))" and "ctrs \<noteq> []"
  shows "\<exists>ou' pods'. LSync ou' pods' [] \<in> set pre"
proof -
  obtain q q' where q: "plugin_run e (newPlugin e file False) pre q" "plugin_step e q (LSync ou pods ctrs) q'"
    using plugin_run_append[OF assms(1)] by blast
  from q(2) obtain stops where "Synchronize e ou pods ctrs q = Some (q', stops)" by cases auto
  hence "pg_marker q" using Synchronize_marker(2)[OF _ assms(2)] assms(3) by blast
  thus ?thesis using run_marker[OF q(1)] by (auto simp: newPlugin_def)
qed

end
