(* ===== verification/Nri_Node.thy ===== *)
theory Nri_Node
  imports Nri_Plugin
begin

text \<open>
  What the node plugin guarantees over whole runs: policy versions only grow, the exemption is frozen at the first synchronisation, and whatever was
  let start in a sandbox stays in the inventory's answer for that sandbox.
\<close>

section \<open>Versions\<close>

abbreviation in_force :: "plugin \<Rightarrow> 64 word" where
  "in_force p \<equiv> ps_version (pg_store p)"

abbreviation no_restart :: "label list \<Rightarrow> bool" where
  "no_restart ls \<equiv> LRestart \<notin> set ls \<and> LReboot \<notin> set ls"

lemma step_version: "plugin_step e q l q' \<Longrightarrow> l \<notin> {LRestart, LReboot} \<Longrightarrow> in_force q \<le> in_force q'"
  using step_store[of e q l q'] by (auto simp: store_apply_def)

lemma run_version: "plugin_run e p ls p' \<Longrightarrow> no_restart ls \<Longrightarrow> in_force p \<le> in_force p'"
proof (induction rule: plugin_run.induct)
  case (step p l p1 ls p2)
  thus ?case using step_version[of e p l p1] by (auto intro: order_trans)
qed simp

text \<open>C35: \<^bold>\<open>No rollback of the policy.\<close> As long as the plugin process lives, the version of the policy in force never falls, and it is at least every version
  that was pulled: an older document is refused and leaves the policy in force as it was.\<close>

theorem policy_no_rollback:
  assumes "plugin_run e p ls p'" and "no_restart ls"
  shows "in_force p \<le> in_force p' \<and> (\<forall>doc v. LPull doc v \<in> set ls \<longrightarrow> v \<le> in_force p') \<and>
    (\<forall>doc v. v < in_force p' \<longrightarrow> plugin_apply doc v p' = p')"
proof (intro conjI allI impI)
  show "in_force p \<le> in_force p'" by (rule run_version[OF assms])
  fix doc v
  show "plugin_apply doc v p' = p'" if "v < in_force p'" using that by (simp add: plugin_apply_def store_apply_def)
  assume "LPull doc v \<in> set ls"
  then obtain xs ys where ls: "ls = xs @ LPull doc v # ys" using split_list by metis
  then obtain q q' where q: "plugin_step e q (LPull doc v) q'" "plugin_run e q' ys p'" using plugin_run_append assms(1) by metis
  have "v \<le> in_force q'" using q(1) by cases (auto simp: plugin_apply_def store_apply_def not_less)
  thus "v \<le> in_force p'" using run_version[OF q(2)] assms(2) ls by (auto intro: order_trans)
qed

section \<open>The frozen exemption\<close>

text \<open>The digests of the file, and a state whose snapshot, if it has one, is what the file holds.\<close>

definition file_admits :: "exempt_file \<Rightarrow> string \<Rightarrow> string \<Rightarrow> bool" where
  "file_admits f n x = (case f of Holds (_, digests) \<Rightarrow> x \<noteq> [] \<and> x \<in> set (list_at digests n) | _ \<Rightarrow> False)"

definition frozen :: "exempt_file \<Rightarrow> plugin \<Rightarrow> bool" where
  "frozen f p \<longleftrightarrow> pg_file p = f \<and> (pg_exempt p = None \<or> (\<forall>n x. exempt_admits (pg_exempt p) n x = file_admits f n x))"

lemma load_Holds: "\<exists>s. loadExemptSnapshot (Holds f) = Inr (Some s) \<and> (\<forall>n x. exempt_admits (Some s) n x = file_admits (Holds f) n x)"
proof (cases f)
  case (Pair nss digests)
  obtain s where "loadExemptSnapshot (Holds (nss, digests)) = Inr (Some s)" by (simp add: loadExemptSnapshot_def)
  thus ?thesis using exempt_admits_loaded Pair by (auto simp: file_admits_def)
qed

lemma initExempt_frozen: "frozen (Holds f) p \<Longrightarrow> frozen (Holds f) (initExempt e ou pods ctrs p)"
  using load_Holds[of f] by (auto simp: frozen_def initExempt_def)

lemma frozen_frame: "pg_file p' = pg_file p \<Longrightarrow> pg_exempt p' = pg_exempt p \<Longrightarrow> frozen f p' = frozen f p"
  by (simp add: frozen_def)

lemma Synchronize_exempt:
  assumes "Synchronize e ou pods ctrs p = Some (p', stops)"
  obtains q where "pg_file q = pg_file p" "pg_exempt q = pg_exempt p"
    "pg_file p' = pg_file (initExempt e ou pods ctrs q)" "pg_exempt p' = pg_exempt (initExempt e ou pods ctrs q)"
proof -
  obtain restart p2 p4 where b: "boot_check e ou ctrs (fold RunPodSandbox pods p) = Some (restart, p2)"
    "p4 = initExempt e ou pods ctrs (if restart then p2\<lparr>pg_bootRestart := True\<rparr> else p2)"
    "p' = p4 \<and> stops = [] \<or> p' = p4\<lparr>pg_deferredPods := pods, pg_deferredCtrs := ctrs\<rparr> \<and> stops = [] \<and> \<not> pg_ready p4 \<or>
     existing_loop e ou pods ctrs (p4, []) = Some (p', stops)"
    using assms by (rule Synchronize_cases)
  let ?q = "if restart then p2\<lparr>pg_bootRestart := True\<rparr> else p2"
  have "pg_file ?q = pg_file p" "pg_exempt ?q = pg_exempt p"
    using boot_check_frame[OF b(1)] fold_pods_frame[where p=p and pods=pods] by auto
  moreover have "pg_file p' = pg_file p4" "pg_exempt p' = pg_exempt p4"
    using b(3) existing_frame[of e ou pods ctrs p4 "[]" p' stops] by auto
  ultimately show thesis using that b(2) by metis
qed

lemma step_frozen:
  assumes "plugin_step e p l p'" and "frozen (Holds f) p"
  shows "frozen (Holds f) p'"
  using assms(1)
proof cases
  case (sync ou pods ctrs stops)
  then obtain q where "pg_file q = pg_file p" "pg_exempt q = pg_exempt p"
    "pg_file p' = pg_file (initExempt e ou pods ctrs q)" "pg_exempt p' = pg_exempt (initExempt e ou pods ctrs q)"
    using Synchronize_exempt by blast
  thus ?thesis using initExempt_frozen[of f q e ou pods ctrs] assms(2) frozen_frame by metis
next
  case (deferred ou stops)
  hence "pg_file p' = pg_file p" "pg_exempt p' = pg_exempt p" using Deferred_cases[of e ou p p' stops] existing_frame by fastforce+
  thus ?thesis using assms(2) frozen_frame by metis
next
  case (start ou pod ctr res)
  thus ?thesis using StartContainer_frame[of e ou pod ctr p res p'] assms(2) frozen_frame by metis
qed (use assms(2) in \<open>auto simp: SetReady_def plugin_apply_def newPlugin_def frozen_def\<close>)

text \<open>What the first synchronisation captures.\<close>

definition ran_exempt :: "'r plugin_env \<Rightarrow> outside \<Rightarrow> PodSandbox list \<Rightarrow> nri_Container list \<Rightarrow> string \<Rightarrow> string \<Rightarrow> bool" where
  "ran_exempt e ou pods ctrs n x \<longleftrightarrow> n \<in> set (po_ExemptNamespaces (nc_Policy (en_cfg e))) \<and> x \<noteq> [] \<and>
     (\<exists>ctr\<in>set ctrs. \<exists>pod. pod_by_id pods (ct_PodSandboxId ctr) = Some pod \<and> pd_Namespace pod = n \<and> resolveDigest (ou_resolve ou) (image_of ctr) = x)"

lemma capture_fold:
  fixes e :: "'r plugin_env" and ou :: outside and pods :: "PodSandbox list"
  defines "f \<equiv> \<lambda>ctr snap. case pod_by_id pods (ct_PodSandboxId ctr) of None \<Rightarrow> snap | Some pod \<Rightarrow>
      if pd_Namespace pod \<notin> set (po_ExemptNamespaces (nc_Policy (en_cfg e))) then snap
      else let digest = resolveDigest (ou_resolve ou) (image_of ctr) in if digest = [] then snap else exempt_add (pd_Namespace pod) digest snap"
  shows "exempt_inv s \<Longrightarrow> exempt_inv (fold f ctrs s) \<and>
    (\<forall>n x. exempt_admits (Some (fold f ctrs s)) n x \<longleftrightarrow> exempt_admits (Some s) n x \<or> ran_exempt e ou pods ctrs n x)"
proof (induction ctrs arbitrary: s)
  case (Cons c cs)
  have inv: "exempt_inv (f c s)" using Cons.prems by (simp add: f_def exempt_inv_add Let_def split: option.split)
  have adm: "exempt_admits (Some (f c s)) n x \<longleftrightarrow> exempt_admits (Some s) n x \<or> ran_exempt e ou pods [c] n x" for n x
    by (auto simp: f_def ran_exempt_def exempt_admits_add Let_def split: option.split)
  have "ran_exempt e ou pods (c # cs) n x \<longleftrightarrow> ran_exempt e ou pods [c] n x \<or> ran_exempt e ou pods cs n x" for n x
    by (auto simp: ran_exempt_def)
  thus ?case using Cons.IH[OF inv] adm by (simp add: disj_assoc)
qed (simp add: ran_exempt_def)

lemma captureExempt_exact:
  "exempt_inv (captureExempt e ou pods ctrs)"
  "exempt_admits (Some (captureExempt e ou pods ctrs)) n x \<longleftrightarrow> ran_exempt e ou pods ctrs n x"
  unfolding captureExempt_def
  using capture_fold[where e=e and ou=ou and pods=pods and ctrs=ctrs, OF exempt_inv_new, of "po_ExemptNamespaces (nc_Policy (en_cfg e))"] by simp_all

lemma initExempt_captures:
  assumes "pg_file p = NoFile" and "pg_exempt p = None" and "pg_file (initExempt e ou pods ctrs p) \<noteq> NoFile"
  obtains f where "frozen (Holds f) (initExempt e ou pods ctrs p)" "\<And>n x. file_admits (Holds f) n x = ran_exempt e ou pods ctrs n x"
proof -
  let ?s = "captureExempt e ou pods ctrs"
  have s: "pg_exempt (initExempt e ou pods ctrs p) = Some ?s" "pg_file (initExempt e ou pods ctrs p) = Holds (ex_Namespaces ?s, ex_Digests ?s)"
    using assms by (auto simp: initExempt_def loadExemptSnapshot_def exempt_persist_def Let_def split: if_splits)
  have "file_admits (Holds (ex_Namespaces ?s, ex_Digests ?s)) n x = exempt_admits (Some ?s) n x" for n x
    using captureExempt_exact(1)[of e ou pods ctrs] by (auto simp: file_admits_def exempt_inv_def exempt_admits_def)
  thus thesis by (intro that[of "(ex_Namespaces ?s, ex_Digests ?s)"]) (simp_all add: frozen_def s captureExempt_exact(2))
qed

text \<open>C23: \<^bold>\<open>The exemption is frozen.\<close> Suppose a synchronisation without a snapshot file writes one. Then for good, whatever is synchronised, started or
  pulled later and through any restarts and reboots, the plugin either has no snapshot, and exempts nothing, or exempts exactly the digests that ran in an exempt
  namespace at that synchronisation, each in its own namespace.\<close>

theorem exempt_frozen:
  assumes "Synchronize e ou pods ctrs p = Some (p1, stops)" and "pg_file p = NoFile" and "pg_exempt p = None" and "pg_file p1 \<noteq> NoFile"
    and "plugin_run e p1 ls p2"
  shows "pg_exempt p2 = None \<or> (\<forall>n x. exempt_admits (pg_exempt p2) n x \<longleftrightarrow> ran_exempt e ou pods ctrs n x)"
proof -
  obtain q where q: "pg_file q = pg_file p" "pg_exempt q = pg_exempt p"
    "pg_file p1 = pg_file (initExempt e ou pods ctrs q)" "pg_exempt p1 = pg_exempt (initExempt e ou pods ctrs q)"
    using assms(1) by (rule Synchronize_exempt)
  obtain f where f: "frozen (Holds f) (initExempt e ou pods ctrs q)" "\<And>n x. file_admits (Holds f) n x = ran_exempt e ou pods ctrs n x"
    using initExempt_captures[of q e ou pods ctrs] q assms(2-4) by metis
  have "frozen (Holds f) p1" using f(1) q(3,4) frozen_frame by metis
  with assms(5) have "frozen (Holds f) p2" by (rule run_invariant) (rule step_frozen)
  thus ?thesis using f(2) by (auto simp: frozen_def)
qed

section \<open>What started is reported\<close>

definition rec_event :: "'r plugin_env \<Rightarrow> nri_Container \<Rightarrow> string \<Rightarrow> ObservedMount slice \<Rightarrow> inv_event" where
  "rec_event e ctr digest mounts = Admitted (ct_Id ctr) (ct_PodSandboxId ctr) (ct_Name ctr)
     \<lparr>ev_id = [], ev_digest = digest, ev_argv = Some (ct_Args ctr), ev_env = containerEnv (en_H e) ctr, ev_mounts = mounts\<rparr>"

lemma recordDigest_event:
  "pg_inventory (recordDigest e ctr d ms p) = map_option (inv_step (en_pr e) (rec_event e ctr d ms)) (pg_inventory p)"
  by (simp add: recordDigest_def rec_event_def split: option.split)

text \<open>Every step of the plugin is calls of the inventory.\<close>

definition drives :: "'r plugin_env \<Rightarrow> string \<Rightarrow> plugin \<Rightarrow> plugin \<Rightarrow> bool" where
  "drives e sid p p' \<longleftrightarrow> (\<exists>es. pg_inventory p' = map_option (fold (inv_step (en_pr e)) es) (pg_inventory p) \<and> SandboxGone sid \<notin> set es)"

lemma drives_refl [simp]: "pg_inventory p' = pg_inventory p \<Longrightarrow> drives e sid p p'"
  by (auto simp: drives_def option.map_id0 intro: exI[of _ "[]"])

lemma drives_trans: "drives e sid p q \<Longrightarrow> drives e sid q r \<Longrightarrow> drives e sid p r"
proof -
  assume "drives e sid p q" "drives e sid q r"
  then obtain as bs where "pg_inventory q = map_option (fold (inv_step (en_pr e)) as) (pg_inventory p)" "SandboxGone sid \<notin> set as"
    "pg_inventory r = map_option (fold (inv_step (en_pr e)) bs) (pg_inventory q)" "SandboxGone sid \<notin> set bs"
    by (auto simp: drives_def)
  thus ?thesis unfolding drives_def by (intro exI[of _ "as @ bs"]) (simp add: option.map_comp comp_def)
qed

lemma drives_one: "pg_inventory p' = map_option (inv_step (en_pr e) ev) (pg_inventory p) \<Longrightarrow> ev \<noteq> SandboxGone sid \<Longrightarrow> drives e sid p p'"
  unfolding drives_def by (intro exI[of _ "[ev]"]) (simp add: comp_def)

lemma drives_record:
  "drives e sid p (recordDigest e ctr d ms p)" "drives e sid p (recordForInventory e ou pod ctr ref p)"
  "drives e sid p (recordUncheckedForInventory e pod' ctr ref p)" "drives e sid p (RunPodSandbox pod' p)" "drives e sid p (RemoveContainer ctr p)"
proof -
  show r: "drives e sid p (recordDigest e ctr d ms p)" for d ms
    by (rule drives_one[where ev="rec_event e ctr d ms"]) (simp_all add: recordDigest_event, simp add: rec_event_def)
  show "drives e sid p (recordForInventory e ou pod ctr ref p)" "drives e sid p (recordUncheckedForInventory e pod' ctr ref p)"
    by (simp_all add: recordForInventory_def recordUncheckedForInventory_def Let_def r)
  show "drives e sid p (RunPodSandbox pod' p)"
    by (cases "pg_inventory p"; rule drives_one[where ev="SandboxUp (pd_Id pod')"]; simp add: RunPodSandbox_def)
  show "drives e sid p (RemoveContainer ctr p)"
    by (cases "pg_inventory p"; rule drives_one[where ev="Stopped (ct_Id ctr)"]; simp add: RemoveContainer_def)
qed

lemma drives_pods: "drives e sid p (fold RunPodSandbox pods p)"
proof (induction pods arbitrary: p)
  case (Cons pod pods)
  thus ?case using drives_trans[OF drives_record(4)] by (metis fold_simps(2))
qed simp

lemma drives_existing: "existing_loop e ou pods ctrs (p, stops) = Some (p', stops') \<Longrightarrow> drives e sid p p'"
proof (induction ctrs arbitrary: p stops)
  case (Cons ctr ctrs)
  let ?p1 = "recordForInventory e ou (pod_by_id pods (ct_PodSandboxId ctr)) ctr (image_of ctr) p"
  obtain stops1 where "existing_loop e ou pods ctrs (?p1, stops1) = Some (p', stops')"
    using Cons.prems unfolding existing_loop_Cons Let_def by (auto split: if_splits)
  from drives_trans[OF drives_record(2) Cons.IH[OF this]] show ?case .
qed simp

lemma drives_Synchronize:
  assumes "Synchronize e ou pods ctrs p = Some (p', stops)"
  shows "drives e sid p p'"
proof -
  obtain restart p2 p4 where b: "boot_check e ou ctrs (fold RunPodSandbox pods p) = Some (restart, p2)"
    "p4 = initExempt e ou pods ctrs (if restart then p2\<lparr>pg_bootRestart := True\<rparr> else p2)"
    "p' = p4 \<and> stops = [] \<or> p' = p4\<lparr>pg_deferredPods := pods, pg_deferredCtrs := ctrs\<rparr> \<and> stops = [] \<and> \<not> pg_ready p4 \<or>
     existing_loop e ou pods ctrs (p4, []) = Some (p', stops)"
    using assms by (rule Synchronize_cases)
  have "drives e sid (fold RunPodSandbox pods p) p4" using boot_check_frame[OF b(1)] b(2) by (auto simp: initExempt_frame)
  moreover have "drives e sid p4 p'" using b(3) drives_existing by auto
  ultimately show ?thesis using drives_pods drives_trans by metis
qed

lemma drives_step:
  assumes "plugin_step e p l p'" and "l \<notin> {LRestart, LReboot}" and "\<And>pod. l = LRemovePod pod \<Longrightarrow> pd_Id pod \<noteq> sid \<or> sid = []"
  shows "drives e sid p p'"
  using assms(1)
proof cases
  case (sync ou pods ctrs stops)
  thus ?thesis using drives_Synchronize by blast
next
  case (deferred ou stops)
  let ?p1 = "p\<lparr>pg_deferredPods := [], pg_deferredCtrs := []\<rparr>"
  have "drives e sid p ?p1" by simp
  moreover from Deferred_cases[OF deferred(2)] have "drives e sid p p' \<or> drives e sid ?p1 p'" using drives_existing drives_refl by force
  ultimately show ?thesis using drives_trans by blast
next
  case (start ou pod ctr res)
  hence "p' \<in> {p, recordUncheckedForInventory e pod ctr (image_of ctr) p, recordForInventory e ou (Some pod) ctr (image_of ctr) p}"
    by (auto simp: StartContainer_def split: if_splits sum.splits prod.splits)
  thus ?thesis using drives_record(2,3) drives_refl by auto
next
  case (remove_pod pod)
  show ?thesis
  proof (cases "pd_Id pod = []")
    case True
    thus ?thesis using remove_pod by (intro drives_refl) (cases "pg_inventory p"; simp add: RemovePodSandbox_def removeSandbox_def)
  next
    case False
    thus ?thesis using remove_pod assms(3)[of pod]
      by (cases "pg_inventory p"; intro drives_one[where ev="SandboxGone (pd_Id pod)"]; auto simp: RemovePodSandbox_def)
  qed
qed (use assms(2) drives_record in \<open>simp_all add: SetReady_def plugin_apply_def\<close>)

lemma drives_run:
  assumes "plugin_run e p ls p'" and "no_restart ls" and "\<And>pod. LRemovePod pod \<in> set ls \<Longrightarrow> pd_Id pod \<noteq> sid \<or> sid = []"
  shows "drives e sid p p'"
proof (rule run_invariant[OF assms(1), where I="drives e sid p"])
  show "drives e sid p q'" if "plugin_step e q l q'" "l \<in> set ls" "drives e sid p q" for q l q'
    using drives_trans[OF that(3) drives_step[OF that(1)]] that(2) assms(2,3) by blast
qed simp

text \<open>The inventory of a reachable plugin is the result of a run of the inventory.\<close>

definition inv_reached :: "'r plugin_env \<Rightarrow> plugin \<Rightarrow> bool" where
  "inv_reached e p \<longleftrightarrow> (\<forall>b. pg_inventory p = Some b \<longrightarrow> (\<exists>es. b = inv_run (en_pr e) es))"

lemma drives_reached: "inv_reached e p \<Longrightarrow> drives e sid p p' \<Longrightarrow> inv_reached e p'"
proof (unfold inv_reached_def, intro allI impI)
  fix b'
  assume r: "\<forall>b. pg_inventory p = Some b \<longrightarrow> (\<exists>es. b = inv_run (en_pr e) es)" "drives e sid p p'" "pg_inventory p' = Some b'"
  then obtain b es where "pg_inventory p = Some b" "b' = fold (inv_step (en_pr e)) es b"
    by (cases "pg_inventory p") (auto simp: drives_def)
  moreover then obtain es0 where "b = inv_run (en_pr e) es0" using r(1) by blast
  ultimately have "b' = inv_run (en_pr e) (es0 @ es)" by simp
  thus "\<exists>es. b' = inv_run (en_pr e) es" ..
qed

lemma run_reached:
  assumes "plugin_run e (newPlugin e file marker) ls p"
  shows "inv_reached e p"
  using assms
proof (rule run_invariant)
  have new: "inv_reached e (newPlugin e f m)" for f m
    by (auto simp: inv_reached_def newPlugin_def intro: exI[of _ "[]"])
  thus "inv_reached e (newPlugin e file marker)" .
  show "inv_reached e q'" if "plugin_step e q l q'" "inv_reached e q" for q l q'
  proof (cases "l \<in> {LRestart, LReboot}")
    case True
    thus ?thesis using that(1) new by (auto elim: plugin_step.cases)
  next
    case False
    thus ?thesis using drives_reached[OF that(2)] drives_step[OF that(1), where sid="[]"] by simp
  qed
qed

lemma log_kept: "SandboxGone sid \<notin> set es \<Longrightarrow> x \<in> set (iv_log a sid) \<Longrightarrow> x \<in> set (iv_log (fold spec_step es a) sid)"
proof (induction es arbitrary: a)
  case (Cons ev es)
  have "x \<in> set (iv_log (spec_step ev a) sid)" using Cons.prems by (cases ev) auto
  thus ?case using Cons by simp
qed simp

lemma serve_logged:
  assumes "x \<in> set (iv_log (spec_run es) sid)" and "ev_digest x \<noteq> []" and "sid \<in> iv_up (spec_run es)"
  shows "serve_digests pr (inv_run pr es) sid = Inl 500 \<or>
    (\<exists>resp c. serve_digests pr (inv_run pr es) sid = Inr resp \<and> c \<in> set (sd_Containers resp) \<and> evidence c = evidence (event_admission x))"
proof -
  have R: "history_at (inv_run pr es) sid = history_of pr (iv_log (spec_run es) sid)"
    "map_of (ai_sandboxes (inv_run pr es)) sid \<noteq> None"
    using inv_run_rel[of pr es] assms(3) unfolding inv_rel_def by blast+
  note complete = Snapshot_complete[where pr=pr and es="iv_log (spec_run es) sid"]
  show ?thesis
  proof (cases "Snapshot pr (history_of pr (iv_log (spec_run es) sid))")
    case (Inr r)
    obtain ds cs where r: "r = (ds, cs)" by (cases r)
    have "evidence (event_admission x) \<in> evidence ` event_admission ` {e \<in> set (iv_log (spec_run es) sid). ev_digest e \<noteq> []}"
      using assms(1,2) by blast
    hence "evidence (event_admission x) \<in> evidence ` set cs" using complete Inr r by simp
    then obtain c where "c \<in> set cs" "evidence c = evidence (event_admission x)" by (metis imageE)
    thus ?thesis using R Inr r by (auto simp: serve_digests_def DigestsForSandbox_def)
  qed (use R in \<open>simp add: serve_digests_def DigestsForSandbox_def\<close>)
qed

lemma up_kept: "SandboxGone sid \<notin> set es \<Longrightarrow> sid \<in> iv_up a \<Longrightarrow> sid \<in> iv_up (fold spec_step es a)"
proof (induction es arbitrary: a)
  case (Cons ev es)
  have "sid \<in> iv_up (spec_step ev a)" using Cons.prems by (cases ev) auto
  thus ?case using Cons by simp
qed simp

text \<open>The digest that a start files: before the plugin is ready, only one that the image reference itself carries.\<close>

definition filed_digest :: "plugin \<Rightarrow> outside \<Rightarrow> nri_Container \<Rightarrow> string" where
  "filed_digest p ou ctr =
     (let d = extractDigest (image_of ctr) in
      if d = [] \<and> pg_ready p \<and> image_of ctr \<noteq> [] then (case ou_resolve ou (image_of ctr) of Some r \<Rightarrow> extractDigest r | None \<Rightarrow> []) else d)"

lemma start_files:
  assumes "StartContainer e ou pod ctr p = (Inr (), p1)"
  shows "pg_inventory p1 = map_option (inv_step (en_pr e) (rec_event e ctr (filed_digest p ou ctr) (Some (mounts_Observe (en_H e) (en_storage e) pod ctr))))
    (pg_inventory p)"
  using assms
  by (auto simp: StartContainer_def recordForInventory_def recordUncheckedForInventory_def recordDigest_event filed_digest_def observedMounts_def Let_def
      split: if_splits sum.splits prod.splits)

lemma reported_after_start:
  assumes "plugin_run e (newPlugin e file marker) ls0 p" and "StartContainer e ou pod ctr p = (Inr (), p1)" and "plugin_run e p1 ls p2"
    and "no_restart ls" and "\<And>pod'. LRemovePod pod' \<in> set ls \<Longrightarrow> pd_Id pod' \<noteq> ct_PodSandboxId ctr"
    and "ct_Id ctr \<noteq> []" and "ct_PodSandboxId ctr \<noteq> []" and "filed_digest p ou ctr \<noteq> []" and "pg_inventory p2 = Some b"
  shows "serve_digests (en_pr e) b (ct_PodSandboxId ctr) = Inl 500 \<or>
    (\<exists>resp c. serve_digests (en_pr e) b (ct_PodSandboxId ctr) = Inr resp \<and> c \<in> set (sd_Containers resp) \<and>
       evidence c = evidence (admitted_container (filed_digest p ou ctr) (Some (ct_Args ctr)) (containerEnv (en_H e) ctr)
         (Some (mounts_Observe (en_H e) (en_storage e) pod ctr))))"
proof -
  let ?sid = "ct_PodSandboxId ctr" let ?ev = "rec_event e ctr (filed_digest p ou ctr) (Some (mounts_Observe (en_H e) (en_storage e) pod ctr))"
  have "drives e ?sid p1 p2" by (rule drives_run[OF assms(3,4)]) (use assms(5) in blast)
  then obtain es where es: "pg_inventory p2 = map_option (fold (inv_step (en_pr e)) es) (pg_inventory p1)" "SandboxGone ?sid \<notin> set es"
    by (auto simp: drives_def)
  then obtain b0 where b0: "pg_inventory p = Some b0" "b = fold (inv_step (en_pr e)) es (inv_step (en_pr e) ?ev b0)"
    using assms(9) start_files[OF assms(2)] by (cases "pg_inventory p") auto
  then obtain es0 where "b0 = inv_run (en_pr e) es0" using run_reached[OF assms(1)] by (auto simp: inv_reached_def)
  hence b: "b = inv_run (en_pr e) (es0 @ ?ev # es)" using b0(2) by simp
  let ?x = "\<lparr>ev_id = ct_Id ctr, ev_digest = filed_digest p ou ctr, ev_argv = Some (ct_Args ctr), ev_env = containerEnv (en_H e) ctr,
      ev_mounts = Some (mounts_Observe (en_H e) (en_storage e) pod ctr)\<rparr>"
  have "?x \<in> set (iv_log (spec_step ?ev (spec_run es0)) ?sid)" "?sid \<in> iv_up (spec_step ?ev (spec_run es0))"
    using assms(6,7) by (simp_all add: rec_event_def)
  hence "?x \<in> set (iv_log (spec_run (es0 @ ?ev # es)) ?sid)" "?sid \<in> iv_up (spec_run (es0 @ ?ev # es))"
    using log_kept[OF es(2)] up_kept[OF es(2)] by simp_all
  from serve_logged[OF this(1) _ this(2), of "en_pr e"] assms(8) show ?thesis unfolding b by (simp add: event_admission_def)
qed

text \<open>\<^bold>\<open>What was let start is reported for as long as its sandbox lives.\<close> After a container was let start with a digest, and whatever the plugin does
  afterwards short of a restart or the removal of that sandbox (further starts, removal of the container itself, synchronisations, policy changes), its
  inventory either refuses to answer for the sandbox or reports a container with the very digest, arguments, environment and mounts that were admitted.\<close>

theorem started_reported:
  assumes "plugin_run e (newPlugin e file marker) ls0 p" and "StartContainer e ou pod ctr p = (Inr (), p1)" and "plugin_run e p1 ls p2"
    and "no_restart ls" and "\<And>pod'. LRemovePod pod' \<in> set ls \<Longrightarrow> pd_Id pod' \<noteq> ct_PodSandboxId ctr"
    and "ct_Id ctr \<noteq> []" and "ct_PodSandboxId ctr \<noteq> []" and "filed_digest p ou ctr \<noteq> []" and "pg_inventory p2 = Some b"
  shows "serve_digests (en_pr e) b (ct_PodSandboxId ctr) = Inl 500 \<or>
    (\<exists>resp c. serve_digests (en_pr e) b (ct_PodSandboxId ctr) = Inr resp \<and> c \<in> set (sd_Containers resp) \<and>
       evidence c = evidence (admitted_container (filed_digest p ou ctr) (Some (ct_Args ctr)) (containerEnv (en_H e) ctr)
         (Some (mounts_Observe (en_H e) (en_storage e) pod ctr))))"
  by (rule reported_after_start[OF assms])

end
