(* ===== verification/Nri_Sample.thy ===== *)
theory Nri_Sample
  imports Nri_Node
begin

text \<open>
  A sample node: a plugin with a measured base of one image, an enforced sandbox rule, the boot gate and one exempt namespace. The theorems about the plugin
  are applied to it.
\<close>

definition node_image :: string where
  "node_image = ''sha256:'' @ replicate 64 (CHR ''0'')"

definition node_base :: Allowlist where
  "node_base = \<lparr>al_Schema = Schema, al_Workloads = Some [(''web'', DigestEntry (Digest node_image) ''img'')]\<rparr>"

definition node_cfg :: "unit nri_config" where
  "node_cfg = (default_config :: unit nri_config)\<lparr>nc_Base := Some node_base, nc_SocketDir := ''/run/s'', nc_Pull := (nc_Pull (default_config :: unit nri_config))\<lparr>pu_URL := ''https://cds''\<rparr>,
     nc_Policy := (nc_Policy (default_config :: unit nri_config))\<lparr>po_Mode := ModeFailClosed, po_Sandbox := SandboxEnforce, po_FatalExisting := True,
       po_BootMarkerPath := ''/run/m'', po_EnforceExisting := True, po_ExemptNamespaces := [''kube'']\<rparr>\<rparr>"

definition node_env :: "unit plugin_env" where
  "node_env = \<lparr>en_H = (\<lambda>s. s), en_x = sample_external, en_cfg = node_cfg, en_pr = (\<lambda>_. True), en_storage = (\<lambda>_. [])\<rparr>"

definition node_out :: outside where
  "node_out = \<lparr>ou_resolve = (\<lambda>_. None), ou_stopped = (\<lambda>_. True), ou_stat_fails = False, ou_claim_fails = False, ou_persist_fails = False\<rparr>"

definition node_pod :: "string \<Rightarrow> PodSandbox" where
  "node_pod ns = \<lparr>pd_Id = ''sbx'', pd_Uid = ''uid'', pd_Name = ''p'', pd_Namespace = ns, pd_Labels = [], pd_Annotations = [],
     pd_Namespaces = [''ipc'', ''network'', ''pid'', ''uts'']\<rparr>"

definition node_ctr :: nri_Container where
  "node_ctr = \<lparr>ct_Id = ''c'', ct_PodSandboxId = ''sbx'', ct_Name = ''web'', ct_Annotations = [(annotationImageName, node_image)], ct_Args = [''run''],
     ct_Env = [], ct_Mounts = [], ct_Hooks = \<lparr>hk_Prestart = [], hk_CreateRuntime = [], hk_CreateContainer = [], hk_StartContainer = [],
       hk_Poststart = [], hk_Poststop = []\<rparr>, ct_CDIDevices = [], ct_Namespaces = [''cgroup''], ct_Devices = [], ct_Sysctl = [], ct_NetDevices = [],
     ct_Seccomp = None\<rparr>"

abbreviation node_p0 :: plugin where
  "node_p0 \<equiv> newPlugin node_env NoFile False"

lemma node_fields [simp]:
  "en_cfg node_env = node_cfg" "nc_Base node_cfg = Some node_base" "nc_SocketDir node_cfg = ''/run/s''" "PullEnabled node_cfg"
  "po_Mode (nc_Policy node_cfg) = ModeFailClosed" "po_Sandbox (nc_Policy node_cfg) = SandboxEnforce" "po_FatalExisting (nc_Policy node_cfg)"
  "po_EnforceExisting (nc_Policy node_cfg)" "po_ExemptNamespaces (nc_Policy node_cfg) = [''kube'']" "po_BootMarkerPath (nc_Policy node_cfg) = ''/run/m''"
  "po_LabelRules (nc_Policy node_cfg) = []" "ModeFailClosed \<noteq> ModeAudit" "sandboxMode node_cfg = SandboxEnforce" "image_of node_ctr = node_image"
  "node_image \<noteq> []"
  by (simp_all add: node_env_def node_cfg_def default_config_def PullEnabled_def sandboxMode_def SandboxEnforce_def
      image_of_def node_ctr_def map_get_def node_image_def)

lemma node_digest [simp]: "extractDigest node_image = node_image" "ParseDigest node_image = Inr (Digest node_image)"
  "digest_string (Digest node_image) = node_image"
  by code_simp+

lemma node_pod_fields [simp]: "pd_Namespace (node_pod ns) = ns" "pd_Id (node_pod ns) = ''sbx''" "pd_Labels (node_pod ns) = []"
  "ct_PodSandboxId node_ctr = ''sbx''" "ct_Id node_ctr = ''c''" "ct_Args node_ctr = [''run'']" "resolveDigest r node_image = node_image"
  by (simp_all add: node_pod_def node_ctr_def resolveDigest_def)

lemma node_store: "pg_store node_p0 = newPolicyStore (Some node_base)"
  by (simp add: newPlugin_def)

lemma node_unconfined: "violations (observeSandbox (node_pod ns) node_ctr ''/run/s'') = []"
  by (simp add: violations_empty observeSandbox_def node_pod_def node_ctr_def sandboxNamespaces_def hostBinds_def writableKernelFS_def
      hookStages_def)

lemma node_admits: "AdmitsContainer H (BuildIndex node_base) (launch_of H st r (node_pod ns) node_ctr)"
proof -
  have "\<exists>c\<in>set (all_containers node_base). container_admits H c ((launch_of H st r (node_pod ns) node_ctr)\<lparr>rc_Digest := node_image\<rparr>)"
    by (simp add: node_base_def DigestEntry_def all_containers_def w_containers_def launch_of_def IsUnconstrained_admits container_IsUnconstrained_def
        constraints_def)
  thus ?thesis by (simp add: AdmitsContainer_BuildIndex launch_of_def)
qed

lemma node_starts: "okE (fst (StartContainer node_env node_out (node_pod ns) node_ctr node_p0))"
  by (subst StartContainer_iff)
    (simp_all add: node_store newPolicyStore_def BuildIndex_def image_rule_def sandbox_rule_def node_unconfined node_admits[unfolded BuildIndex_def])

lemma node_started: "\<exists>p1. StartContainer node_env node_out (node_pod ns) node_ctr node_p0 = (Inr (), p1)"
  using node_starts[of ns] by (cases "StartContainer node_env node_out (node_pod ns) node_ctr node_p0"; cases "fst (StartContainer node_env node_out (node_pod ns) node_ctr node_p0)") auto

theorem start_decided_witness:
  "\<exists>doc v. pg_store node_p0 = \<lparr>ps_base = BuildIndex node_base, ps_index = BuildIndex doc, ps_version = v\<rparr> \<and>
     okE (fst (StartContainer node_env node_out (node_pod ''default'') node_ctr node_p0))"
  using start_decided[OF plugin_run.nil, of node_env NoFile False] node_starts[of "''default''"] by (simp add: base_doc_def) blast

theorem started_confined_witness:
  "confined (node_pod ''default'') node_ctr ''/run/s''"
proof -
  obtain p1 where "StartContainer node_env node_out (node_pod ''default'') node_ctr node_p0 = (Inr (), p1)" using node_started by blast
  from started_confined[OF plugin_run.nil this] have "confined (node_pod ''default'') node_ctr ''/run/s'' \<or> nc_NodeTCB node_cfg"
    by simp blast
  moreover have "\<not> nc_NodeTCB node_cfg" by (simp add: node_cfg_def default_config_def)
  ultimately show ?thesis by blast
qed

theorem create_lenient_witness:
  "CreateContainer node_env node_out (node_pod ''default'') node_ctr node_p0 = Inr None"
  using create_lenient[OF node_starts[of "''default''"]] by (simp add: socketDirAdjustment_def map_get_def node_pod_def AnnotationInjected_def)

theorem existing_exact_witness:
  "\<exists>p'. checkExisting node_env node_out [node_pod ''default''] [node_ctr] node_p0 =
     Some (p', map ct_Id (filter (stops_container node_env node_out [node_pod ''default''] node_p0) [node_ctr]))"
  using existing_exact[OF plugin_run.nil] .

lemma node_sync: "\<exists>p1. Synchronize node_env node_out [] [] node_p0 = Some (p1, []) \<and> pg_marker p1 \<and> pg_inventory p1 \<noteq> None \<and> \<not> pg_ready p1 \<and>
    pg_file p1 = NoFile \<and> pg_exempt p1 = None"
  by (simp add: Synchronize_def boot_check_def firstBoot_def newPlugin_def node_out_def initExempt_def loadExemptSnapshot_def captureExempt_def
      newExemptSnapshot_def exempt_empty_def shouldCheckExisting_def)

lemma sync_again:
  assumes "pg_marker p" and "\<not> pg_ready p" and "pg_file p = NoFile" and "pg_exempt p = None"
  shows "\<exists>p1. Synchronize node_env node_out [node_pod ''kube''] [node_ctr] p = Some (p1, []) \<and> pg_file p1 \<noteq> NoFile"
proof -
  have cap: "\<not> exempt_empty (captureExempt node_env node_out [node_pod ''kube''] [node_ctr])"
    by (simp add: captureExempt_def pod_by_id_def exempt_empty_def exempt_add_def newExemptSnapshot_def list_at_def)
  show ?thesis using assms cap
    by (simp add: Synchronize_def boot_check_def firstBoot_def node_out_def[THEN arg_cong[where f=ou_stat_fails]] initExempt_def
        loadExemptSnapshot_def shouldCheckExisting_def RunPodSandbox_def exempt_persist_def node_out_def Let_def)
qed

theorem boot_gate_witness:
  "\<exists>ou' pods'. LSync ou' pods' [] \<in> set [LSync node_out [] []]"
proof -
  obtain p1 where p1: "Synchronize node_env node_out [] [] node_p0 = Some (p1, [])" "pg_marker p1" "\<not> pg_ready p1" "pg_file p1 = NoFile" "pg_exempt p1 = None"
    using node_sync by blast
  obtain p2 where p2: "Synchronize node_env node_out [node_pod ''kube''] [node_ctr] p1 = Some (p2, [])" using sync_again[OF p1(2-5)] by blast
  have "plugin_run node_env node_p0 ([LSync node_out [] []] @ LSync node_out [node_pod ''kube''] [node_ctr] # []) p2"
    using p1(1) p2 by (auto intro!: plugin_run.intros plugin_step.sync)
  from boot_gate[OF this] show ?thesis by simp
qed

theorem exempt_frozen_witness:
  "\<exists>p1 p2. Synchronize node_env node_out [] [] node_p0 = Some (p1, []) \<and> Synchronize node_env node_out [node_pod ''kube''] [node_ctr] p1 = Some (p2, []) \<and>
     (pg_exempt p2 = None \<or> (\<forall>n x. exempt_admits (pg_exempt p2) n x \<longleftrightarrow> ran_exempt node_env node_out [node_pod ''kube''] [node_ctr] n x))"
proof -
  obtain p1 where p1: "Synchronize node_env node_out [] [] node_p0 = Some (p1, [])" "pg_marker p1" "\<not> pg_ready p1" "pg_file p1 = NoFile" "pg_exempt p1 = None"
    using node_sync by blast
  obtain p2 where p2: "Synchronize node_env node_out [node_pod ''kube''] [node_ctr] p1 = Some (p2, [])" "pg_file p2 \<noteq> NoFile"
    using sync_again[OF p1(2-5)] by blast
  from exempt_frozen[OF p2(1) p1(4,5) p2(2) plugin_run.nil] show ?thesis using p1(1) p2(1) by blast
qed

theorem policy_no_rollback_witness:
  "in_force node_p0 \<le> in_force (plugin_apply node_base 5 node_p0) \<and> 5 \<le> in_force (plugin_apply node_base 5 node_p0) \<and>
   plugin_apply empty_doc 4 (plugin_apply node_base 5 node_p0) = plugin_apply node_base 5 node_p0"
proof -
  have "plugin_run node_env node_p0 [LPull node_base 5] (plugin_apply node_base 5 node_p0)"
    by (rule plugin_run.step[OF plugin_step.pull plugin_run.nil]) simp
  from policy_no_rollback[OF this] have "in_force node_p0 \<le> in_force (plugin_apply node_base 5 node_p0)" "5 \<le> in_force (plugin_apply node_base 5 node_p0)"
    "\<forall>doc v. v < in_force (plugin_apply node_base 5 node_p0) \<longrightarrow> plugin_apply doc v (plugin_apply node_base 5 node_p0) = plugin_apply node_base 5 node_p0"
    by auto
  moreover have "in_force (plugin_apply node_base 5 node_p0) = 5" by (simp add: plugin_apply_def store_apply_def newPlugin_def newPolicyStore_def)
  ultimately show ?thesis by simp
qed

theorem started_reported_witness:
  "\<exists>p1 b. StartContainer node_env node_out (node_pod ''default'') node_ctr node_p0 = (Inr (), p1) \<and> pg_inventory p1 = Some b \<and>
    (serve_digests (\<lambda>_. True) b ''sbx'' = Inl 500 \<or> (\<exists>resp c. serve_digests (\<lambda>_. True) b ''sbx'' = Inr resp \<and> c \<in> set (sd_Containers resp)))"
proof -
  obtain p1 where p1: "StartContainer node_env node_out (node_pod ''default'') node_ctr node_p0 = (Inr (), p1)" using node_started by blast
  obtain b where b: "pg_inventory p1 = Some b" using start_files[OF p1] by (simp add: newPlugin_def)
  from started_reported[OF plugin_run.nil p1 plugin_run.nil _ _ _ _ _ b] show ?thesis using p1 b
    by (simp add: filed_digest_def) (auto simp: node_env_def)
qed

end
