(* ===== verification/Node_Evidence.thy ===== *)
theory Node_Evidence
  imports Secret_Release Nri_Sample
begin

text \<open>
  The evidence chain from a node to a release: what a policy says of a container depends only on the evidence the inventory reports of it, so what is matched at
  a release is what was let start on the node.
\<close>

lemma case_option_ex: "(case r of None \<Rightarrow> False | Some x \<Rightarrow> P x) \<longleftrightarrow> (\<exists>x. r = Some x \<and> P x)"
  by (cases r) auto

lemma admitsMount_evidence: "admitsMount H p (mount_evidence m) = admitsMount H p m"
proof -
  have "rule_admits H b (mount_evidence m) = rule_admits H b m" for b
    by (cases b) (simp_all add: emptyDir_admits_def host_admits_def mount_evidence_def split: sum.split)
  thus ?thesis by (simp add: admitsMount_def mount_evidence_def split: option.split)
qed

text \<open>A mount policy looks at the foreign mounts as a multiset, without their local sources.\<close>

lemma mount_policy_mset:
  assumes "mset (map mount_evidence ms) = mset (map mount_evidence ms')"
  shows "mount_policy_admits H p (Some ms) = mount_policy_admits H p (Some ms')"
proof -
  let ?F = "\<lambda>ms. image_mset mount_evidence (mset (foreign_mounts ms))"
  have cls: "om_Class (mount_evidence m) = om_Class m" "om_Destination (mount_evidence m) = om_Destination m" for m
    by (simp_all add: mount_evidence_def)
  have F: "?F ms = filter_mset (\<lambda>m. om_Class m \<noteq> MountPlatform) (mset (map mount_evidence ms))" for ms
    by (induction ms) (simp_all add: cls)
  hence eq: "?F ms = ?F ms'" using assms by simp
  have dest: "mset (map om_Destination (foreign_mounts ms)) = image_mset om_Destination (?F ms)" for ms
    by (simp add: image_mset.compositionality comp_def cls)
  have all: "list_all (admitsMount H p) (foreign_mounts ms) \<longleftrightarrow> (\<forall>m\<in>#?F ms. admitsMount H p m)" for ms
    by (auto simp: list_all_iff admitsMount_evidence)
  have "mset (map om_Destination (foreign_mounts ms)) = mset (map om_Destination (foreign_mounts ms'))" using dest eq by metis
  hence "distinct (map om_Destination (foreign_mounts ms)) = distinct (map om_Destination (foreign_mounts ms'))"
    "length (foreign_mounts ms) = length (foreign_mounts ms')"
    using mset_eq_imp_distinct_iff mset_eq_length by (blast, fastforce)
  moreover have "list_all (admitsMount H p) (foreign_mounts ms) = list_all (admitsMount H p) (foreign_mounts ms')" unfolding all eq ..
  moreover have "foreign_mounts ms = [] \<longleftrightarrow> foreign_mounts ms' = []" using calculation(2) by auto
  moreover have ex: "list_ex (\<lambda>m. om_Class m \<noteq> MountPlatform) ms \<longleftrightarrow> foreign_mounts ms \<noteq> []" for ms
    by (auto simp: foreign_mounts_def list_ex_iff filter_empty_conv)
  moreover have "(case mounts_loop H p [] ms of None \<Rightarrow> False | Some seen \<Rightarrow> length seen = length (mp_Rules p)) \<longleftrightarrow>
      list_all (admitsMount H p) (foreign_mounts ms) \<and> distinct (map om_Destination (foreign_mounts ms)) \<and> length (foreign_mounts ms) = length (mp_Rules p)" for ms
    by (auto simp: case_option_ex mounts_loop_Some_iff)
  ultimately show ?thesis by (simp add: mount_policy_admits_def)
qed

lemma policy_evidence:
  assumes "evidence c = evidence (admitted_container d (Some argv) env (Some ms))"
  shows "container_admits H k (to_running c) = container_admits H k \<lparr>rc_Digest = d, rc_Argv = argv, rc_Mounts = Some ms, rc_Env = env\<rparr>"
    and "isInjected al c = isInjected al (admitted_container d (Some argv) env (Some ms))"
proof -
  obtain ms' where c: "sc_Env c = env" "sc_Digest c = d" "elems (sc_Argv c) = argv" "sc_Mounts c = Some ms'"
      "map mount_evidence ms' = map mount_evidence (sort_key mount_order ms)"
    using assms by (cases c) (auto simp: evidence_def admitted_container_def)
  have "mset (map mount_evidence ms') = mset (map mount_evidence ms)" unfolding c(5) by simp
  from mount_policy_mset[OF this]
  show "container_admits H k (to_running c) = container_admits H k \<lparr>rc_Digest = d, rc_Argv = argv, rc_Mounts = Some ms, rc_Env = env\<rparr>"
    by (simp add: container_admits_iff to_running_def c process_admits_def)
  show "isInjected al c = isInjected al (admitted_container d (Some argv) env (Some ms))"
    using c by (simp add: isInjected_def admitted_container_def)
qed

text \<open>An entitled sandbox: every reported container is injected or admitted by the entry.\<close>

lemma entitled_covers:
  assumes "entitled x h al sid host name w" and "sh_Inventory h = Some inventory" and "is_FetchSandbox inventory host sid = Some resp"
    and "c \<in> set (sd_Containers resp)" and "\<not> isInjected al c"
  shows "\<exists>k\<in>set (w_containers w). container_admits (x_H x) k (to_running c)"
proof -
  have "MatchWorkload (x_H x) al (WorkloadContainers al (sd_Containers resp)) = Inr (name, w)" using assms(1-3) by (auto simp: entitled_def)
  hence "matching (x_H x) al (WorkloadContainers al (sd_Containers resp)) = [(name, w)]" by (simp add: MatchWorkload_Inr_iff)
  hence "describes (x_H x) w (WorkloadContainers al (sd_Containers resp))"
    using filter_eq_ConsD[of _ "elems (al_Workloads al)" "(name, w)" "[]"] by (auto simp: matching_def)
  moreover have "to_running c \<in> set (WorkloadContainers al (sd_Containers resp))" using assms(4,5) by (simp add: WorkloadContainers_def)
  ultimately show ?thesis
    by (auto simp: describes_def Describes_def w_Diff_def Let_def filter_empty_conv admittedBy_def list_ex_iff w_containers_def)
qed

text \<open>What a sandbox is entitled by: the report of the node it runs on, as the client read it.\<close>

lemma entitled_reads:
  assumes "entitled x h al sid host name w" and "sh_Inventory h = Some inventory" and "is_FetchSandbox inventory = FetchSandbox get"
    and "get host sid = Some served"
  obtains resp report where "served = Inr resp" "is_FetchSandbox inventory host sid = Some report" "sd_Containers report = map reported_read (sd_Containers resp)"
  using assms by (auto simp: entitled_def FetchSandbox_def split: sum.splits if_splits)

section \<open>A sample release from the sample node\<close>

text \<open>The container mounts an empty directory of its pod.\<close>

definition data_ctr :: nri_Container where
  "data_ctr = node_ctr\<lparr>ct_Mounts := [\<lparr>mt_Destination = ''/cache'', mt_Type = ''bind'',
     mt_Source = ''/var/lib/kubelet/pods/uid/volumes/kubernetes.io~empty-dir/cache'', mt_Options = [''rbind'']\<rparr>]\<rparr>"

abbreviation data_mounts :: "ObservedMount list" where
  "data_mounts \<equiv> mounts_Observe (\<lambda>s. s) (\<lambda>_. []) (node_pod ''default'') data_ctr"

lemma data_mounts_is: "data_mounts = [\<lparr>om_Destination = ''/cache'', om_Source = ''/var/lib/kubelet/pods/uid/volumes/kubernetes.io~empty-dir/cache'',
    om_Class = MountEmptyDir, om_Storage = [], om_HostSourceDigest = [], om_ReadOnly = False\<rparr>]"
  by code_simp

lemma data_fields [simp]: "ct_Id data_ctr = ''c''" "ct_PodSandboxId data_ctr = ''sbx''" "ct_Args data_ctr = [''run'']" "image_of data_ctr = node_image"
  by (simp_all add: data_ctr_def image_of_def) (simp add: node_ctr_def map_get_def)

lemma data_env [simp]: "containerEnv H data_ctr = containerEnv H node_ctr"
proof -
  have "cdiInjected data_ctr = cdiInjected node_ctr" "ct_Env data_ctr = ct_Env node_ctr" by (simp_all add: data_ctr_def cdiInjected_def)
  hence "observeEnv H data_ctr = observeEnv H node_ctr" unfolding observeEnv_def by (simp only:)
  thus ?thesis by (simp add: containerEnv_def)
qed

lemma data_started: "\<exists>p1. StartContainer node_env node_out (node_pod ''default'') data_ctr node_p0 = (Inr (), p1)"
proof -
  have "violations (observeSandbox (node_pod ''default'') data_ctr ''/run/s'') = []" by code_simp
  moreover have "AdmitsContainer H (BuildIndex node_base) (launch_of H st r (node_pod ''default'') data_ctr)" for H st r
  proof -
    have "\<exists>c\<in>set (all_containers node_base). container_admits H c ((launch_of H st r (node_pod ''default'') data_ctr)\<lparr>rc_Digest := node_image\<rparr>)"
      by (simp add: node_base_def DigestEntry_def all_containers_def w_containers_def launch_of_def IsUnconstrained_admits container_IsUnconstrained_def
          constraints_def)
    thus ?thesis by (simp add: AdmitsContainer_BuildIndex launch_of_def)
  qed
  ultimately have "okE (fst (StartContainer node_env node_out (node_pod ''default'') data_ctr node_p0))"
    by (subst StartContainer_iff) (simp_all add: node_store newPolicyStore_def BuildIndex_def image_rule_def sandbox_rule_def)
  thus ?thesis
    by (cases "StartContainer node_env node_out (node_pod ''default'') data_ctr node_p0"; cases "fst (StartContainer node_env node_out (node_pod ''default'') data_ctr node_p0)") auto
qed

definition node_inv :: admissionInventory where
  "node_inv = inv_step (\<lambda>_. True) (rec_event node_env data_ctr node_image (Some data_mounts)) newAdmissionInventory"

definition node_get :: "string \<Rightarrow> string \<Rightarrow> (nat + SandboxDigestsResponse) option" where
  "node_get host sid = Some (serve_digests (\<lambda>_. True) node_inv sid)"

definition node_handler :: "unit SecretHandler" where
  "node_handler = rel_handler\<lparr>sh_Inventory := Some \<lparr>is_InventoryKey = (\<lambda>_. Some ()), is_FetchSandbox = FetchSandbox node_get\<rparr>\<rparr>"

definition node_doc :: Allowlist where
  "node_doc = \<lparr>al_Schema = Schema, al_Workloads = Some [(''web'', rel_workload)]\<rparr>"

lemma node_started_inv:
  assumes "StartContainer node_env node_out (node_pod ''default'') data_ctr node_p0 = (Inr (), p1)"
  shows "pg_inventory p1 = Some node_inv"
  using start_files[OF assms] by (simp add: newPlugin_def node_inv_def filed_digest_def) (simp add: node_env_def)

abbreviation node_reported :: SandboxContainer where
  "node_reported \<equiv> admitted_container node_image (Some [''run'']) (containerEnv (\<lambda>s. s) node_ctr) (Some data_mounts)"

lemma node_serves: "serve_digests (\<lambda>_. True) node_inv ''sbx'' = Inr \<lparr>sd_Digests = [node_image], sd_Containers = [node_reported]\<rparr>"
  by (simp add: serve_digests_def DigestsForSandbox_def node_inv_def rec_event_def recordObserved_def newAdmissionInventory_def history_at_def empty_history_def
      history_Record_def Snapshot_def Let_def node_env_def admitted_container_def)

lemma node_valid: "valid_json (reported_json node_reported)"
  by code_simp

lemma node_fetch: "FetchSandbox node_get host ''sbx'' = Some \<lparr>sd_Digests = [json_read node_image], sd_Containers = [reported_read node_reported]\<rparr>"
proof -
  have "ValidateSandboxID ''sbx''" by code_simp
  moreover have "int (length (encode (digests_json \<lparr>sd_Digests = [node_image], sd_Containers = [node_reported]\<rparr>))) \<le> maxResponseBytes" by code_simp
  ultimately show ?thesis by (simp add: FetchSandbox_def node_get_def node_serves)
qed

lemma node_entitled: "entitled rel_external node_handler node_doc ''sbx'' host ''web'' rel_workload"
proof -
  let ?c = "reported_read node_reported"
  have ev: "evidence ?c = evidence node_reported" by (rule evidence_reported_read[OF node_valid])
  have "\<not> isInjected node_doc ?c" unfolding policy_evidence(2)[OF ev] by (simp add: isInjected_def admitted_container_def InjectedEntrypoints_def)
  moreover have "container_admits (\<lambda>s. s) (hd (elems (w_Containers rel_workload))) (to_running ?c)" unfolding policy_evidence(1)[OF ev]
    by (simp add: rel_workload_def container_admits_iff process_admits_def rel_digest_def node_image_def algo_def
        matchCommand_def matchArgs_def mount_policy_admits_def admitsObservation_def)
  moreover have "sc_Digest ?c \<noteq> []" by code_simp
  ultimately show ?thesis
    by (simp add: w_containers_def argvHostIndependent_def entitled_def node_handler_def node_fetch RequireContainers_def WorkloadContainers_def node_doc_def MatchWorkload_def describes_def
        Describes_def rel_external_def w_Diff_def admittedBy_def anyRunning_def rel_workload_def ArgvPinned_def Let_def)
qed

end
