(* ===== verification/Nri_Validate.thy ===== *)
theory Nri_Validate
  imports Nri_Sample
begin

text \<open>
  The validation of a container after all plugins adjusted it (\<^verbatim>\<open>src/internal/cmds/nri-image-policy/env.go\<close>): the edits of environment,
  arguments and mounts are applied to a copy of the container, and the copy is judged by the image rule. How an edit is marked as a removal belongs to
  the runtime interface and is a parameter.
\<close>

section \<open>Adjustments\<close>

record adjustment =
  aj_Args :: "string list"
  aj_Env :: "(string \<times> string) option list"
  aj_Mounts :: "Mount option list"
  aj_CDIDevices :: "string list"

record removal_marks =
  rm_Env :: "string \<times> string \<Rightarrow> string \<times> bool"
  rm_Mount :: "Mount \<Rightarrow> string \<times> bool"

fun env_edits :: "(string \<times> string \<Rightarrow> string \<times> bool) \<Rightarrow> (string \<times> string) option list \<Rightarrow> (string \<times> string) list \<Rightarrow> (string \<times> string) list option" where
  "env_edits marked [] values = Some values"
| "env_edits marked (None # edits) values = None"
| "env_edits marked (Some edit # edits) values =
     (let (name, remove) = marked edit in
      if name = [] \<or> list_ex (\<lambda>c. c = CHR ''='' \<or> c = CHR 0x00) name then None
      else env_edits marked edits (if remove then AList.delete name values else AList.update name (snd edit) values))"

definition adjustedLaunchContainer :: "hash \<Rightarrow> removal_marks \<Rightarrow> nri_Container \<Rightarrow> adjustment \<Rightarrow> nri_Container \<times> EnvObservation option" where
  "adjustedLaunchContainer H rm ctr0 adjust =
     (let ctr = (if length (aj_Args adjust) > 0 then ctr0\<lparr>ct_Args := aj_Args adjust\<rparr> else ctr0) in
      if length (aj_CDIDevices adjust) > 0 then (ctr, None)
      else if length (aj_Env adjust) = 0 then (ctr, containerEnv H ctr)
      else (case observeEnv H ctr of
          Inl _ \<Rightarrow> (ctr, None)
        | Inr _ \<Rightarrow>
            let values = fold (\<lambda>entry m. case Cut entry ''='' of None \<Rightarrow> AList.update entry [] m | Some (name, value) \<Rightarrow> AList.update name value m) (ct_Env ctr) [] in
            (case env_edits (rm_Env rm) (aj_Env adjust) values of
               None \<Rightarrow> (ctr, None)
             | Some values' \<Rightarrow>
                 let ctr' = ctr\<lparr>ct_Env := map (\<lambda>(name, value). name @ ''='' @ value) values'\<rparr> in (ctr', containerEnv H ctr'))))"

fun mount_edits :: "(Mount \<Rightarrow> string \<times> bool) \<Rightarrow> Mount option list \<Rightarrow> Mount list \<Rightarrow> Mount list option" where
  "mount_edits marked [] ms = Some ms"
| "mount_edits marked (None # edits) ms = None"
| "mount_edits marked (Some edit # edits) ms =
     (let (destination, remove) = marked edit;
          ms' = filter (\<lambda>m. mt_Destination m \<noteq> destination) ms in
      mount_edits marked edits (if \<not> remove then ms' @ [edit] else ms'))"

definition adjustedMounts ::
  "hash \<Rightarrow> (string \<Rightarrow> string) \<Rightarrow> removal_marks \<Rightarrow> PodSandbox \<Rightarrow> nri_Container \<Rightarrow> adjustment \<Rightarrow> ObservedMount slice" where
  "adjustedMounts H storage rm pod ctr adjust =
     (if length (aj_CDIDevices adjust) > 0 then None
      else map_option (\<lambda>ms. mounts_Observe H storage pod (ctr\<lparr>ct_Mounts := ms\<rparr>)) (mount_edits (rm_Mount rm) (aj_Mounts adjust) (ct_Mounts ctr)))"

text \<open>The error is the reason of a denial, or \<^const>\<open>None\<close> if container or sandbox is missing.\<close>

definition ValidateContainerAdjustment ::
  "'r plugin_env \<Rightarrow> outside \<Rightarrow> removal_marks \<Rightarrow> PodSandbox option \<Rightarrow> nri_Container option \<Rightarrow> adjustment \<Rightarrow> plugin \<Rightarrow> denial option option + unit" where
  "ValidateContainerAdjustment e ou rm pod ctr adjust p =
     (case (ctr, pod) of
        (Some ctr0, Some pd) \<Rightarrow>
          (case adjustedLaunchContainer (en_H e) rm ctr0 adjust of
             (adj, env) \<Rightarrow>
               (case checkContainerObserved (en_H e) (ou_resolve ou) (en_x e) (en_cfg e) (pg_store p) (pg_exempt p) pd adj (image_of adj) launchFinal env
                  (adjustedMounts (en_H e) (en_storage e) rm pd adj adjust) of
                  (verdict, reason) \<Rightarrow>
                    if verdict = verdictDeny \<and> po_Mode (nc_Policy (en_cfg e)) \<noteq> ModeAudit then Inl (Some reason) else Inr ()))
      | _ \<Rightarrow> Inl None)"

section \<open>Evidence\<close>

text \<open>Less evidence never admits more.\<close>

definition evidence_le :: "RunningContainer \<Rightarrow> RunningContainer \<Rightarrow> bool" where
  "evidence_le r q \<longleftrightarrow> rc_Digest r = rc_Digest q \<and> rc_Argv r = rc_Argv q \<and> rc_Env r \<in> {None, rc_Env q} \<and> rc_Mounts r \<in> {None, rc_Mounts q}"

lemma container_admits_evidence: "evidence_le r q \<Longrightarrow> container_admits H c r \<Longrightarrow> container_admits H c q"
proof -
  have "mount_policy_admits H p None \<Longrightarrow> mount_policy_admits H p ms" "admitsObservation H q None \<Longrightarrow> admitsObservation H q ob" for p ms q ob
    by (auto simp: mount_policy_admits_def admitsObservation_def split: if_splits)
  moreover have "rc_Argv r = rc_Argv q \<Longrightarrow> process_admits cmd args r = process_admits cmd args q" for cmd args by (simp add: process_admits_def)
  ultimately show "evidence_le r q \<Longrightarrow> container_admits H c r \<Longrightarrow> container_admits H c q" by (auto simp: container_admits_iff evidence_le_def)
qed

lemma AdmitsContainer_evidence:
  assumes "evidence_le r q" and "AdmitsContainer H i r"
  shows "AdmitsContainer H i q"
proof -
  have "evidence_le (r\<lparr>rc_Digest := d\<rparr>) (q\<lparr>rc_Digest := d\<rparr>)" for d using assms(1) by (simp add: evidence_le_def)
  hence "container_admits H c (r\<lparr>rc_Digest := d\<rparr>) \<Longrightarrow> container_admits H c (q\<lparr>rc_Digest := d\<rparr>)" for c d by (rule container_admits_evidence)
  moreover have "rc_Digest r = rc_Digest q" using assms(1) by (simp add: evidence_le_def)
  ultimately show ?thesis using assms(2) by (auto simp: AdmitsContainer_def list_ex_iff split: option.splits sum.splits)
qed

text \<open>A container that is launched as it was validated: the arguments after the edits, and the environment and the mounts after the edits where these were known.\<close>

definition launched_as :: "'r plugin_env \<Rightarrow> removal_marks \<Rightarrow> PodSandbox \<Rightarrow> nri_Container \<Rightarrow> adjustment \<Rightarrow> nri_Container \<Rightarrow> bool" where
  "launched_as e rm pod ctr adjust ctr' \<longleftrightarrow>
     (case adjustedLaunchContainer (en_H e) rm ctr adjust of
        (adj, env) \<Rightarrow> image_of ctr' = image_of ctr \<and> ct_Args ctr' = ct_Args adj \<and> env \<in> {None, containerEnv (en_H e) ctr'} \<and>
          adjustedMounts (en_H e) (en_storage e) rm pod adj adjust \<in> {None, Some (mounts_Observe (en_H e) (en_storage e) pod ctr')})"

lemma adjusted_image: "adjustedLaunchContainer H rm ctr adjust = (adj, env) \<Longrightarrow> image_of adj = image_of ctr"
  by (auto simp: adjustedLaunchContainer_def image_of_def Let_def split: if_splits sum.splits option.splits)

lemma checkObserved_evidence:
  assumes "ps_index store \<noteq> None"
    and "fst (checkContainerObserved H resolve x cfg store exempt pod adj ref launchFinal env mounts) \<noteq> verdictDeny"
    and "ref = image_of ctr'" and "ct_Args adj = ct_Args ctr'" and "env \<in> {None, containerEnv H ctr'}"
    and "mounts \<in> {None, Some (mounts_Observe H storage pod ctr')}"
  shows "image_rule H storage resolve x cfg store exempt pod ctr'"
proof -
  let ?rc = "\<lparr>rc_Digest = resolveDigest resolve ref, rc_Argv = ct_Args adj, rc_Mounts = mounts, rc_Env = env\<rparr>"
  have "evidence_le ?rc (launch_of H storage resolve pod ctr')" using assms(3-6) by (simp add: evidence_le_def launch_of_def)
  hence adm: "AdmitsContainer H i ?rc \<Longrightarrow> AdmitsContainer H i (launch_of H storage resolve pod ctr')" for i by (rule AdmitsContainer_evidence)
  show ?thesis using assms(2) checkImage_iff[OF assms(1), of H resolve cfg ref "ct_Args adj" env mounts] adm
    unfolding image_rule_def checkContainerObserved_def exemptNamespace_def Let_def assms(3)[symmetric]
    by (auto simp flip: checkLabels_iff split: if_splits)
qed

text \<open>C21: \<^bold>\<open>What validation passes, the start check admits.\<close> In a plugin that runs and enforces, a validation that passes means: every container that is launched
  as it was validated satisfies the image rule under the policy then in force, also when the environment or the mounts were not known yet. It may then start if it
  also satisfies the sandbox rule. And a validation that knows both fails only for a container that the image rule refuses.\<close>

theorem validated_starts:
  assumes "plugin_run e (newPlugin e file marker) ls p" and "launched_as e rm pod ctr adjust ctr'" and "po_Mode (nc_Policy (en_cfg e)) \<noteq> ModeAudit"
  shows "(ValidateContainerAdjustment e ou rm (Some pod) (Some ctr) adjust p = Inr () \<longrightarrow>
      image_rule (en_H e) (en_storage e) (ou_resolve ou) (en_x e) (en_cfg e) (pg_store p) (pg_exempt p) pod ctr' \<and>
      (sandbox_rule (en_H e) (en_storage e) (ou_resolve ou) (en_cfg e) (pg_store p) pod ctr' \<longrightarrow> okE (fst (StartContainer e ou pod ctr' p)))) \<and>
    (snd (adjustedLaunchContainer (en_H e) rm ctr adjust) \<noteq> None \<and>
      adjustedMounts (en_H e) (en_storage e) rm pod (fst (adjustedLaunchContainer (en_H e) rm ctr adjust)) adjust \<noteq> None \<and>
      image_rule (en_H e) (en_storage e) (ou_resolve ou) (en_x e) (en_cfg e) (pg_store p) (pg_exempt p) pod ctr' \<longrightarrow>
      ValidateContainerAdjustment e ou rm (Some pod) (Some ctr) adjust p = Inr ())"
proof -
  obtain adj env where adj: "adjustedLaunchContainer (en_H e) rm ctr adjust = (adj, env)" by fastforce
  let ?ms = "adjustedMounts (en_H e) (en_storage e) rm pod adj adjust"
  let ?chk = "checkContainerObserved (en_H e) (ou_resolve ou) (en_x e) (en_cfg e) (pg_store p) (pg_exempt p) pod adj (image_of adj) launchFinal env ?ms"
  have l: "image_of adj = image_of ctr'" "ct_Args adj = ct_Args ctr'" "env \<in> {None, containerEnv (en_H e) ctr'}"
      "?ms \<in> {None, Some (mounts_Observe (en_H e) (en_storage e) pod ctr')}"
    using assms(2) adjusted_image[OF adj] by (simp_all add: launched_as_def adj)
  have ix: "ps_index (pg_store p) \<noteq> None" by (rule store_inv_index[OF run_store_inv[OF assms(1)]])
  have val: "ValidateContainerAdjustment e ou rm (Some pod) (Some ctr) adjust p = Inr () \<longleftrightarrow> fst ?chk \<noteq> verdictDeny"
    using assms(3) by (simp add: ValidateContainerAdjustment_def adj split: prod.split)
  have "fst ?chk \<noteq> verdictDeny \<longleftrightarrow> image_rule (en_H e) (en_storage e) (ou_resolve ou) (en_x e) (en_cfg e) (pg_store p) (pg_exempt p) pod ctr'"
    if "env \<noteq> None" "?ms \<noteq> None"
  proof -
    have "env = containerEnv (en_H e) ctr'" "?ms = Some (mounts_Observe (en_H e) (en_storage e) pod ctr')" using that l(3,4) by auto
    hence "?chk = checkContainerObserved (en_H e) (ou_resolve ou) (en_x e) (en_cfg e) (pg_store p) (pg_exempt p) pod ctr' (image_of ctr') launchFinal
        (containerEnv (en_H e) ctr') (Some (mounts_Observe (en_H e) (en_storage e) pod ctr'))"
      by (simp only: checkContainerObserved_def l(1,2))
    thus ?thesis using checkObserved_iff[OF ix, of "en_H e" "ou_resolve ou" "en_x e" "en_cfg e" "pg_exempt p" pod ctr' "en_storage e"] by simp
  qed
  thus ?thesis using checkObserved_evidence[OF ix _ l, of "ou_resolve ou" "en_x e" "en_cfg e" "pg_exempt p"] StartContainer_iff[OF ix, of e ou pod ctr']
    unfolding val adj fst_conv snd_conv by blast
qed

section \<open>A sample adjustment\<close>

text \<open>The sample container with a variable more, which a plugin removes again.\<close>

definition edit_marks :: removal_marks where
  "edit_marks = \<lparr>rm_Env = (\<lambda>(k, _). case k of [] \<Rightarrow> (k, False) | c # r \<Rightarrow> if c = CHR ''-'' then (r, True) else (k, False)),
     rm_Mount = (\<lambda>m. case mt_Destination m of [] \<Rightarrow> ([], False) | c # r \<Rightarrow> if c = CHR ''-'' then (r, True) else (c # r, False))\<rparr>"

definition edit_ctr :: nri_Container where
  "edit_ctr = node_ctr\<lparr>ct_Env := [''A=1'']\<rparr>"

definition edit_adjust :: adjustment where
  "edit_adjust = \<lparr>aj_Args = [], aj_Env = [Some (''-A'', [])], aj_Mounts = [], aj_CDIDevices = []\<rparr>"

lemma edit_adjusted: "adjustedLaunchContainer H edit_marks edit_ctr edit_adjust = (node_ctr, containerEnv H node_ctr)"
proof -
  have loop: "observe_loop [] [''A=1''] = Inr [(''A'', ''1'')]" "Cut ''A=1'' ''='' = Some (''A'', ''1'')" by code_simp+
  have "observeEnv H edit_ctr = Inr (fingerprintEnv H (Some [(''A'', ''1'')]))"
    by (simp add: observeEnv_def ObserveEnv_def edit_ctr_def loop del: observe_loop.simps)
  moreover have "edit_ctr\<lparr>ct_Env := []\<rparr> = node_ctr" "ct_Env edit_ctr = [''A=1'']" by (simp_all add: edit_ctr_def node_ctr_def)
  ultimately show ?thesis by (simp add: adjustedLaunchContainer_def edit_adjust_def edit_marks_def loop Let_def del: Cut.simps)
qed

theorem validated_starts_witness:
  "ValidateContainerAdjustment node_env node_out edit_marks (Some (node_pod ''default'')) (Some edit_ctr) edit_adjust node_p0 = Inr ()"
proof -
  have "adjustedMounts H st edit_marks pod node_ctr edit_adjust = Some (mounts_Observe H st pod node_ctr)" for H st pod
    by (simp add: adjustedMounts_def edit_adjust_def node_ctr_def)
  moreover have "image_of edit_ctr = image_of node_ctr" by (simp add: edit_ctr_def image_of_def)
  moreover have "containerEnv (en_H node_env) node_ctr \<noteq> None" by (simp add: containerEnv_def observeEnv_def ObserveEnv_def node_ctr_def)
  moreover have "image_rule (en_H node_env) (en_storage node_env) (ou_resolve node_out) (en_x node_env) (en_cfg node_env) (pg_store node_p0) (pg_exempt node_p0)
      (node_pod ''default'') node_ctr"
    using StartContainer_iff[of node_p0 node_env node_out "node_pod ''default''" node_ctr] node_starts[of "''default''"]
    by (simp add: node_store newPolicyStore_def BuildIndex_def)
  ultimately show ?thesis
    using validated_starts[OF plugin_run.nil, of node_env edit_marks "node_pod ''default''" edit_ctr edit_adjust node_ctr node_out]
    by (simp add: launched_as_def edit_adjusted)
qed

end
