(* ===== verification/Nri_Pull.thy ===== *)
theory Nri_Pull
  imports Nri_Admission Allowlist_Handler
begin

text \<open>
  How the node plugin follows the policy of CDS: the client of the allowlist API (\<^verbatim>\<open>src/pkg/allowlistclient/client.go\<close>) and the first pull
  and the poll loop of the plugin (\<^verbatim>\<open>src/internal/cmds/nri-image-policy/main.go\<close>). A transport takes a request to a response, or to
  \<^const>\<open>None\<close> if none arrives in time. The JSON decoder and \<^verbatim>\<open>mime.ParseMediaType\<close> are parameters.
\<close>

section \<open>The client\<close>

record pull_external =
  px_H :: hash
  px_decode :: "string \<Rightarrow> Allowlist option"
  px_ParseMediaType :: "string \<Rightarrow> string option"

record http_response =
  hr_StatusCode :: nat
  hr_ContentType :: string
  hr_ETag :: string
  hr_Body :: reader

type_synonym transport = "request \<Rightarrow> http_response option"

datatype client_error = RequestFailed | StatusError nat string | UnexpectedContentType string | ResponseTooLarge | ResponseUnreadable | ServedInvalid

definition ParseServedJSON :: "pull_external \<Rightarrow> string \<Rightarrow> Allowlist option" where
  "ParseServedJSON x data =
     (case px_decode x data of None \<Rightarrow> None | Some a \<Rightarrow> (case normalizeAllowlist (px_H x) False a of Inl _ \<Rightarrow> None | Inr b \<Rightarrow> Some b))"

abbreviation (input) maxAllowlistResponseBytes :: int where
  "maxAllowlistResponseBytes \<equiv> 4 * 1024 * 1024"

definition isJSONContentType :: "pull_external \<Rightarrow> string \<Rightarrow> bool" where
  "isJSONContentType x ct = (case px_ParseMediaType x ct of None \<Rightarrow> False | Some mediaType \<Rightarrow> ToLower mediaType = ''application/json'')"

definition readCapped :: "reader \<Rightarrow> int \<Rightarrow> client_error + string" where
  "readCapped r maxBytes =
     (case ReadAll r maxBytes of
        Inl ErrTooLarge \<Rightarrow> Inl ResponseTooLarge
      | Inl _ \<Rightarrow> Inl ResponseUnreadable
      | Inr body \<Rightarrow> Inr body)"

definition fetch_request :: "string \<Rightarrow> request" where
  "fetch_request ifNoneMatch =
     \<lparr>rq_Method = ''GET'', rq_Path = ''/allowlist'', rq_RemoteAddr = [],
      rq_Header = (if ifNoneMatch \<noteq> [] then [(''If-None-Match'', ifNoneMatch)] else []), rq_Body = ([], False)\<rparr>"

text \<open>The document, the entity tag, and whether the answer was 304.\<close>

definition fetch :: "pull_external \<Rightarrow> transport \<Rightarrow> string \<Rightarrow> client_error + (Allowlist option \<times> string \<times> bool)" where
  "fetch x client ifNoneMatch =
     (case client (fetch_request ifNoneMatch) of
        None \<Rightarrow> Inl RequestFailed
      | Some resp \<Rightarrow>
          if hr_StatusCode resp = StatusNotModified then Inr (None, [], True)
          else if hr_StatusCode resp \<noteq> StatusOK then
            Inl (StatusError (hr_StatusCode resp)
              (TrimSpace (case readCapped (hr_Body resp) maxAllowlistResponseBytes of Inl _ \<Rightarrow> [] | Inr body \<Rightarrow> body)))
          else if \<not> isJSONContentType x (hr_ContentType resp) then Inl (UnexpectedContentType (hr_ContentType resp))
          else
            bindE (readCapped (hr_Body resp) maxAllowlistResponseBytes) (\<lambda>body.
            case ParseServedJSON x body of
              None \<Rightarrow> Inl ServedInvalid
            | Some al \<Rightarrow> Inr (Some al, hr_ETag resp, False)))"

definition VersionFromETag :: "string \<Rightarrow> string" where
  "VersionFromETag etag =
     (let v1 = TrimPrefix etag ''W/'';
          v2 = TrimPrefix v1 [CHR 0x22] in
      TrimSuffix v2 [CHR 0x22])"

section \<open>The plugin\<close>

text \<open>\<^verbatim>\<open>strconv.ParseUint\<close> in base 10 with 64 bits.\<close>

definition ParseUint64 :: "string \<Rightarrow> 64 word option" where
  "ParseUint64 s =
     (if s = [] \<or> \<not> list_all (\<lambda>c. CHR ''0'' \<le> c \<and> c \<le> CHR ''9'') s \<or> dec_value s \<ge> 2 ^ 64 then None
      else Some (of_nat (dec_value s)))"

definition parseVersion :: "string \<Rightarrow> 64 word" where
  "parseVersion etag = (case ParseUint64 (VersionFromETag etag) of None \<Rightarrow> 0 | Some n \<Rightarrow> n)"

abbreviation (input) allowlistApiMaxRetries :: nat where
  "allowlistApiMaxRetries \<equiv> 5"

text \<open>In nanoseconds.\<close>

abbreviation (input) allowlistApiInitialDelay :: int where
  "allowlistApiInitialDelay \<equiv> 2 * 1000000000"

text \<open>What happens around one attempt: the signal found before it, the transport during it, and whether the plugin is shut down in the wait after it.\<close>

datatype signal = Proceed | PluginDied | Cancelled

record attempt_env =
  ae_signal :: signal
  ae_client :: transport
  ae_cancelled :: bool

datatype pull_error = ErrPluginDied | ErrCancelled | ErrInitialNotModified | ErrInitialNil | ErrFetch client_error

text \<open>The loop of the first pull, with the waits it made.\<close>

function pull_attempts ::
  "pull_external \<Rightarrow> (nat \<Rightarrow> attempt_env) \<Rightarrow> nat \<Rightarrow> int \<Rightarrow> policyStore \<Rightarrow> (pull_error + string) \<times> policyStore \<times> int list" where
  "pull_attempts x env attempt delay store =
     (if attempt > allowlistApiMaxRetries then (Inr [], store, [])
      else (case ae_signal (env attempt) of
        PluginDied \<Rightarrow> (Inl ErrPluginDied, store, [])
      | Cancelled \<Rightarrow> (Inl ErrCancelled, store, [])
      | Proceed \<Rightarrow>
          (case (case fetch x (ae_client (env attempt)) [] of
                   Inl e \<Rightarrow> Inl (ErrFetch e)
                 | Inr (wl, etag, notModified) \<Rightarrow>
                     if notModified then Inl ErrInitialNotModified
                     else (case wl of None \<Rightarrow> Inl ErrInitialNil | Some al \<Rightarrow> Inr (al, etag))) of
             Inr (al, etag) \<Rightarrow> (Inr etag, snd (store_apply al (parseVersion etag) store), [])
           | Inl e \<Rightarrow>
               if attempt \<ge> allowlistApiMaxRetries then (Inl e, store, [])
               else if ae_cancelled (env attempt) then (Inl ErrCancelled, store, [delay])
               else (case pull_attempts x env (attempt + 1) (delay * 2) store of (r, store', waits) \<Rightarrow> (r, store', delay # waits)))))"
  by pat_completeness auto
termination
  by (relation "measure (\<lambda>(_, _, attempt, _, _). Suc allowlistApiMaxRetries - attempt)") auto

definition pullInitial :: "pull_external \<Rightarrow> (nat \<Rightarrow> attempt_env) \<Rightarrow> policyStore \<Rightarrow> (pull_error + string) \<times> policyStore \<times> int list" where
  "pullInitial x env store = pull_attempts x env 1 allowlistApiInitialDelay store"

text \<open>One round of the poll loop.\<close>

definition pull_tick :: "pull_external \<Rightarrow> transport \<Rightarrow> string \<times> policyStore \<Rightarrow> string \<times> policyStore" where
  "pull_tick x client = (\<lambda>(etag, store).
     case fetch x client etag of
       Inl _ \<Rightarrow> (etag, store)
     | Inr (wl, newETag, notModified) \<Rightarrow>
         if notModified then (etag, store)
         else (case wl of
                 None \<Rightarrow> (etag, store)
               | Some al \<Rightarrow>
                   let (applied, store') = store_apply al (parseVersion newETag) store in
                   if \<not> applied then (etag, store') else (newETag, store')))"

section \<open>Versions\<close>

lemma Itoa_digits: "list_all (\<lambda>c. CHR ''0'' \<le> c \<and> c \<le> CHR ''9'') (Itoa n)"
proof (induction n rule: Itoa.induct)
  case (1 n)
  have digit: "CHR ''0'' \<le> char_of (48 + d :: nat) \<and> char_of (48 + d :: nat) \<le> CHR ''9''" if "d < 10" for d
    using that by (simp add: less_eq_char_def)
  show ?case using 1 digit[of n] digit[of "n mod 10"] by (subst Itoa.simps) auto
qed

lemma Itoa_not_Nil: "Itoa n \<noteq> []"
  by (subst Itoa.simps) simp

lemma VersionFromETag_weak: "VersionFromETag (weak_tag n) = Itoa n"
proof -
  have "TrimPrefix ([CHR 0x22] @ Itoa n @ [CHR 0x22]) [CHR 0x22] = Itoa n @ [CHR 0x22]" by (rule TrimPrefix_append)
  thus ?thesis unfolding VersionFromETag_def weak_tag_def Let_def TrimPrefix_append by simp
qed

lemma parseVersion_weak: "n < 2 ^ 64 \<Longrightarrow> parseVersion (weak_tag n) = of_nat n"
  by (simp add: parseVersion_def VersionFromETag_weak ParseUint64_def Itoa_digits Itoa_not_Nil dec_value_Itoa)

lemma weak_tag_not_Nil: "weak_tag n \<noteq> []"
  by (simp add: weak_tag_def)

section \<open>The first pull\<close>

declare pull_attempts.simps [simp del]

lemma pull_attempts_cases:
  assumes "pull_attempts x env attempt delay store = (r, store', waits)" and "attempt \<le> 5"
  obtains (stop) e where "r = Inl e" "store' = store" "waits = [] \<or> waits = [delay] \<and> attempt < 5"
  | (pulled) al etag where "fetch x (ae_client (env attempt)) [] = Inr (Some al, etag, False)" "r = Inr etag"
      "store' = snd (store_apply al (parseVersion etag) store)" "waits = []"
  | (more) ws where "attempt < 5" "pull_attempts x env (attempt + 1) (delay * 2) store = (r, store', ws)" "waits = delay # ws"
  using assms
  by (subst (asm) pull_attempts.simps) (auto split: if_splits signal.splits sum.splits prod.splits option.splits)

lemma pull_attempts_ends:
  assumes "pull_attempts x env attempt delay store = (r, store', waits)" and "0 \<le> delay" and "attempt \<le> 5"
  shows "length waits \<le> 5 - attempt \<and> sum_list waits \<le> delay * (2 ^ (5 - attempt) - 1)"
  using assms
proof (induction "5 - attempt" arbitrary: attempt delay waits)
  case 0
  from 0(2,4) show ?case by (cases rule: pull_attempts_cases) (use 0 in auto)
next
  case (Suc n)
  have pow: "(2 :: int) ^ (5 - attempt) = 2 * 2 ^ (5 - (attempt + 1))" using Suc(2) by (simp flip: power_Suc)
  hence "(2 :: int) \<le> 2 ^ (5 - attempt)" by simp
  hence one: "delay * 1 \<le> delay * (2 ^ (5 - attempt) - 1)" using Suc(4) by (intro mult_left_mono) auto
  from Suc(3,5) show ?case
  proof (cases rule: pull_attempts_cases)
    case (more ws)
    with Suc(1)[OF _ more(2)] Suc(2,4) have "length ws \<le> 5 - (attempt + 1) \<and> sum_list ws \<le> delay * 2 * (2 ^ (5 - (attempt + 1)) - 1)" by simp
    thus ?thesis using more(1,3) pow by (auto simp: algebra_simps)
  qed (use one Suc(4) in auto)
qed

lemma pull_attempts_result:
  assumes "pull_attempts x env attempt delay store = (r, store', waits)" and "1 \<le> attempt" and "attempt \<le> 5"
  shows "case r of
      Inl _ \<Rightarrow> store' = store
    | Inr etag \<Rightarrow> \<exists>n\<in>{1..5}. \<exists>doc. fetch x (ae_client (env n)) [] = Inr (Some doc, etag, False) \<and> store' = snd (store_apply doc (parseVersion etag) store)"
  using assms
proof (induction "5 - attempt" arbitrary: attempt delay waits)
  case 0
  from 0(2,4) show ?case by (cases rule: pull_attempts_cases) (use 0 in auto)
next
  case (Suc n)
  from Suc(3,5) show ?case
  proof (cases rule: pull_attempts_cases)
    case (more ws)
    from Suc(1)[OF _ more(2)] Suc(2,4) more(1) show ?thesis by simp
  qed (use Suc(4,5) in auto)
qed

text \<open>C36: \<^bold>\<open>The first pull ends, and success means the policy is in force.\<close> Whatever signals arrive and whatever the transport does, the first pull makes at most five
  attempts with at most four waits of together at most thirty seconds between them. If it reports success, one of the attempts fetched a document,
  and the store of a fresh plugin holds exactly this document and the version its entity tag gives. If it reports an error, the store is as it was.\<close>

theorem pullInitial_ends:
  assumes "pullInitial x env (newPolicyStore base) = (r, store, waits)"
  shows "length waits \<le> 4 \<and> sum_list waits \<le> 30 * 1000000000 \<and>
    (case r of
       Inl _ \<Rightarrow> store = newPolicyStore base
     | Inr etag \<Rightarrow> \<exists>n\<in>{1..5}. \<exists>doc. fetch x (ae_client (env n)) [] = Inr (Some doc, etag, False) \<and>
         store = (newPolicyStore base)\<lparr>ps_index := BuildIndex doc, ps_version := parseVersion etag\<rparr>)"
proof -
  note run = assms[unfolded pullInitial_def]
  have fresh: "snd (store_apply doc v (newPolicyStore base)) = (newPolicyStore base)\<lparr>ps_index := BuildIndex doc, ps_version := v\<rparr>" for doc v
    by (simp add: store_apply_def newPolicyStore_def)
  show ?thesis using pull_attempts_ends[OF run] pull_attempts_result[OF run] unfolding fresh by simp
qed

section \<open>Following CDS\<close>

text \<open>CDS as a transport, with the stores and the faults at the moments of its two reads; every header the client looks at.\<close>

definition cds_client :: "fault \<Rightarrow> Store \<Rightarrow> fault \<Rightarrow> Store \<Rightarrow> transport" where
  "cds_client flt1 s1 flt2 s2 r =
     (let resp = HandleList flt1 s1 flt2 s2 r in
      Some \<lparr>hr_StatusCode = rs_Status resp, hr_ContentType = (if rs_Status resp = StatusOK then ''application/json'' else ''text/plain''),
        hr_ETag = (case rs_ETag resp of None \<Rightarrow> [] | Some tag \<Rightarrow> tag), hr_Body = (case rs_Body resp of None \<Rightarrow> [] | Some b \<Rightarrow> b, False)\<rparr>)"

text \<open>The store of CDS is written while the plugin polls, also between the two reads of an answer; a poll is answered by CDS, or fails.\<close>

inductive pull_step :: "pull_external \<Rightarrow> Store \<times> string \<times> policyStore \<Rightarrow> Store \<times> string \<times> policyStore \<Rightarrow> bool" for x where
  cds_write: "store_step (px_H x) s s' \<Longrightarrow> pull_step x (s, c) (s', c)"
| poll: "(store_step (px_H x))\<^sup>*\<^sup>* s s' \<Longrightarrow> pull_step x (s, c) (s', pull_tick x (cds_client flt1 s flt2 s') c)"
| lost: "fetch x client (fst c) = Inl e \<Longrightarrow> pull_step x (s, c) (s, pull_tick x client c)"

inductive_cases pull_stepE: "pull_step x (s, c) (s', c')"

text \<open>What CDS serves with a store, as the plugin reads it.\<close>

definition served :: "pull_external \<Rightarrow> Store \<Rightarrow> Allowlist option" where
  "served x s = (if int (length (Canonical (st_doc s))) \<le> maxAllowlistResponseBytes then ParseServedJSON x (Canonical (st_doc s)) else None)"

definition current :: "pull_external \<Rightarrow> Store \<Rightarrow> string \<times> policyStore \<Rightarrow> bool" where
  "current x s = (\<lambda>(etag, p). \<exists>doc. served x s = Some doc \<and> etag = weak_tag (db_version (st_db s)) \<and>
     ps_index p = BuildIndex doc \<and> ps_version p = of_nat (db_version (st_db s)))"

lemma fetch_cds:
  assumes "isJSONContentType x ''application/json''"
  shows "fetch x (cds_client flt1 s1 flt2 s) etag =
    (if etag \<noteq> [] \<and> store_Version flt1 s1 = Inr (db_version (st_db s1)) \<and> etag = weak_tag (db_version (st_db s1)) then Inr (None, [], True)
     else if LoadAll flt2 s \<noteq> Inr (st_doc s, db_version (st_db s)) then Inl (StatusError StatusInternalServerError [])
     else case served x s of Some doc \<Rightarrow> Inr (Some doc, weak_tag (db_version (st_db s)), False)
       | None \<Rightarrow> Inl (if int (length (Canonical (st_doc s))) \<le> maxAllowlistResponseBytes then ServedInvalid else ResponseTooLarge))"
proof -
  let ?V1 = "db_version (st_db s1)" and ?V = "db_version (st_db s)" and ?r = "fetch_request etag"
  have ver: "store_Version flt1 s1 = Inr ?V1 \<or> (\<exists>e. store_Version flt1 s1 = Inl e)"
    by (cases "store_Version flt1 s1") (auto simp: store_Version_def bindE_Inr_iff query_Inr)
  have load: "LoadAll flt2 s = Inr (st_doc s, ?V) \<or> (\<exists>e. LoadAll flt2 s = Inl e)"
    by (cases "LoadAll flt2 s") (auto simp: LoadAll_def bindE_Inr_iff query_Inr st_doc_def)
  have hdr: "Header_Get ?r ''If-None-Match'' = etag" by (simp add: fetch_request_def Header_Get_def)
  have list: "HandleList flt1 s1 flt2 s ?r =
      (if etag \<noteq> [] \<and> store_Version flt1 s1 = Inr ?V1 \<and> etag = weak_tag ?V1 then \<lparr>rs_Status = StatusNotModified, rs_ETag = Some etag, rs_Body = None\<rparr>
       else if LoadAll flt2 s \<noteq> Inr (st_doc s, ?V) then status StatusInternalServerError
       else \<lparr>rs_Status = StatusOK, rs_ETag = Some (weak_tag ?V), rs_Body = Some (Canonical (st_doc s))\<rparr>)"
    unfolding HandleList_def hdr Let_def using ver load by (elim disjE exE) simp_all
  have read: "readCapped (b, False) maxAllowlistResponseBytes = (if int (length b) \<le> maxAllowlistResponseBytes then Inr b else Inl ResponseTooLarge)" for b
    by (simp add: readCapped_def ReadAll_def Let_def MaxInt64_def)
  have trim: "TrimSpace [] = []" by (simp add: TrimSpace_def)
  show ?thesis unfolding fetch_def cds_client_def list Let_def served_def
    by (simp add: read[simplified] trim assms weak_tag_not_Nil split: option.split)
qed

lemma tick_cds:
  assumes "isJSONContentType x ''application/json''" and "pull_tick x (cds_client flt1 s1 flt2 s) (etag, p) \<noteq> (etag, p)"
  shows "served x s \<noteq> None \<and> LoadAll flt2 s = Inr (st_doc s, db_version (st_db s)) \<and>
    \<not> (etag \<noteq> [] \<and> store_Version flt1 s1 = Inr (db_version (st_db s1)) \<and> etag = weak_tag (db_version (st_db s1)))"
  using assms(2) unfolding pull_tick_def fetch_cds[OF assms(1)]
  by (auto simp: Let_def store_apply_def split: option.splits if_splits)

text \<open>The state the plugin follows CDS in: what it enforces is what CDS served at an earlier moment.\<close>

definition follows :: "pull_external \<Rightarrow> Store \<Rightarrow> string \<times> policyStore \<Rightarrow> bool" where
  "follows x s c \<longleftrightarrow> (\<exists>s0. db_inv (st_db s0) \<and> (store_step (px_H x))\<^sup>*\<^sup>* s0 s \<and> current x s0 c)"

lemma store_apply_newer:
  assumes "ps_version p = of_nat v" and "v \<le> w" and "w < 2 ^ 64"
  shows "store_apply doc (of_nat w) p = (True, p\<lparr>ps_index := BuildIndex doc, ps_version := of_nat w\<rparr>)"
proof -
  have "(of_nat v :: 64 word) \<le> of_nat w" using assms(2,3) by (simp add: word_le_nat_alt unat_of_nat)
  thus ?thesis using assms(1) by (simp add: store_apply_def)
qed

text \<open>A poll that is answered with a document makes the plugin current.\<close>

lemma tick_new:
  assumes "isJSONContentType x ''application/json''" and "follows x s (etag, p)" and "db_version (st_db s) < 2 ^ 64" and "served x s \<noteq> None"
    and "LoadAll flt2 s = Inr (st_doc s, db_version (st_db s))"
    and "\<not> (etag \<noteq> [] \<and> store_Version flt1 s1 = Inr (db_version (st_db s1)) \<and> etag = weak_tag (db_version (st_db s1)))"
  shows "current x s (pull_tick x (cds_client flt1 s1 flt2 s) (etag, p))"
proof -
  obtain s0 where s0: "db_inv (st_db s0)" "(store_step (px_H x))\<^sup>*\<^sup>* s0 s" "ps_version p = of_nat (db_version (st_db s0))"
    using assms(2) by (auto simp: follows_def current_def)
  have "db_version (st_db s0) \<le> db_version (st_db s)" using etag.not_modified[OF s0(2,1)] by auto
  note applied = store_apply_newer[OF s0(3) this assms(3)]
  obtain doc where doc: "served x s = Some doc" using assms(4) by blast
  have f: "fetch x (cds_client flt1 s1 flt2 s) etag = Inr (Some doc, weak_tag (db_version (st_db s)), False)"
    unfolding fetch_cds[OF assms(1)] if_not_P[OF assms(6)] using assms(5) doc by simp
  have "pull_tick x (cds_client flt1 s1 flt2 s) (etag, p) =
      (weak_tag (db_version (st_db s)), p\<lparr>ps_index := BuildIndex doc, ps_version := of_nat (db_version (st_db s))\<rparr>)"
    by (simp add: pull_tick_def f parseVersion_weak[OF assms(3)] applied)
  thus ?thesis by (simp add: current_def doc)
qed

text \<open>So does one that is answered "not modified".\<close>

lemma tick_current:
  assumes "isJSONContentType x ''application/json''" and "follows x s (etag, p)" and "db_version (st_db s) < 2 ^ 64" and "served x s \<noteq> None"
    and "LoadAll flt2 s = Inr (st_doc s, db_version (st_db s))"
  shows "current x s (pull_tick x (cds_client flt1 s flt2 s) (etag, p))"
proof (cases "etag \<noteq> [] \<and> store_Version flt1 s = Inr (db_version (st_db s)) \<and> etag = weak_tag (db_version (st_db s))")
  case True
  obtain s0 doc0 where s0: "db_inv (st_db s0)" "(store_step (px_H x))\<^sup>*\<^sup>* s0 s" "served x s0 = Some doc0" "etag = weak_tag (db_version (st_db s0))"
      "ps_index p = BuildIndex doc0" "ps_version p = of_nat (db_version (st_db s0))"
    using assms(2) by (auto simp: follows_def current_def)
  have "db_version (st_db s) = db_version (st_db s0)" using True s0(4) by (simp add: weak_tag_inj)
  hence db: "st_db s = st_db s0" using etag.not_modified[OF s0(2,1)] by auto
  hence "served x s = served x s0" by (simp only: served_def st_doc_def)
  hence "current x s (etag, p)" using db s0(3-6) by (simp add: current_def)
  moreover have "fetch x (cds_client flt1 s flt2 s) etag = Inr (None, [], True)" unfolding fetch_cds[OF assms(1)] if_P[OF True] ..
  ultimately show ?thesis by (simp add: pull_tick_def)
next
  case False
  from tick_new[OF assms False] show ?thesis .
qed

lemma follows_inv:
  assumes "follows x s c"
  shows "db_inv (st_db s)"
proof -
  from assms obtain s0 where "db_inv (st_db s0)" "(store_step (px_H x))\<^sup>*\<^sup>* s0 s" unfolding follows_def by blast
  thus ?thesis by (rule etag.reach_inv[rotated])
qed

lemma follows_later: "follows x s c \<Longrightarrow> (store_step (px_H x))\<^sup>*\<^sup>* s s' \<Longrightarrow> follows x s' c"
  unfolding follows_def using rtranclp_trans by metis

lemma step_follows:
  assumes "pull_step x (s, c) (s', c')" and "isJSONContentType x ''application/json''" and "follows x s c" and "db_version (st_db s') < 2 ^ 64"
  shows "follows x s' c'"
proof -
  from assms(1) consider (w) "c' = c" "store_step (px_H x) s s'"
    | (p) flt1 flt2 where "(store_step (px_H x))\<^sup>*\<^sup>* s s'" "c' = pull_tick x (cds_client flt1 s flt2 s') c"
    | (l) client e where "s' = s" "fetch x client (fst c) = Inl e" "c' = pull_tick x client c"
    by (rule pull_stepE) blast+
  thus ?thesis
  proof cases
    case w
    thus ?thesis using follows_later[OF assms(3)] by blast
  next
    case (p flt1 flt2)
    obtain etag q where c: "c = (etag, q)" by force
    have f: "follows x s' (etag, q)" using follows_later[OF assms(3) p(1)] c by simp
    show ?thesis
    proof (cases "pull_tick x (cds_client flt1 s flt2 s') (etag, q) = (etag, q)")
      case True
      thus ?thesis using p c f by simp
    next
      case False
      from tick_cds[OF assms(2) this] have got: "served x s' \<noteq> None" "LoadAll flt2 s' = Inr (st_doc s', db_version (st_db s'))"
          "\<not> (etag \<noteq> [] \<and> store_Version flt1 s = Inr (db_version (st_db s)) \<and> etag = weak_tag (db_version (st_db s)))" by blast+
      have "current x s' (pull_tick x (cds_client flt1 s flt2 s') (etag, q))" by (rule tick_new[OF assms(2) f assms(4) got])
      thus ?thesis unfolding p(2) c follows_def by (intro exI[of _ s'] conjI follows_inv[OF f] rtranclp.rtrancl_refl)
    qed
  next
    case (l client e)
    hence "c' = c" by (cases c) (simp add: pull_tick_def)
    thus ?thesis using l assms(3) by simp
  qed
qed

lemma step_store_step: "pull_step x (s, c) (s', c') \<Longrightarrow> (store_step (px_H x))\<^sup>*\<^sup>* s s'"
  by (erule pull_stepE) auto

lemma run_store_steps: "(pull_step x)\<^sup>*\<^sup>* a b \<Longrightarrow> (store_step (px_H x))\<^sup>*\<^sup>* (fst a) (fst b)"
  by (induction rule: rtranclp_induct) (auto dest: step_store_step intro: rtranclp_trans)

lemma run_follows:
  assumes "(pull_step x)\<^sup>*\<^sup>* a b" and "isJSONContentType x ''application/json''" and "follows x (fst a) (snd a)" and "db_version (st_db (fst b)) < 2 ^ 64"
  shows "follows x (fst b) (snd b)"
  using assms(1,4)
proof (induction rule: rtranclp_induct)
  case base
  thus ?case using assms(3) by simp
next
  case (step b c)
  have reach: "(store_step (px_H x))\<^sup>*\<^sup>* (fst a) (fst b)" by (rule run_store_steps[OF step(1)])
  have "db_inv (st_db (fst b))" by (rule etag.reach_inv[OF reach follows_inv[OF assms(3)]])
  hence "db_version (st_db (fst b)) \<le> db_version (st_db (fst c))"
    using etag.not_modified[OF step_store_step[of x "fst b" "snd b" "fst c" "snd c"]] step(2) by simp
  hence "db_version (st_db (fst b)) < 2 ^ 64" using step.prems by simp
  thus ?case using step_follows[of x "fst b" "snd b" "fst c" "snd c"] step assms(2) by simp
qed

lemma initial_follows:
  assumes "isJSONContentType x ''application/json''" and "db_inv (st_db s)" and "db_version (st_db s) < 2 ^ 64"
    and "pullInitial x env (newPolicyStore base) = (Inr etag, p, waits)"
    and "\<And>n. (\<exists>e. fetch x (ae_client (env n)) [] = Inl e) \<or> (\<exists>flt1 flt2. ae_client (env n) = cds_client flt1 s flt2 s)"
  shows "follows x s (etag, p)"
proof -
  obtain n doc where n: "fetch x (ae_client (env n)) [] = Inr (Some doc, etag, False)" "p = snd (store_apply doc (parseVersion etag) (newPolicyStore base))"
    using pull_attempts_result[OF assms(4)[unfolded pullInitial_def]] by auto
  then obtain flt1 flt2 where "fetch x (cds_client flt1 s flt2 s) [] = Inr (Some doc, etag, False)" using assms(5)[of n] by auto
  hence d: "served x s = Some doc" "etag = weak_tag (db_version (st_db s))" unfolding fetch_cds[OF assms(1)] by (auto split: if_splits option.splits)
  have "current x s (etag, p)"
    unfolding n(2) using d by (simp add: current_def parseVersion_weak[OF assms(3)] store_apply_def newPolicyStore_def)
  thus ?thesis using assms(2) unfolding follows_def by blast
qed

text \<open>C8: \<^bold>\<open>The node enforces what CDS serves.\<close> Let the plugin make its first pull from CDS and then poll, while the store of CDS is written in any way, also between the two reads of one answer, and polls fail in any way.
  At every moment the plugin enforces exactly a document that CDS served at an earlier moment, with its version. And as soon as one more poll is answered, if
  the document that CDS holds at this moment is at most four megabytes long and parses, the plugin enforces exactly that document. The versions must fit 64 bits.\<close>

theorem policy_follows:
  assumes "isJSONContentType x ''application/json''" and "(store_step (px_H x))\<^sup>*\<^sup>* open_store s0"
    and "pullInitial x env (newPolicyStore base) = (Inr etag0, p0, waits)"
    and "\<And>n. (\<exists>e. fetch x (ae_client (env n)) [] = Inl e) \<or> (\<exists>flt1 flt2. ae_client (env n) = cds_client flt1 s0 flt2 s0)"
    and "(pull_step x)\<^sup>*\<^sup>* (s0, etag0, p0) (s, etag, p)" and "db_version (st_db s) < 2 ^ 64"
    and "LoadAll flt2 s = Inr loaded" and "int (length (Canonical (st_doc s))) \<le> maxAllowlistResponseBytes"
    and "ParseServedJSON x (Canonical (st_doc s)) = Some doc" and "pull_tick x (cds_client flt1 s flt2 s) (etag, p) = (etag', p')"
  shows "(\<exists>s1 doc1. (store_step (px_H x))\<^sup>*\<^sup>* s1 s \<and> ParseServedJSON x (Canonical (st_doc s1)) = Some doc1 \<and>
      ps_index p = BuildIndex doc1 \<and> ps_version p = of_nat (db_version (st_db s1))) \<and>
    ps_index p' = BuildIndex doc \<and> ps_version p' = of_nat (db_version (st_db s)) \<and> parseVersion etag' = ps_version p'"
proof -
  have inv: "db_inv (st_db s0)" by (rule etag.reach_inv[OF assms(2)]) (simp add: open_store_def db_inv_def)
  have steps: "(store_step (px_H x))\<^sup>*\<^sup>* s0 s" using run_store_steps[OF assms(5)] by simp
  have "db_version (st_db s0) < 2 ^ 64" using etag.not_modified[OF steps inv] assms(6) by simp
  from run_follows[OF assms(5,1)] initial_follows[OF assms(1) inv this assms(3,4)] assms(6) have f: "follows x s (etag, p)" by simp
  have srv: "served x s = Some doc" using assms(8,9) by (simp add: served_def)
  have "LoadAll flt2 s = Inr (st_doc s, db_version (st_db s))" using assms(7) by (auto simp: LoadAll_def bindE_Inr_iff query_Inr st_doc_def)
  from tick_current[OF assms(1) f assms(6) _ this, of flt1] have "current x s (etag', p')" using srv assms(10) by simp
  moreover from f obtain s1 doc1 where "(store_step (px_H x))\<^sup>*\<^sup>* s1 s" "served x s1 = Some doc1" "ps_index p = BuildIndex doc1"
      "ps_version p = of_nat (db_version (st_db s1))" by (auto simp: follows_def current_def)
  ultimately show ?thesis using srv parseVersion_weak[OF assms(6)] by (auto simp: current_def served_def split: if_splits)
qed

section \<open>A sample node\<close>

definition pull_x :: pull_external where
  "pull_x = \<lparr>px_H = (\<lambda>_. []), px_decode = (\<lambda>_. Some \<lparr>al_Schema = Schema, al_Workloads = Some []\<rparr>), px_ParseMediaType = Some\<rparr>"

text \<open>The first attempt finds no CDS; the second does.\<close>

definition pull_env :: "nat \<Rightarrow> attempt_env" where
  "pull_env n = \<lparr>ae_signal = Proceed, ae_client = (if n = 1 then (\<lambda>_. None) else cds_client no_fault open_store no_fault open_store), ae_cancelled = False\<rparr>"

definition pull_store :: Store where
  "pull_store = snd (PutWorkload no_fault (\<lambda>_. []) ''web'' sample_entry open_store)"

abbreviation pull_doc :: Allowlist where
  "pull_doc \<equiv> \<lparr>al_Schema = Schema, al_Workloads = Some []\<rparr>"

lemma pull_json: "isJSONContentType pull_x ''application/json''"
  by code_simp

lemma pull_parse: "ParseServedJSON pull_x b = Some pull_doc"
  by (simp add: ParseServedJSON_def pull_x_def normalizeAllowlist_def)

lemma pull_first:
  "pullInitial pull_x pull_env (newPolicyStore None) =
     (Inr (weak_tag 1), (newPolicyStore None)\<lparr>ps_index := BuildIndex pull_doc, ps_version := 1\<rparr>, [2000000000])"
proof -
  have len: "int (length (Canonical (st_doc open_store))) \<le> maxAllowlistResponseBytes" by code_simp
  have got: "fetch pull_x (cds_client no_fault open_store no_fault open_store) [] = Inr (Some pull_doc, weak_tag 1, False)"
    unfolding fetch_cds[OF pull_json] served_def pull_parse using len by (simp add: LoadAll_no_fault open_store_def)
  have v: "parseVersion (weak_tag (Suc 0)) = 1" using parseVersion_weak[of 1] by simp
  have "pull_attempts pull_x pull_env 2 d (newPolicyStore None) =
      (Inr (weak_tag 1), (newPolicyStore None)\<lparr>ps_index := BuildIndex pull_doc, ps_version := 1\<rparr>, [])" for d
    by (subst pull_attempts.simps) (use got v in \<open>simp add: pull_env_def store_apply_def newPolicyStore_def\<close>)
  hence next': "pull_attempts pull_x pull_env (Suc (Suc 0)) d (newPolicyStore None) =
      (Inr (weak_tag 1), (newPolicyStore None)\<lparr>ps_index := BuildIndex pull_doc, ps_version := 1\<rparr>, [])" for d
    by (simp add: numeral_2_eq_2)
  have "fetch pull_x (\<lambda>_. None) [] = Inl RequestFailed" by (simp add: fetch_def)
  thus ?thesis unfolding pullInitial_def
    by (subst pull_attempts.simps) (use next' in \<open>simp add: pull_env_def\<close>)
qed

theorem pullInitial_ends_witness:
  "sum_list [2000000000 :: int] \<le> 30 * 1000000000 \<and>
   (\<exists>n doc. fetch pull_x (ae_client (pull_env n)) [] = Inr (Some doc, weak_tag 1, False))"
  using pullInitial_ends[OF pull_first] by auto

lemma pull_written:
  "store_step (\<lambda>_. []) open_store pull_store" "db_version (st_db pull_store) = 2" "int (length (Canonical (st_doc pull_store))) \<le> maxAllowlistResponseBytes"
proof -
  show "store_step (\<lambda>_. []) open_store pull_store"
    unfolding pull_store_def by (rule store_step.put[OF surjective_pairing])
  show "db_version (st_db pull_store) = 2" "int (length (Canonical (st_doc pull_store))) \<le> maxAllowlistResponseBytes" by code_simp+
qed

theorem policy_follows_witness:
  "ps_version (snd (pull_tick pull_x (cds_client no_fault pull_store no_fault pull_store)
     (weak_tag 1, (newPolicyStore None)\<lparr>ps_index := BuildIndex pull_doc, ps_version := 1\<rparr>))) = 2"
proof -
  let ?p = "(newPolicyStore None)\<lparr>ps_index := BuildIndex pull_doc, ps_version := 1\<rparr>"
  let ?t = "pull_tick pull_x (cds_client no_fault pull_store no_fault pull_store) (weak_tag 1, ?p)"
  have "(\<exists>e. fetch pull_x (ae_client (pull_env n)) [] = Inl e) \<or> (\<exists>flt1 flt2. ae_client (pull_env n) = cds_client flt1 open_store flt2 open_store)" for n
    by (cases "n = 1") (auto simp: pull_env_def fetch_def)
  moreover have "(pull_step pull_x)\<^sup>*\<^sup>* (open_store, weak_tag 1, ?p) (pull_store, weak_tag 1, ?p)"
    by (intro r_into_rtranclp pull_step.cds_write) (simp add: pull_written(1) pull_x_def)
  moreover have "db_version (st_db pull_store) < 2 ^ 64" by (simp add: pull_written(2))
  ultimately have "ps_version (snd ?t) = of_nat (db_version (st_db pull_store))"
    using policy_follows[OF pull_json rtranclp.rtrancl_refl pull_first _ _ _ LoadAll_no_fault pull_written(3) pull_parse, of "weak_tag 1" ?p no_fault "fst ?t" "snd ?t"]
    by simp
  thus ?thesis by (simp add: pull_written(2))
qed

end
