(* ===== verification/Webhook_Annotations.thy ===== *)
theory Webhook_Annotations
  imports Secret_Path Nri_Mounts
begin

text \<open>
  The request of a pod: how the admission webhook reads and checks its annotations (\<^verbatim>\<open>src/internal/webhook/pod_mutator.go\<close>, volume names in
  \<^verbatim>\<open>src/internal/cmds/volume/names.go\<close>). The Kubernetes label and DNS-name rules and Go's duration syntax are parameters. An annotation map is an
  association list; a missing key reads as the empty string.
\<close>

section \<open>Annotations\<close>

abbreviation AnnotationWorkload :: string where "AnnotationWorkload \<equiv> ''confidential.ai/cw''"
abbreviation LabelWorkload :: string where "LabelWorkload \<equiv> AnnotationWorkload"
abbreviation AnnotationSAN :: string where "AnnotationSAN \<equiv> ''confidential.ai/c8s-san''"
abbreviation AnnotationCertVolume :: string where "AnnotationCertVolume \<equiv> ''confidential.ai/c8s-cert-volume''"
abbreviation AnnotationCertDir :: string where "AnnotationCertDir \<equiv> ''confidential.ai/c8s-cert-dir''"
abbreviation AnnotationCertFile :: string where "AnnotationCertFile \<equiv> ''confidential.ai/c8s-cert-file''"
abbreviation AnnotationKeyFile :: string where "AnnotationKeyFile \<equiv> ''confidential.ai/c8s-key-file''"
abbreviation AnnotationCAFile :: string where "AnnotationCAFile \<equiv> ''confidential.ai/c8s-ca-file''"
abbreviation AnnotationRenewInterval :: string where "AnnotationRenewInterval \<equiv> ''confidential.ai/c8s-renew-interval''"
abbreviation AnnotationReloadNginx :: string where "AnnotationReloadNginx \<equiv> ''confidential.ai/c8s-reload-nginx''"
abbreviation AnnotationReloadWatchPaths :: string where "AnnotationReloadWatchPaths \<equiv> ''confidential.ai/c8s-reload-watch-paths''"
abbreviation AnnotationReloadWatchVolume :: string where "AnnotationReloadWatchVolume \<equiv> ''confidential.ai/c8s-reload-watch-volume''"
abbreviation AnnotationReloadWatchMountPath :: string where "AnnotationReloadWatchMountPath \<equiv> ''confidential.ai/c8s-reload-watch-mount-path''"
abbreviation AnnotationDiscoveryVolume :: string where "AnnotationDiscoveryVolume \<equiv> ''confidential.ai/c8s-discovery-volume''"
abbreviation AnnotationDiscoveryMountPath :: string where "AnnotationDiscoveryMountPath \<equiv> ''confidential.ai/c8s-discovery-mount-path''"
abbreviation AnnotationDiscoveryOut :: string where "AnnotationDiscoveryOut \<equiv> ''confidential.ai/c8s-discovery-out''"
abbreviation AnnotationDiscoveryCDSCertURL :: string where "AnnotationDiscoveryCDSCertURL \<equiv> ''confidential.ai/c8s-discovery-cds-cert-url''"
abbreviation AnnotationDiscoveryMeshCAURL :: string where "AnnotationDiscoveryMeshCAURL \<equiv> ''confidential.ai/c8s-discovery-mesh-ca-url''"
abbreviation AnnotationDiscoveryPublicTLSMode :: string where "AnnotationDiscoveryPublicTLSMode \<equiv> ''confidential.ai/c8s-discovery-public-tls-mode''"
abbreviation AnnotationGetCertRunAsUser :: string where "AnnotationGetCertRunAsUser \<equiv> ''confidential.ai/c8s-get-cert-run-as-user''"
abbreviation AnnotationGetCertRunAsGroup :: string where "AnnotationGetCertRunAsGroup \<equiv> ''confidential.ai/c8s-get-cert-run-as-group''"
abbreviation AnnotationGetCertRunAsNonRoot :: string where "AnnotationGetCertRunAsNonRoot \<equiv> ''confidential.ai/c8s-get-cert-run-as-non-root''"
abbreviation AnnotationGetCertVerbose :: string where "AnnotationGetCertVerbose \<equiv> ''confidential.ai/c8s-get-cert-verbose''"
abbreviation AnnotationSecrets :: string where "AnnotationSecrets \<equiv> ''confidential.ai/c8s-secrets''"
abbreviation AnnotationSecretDir :: string where "AnnotationSecretDir \<equiv> ''confidential.ai/c8s-secret-dir''"
abbreviation AnnotationVolumes :: string where "AnnotationVolumes \<equiv> ''confidential.ai/c8s-volumes''"
abbreviation AnnotationVolumeDir :: string where "AnnotationVolumeDir \<equiv> ''confidential.ai/c8s-volume-dir''"

section \<open>The injection\<close>

record secretsSpec =
  ss_Specs :: "string list"
  ss_Dir :: string

record volumesSpec =
  vs_Specs :: "string list"
  vs_Dir :: string

record certSpec =
  cs_Volume :: string
  cs_Dir :: string
  cs_CertFile :: string
  cs_KeyFile :: string
  cs_CAFile :: string
  cs_RenewInterval :: int

record reloadSpec =
  rl_Nginx :: bool
  rl_WatchPaths :: "string list"
  rl_WatchVolume :: string
  rl_WatchMountPath :: string

record discoverySpec =
  di_Volume :: string
  di_MountPath :: string
  di_Out :: string
  di_CDSCertURL :: string
  di_MeshCAURL :: string
  di_PublicTLSMode :: string

record getCertSecuritySpec =
  gs_RunAsUser :: "int option"
  gs_RunAsGroup :: "int option"
  gs_RunAsNonRoot :: "bool option"

record injection =
  ij_WorkloadID :: string
  ij_SAN :: string
  ij_Cert :: certSpec
  ij_Reload :: reloadSpec
  ij_Discovery :: discoverySpec
  ij_Security :: getCertSecuritySpec
  ij_Secrets :: secretsSpec
  ij_Volumes :: volumesSpec
  ij_Verbose :: bool

text \<open>Kubernetes' name rules, and \<^verbatim>\<open>time.ParseDuration\<close> with its printer.\<close>

record k8s_rules =
  kr_LabelValue :: "string \<Rightarrow> bool"
  kr_DNS1123Subdomain :: "string \<Rightarrow> bool"
  kr_DNS1035Label :: "string \<Rightarrow> bool"
  kr_ParseDuration :: "string \<Rightarrow> int option"
  kr_duration_String :: "int \<Rightarrow> string"

datatype webhook_error = BadDuration string | BadInt string | BadBool string | WorkloadRequired | BadWorkloadLabel | BadSAN | NegativeInterval
  | WatchNeedsPaths | PathsNeedVolume | PathsNeedMountPath | DiscoveryMissing "string list" | BadTLSMode | NotAPair string | BadName string | NameTwice string
  | BadPath path_error | RelativeDir string | BadVolumeName string
  | LabelMismatch | HostNetwork | NoInventory string | ReservedName string | ReservedVolume string | ReservedMount string string

section \<open>Reading single annotations\<close>

text \<open>\<^verbatim>\<open>strconv.ParseInt\<close> in base 10 with 64 bits: an optional sign, at least one digit, and the range.\<close>

definition digits_value :: "string \<Rightarrow> int option" where
  "digits_value s =
     (if s = [] \<or> \<not> list_all (\<lambda>c. CHR ''0'' \<le> c \<and> c \<le> CHR ''9'') s then None
      else Some (fold (\<lambda>c n. 10 * n + (int (of_char c) - 48)) s 0))"

definition ParseInt64 :: "string \<Rightarrow> int option" where
  "ParseInt64 s =
     (case (case s of [] \<Rightarrow> None | c # r \<Rightarrow>
              if c = CHR ''+'' then digits_value r
              else if c = CHR ''-'' then map_option uminus (digits_value r)
              else digits_value s) of
        None \<Rightarrow> None
      | Some n \<Rightarrow> if - (2 ^ 63) \<le> n \<and> n < 2 ^ 63 then Some n else None)"

definition ParseBool :: "string \<Rightarrow> bool option" where
  "ParseBool s =
     (if s \<in> {''1'', ''t'', ''T'', ''TRUE'', ''true'', ''True''} then Some True
      else if s \<in> {''0'', ''f'', ''F'', ''FALSE'', ''false'', ''False''} then Some False
      else None)"

definition durationAnnotation :: "k8s_rules \<Rightarrow> (string \<times> string) list \<Rightarrow> string \<Rightarrow> webhook_error + int" where
  "durationAnnotation k annotations name =
     (let value = TrimSpace (map_get annotations name) in
      if value = [] then Inr 0
      else (case kr_ParseDuration k value of None \<Rightarrow> Inl (BadDuration name) | Some parsed \<Rightarrow> Inr parsed))"

definition int64Annotation :: "(string \<times> string) list \<Rightarrow> string \<Rightarrow> webhook_error + int option" where
  "int64Annotation annotations name =
     (let value = TrimSpace (map_get annotations name) in
      if value = [] then Inr None
      else (case ParseInt64 value of None \<Rightarrow> Inl (BadInt name) | Some parsed \<Rightarrow> Inr (Some parsed)))"

definition boolPtrAnnotation :: "(string \<times> string) list \<Rightarrow> string \<Rightarrow> webhook_error + bool option" where
  "boolPtrAnnotation annotations name =
     (let value = TrimSpace (map_get annotations name) in
      if value = [] then Inr None
      else (case ParseBool value of None \<Rightarrow> Inl (BadBool name) | Some parsed \<Rightarrow> Inr (Some parsed)))"

definition boolAnnotation :: "(string \<times> string) list \<Rightarrow> string \<Rightarrow> webhook_error + bool" where
  "boolAnnotation annotations name =
     bindE (boolPtrAnnotation annotations name) (\<lambda>parsed. Inr (case parsed of None \<Rightarrow> False | Some b \<Rightarrow> b))"

definition listAnnotation :: "(string \<times> string) list \<Rightarrow> string \<Rightarrow> string list" where
  "listAnnotation annotations name =
     (let value = TrimSpace (map_get annotations name) in
      if value = [] then [] else filter (\<lambda>item. item \<noteq> []) (map TrimSpace (split_on (CHR '','') value)))"

definition hasInjectionDetailAnnotations :: "(string \<times> string) list \<Rightarrow> bool" where
  "hasInjectionDetailAnnotations annotations =
     list_ex (\<lambda>name. map_get annotations name \<noteq> [])
       [AnnotationSAN, AnnotationCertVolume, AnnotationCertDir, AnnotationCertFile, AnnotationKeyFile, AnnotationCAFile, AnnotationRenewInterval,
        AnnotationReloadNginx, AnnotationReloadWatchPaths, AnnotationReloadWatchVolume, AnnotationReloadWatchMountPath, AnnotationDiscoveryVolume,
        AnnotationDiscoveryMountPath, AnnotationDiscoveryOut, AnnotationDiscoveryCDSCertURL, AnnotationDiscoveryMeshCAURL,
        AnnotationDiscoveryPublicTLSMode, AnnotationGetCertRunAsUser, AnnotationGetCertRunAsGroup, AnnotationGetCertRunAsNonRoot,
        AnnotationGetCertVerbose, AnnotationSecrets, AnnotationSecretDir, AnnotationVolumes, AnnotationVolumeDir]"

section \<open>Checks\<close>

text \<open>\<^verbatim>\<open>nameRE\<close> is anchored: lower-case letters and digits, hyphens only inside.\<close>

definition ValidVolumeName :: "string \<Rightarrow> bool" where
  "ValidVolumeName name =
     (let alnum = (\<lambda>c. CHR ''a'' \<le> c \<and> c \<le> CHR ''z'' \<or> CHR ''0'' \<le> c \<and> c \<le> CHR ''9'') in
      name \<noteq> [] \<and> list_all (\<lambda>c. alnum c \<or> c = CHR ''-'') name \<and> alnum (hd name) \<and> alnum (last name) \<and> length name \<le> 20 - length ''c8s-vol-'')"

definition KubeVolumeName :: "string \<Rightarrow> string" where
  "KubeVolumeName name = KubeVolumePrefix @ name"

text \<open>The loop over the specs, with the names seen.\<close>

fun secret_specs :: "string list \<Rightarrow> string list \<Rightarrow> webhook_error + unit" where
  "secret_specs seen [] = Inr ()"
| "secret_specs seen (spec # specs) =
     (case Cut spec ''='' of
        None \<Rightarrow> Inl (NotAPair spec)
      | Some (raw, path) \<Rightarrow>
          let name = TrimSpace raw in
          if name = [] \<or> Contains name ''/'' \<or> Contains name [CHR 0x5C] \<or> name = ''.'' \<or> name = ''..'' then Inl (BadName name)
          else if name \<in> set seen then Inl (NameTwice name)
          else bindE (wrapE BadPath (CanonicalSecretPath (TrimSpace path))) (\<lambda>_. secret_specs (name # seen) specs))"

definition secrets_validate :: "secretsSpec \<Rightarrow> webhook_error + unit" where
  "secrets_validate s =
     bindE (secret_specs [] (ss_Specs s)) (\<lambda>_.
     guardE (\<not> (ss_Dir s \<noteq> [] \<and> \<not> HasPrefix (ss_Dir s) ''/'')) (RelativeDir AnnotationSecretDir))"

fun volume_specs :: "string list \<Rightarrow> string list \<Rightarrow> webhook_error + unit" where
  "volume_specs seen [] = Inr ()"
| "volume_specs seen (spec # specs) =
     (case Cut spec ''='' of
        None \<Rightarrow> Inl (NotAPair spec)
      | Some (raw, path) \<Rightarrow>
          let name = TrimSpace raw in
          if \<not> ValidVolumeName name then Inl (BadVolumeName name)
          else if name \<in> set seen then Inl (NameTwice name)
          else bindE (wrapE BadPath (CanonicalSecretPath (TrimSpace path))) (\<lambda>_. volume_specs (name # seen) specs))"

definition volumes_validate :: "volumesSpec \<Rightarrow> webhook_error + unit" where
  "volumes_validate v =
     bindE (volume_specs [] (vs_Specs v)) (\<lambda>_.
     guardE (\<not> (vs_Dir v \<noteq> [] \<and> \<not> HasPrefix (vs_Dir v) ''/'')) (RelativeDir AnnotationVolumeDir))"

definition reload_validate :: "reloadSpec \<Rightarrow> webhook_error + unit" where
  "reload_validate r =
     (if length (rl_WatchPaths r) = 0 then
        guardE (\<not> (rl_WatchVolume r \<noteq> [] \<or> rl_WatchMountPath r \<noteq> [])) WatchNeedsPaths
      else
        bindE (guardE (rl_WatchVolume r \<noteq> []) PathsNeedVolume) (\<lambda>_.
        guardE (rl_WatchMountPath r \<noteq> []) PathsNeedMountPath))"

definition discovery_configured :: "discoverySpec \<Rightarrow> bool" where
  "discovery_configured d =
     (di_Volume d \<noteq> [] \<or> di_MountPath d \<noteq> [] \<or> di_Out d \<noteq> [] \<or> di_CDSCertURL d \<noteq> [] \<or> di_MeshCAURL d \<noteq> [] \<or> di_PublicTLSMode d \<noteq> [])"

definition discovery_validate :: "discoverySpec \<Rightarrow> webhook_error + unit" where
  "discovery_validate d =
     (if \<not> discovery_configured d then Inr ()
      else
        let missing = (if di_Volume d = [] then [AnnotationDiscoveryVolume] else []) @
                      (if di_MountPath d = [] then [AnnotationDiscoveryMountPath] else []) @
                      (if di_Out d = [] then [AnnotationDiscoveryOut] else []) @
                      (if di_CDSCertURL d = [] then [AnnotationDiscoveryCDSCertURL] else []) @
                      (if di_PublicTLSMode d = [] then [AnnotationDiscoveryPublicTLSMode] else []) in
        if length missing > 0 then Inl (DiscoveryMissing missing)
        else guardE (di_PublicTLSMode d = ''cds'' \<or> di_PublicTLSMode d = ''webpki'') BadTLSMode)"

definition injection_validate :: "k8s_rules \<Rightarrow> injection \<Rightarrow> webhook_error + unit" where
  "injection_validate k ij =
     bindE (guardE (kr_LabelValue k (ij_WorkloadID ij)) BadWorkloadLabel) (\<lambda>_.
     bindE (guardE (\<not> (ij_SAN ij \<noteq> [] \<and> \<not> kr_DNS1123Subdomain k (ij_SAN ij))) BadSAN) (\<lambda>_.
     bindE (guardE (\<not> cs_RenewInterval (ij_Cert ij) < 0) NegativeInterval) (\<lambda>_.
     bindE (reload_validate (ij_Reload ij)) (\<lambda>_.
     bindE (discovery_validate (ij_Discovery ij)) (\<lambda>_.
     bindE (secrets_validate (ij_Secrets ij)) (\<lambda>_.
     volumes_validate (ij_Volumes ij)))))))"

text \<open>\<^const>\<open>None\<close> for a pod that has not opted in.\<close>

definition parseAnnotations :: "k8s_rules \<Rightarrow> (string \<times> string) list \<Rightarrow> webhook_error + injection option" where
  "parseAnnotations k annotations =
     (let ann = map_get annotations; id' = ann AnnotationWorkload in
      if id' = [] then
        (if hasInjectionDetailAnnotations annotations then Inl WorkloadRequired else Inr None)
      else
        bindE (durationAnnotation k annotations AnnotationRenewInterval) (\<lambda>interval.
        bindE (boolAnnotation annotations AnnotationReloadNginx) (\<lambda>nginx.
        let watchPaths = listAnnotation annotations AnnotationReloadWatchPaths in
        bindE (int64Annotation annotations AnnotationGetCertRunAsUser) (\<lambda>user.
        bindE (int64Annotation annotations AnnotationGetCertRunAsGroup) (\<lambda>group.
        bindE (boolPtrAnnotation annotations AnnotationGetCertRunAsNonRoot) (\<lambda>nonRoot.
        bindE (boolAnnotation annotations AnnotationGetCertVerbose) (\<lambda>verbose.
        let ij = \<lparr>ij_WorkloadID = id', ij_SAN = TrimSpace (ann AnnotationSAN),
              ij_Cert = \<lparr>cs_Volume = ann AnnotationCertVolume, cs_Dir = ann AnnotationCertDir, cs_CertFile = ann AnnotationCertFile,
                cs_KeyFile = ann AnnotationKeyFile, cs_CAFile = ann AnnotationCAFile, cs_RenewInterval = interval\<rparr>,
              ij_Reload = \<lparr>rl_Nginx = (nginx \<or> length watchPaths > 0), rl_WatchPaths = watchPaths,
                rl_WatchVolume = ann AnnotationReloadWatchVolume, rl_WatchMountPath = ann AnnotationReloadWatchMountPath\<rparr>,
              ij_Discovery = \<lparr>di_Volume = ann AnnotationDiscoveryVolume, di_MountPath = ann AnnotationDiscoveryMountPath,
                di_Out = ann AnnotationDiscoveryOut, di_CDSCertURL = ann AnnotationDiscoveryCDSCertURL, di_MeshCAURL = ann AnnotationDiscoveryMeshCAURL,
                di_PublicTLSMode = ann AnnotationDiscoveryPublicTLSMode\<rparr>,
              ij_Security = \<lparr>gs_RunAsUser = user, gs_RunAsGroup = group, gs_RunAsNonRoot = nonRoot\<rparr>,
              ij_Secrets = \<lparr>ss_Specs = listAnnotation annotations AnnotationSecrets, ss_Dir = TrimSpace (ann AnnotationSecretDir)\<rparr>,
              ij_Volumes = \<lparr>vs_Specs = listAnnotation annotations AnnotationVolumes, vs_Dir = TrimSpace (ann AnnotationVolumeDir)\<rparr>,
              ij_Verbose = verbose\<rparr> in
        bindE (injection_validate k ij) (\<lambda>_. Inr (Some ij)))))))))"

end
