(* ===== verification/Webhook_Mutate.thy ===== *)
theory Webhook_Mutate
  imports Webhook_Annotations
begin

text \<open>
  The mutation of a pod (\<^verbatim>\<open>src/internal/webhook/pod_mutator.go\<close>): the containers and volumes the webhook injects, the mounts it adds, and the checks on what
  a pod may not declare itself. Of the Kubernetes objects the model has the fields the webhook reads or writes; what it only carries along is one
  opaque field.
\<close>

section \<open>Pods\<close>

record VolumeMount =
  vm_Name :: string
  vm_MountPath :: string
  vm_ReadOnly :: bool
  vm_MountPropagation :: "string option"
  vm_Other :: string

datatype EnvVar = EnvValue string string | EnvFieldRef string string

record SecurityContext =
  se_AllowPrivilegeEscalation :: "bool option"
  se_ReadOnlyRootFilesystem :: "bool option"
  se_RunAsNonRoot :: "bool option"
  se_RunAsUser :: "int option"
  se_RunAsGroup :: "int option"
  se_Drop :: "string list"
  se_Seccomp :: "string option"

record k8s_Container =
  kc_Name :: string
  kc_Image :: string
  kc_ImagePullPolicy :: string
  kc_RestartPolicy :: "string option"
  kc_Command :: "string list"
  kc_Args :: "string list"
  kc_Env :: "EnvVar list"
  kc_VolumeMounts :: "VolumeMount list"
  kc_SecurityContext :: "SecurityContext option"
  kc_Other :: string

text \<open>A volume is an empty directory with a medium, or some other source.\<close>

record k8s_Volume =
  vo_Name :: string
  vo_EmptyDir :: "string option"
  vo_Other :: string

record PodSecurityContext =
  ps_FSGroup :: "int option"
  ps_SupplementalGroups :: "int list"

record k8s_Pod =
  kp_Annotations :: "(string \<times> string) list"
  kp_Labels :: "(string \<times> string) list"
  kp_HostNetwork :: bool
  kp_ShareProcessNamespace :: "bool option"
  kp_SecurityContext :: "PodSecurityContext option"
  kp_Volumes :: "k8s_Volume list"
  kp_Containers :: "k8s_Container list"
  kp_InitContainers :: "k8s_Container list"
  kp_EphemeralContainers :: "k8s_Container list"

record webhook_Config =
  wc_GetCertImage :: string
  wc_CDSURL :: string
  wc_AttestationApiURL :: string
  wc_CDSMeasurements :: "string list"
  wc_CDSRTMRs :: "string list"
  wc_CDSMeasurementsConfigJSON :: string
  wc_CertDir :: string
  wc_CertFSGroup :: "int option"
  wc_CertRenewInterval :: int
  wc_GetCertRunAsUser :: "int option"
  wc_GetCertRunAsGroup :: "int option"
  wc_GetCertRunAsNonRoot :: "bool option"
  wc_WorkloadClaimsHostDir :: string

abbreviation CertWaitContainerName :: string where "CertWaitContainerName \<equiv> ''c8s-cert-wait''"
abbreviation defaultCertVolumeName :: string where "defaultCertVolumeName \<equiv> ''c8s-certs''"
abbreviation secretsVolumeName :: string where "secretsVolumeName \<equiv> ''c8s-secrets''"
abbreviation StorageMediumMemory :: string where "StorageMediumMemory \<equiv> ''Memory''"
abbreviation (input) StorageMediumDefault :: string where "StorageMediumDefault \<equiv> ''''"
abbreviation InventorySocketGID :: int where "InventorySocketGID \<equiv> 65532"

definition IsInjectedContainerName :: "string \<Rightarrow> bool" where
  "IsInjectedContainerName name = (IsSidecarContainer name \<or> name = CertWaitContainerName)"

section \<open>Defaults\<close>

text \<open>Durations are nanoseconds: two hours, and three minutes.\<close>

definition config_withDefaults :: "webhook_Config \<Rightarrow> webhook_Config" where
  "config_withDefaults cfg =
     cfg\<lparr>wc_CertDir := (if wc_CertDir cfg = [] then ''/etc/c8s/certs'' else wc_CertDir cfg),
         wc_CertFSGroup := (case wc_CertFSGroup cfg of None \<Rightarrow> Some 65532 | Some g \<Rightarrow> Some g),
         wc_CertRenewInterval := (if wc_CertRenewInterval cfg \<le> 0 then 7200000000000 else wc_CertRenewInterval cfg),
         wc_GetCertRunAsUser := (case wc_GetCertRunAsUser cfg of None \<Rightarrow> Some 65532 | Some u \<Rightarrow> Some u),
         wc_GetCertRunAsGroup := (case wc_GetCertRunAsGroup cfg of None \<Rightarrow> Some 65532 | Some g \<Rightarrow> Some g),
         wc_GetCertRunAsNonRoot := (case wc_GetCertRunAsNonRoot cfg of None \<Rightarrow> Some True | Some b \<Rightarrow> Some b)\<rparr>"

definition injection_withDefaults :: "webhook_Config \<Rightarrow> injection \<Rightarrow> injection" where
  "injection_withDefaults cfg ij =
     ij\<lparr>ij_SAN := (if ij_SAN ij = [] then ij_WorkloadID ij else ij_SAN ij),
        ij_Cert := (let c = ij_Cert ij in
          c\<lparr>cs_Volume := (if cs_Volume c = [] then defaultCertVolumeName else cs_Volume c),
            cs_Dir := (if cs_Dir c = [] then wc_CertDir cfg else cs_Dir c),
            cs_CertFile := (if cs_CertFile c = [] then ''tls.crt'' else cs_CertFile c),
            cs_KeyFile := (if cs_KeyFile c = [] then ''tls.key'' else cs_KeyFile c),
            cs_CAFile := (if cs_CAFile c = [] then ''ca.crt'' else cs_CAFile c),
            cs_RenewInterval := (if cs_RenewInterval c \<le> 0 then wc_CertRenewInterval cfg else cs_RenewInterval c)\<rparr>),
        ij_Secrets := (ij_Secrets ij)\<lparr>ss_Dir := (if ss_Dir (ij_Secrets ij) = [] then ''/run/c8s/secrets'' else ss_Dir (ij_Secrets ij))\<rparr>,
        ij_Volumes := (ij_Volumes ij)\<lparr>vs_Dir := (if vs_Dir (ij_Volumes ij) = [] then ''/run/c8s/volumes'' else vs_Dir (ij_Volumes ij))\<rparr>,
        ij_Security := (let s = ij_Security ij in
          s\<lparr>gs_RunAsUser := (case gs_RunAsUser s of None \<Rightarrow> wc_GetCertRunAsUser cfg | Some u \<Rightarrow> Some u),
            gs_RunAsGroup := (case gs_RunAsGroup s of None \<Rightarrow> wc_GetCertRunAsGroup cfg | Some g \<Rightarrow> Some g),
            gs_RunAsNonRoot := (case gs_RunAsNonRoot s of None \<Rightarrow> wc_GetCertRunAsNonRoot cfg | Some b \<Rightarrow> Some b)\<rparr>)\<rparr>"

section \<open>The injected containers\<close>

text \<open>\<^verbatim>\<open>filepath.Join\<close> of two elements: the non-empty ones joined and cleaned.\<close>

definition filepath_Join :: "string \<Rightarrow> string \<Rightarrow> string" where
  "filepath_Join a b =
     (if a = [] \<and> b = [] then [] else path_clean (Join ''/'' (filter (\<lambda>s. s \<noteq> []) [a, b])))"

definition certPath :: "string \<Rightarrow> string \<Rightarrow> string" where
  "certPath dir name = (if HasPrefix name ''/'' then name else filepath_Join dir name)"

definition discoveryArgs :: "discoverySpec \<Rightarrow> string list" where
  "discoveryArgs d =
     (if di_Out d \<noteq> [] then [''--discovery-out='' @ di_Out d] else []) @
     (if di_CDSCertURL d \<noteq> [] then [''--discovery-cds-cert-url='' @ di_CDSCertURL d] else []) @
     (if di_PublicTLSMode d \<noteq> [] then [''--discovery-public-tls-mode='' @ di_PublicTLSMode d] else []) @
     (if di_MeshCAURL d \<noteq> [] then [''--discovery-mesh-ca-url='' @ di_MeshCAURL d] else [])"

definition getCertVolumeMounts :: "injection \<Rightarrow> bool \<Rightarrow> VolumeMount list" where
  "getCertVolumeMounts ij includeReloadWatch =
     [\<lparr>vm_Name = cs_Volume (ij_Cert ij), vm_MountPath = cs_Dir (ij_Cert ij), vm_ReadOnly = False, vm_MountPropagation = None, vm_Other = []\<rparr>] @
     (if di_Volume (ij_Discovery ij) \<noteq> [] \<and> di_MountPath (ij_Discovery ij) \<noteq> []
      then [\<lparr>vm_Name = di_Volume (ij_Discovery ij), vm_MountPath = di_MountPath (ij_Discovery ij), vm_ReadOnly = False, vm_MountPropagation = None, vm_Other = []\<rparr>]
      else []) @
     (if includeReloadWatch \<and> rl_WatchVolume (ij_Reload ij) \<noteq> [] \<and> rl_WatchMountPath (ij_Reload ij) \<noteq> []
      then [\<lparr>vm_Name = rl_WatchVolume (ij_Reload ij), vm_MountPath = rl_WatchMountPath (ij_Reload ij), vm_ReadOnly = True, vm_MountPropagation = None, vm_Other = []\<rparr>]
      else [])"

definition getCertEnv :: "injection \<Rightarrow> EnvVar list" where
  "getCertEnv ij =
     [EnvValue ''C8S_WORKLOAD_ID'' (ij_WorkloadID ij), EnvFieldRef ''C8S_POD_NAME'' ''metadata.name'', EnvFieldRef ''C8S_POD_UID'' ''metadata.uid'',
      EnvFieldRef ''HOST_IP'' ''status.hostIP'']"

definition getCertSecurityContext :: "injection \<Rightarrow> SecurityContext" where
  "getCertSecurityContext ij =
     \<lparr>se_AllowPrivilegeEscalation = Some False, se_ReadOnlyRootFilesystem = Some True, se_RunAsNonRoot = gs_RunAsNonRoot (ij_Security ij),
      se_RunAsUser = gs_RunAsUser (ij_Security ij), se_RunAsGroup = gs_RunAsGroup (ij_Security ij), se_Drop = [''ALL''], se_Seccomp = Some ''RuntimeDefault''\<rparr>"

definition sidecarAttestationApiURL :: "webhook_Config \<Rightarrow> string" where
  "sidecarAttestationApiURL cfg =
     (let hostPrefix = ''unix://'' @ wc_WorkloadClaimsHostDir cfg @ ''/'' in
      if wc_WorkloadClaimsHostDir cfg = [] \<or> \<not> HasPrefix (wc_AttestationApiURL cfg) hostPrefix then wc_AttestationApiURL cfg
      else ''unix://'' @ SidecarSocketDir @ ''/'' @ TrimPrefix (wc_AttestationApiURL cfg) hostPrefix)"

definition cdsPinArgs :: "webhook_Config \<Rightarrow> bool \<Rightarrow> string list" where
  "cdsPinArgs cfg certificate =
     (if wc_CDSMeasurementsConfigJSON cfg \<noteq> [] then [''--image-policy-json='' @ wc_CDSMeasurementsConfigJSON cfg]
      else if certificate then
        (let joined = Join '','' (wc_CDSMeasurements cfg) in if joined \<noteq> [] then [''--cds-measurements='' @ joined] else []) @
        (let joined = Join '','' (wc_CDSRTMRs cfg) in if joined \<noteq> [] then [''--cds-rtmrs='' @ joined] else [])
      else map (\<lambda>m. ''--measurements='' @ m) (wc_CDSMeasurements cfg) @ map (\<lambda>r. ''--rtmrs='' @ r) (wc_CDSRTMRs cfg))"

definition certContainer :: "k8s_rules \<Rightarrow> injection \<Rightarrow> webhook_Config \<Rightarrow> k8s_Container" where
  "certContainer k ij cfg =
     \<lparr>kc_Name = CertContainerName, kc_Image = wc_GetCertImage cfg, kc_ImagePullPolicy = ''IfNotPresent'', kc_RestartPolicy = Some ''Always'', kc_Command = [],
      kc_Args =
        [''get-cert'', ''--cds-url='' @ wc_CDSURL cfg, ''--attestation-api-url='' @ sidecarAttestationApiURL cfg, ''--san='' @ ij_SAN ij,
         ''--out='' @ certPath (cs_Dir (ij_Cert ij)) (cs_CertFile (ij_Cert ij)), ''--key-out='' @ certPath (cs_Dir (ij_Cert ij)) (cs_KeyFile (ij_Cert ij)),
         ''--ca-out='' @ certPath (cs_Dir (ij_Cert ij)) (cs_CAFile (ij_Cert ij)),
         ''--renew-interval='' @ kr_duration_String k (cs_RenewInterval (ij_Cert ij)),
         ''--reload-nginx='' @ (if rl_Nginx (ij_Reload ij) then ''true'' else ''false''), ''--continue-on-initial-error''] @
        map (\<lambda>path. ''--reload-watch='' @ path) (rl_WatchPaths (ij_Reload ij)) @ discoveryArgs (ij_Discovery ij) @ cdsPinArgs cfg True @
        (if wc_WorkloadClaimsHostDir cfg \<noteq> [] then [''--workload-claims''] else []) @ (if ij_Verbose ij then [''--verbose''] else []),
      kc_Env = getCertEnv ij, kc_VolumeMounts = getCertVolumeMounts ij True, kc_SecurityContext = Some (getCertSecurityContext ij), kc_Other = []\<rparr>"

definition certWaitContainer :: "k8s_rules \<Rightarrow> injection \<Rightarrow> webhook_Config \<Rightarrow> k8s_Container" where
  "certWaitContainer k ij cfg =
     \<lparr>kc_Name = CertWaitContainerName, kc_Image = wc_GetCertImage cfg, kc_ImagePullPolicy = ''IfNotPresent'', kc_RestartPolicy = None,
      kc_Command = [''/c8s'', ''probe-file'', ''--wait'', ''--timeout='' @ kr_duration_String k 180000000000,
        certPath (cs_Dir (ij_Cert ij)) (cs_CertFile (ij_Cert ij))],
      kc_Args = [], kc_Env = [], kc_VolumeMounts = getCertVolumeMounts ij False, kc_SecurityContext = Some (getCertSecurityContext ij), kc_Other = []\<rparr>"

definition volumeContainer :: "injection \<Rightarrow> webhook_Config \<Rightarrow> k8s_Container" where
  "volumeContainer ij cfg =
     \<lparr>kc_Name = VolumeContainerName, kc_Image = wc_GetCertImage cfg, kc_ImagePullPolicy = ''IfNotPresent'', kc_RestartPolicy = Some ''Always'', kc_Command = [],
      kc_Args =
        [''get-volume'', ''--cds-url='' @ wc_CDSURL cfg, ''--attestation-api-url='' @ sidecarAttestationApiURL cfg,
         ''--cert='' @ certPath (cs_Dir (ij_Cert ij)) (cs_CertFile (ij_Cert ij)), ''--key='' @ certPath (cs_Dir (ij_Cert ij)) (cs_KeyFile (ij_Cert ij))] @
        map (\<lambda>spec. ''--volume='' @ spec) (vs_Specs (ij_Volumes ij)) @ cdsPinArgs cfg False,
      kc_Env = getCertEnv ij, kc_VolumeMounts = getCertVolumeMounts ij False, kc_SecurityContext = Some (getCertSecurityContext ij), kc_Other = []\<rparr>"

definition secretContainer :: "injection \<Rightarrow> webhook_Config \<Rightarrow> k8s_Container" where
  "secretContainer ij cfg =
     \<lparr>kc_Name = SecretContainerName, kc_Image = wc_GetCertImage cfg, kc_ImagePullPolicy = ''IfNotPresent'', kc_RestartPolicy = Some ''Always'', kc_Command = [],
      kc_Args =
        [''get-secret'', ''--cds-url='' @ wc_CDSURL cfg, ''--attestation-api-url='' @ sidecarAttestationApiURL cfg,
         ''--cert='' @ certPath (cs_Dir (ij_Cert ij)) (cs_CertFile (ij_Cert ij)), ''--key='' @ certPath (cs_Dir (ij_Cert ij)) (cs_KeyFile (ij_Cert ij)),
         ''--out-dir='' @ ss_Dir (ij_Secrets ij)] @
        map (\<lambda>spec. ''--secret='' @ spec) (ss_Specs (ij_Secrets ij)) @ cdsPinArgs cfg False,
      kc_Env = getCertEnv ij,
      kc_VolumeMounts = getCertVolumeMounts ij False @
        [\<lparr>vm_Name = secretsVolumeName, vm_MountPath = ss_Dir (ij_Secrets ij), vm_ReadOnly = False, vm_MountPropagation = None, vm_Other = []\<rparr>],
      kc_SecurityContext = Some (getCertSecurityContext ij), kc_Other = []\<rparr>"

section \<open>Volumes and mounts\<close>

definition certsVolume :: "string \<Rightarrow> k8s_Volume" where
  "certsVolume name = \<lparr>vo_Name = name, vo_EmptyDir = Some StorageMediumMemory, vo_Other = []\<rparr>"

definition secretsVolume :: k8s_Volume where
  "secretsVolume = \<lparr>vo_Name = secretsVolumeName, vo_EmptyDir = Some StorageMediumMemory, vo_Other = []\<rparr>"

definition openedVolume :: "string \<Rightarrow> k8s_Volume" where
  "openedVolume name = \<lparr>vo_Name = KubeVolumeName name, vo_EmptyDir = Some StorageMediumDefault, vo_Other = []\<rparr>"

definition volumeNames :: "string list \<Rightarrow> string list" where
  "volumeNames specs = concat (map (\<lambda>spec. case Cut spec ''='' of None \<Rightarrow> [] | Some (name, _) \<Rightarrow> [TrimSpace name]) specs)"

definition ensureVolume :: "k8s_Volume \<Rightarrow> k8s_Pod \<Rightarrow> k8s_Pod" where
  "ensureVolume v pod =
     (if list_ex (\<lambda>existing. vo_Name existing = vo_Name v) (kp_Volumes pod) then pod else pod\<lparr>kp_Volumes := kp_Volumes pod @ [v]\<rparr>)"

text \<open>The loop that overwrites the first volume of the name, or appends.\<close>

fun replace_first :: "k8s_Volume \<Rightarrow> k8s_Volume list \<Rightarrow> k8s_Volume list" where
  "replace_first v [] = [v]"
| "replace_first v (w # ws) = (if vo_Name w = vo_Name v then v # ws else w # replace_first v ws)"

definition replaceVolume :: "k8s_Volume \<Rightarrow> k8s_Pod \<Rightarrow> k8s_Pod" where
  "replaceVolume v pod = pod\<lparr>kp_Volumes := replace_first v (kp_Volumes pod)\<rparr>"

text \<open>\<^verbatim>\<open>containerMount\<close> returns a pointer to the first mount of the name, through which the caller writes; a container without one gets the mount appended.\<close>

fun amend_mount :: "(VolumeMount \<Rightarrow> VolumeMount) \<Rightarrow> VolumeMount \<Rightarrow> VolumeMount list \<Rightarrow> VolumeMount list" where
  "amend_mount f mount [] = [mount]"
| "amend_mount f mount (m # ms) = (if vm_Name m = vm_Name mount then f m # ms else m # amend_mount f mount ms)"

definition mountAll :: "VolumeMount \<Rightarrow> k8s_Pod \<Rightarrow> k8s_Pod" where
  "mountAll mount pod =
     (let add = map (\<lambda>c. c\<lparr>kc_VolumeMounts := amend_mount (\<lambda>m. m\<lparr>vm_ReadOnly := True\<rparr>) mount (kc_VolumeMounts c)\<rparr>) in
      pod\<lparr>kp_Containers := add (kp_Containers pod), kp_InitContainers := add (kp_InitContainers pod)\<rparr>)"

definition remountAll :: "VolumeMount \<Rightarrow> k8s_Pod \<Rightarrow> k8s_Pod" where
  "remountAll mount pod =
     (let replace = map (\<lambda>c. c\<lparr>kc_VolumeMounts := amend_mount (\<lambda>_. mount) mount (kc_VolumeMounts c)\<rparr>) in
      pod\<lparr>kp_Containers := replace (kp_Containers pod), kp_InitContainers := replace (kp_InitContainers pod)\<rparr>)"

definition ensureFSGroup :: "int \<Rightarrow> k8s_Pod \<Rightarrow> k8s_Pod" where
  "ensureFSGroup fsGroup pod =
     (let sc = (case kp_SecurityContext pod of None \<Rightarrow> \<lparr>ps_FSGroup = None, ps_SupplementalGroups = []\<rparr> | Some s \<Rightarrow> s) in
      pod\<lparr>kp_SecurityContext := Some (if ps_FSGroup sc = None then sc\<lparr>ps_FSGroup := Some fsGroup\<rparr> else sc)\<rparr>)"

definition ensureSupplementalGroup :: "int \<Rightarrow> k8s_Pod \<Rightarrow> k8s_Pod" where
  "ensureSupplementalGroup gid pod =
     (let sc = (case kp_SecurityContext pod of None \<Rightarrow> \<lparr>ps_FSGroup = None, ps_SupplementalGroups = []\<rparr> | Some s \<Rightarrow> s) in
      pod\<lparr>kp_SecurityContext := Some (if gid \<in> set (ps_SupplementalGroups sc) then sc else sc\<lparr>ps_SupplementalGroups := ps_SupplementalGroups sc @ [gid]\<rparr>)\<rparr>)"

definition injectInitContainers :: "k8s_Container list \<Rightarrow> k8s_Container list \<Rightarrow> k8s_Container list" where
  "injectInitContainers existing injected = injected @ filter (\<lambda>c. kc_Name c \<notin> kc_Name ` set injected) existing"

section \<open>The mutation\<close>

definition mutatePod :: "k8s_rules \<Rightarrow> injection \<Rightarrow> webhook_Config \<Rightarrow> k8s_Pod \<Rightarrow> k8s_Pod" where
  "mutatePod k ij cfg0 pod =
     (let cfg = config_withDefaults cfg0;
          eff = injection_withDefaults cfg ij;
          p1 = (case wc_CertFSGroup cfg of None \<Rightarrow> pod | Some g \<Rightarrow> if g \<ge> 0 then ensureFSGroup g pod else pod);
          p2 = ensureVolume (certsVolume (cs_Volume (ij_Cert eff))) p1;
          p3 = (if wc_WorkloadClaimsHostDir cfg \<noteq> [] then ensureSupplementalGroup InventorySocketGID p2 else p2);
          p4 = mountAll \<lparr>vm_Name = cs_Volume (ij_Cert eff), vm_MountPath = cs_Dir (ij_Cert eff), vm_ReadOnly = True, vm_MountPropagation = None, vm_Other = []\<rparr> p3;
          p5 = (if rl_Nginx (ij_Reload eff) then p4\<lparr>kp_ShareProcessNamespace := Some True\<rparr> else p4);
          p6 = (if length (ss_Specs (ij_Secrets eff)) > 0 then
                  mountAll \<lparr>vm_Name = secretsVolumeName, vm_MountPath = ss_Dir (ij_Secrets eff), vm_ReadOnly = True, vm_MountPropagation = None, vm_Other = []\<rparr>
                    (ensureVolume secretsVolume p5)
                else p5);
          p7 = (if length (vs_Specs (ij_Volumes eff)) > 0 then
                  fold (\<lambda>name p. remountAll \<lparr>vm_Name = KubeVolumeName name, vm_MountPath = filepath_Join (vs_Dir (ij_Volumes eff)) name, vm_ReadOnly = False,
                      vm_MountPropagation = Some ''HostToContainer'', vm_Other = []\<rparr> (replaceVolume (openedVolume name) p))
                    (volumeNames (vs_Specs (ij_Volumes eff))) p6
                else p6);
          injected = [certContainer k eff cfg, certWaitContainer k eff cfg] @
            (if length (ss_Specs (ij_Secrets eff)) > 0 then [secretContainer eff cfg] else []) @
            (if length (vs_Specs (ij_Volumes eff)) > 0 then [volumeContainer eff cfg] else [])
      in p7\<lparr>kp_InitContainers := injectInitContainers (kp_InitContainers p7) injected,
            kp_Annotations := AList.update AnnotationInjected ''true'' (kp_Annotations p7),
            kp_Labels := AList.update LabelWorkload (ij_WorkloadID ij) (kp_Labels p7)\<rparr>)"

section \<open>What a pod may not declare\<close>

definition validateWorkloadLabel :: "k8s_Pod \<Rightarrow> webhook_error + unit" where
  "validateWorkloadLabel pod =
     (case map_of (kp_Labels pod) LabelWorkload of
        None \<Rightarrow> Inr ()
      | Some label \<Rightarrow> guardE (map_get (kp_Annotations pod) AnnotationWorkload = label) LabelMismatch)"

definition rejectReservedCertContainer :: "k8s_Pod \<Rightarrow> webhook_error + unit" where
  "rejectReservedCertContainer pod =
     (case find (\<lambda>c. IsInjectedContainerName (kc_Name c)) (kp_Containers pod @ kp_EphemeralContainers pod) of
        None \<Rightarrow> Inr () | Some c \<Rightarrow> Inl (ReservedName (kc_Name c)))"

text \<open>The three checks of pre-declared volumes differ in the names they cover and the medium they want.\<close>

definition volume_guard :: "(string \<Rightarrow> bool) \<Rightarrow> string \<Rightarrow> k8s_Pod \<Rightarrow> webhook_error + unit" where
  "volume_guard covers medium pod =
     (case find (\<lambda>v. covers (vo_Name v) \<and> vo_EmptyDir v \<noteq> Some medium) (kp_Volumes pod) of
        None \<Rightarrow> Inr () | Some v \<Rightarrow> Inl (ReservedVolume (vo_Name v)))"

definition rejectReservedCertVolume :: "string \<Rightarrow> k8s_Pod \<Rightarrow> webhook_error + unit" where
  "rejectReservedCertVolume volName pod = volume_guard (\<lambda>n. n = volName) StorageMediumMemory pod"

definition rejectReservedSecretsVolume :: "k8s_Pod \<Rightarrow> webhook_error + unit" where
  "rejectReservedSecretsVolume pod = volume_guard (\<lambda>n. n = secretsVolumeName) StorageMediumMemory pod"

definition rejectReservedVolumeVolume :: "k8s_Pod \<Rightarrow> webhook_error + unit" where
  "rejectReservedVolumeVolume pod = volume_guard (\<lambda>n. HasPrefix n KubeVolumePrefix) StorageMediumDefault pod"

definition reservedVolumeNames :: "k8s_Pod \<Rightarrow> string list" where
  "reservedVolumeNames pod =
     (let named = TrimSpace (map_get (kp_Annotations pod) AnnotationCertVolume);
          certVolume = (if named = [] then defaultCertVolumeName else named) in
      [secretsVolumeName, certVolume] @
      concat (map (\<lambda>c. map vm_Name (kc_VolumeMounts c)) (filter (\<lambda>c. IsInjectedContainerName (kc_Name c)) (kp_InitContainers pod))))"

fun ephemeral_loop :: "string list \<Rightarrow> k8s_Container list \<Rightarrow> webhook_error + unit" where
  "ephemeral_loop reserved [] = Inr ()"
| "ephemeral_loop reserved (c # cs) =
     (if IsInjectedContainerName (kc_Name c) then Inl (ReservedName (kc_Name c))
      else (case find (\<lambda>m. vm_Name m \<in> set reserved \<or> HasPrefix (vm_Name m) KubeVolumePrefix) (kc_VolumeMounts c) of
              Some m \<Rightarrow> Inl (ReservedMount (kc_Name c) (vm_Name m))
            | None \<Rightarrow> ephemeral_loop reserved cs))"

definition rejectEphemeralReservedMounts :: "k8s_Pod \<Rightarrow> webhook_error + unit" where
  "rejectEphemeralReservedMounts pod = ephemeral_loop (reservedVolumeNames pod) (kp_EphemeralContainers pod)"

section \<open>The handler\<close>

definition WorkloadServiceName :: "k8s_rules \<Rightarrow> string \<Rightarrow> string" where
  "WorkloadServiceName k cwID =
     (if cwID = [] then [] else if \<not> kr_DNS1035Label k (''c8s-'' @ cwID) then [] else ''c8s-'' @ cwID)"

definition workloadServiceDNS :: "k8s_rules \<Rightarrow> string \<Rightarrow> string \<Rightarrow> string" where
  "workloadServiceDNS k cwID namespace =
     (if WorkloadServiceName k cwID = [] \<or> namespace = [] then [] else WorkloadServiceName k cwID @ ''.'' @ namespace @ ''.svc'')"

definition workloadSAN :: "k8s_rules \<Rightarrow> string \<Rightarrow> string \<Rightarrow> string" where
  "workloadSAN k cwID namespace = (if workloadServiceDNS k cwID namespace \<noteq> [] then workloadServiceDNS k cwID namespace else cwID)"

text \<open>The decision: a refusal, an admission as is, or the pod the patch leads to. A body that does not decode is refused.\<close>

datatype admission = Errored "webhook_error option" | Allowed | Patched k8s_Pod

definition webhook_Handle :: "k8s_rules \<Rightarrow> webhook_Config \<Rightarrow> string \<Rightarrow> string \<Rightarrow> k8s_Pod option \<Rightarrow> admission" where
  "webhook_Handle k cfg subResource namespace decoded =
     (case decoded of
        None \<Rightarrow> Errored None
      | Some pod \<Rightarrow>
          if subResource = ''ephemeralcontainers'' then
            (case rejectEphemeralReservedMounts pod of Inl e \<Rightarrow> Errored (Some e) | Inr _ \<Rightarrow> Allowed)
          else
            (case bindE (validateWorkloadLabel pod) (\<lambda>_.
                  bindE (parseAnnotations k (kp_Annotations pod)) (\<lambda>inj0.
                    case inj0 of
                      None \<Rightarrow> Inr None
                    | Some ij \<Rightarrow>
                        bindE (guardE (\<not> kp_HostNetwork pod) HostNetwork) (\<lambda>_.
                        bindE (guardE (\<not> (length (ss_Specs (ij_Secrets ij)) > 0 \<and> wc_WorkloadClaimsHostDir cfg = [])) (NoInventory AnnotationSecrets)) (\<lambda>_.
                        bindE (guardE (\<not> (length (vs_Specs (ij_Volumes ij)) > 0 \<and> wc_WorkloadClaimsHostDir cfg = [])) (NoInventory AnnotationVolumes)) (\<lambda>_.
                        let named = (if ij_SAN ij = [] then ij\<lparr>ij_SAN := workloadSAN k (ij_WorkloadID ij) namespace\<rparr> else ij) in
                        bindE (rejectReservedCertContainer pod) (\<lambda>_.
                        if wc_GetCertImage cfg = [] then Inr (Some pod)
                        else
                          bindE (rejectReservedCertVolume (cs_Volume (ij_Cert (injection_withDefaults cfg named))) pod) (\<lambda>_.
                          bindE (rejectReservedSecretsVolume pod) (\<lambda>_.
                          bindE (rejectReservedVolumeVolume pod) (\<lambda>_.
                          Inr (Some (mutatePod k named cfg pod))))))))))) of
               Inl e \<Rightarrow> Errored (Some e)
             | Inr None \<Rightarrow> Allowed
             | Inr (Some pod') \<Rightarrow> Patched pod'))"

end
