(* ===== verification/Webhook.thy ===== *)
theory Webhook
  imports Webhook_Mutate
begin

text \<open>
  What the webhook guarantees of an admitted pod: the injected containers are the operator's, private material lives in memory, mutating again changes
  nothing, and a debug container attached later cannot mount what the injected containers hold.
\<close>

section \<open>Mounts\<close>

abbreviation mount_named :: "string \<Rightarrow> VolumeMount list \<Rightarrow> VolumeMount option" where
  "mount_named n \<equiv> find (\<lambda>m. vm_Name m = n)"

lemma find_amend:
  assumes "\<And>m. vm_Name m = vm_Name mount \<Longrightarrow> vm_Name (f m) = vm_Name m"
  shows "mount_named n (amend_mount f mount ms) =
    (if n = vm_Name mount then Some (case mount_named n ms of None \<Rightarrow> mount | Some m \<Rightarrow> f m) else mount_named n ms)"
  using assms by (induction ms) auto

lemma amend_id: "mount_named (vm_Name mount) ms = Some m \<Longrightarrow> f m = m \<Longrightarrow> amend_mount f mount ms = ms"
  by (induction ms) (auto split: if_splits)

abbreviation coerce :: "VolumeMount \<Rightarrow> VolumeMount list \<Rightarrow> VolumeMount list" where
  "coerce \<equiv> amend_mount (\<lambda>m. m\<lparr>vm_ReadOnly := True\<rparr>)"

abbreviation overwrite :: "VolumeMount \<Rightarrow> VolumeMount list \<Rightarrow> VolumeMount list" where
  "overwrite mount \<equiv> amend_mount (\<lambda>_. mount) mount"

definition cert_mount :: "injection \<Rightarrow> VolumeMount" where
  "cert_mount eff = \<lparr>vm_Name = cs_Volume (ij_Cert eff), vm_MountPath = cs_Dir (ij_Cert eff), vm_ReadOnly = True, vm_MountPropagation = None, vm_Other = []\<rparr>"

definition secret_mount :: "injection \<Rightarrow> VolumeMount" where
  "secret_mount eff = \<lparr>vm_Name = secretsVolumeName, vm_MountPath = ss_Dir (ij_Secrets eff), vm_ReadOnly = True, vm_MountPropagation = None, vm_Other = []\<rparr>"

definition opened_mount :: "injection \<Rightarrow> string \<Rightarrow> VolumeMount" where
  "opened_mount eff name = \<lparr>vm_Name = KubeVolumeName name, vm_MountPath = filepath_Join (vs_Dir (ij_Volumes eff)) name, vm_ReadOnly = False,
     vm_MountPropagation = Some ''HostToContainer'', vm_Other = []\<rparr>"

definition opened_names :: "injection \<Rightarrow> string list" where
  "opened_names eff = volumeNames (vs_Specs (ij_Volumes eff))"

text \<open>What the mutation does to the mounts of one authored container.\<close>

definition container_mounts :: "injection \<Rightarrow> VolumeMount list \<Rightarrow> VolumeMount list" where
  "container_mounts eff ms =
     fold (\<lambda>name. overwrite (opened_mount eff name)) (opened_names eff)
       ((if ss_Specs (ij_Secrets eff) = [] then (\<lambda>x. x) else coerce (secret_mount eff)) (coerce (cert_mount eff) ms))"

lemma opened_names_nil: "vs_Specs (ij_Volumes eff) = [] \<Longrightarrow> opened_names eff = []"
  by (simp add: opened_names_def volumeNames_def)

lemma find_overwrites:
  "mount_named n (fold (\<lambda>name. overwrite (opened_mount eff name)) names ms) =
     (if n \<in> KubeVolumeName ` set names then Some (opened_mount eff (the_inv_into UNIV KubeVolumeName n)) else mount_named n ms)"
proof -
  have inj: "inj KubeVolumeName" by (auto simp: inj_def KubeVolumeName_def)
  show ?thesis
  proof (induction names arbitrary: ms)
    case (Cons a names)
    have "mount_named n (overwrite (opened_mount eff a) ms) = (if n = KubeVolumeName a then Some (opened_mount eff a) else mount_named n ms)"
      by (subst find_amend) (auto simp: opened_mount_def split: option.split)
    moreover have "the_inv_into UNIV KubeVolumeName (KubeVolumeName a) = a" using inj by (simp add: the_inv_f_f)
    ultimately show ?case using Cons.IH by auto
  qed simp
qed

text \<open>A volume the injection names for certificates may not take a name reserved for opened volumes; then the steps do not interfere.\<close>

definition separate :: "injection \<Rightarrow> bool" where
  "separate eff \<longleftrightarrow> \<not> HasPrefix (cs_Volume (ij_Cert eff)) KubeVolumePrefix"

lemma separate_names: "separate eff \<Longrightarrow> cs_Volume (ij_Cert eff) \<noteq> KubeVolumeName name" "secretsVolumeName \<noteq> KubeVolumeName name"
  by (auto simp: separate_def KubeVolumeName_def HasPrefix_def KubeVolumePrefix_def)

lemma container_mounts_cert:
  assumes "separate eff"
  shows "\<exists>m. mount_named (cs_Volume (ij_Cert eff)) (container_mounts eff ms) = Some m \<and> vm_ReadOnly m"
proof -
  have "cs_Volume (ij_Cert eff) \<notin> KubeVolumeName ` set (opened_names eff)" using separate_names(1)[OF assms] by blast
  thus ?thesis by (auto simp: container_mounts_def find_overwrites find_amend cert_mount_def secret_mount_def split: option.split)
qed

lemma container_mounts_secret:
  assumes "ss_Specs (ij_Secrets eff) \<noteq> []"
  shows "\<exists>m. mount_named secretsVolumeName (container_mounts eff ms) = Some m \<and> vm_ReadOnly m"
proof -
  have "secretsVolumeName \<notin> KubeVolumeName ` set (opened_names eff)" using separate_names(2) by blast
  thus ?thesis using assms by (auto simp: container_mounts_def find_overwrites find_amend cert_mount_def secret_mount_def split: option.split)
qed

lemma container_mounts_opened:
  "name \<in> set (opened_names eff) \<Longrightarrow> mount_named (KubeVolumeName name) (container_mounts eff ms) = Some (opened_mount eff name)"
proof -
  have "the_inv_into UNIV KubeVolumeName (KubeVolumeName name) = name" by (rule the_inv_f_f) (auto simp: inj_def KubeVolumeName_def)
  thus "name \<in> set (opened_names eff) \<Longrightarrow> ?thesis" by (simp add: container_mounts_def find_overwrites)
qed

lemma overwrites_id:
  "(\<And>name. name \<in> set names \<Longrightarrow> mount_named (KubeVolumeName name) ms = Some (opened_mount eff name)) \<Longrightarrow>
     fold (\<lambda>name. overwrite (opened_mount eff name)) names ms = ms"
proof (induction names)
  case (Cons a names)
  have "overwrite (opened_mount eff a) ms = ms" by (rule amend_id) (use Cons.prems[of a] in \<open>simp_all add: opened_mount_def\<close>)
  thus ?case using Cons by simp
qed simp

lemma container_mounts_idem:
  assumes "separate eff"
  shows "container_mounts eff (container_mounts eff ms) = container_mounts eff ms"
proof -
  let ?ms = "container_mounts eff ms"
  obtain m where m: "mount_named (cs_Volume (ij_Cert eff)) ?ms = Some m" "vm_ReadOnly m" using container_mounts_cert[OF assms] by blast
  have 1: "coerce (cert_mount eff) ?ms = ?ms" by (rule amend_id[of _ _ m]) (use m in \<open>simp_all add: cert_mount_def\<close>)
  have 2: "ss_Specs (ij_Secrets eff) \<noteq> [] \<Longrightarrow> coerce (secret_mount eff) ?ms = ?ms"
    using container_mounts_secret[of eff ms] by (auto intro!: amend_id simp: secret_mount_def)
  have 3: "fold (\<lambda>name. overwrite (opened_mount eff name)) (opened_names eff) ?ms = ?ms"
    by (rule overwrites_id) (rule container_mounts_opened)
  show ?thesis unfolding container_mounts_def[of eff ?ms] using 1 2 3 by simp
qed

section \<open>Volumes\<close>

abbreviation volume_named :: "string \<Rightarrow> k8s_Volume list \<Rightarrow> k8s_Volume option" where
  "volume_named n \<equiv> find (\<lambda>v. vo_Name v = n)"

definition ensured :: "k8s_Volume \<Rightarrow> k8s_Volume list \<Rightarrow> k8s_Volume list" where
  "ensured v vs = (if volume_named (vo_Name v) vs = None then vs @ [v] else vs)"

lemma ensureVolume_volumes: "ensureVolume v pod = pod\<lparr>kp_Volumes := ensured v (kp_Volumes pod)\<rparr>"
  by (auto simp: ensureVolume_def ensured_def find_None_iff list_ex_iff)

lemma find_append: "find P (xs @ ys) = (case find P xs of None \<Rightarrow> find P ys | Some x \<Rightarrow> Some x)"
  by (induction xs) auto

lemma find_ensured: "volume_named n (ensured v vs) = (if n = vo_Name v \<and> volume_named n vs = None then Some v else volume_named n vs)"
  by (auto simp: ensured_def find_append split: option.split)

lemma find_replace: "volume_named n (replace_first v vs) = (if n = vo_Name v then Some v else volume_named n vs)"
  by (induction vs) auto

lemma ensured_id: "volume_named (vo_Name v) vs \<noteq> None \<Longrightarrow> ensured v vs = vs"
  by (simp add: ensured_def)

lemma replace_id: "volume_named (vo_Name v) vs = Some v \<Longrightarrow> replace_first v vs = vs"
  by (induction vs) (auto split: if_splits)

definition pod_volumes :: "injection \<Rightarrow> k8s_Volume list \<Rightarrow> k8s_Volume list" where
  "pod_volumes eff vs =
     fold (\<lambda>name. replace_first (openedVolume name)) (opened_names eff)
       ((if ss_Specs (ij_Secrets eff) = [] then (\<lambda>x. x) else ensured secretsVolume) (ensured (certsVolume (cs_Volume (ij_Cert eff))) vs))"

lemma find_opened:
  "volume_named n (fold (\<lambda>name. replace_first (openedVolume name)) names vs) =
     (if n \<in> KubeVolumeName ` set names then Some \<lparr>vo_Name = n, vo_EmptyDir = Some StorageMediumDefault, vo_Other = []\<rparr> else volume_named n vs)"
  by (induction names arbitrary: vs) (auto simp: find_replace openedVolume_def)

lemma replaces_id:
  "(\<And>name. name \<in> set names \<Longrightarrow> volume_named (KubeVolumeName name) vs = Some (openedVolume name)) \<Longrightarrow>
     fold (\<lambda>name. replace_first (openedVolume name)) names vs = vs"
proof (induction names)
  case (Cons a names)
  have "replace_first (openedVolume a) vs = vs" by (rule replace_id) (use Cons.prems[of a] in \<open>simp add: openedVolume_def\<close>)
  thus ?case using Cons by simp
qed simp

lemma pod_volumes_named:
  "volume_named (cs_Volume (ij_Cert eff)) (pod_volumes eff vs) \<noteq> None"
  "ss_Specs (ij_Secrets eff) \<noteq> [] \<Longrightarrow> volume_named secretsVolumeName (pod_volumes eff vs) \<noteq> None"
  "name \<in> set (opened_names eff) \<Longrightarrow> volume_named (KubeVolumeName name) (pod_volumes eff vs) = Some (openedVolume name)"
  by (simp_all add: pod_volumes_def find_opened find_ensured certsVolume_def secretsVolume_def) (simp add: openedVolume_def)

lemma pod_volumes_idem: "pod_volumes eff (pod_volumes eff vs) = pod_volumes eff vs"
proof -
  let ?vs = "pod_volumes eff vs"
  have "ensured (certsVolume (cs_Volume (ij_Cert eff))) ?vs = ?vs" using pod_volumes_named(1) by (intro ensured_id) (simp add: certsVolume_def)
  moreover have "ss_Specs (ij_Secrets eff) \<noteq> [] \<Longrightarrow> ensured secretsVolume ?vs = ?vs"
    using pod_volumes_named(2) by (intro ensured_id) (simp add: secretsVolume_def)
  moreover have "fold (\<lambda>name. replace_first (openedVolume name)) (opened_names eff) ?vs = ?vs"
    by (rule replaces_id) (rule pod_volumes_named(3))
  ultimately show ?thesis unfolding pod_volumes_def[of eff ?vs] by simp
qed

section \<open>The mutation, field by field\<close>

abbreviation effective :: "webhook_Config \<Rightarrow> injection \<Rightarrow> injection" where
  "effective cfg ij \<equiv> injection_withDefaults (config_withDefaults cfg) ij"

definition injected :: "k8s_rules \<Rightarrow> injection \<Rightarrow> webhook_Config \<Rightarrow> k8s_Container list" where
  "injected k ij cfg0 =
     (let cfg = config_withDefaults cfg0; eff = injection_withDefaults cfg ij in
      [certContainer k eff cfg, certWaitContainer k eff cfg] @
      (if ss_Specs (ij_Secrets eff) = [] then [] else [secretContainer eff cfg]) @
      (if vs_Specs (ij_Volumes eff) = [] then [] else [volumeContainer eff cfg]))"

definition mounted :: "injection \<Rightarrow> k8s_Container \<Rightarrow> k8s_Container" where
  "mounted eff c = c\<lparr>kc_VolumeMounts := container_mounts eff (kc_VolumeMounts c)\<rparr>"

definition security :: "webhook_Config \<Rightarrow> PodSecurityContext option \<Rightarrow> PodSecurityContext option" where
  "security cfg0 sc =
     (let cfg = config_withDefaults cfg0;
          empty = \<lparr>ps_FSGroup = None, ps_SupplementalGroups = []\<rparr>;
          s1 = (if the (wc_CertFSGroup cfg) \<ge> 0 then
                  Some (let s = case_option empty id sc in if ps_FSGroup s = None then s\<lparr>ps_FSGroup := wc_CertFSGroup cfg\<rparr> else s)
                else sc) in
      if wc_WorkloadClaimsHostDir cfg = [] then s1
      else Some (let s = case_option empty id s1 in
        if InventorySocketGID \<in> set (ps_SupplementalGroups s) then s else s\<lparr>ps_SupplementalGroups := ps_SupplementalGroups s @ [InventorySocketGID]\<rparr>))"

lemma security_idem: "security cfg (security cfg sc) = security cfg sc"
  by (cases sc) (auto simp: security_def Let_def config_withDefaults_def split: option.split)

abbreviation remounted :: "injection \<Rightarrow> string list \<Rightarrow> k8s_Container \<Rightarrow> k8s_Container" where
  "remounted eff names c \<equiv> c\<lparr>kc_VolumeMounts := fold (\<lambda>name. overwrite (opened_mount eff name)) names (kc_VolumeMounts c)\<rparr>"

lemma fold_remount:
  "fold (\<lambda>name p. remountAll (opened_mount eff name) (replaceVolume (openedVolume name) p)) names pod =
     pod\<lparr>kp_Volumes := fold (\<lambda>name. replace_first (openedVolume name)) names (kp_Volumes pod),
         kp_Containers := map (remounted eff names) (kp_Containers pod), kp_InitContainers := map (remounted eff names) (kp_InitContainers pod)\<rparr>"
  by (induction names arbitrary: pod) (simp_all add: remountAll_def replaceVolume_def Let_def comp_def)

lemma mountAll_eq:
  "mountAll mount pod = pod\<lparr>kp_Containers := map (\<lambda>c. c\<lparr>kc_VolumeMounts := coerce mount (kc_VolumeMounts c)\<rparr>) (kp_Containers pod),
     kp_InitContainers := map (\<lambda>c. c\<lparr>kc_VolumeMounts := coerce mount (kc_VolumeMounts c)\<rparr>) (kp_InitContainers pod)\<rparr>"
  by (simp add: mountAll_def Let_def)

lemma mutatePod_eq:
  "mutatePod k ij cfg pod =
     pod\<lparr>kp_Annotations := AList.update AnnotationInjected ''true'' (kp_Annotations pod),
         kp_Labels := AList.update LabelWorkload (ij_WorkloadID ij) (kp_Labels pod),
         kp_ShareProcessNamespace := (if rl_Nginx (ij_Reload ij) then Some True else kp_ShareProcessNamespace pod),
         kp_SecurityContext := security cfg (kp_SecurityContext pod),
         kp_Volumes := pod_volumes (effective cfg ij) (kp_Volumes pod),
         kp_Containers := map (mounted (effective cfg ij)) (kp_Containers pod),
         kp_InitContainers := injectInitContainers (map (mounted (effective cfg ij)) (kp_InitContainers pod)) (injected k ij cfg)\<rparr>"
proof -
  let ?cfg = "config_withDefaults cfg" let ?eff = "effective cfg ij"
  have reload: "rl_Nginx (ij_Reload ?eff) = rl_Nginx (ij_Reload ij)" by (simp add: injection_withDefaults_def)
  obtain g where g: "wc_CertFSGroup ?cfg = Some g" by (cases "wc_CertFSGroup cfg") (auto simp: config_withDefaults_def)
  have fs: "ensureFSGroup g p = p\<lparr>kp_SecurityContext := Some (let s = case_option \<lparr>ps_FSGroup = None, ps_SupplementalGroups = []\<rparr> id (kp_SecurityContext p) in
      if ps_FSGroup s = None then s\<lparr>ps_FSGroup := Some g\<rparr> else s)\<rparr>" for p
    by (simp add: ensureFSGroup_def Let_def split: option.split)
  have sg: "ensureSupplementalGroup InventorySocketGID p =
      p\<lparr>kp_SecurityContext := Some (let s = case_option \<lparr>ps_FSGroup = None, ps_SupplementalGroups = []\<rparr> id (kp_SecurityContext p) in
        if InventorySocketGID \<in> set (ps_SupplementalGroups s) then s else s\<lparr>ps_SupplementalGroups := ps_SupplementalGroups s @ [InventorySocketGID]\<rparr>)\<rparr>" for p
    by (simp add: ensureSupplementalGroup_def Let_def split: option.split)
  have vols: "vs_Specs (ij_Volumes ?eff) = [] \<Longrightarrow> opened_names ?eff = []" by (rule opened_names_nil)
  have mnt: "mounted ?eff = (\<lambda>c. c\<lparr>kc_VolumeMounts := container_mounts ?eff (kc_VolumeMounts c)\<rparr>)" by (simp add: fun_eq_iff mounted_def)
  show ?thesis
    by (rule k8s_Pod.equality)
      (simp_all add: mutatePod_def Let_def ensureVolume_volumes mountAll_eq fold_remount g fs sg security_def reload pod_volumes_def mnt container_mounts_def
        injected_def vols comp_def flip: cert_mount_def secret_mount_def opened_mount_def opened_names_def)
qed

section \<open>Mutating again\<close>

lemma mounted_names [simp]: "kc_Name (mounted eff c) = kc_Name c" by (simp add: mounted_def)

lemma mounted_idem: "separate eff \<Longrightarrow> mounted eff (mounted eff c) = mounted eff c"
  by (simp add: mounted_def container_mounts_idem)

lemma inject_again:
  assumes "separate eff"
  shows "injectInitContainers (map (mounted eff) (injectInitContainers (map (mounted eff) cs) new)) new = injectInitContainers (map (mounted eff) cs) new"
proof -
  have "filter (\<lambda>c. kc_Name c \<notin> kc_Name ` set new) (map (mounted eff) new) = []" by (auto simp: filter_empty_conv)
  moreover have "filter P (map (mounted eff) (filter P (map (mounted eff) cs))) = filter P (map (mounted eff) cs)"
    if "P = (\<lambda>c. kc_Name c \<notin> kc_Name ` set new)" for P
    using mounted_idem[OF assms] that by (induction cs) auto
  ultimately show ?thesis by (simp add: injectInitContainers_def)
qed

lemma update_again: "AList.update k v (AList.update k v m) = AList.update k v m"
  by (induction m) auto

lemma mutatePod_idem:
  assumes "separate (effective cfg ij)"
  shows "mutatePod k ij cfg (mutatePod k ij cfg pod) = mutatePod k ij cfg pod"
  unfolding mutatePod_eq
  by (rule k8s_Pod.equality)
    (simp_all add: update_again security_idem pod_volumes_idem inject_again[OF assms] mounted_idem[OF assms] comp_def)

section \<open>The handler\<close>

lemma map_get_update: "map_get (AList.update k v m) n = (if n = k then v else map_get m n)"
  by (simp add: map_get_def)

lemma injected_other:
  "map_get (AList.update AnnotationInjected v a) AnnotationWorkload = map_get a AnnotationWorkload"
  "map_get (AList.update AnnotationInjected v a) AnnotationSAN = map_get a AnnotationSAN"
  "map_get (AList.update AnnotationInjected v a) AnnotationCertVolume = map_get a AnnotationCertVolume"
  "map_get (AList.update AnnotationInjected v a) AnnotationCertDir = map_get a AnnotationCertDir"
  "map_get (AList.update AnnotationInjected v a) AnnotationCertFile = map_get a AnnotationCertFile"
  "map_get (AList.update AnnotationInjected v a) AnnotationKeyFile = map_get a AnnotationKeyFile"
  "map_get (AList.update AnnotationInjected v a) AnnotationCAFile = map_get a AnnotationCAFile"
  "map_get (AList.update AnnotationInjected v a) AnnotationRenewInterval = map_get a AnnotationRenewInterval"
  "map_get (AList.update AnnotationInjected v a) AnnotationReloadNginx = map_get a AnnotationReloadNginx"
  "map_get (AList.update AnnotationInjected v a) AnnotationReloadWatchPaths = map_get a AnnotationReloadWatchPaths"
  "map_get (AList.update AnnotationInjected v a) AnnotationReloadWatchVolume = map_get a AnnotationReloadWatchVolume"
  "map_get (AList.update AnnotationInjected v a) AnnotationReloadWatchMountPath = map_get a AnnotationReloadWatchMountPath"
  "map_get (AList.update AnnotationInjected v a) AnnotationDiscoveryVolume = map_get a AnnotationDiscoveryVolume"
  "map_get (AList.update AnnotationInjected v a) AnnotationDiscoveryMountPath = map_get a AnnotationDiscoveryMountPath"
  "map_get (AList.update AnnotationInjected v a) AnnotationDiscoveryOut = map_get a AnnotationDiscoveryOut"
  "map_get (AList.update AnnotationInjected v a) AnnotationDiscoveryCDSCertURL = map_get a AnnotationDiscoveryCDSCertURL"
  "map_get (AList.update AnnotationInjected v a) AnnotationDiscoveryMeshCAURL = map_get a AnnotationDiscoveryMeshCAURL"
  "map_get (AList.update AnnotationInjected v a) AnnotationDiscoveryPublicTLSMode = map_get a AnnotationDiscoveryPublicTLSMode"
  "map_get (AList.update AnnotationInjected v a) AnnotationGetCertRunAsUser = map_get a AnnotationGetCertRunAsUser"
  "map_get (AList.update AnnotationInjected v a) AnnotationGetCertRunAsGroup = map_get a AnnotationGetCertRunAsGroup"
  "map_get (AList.update AnnotationInjected v a) AnnotationGetCertRunAsNonRoot = map_get a AnnotationGetCertRunAsNonRoot"
  "map_get (AList.update AnnotationInjected v a) AnnotationGetCertVerbose = map_get a AnnotationGetCertVerbose"
  "map_get (AList.update AnnotationInjected v a) AnnotationSecrets = map_get a AnnotationSecrets"
  "map_get (AList.update AnnotationInjected v a) AnnotationSecretDir = map_get a AnnotationSecretDir"
  "map_get (AList.update AnnotationInjected v a) AnnotationVolumes = map_get a AnnotationVolumes"
  "map_get (AList.update AnnotationInjected v a) AnnotationVolumeDir = map_get a AnnotationVolumeDir"
  by (simp_all only: map_get_update AnnotationInjected_def) simp_all

lemma parseAnnotations_injected: "parseAnnotations k (AList.update AnnotationInjected v a) = parseAnnotations k a"
  unfolding parseAnnotations_def hasInjectionDetailAnnotations_def durationAnnotation_def boolAnnotation_def boolPtrAnnotation_def int64Annotation_def listAnnotation_def
    Let_def list_ex_Cons_iff list_ex_Nil_iff
  by (simp only: injected_other)

lemma parseAnnotations_workload: "parseAnnotations k a = Inr (Some ij) \<Longrightarrow> ij_WorkloadID ij = map_get a AnnotationWorkload"
  by (auto simp: parseAnnotations_def Let_def bindE_Inr_iff split: if_splits)

text \<open>Everything a patched pod went through.\<close>

definition request_of :: "k8s_rules \<Rightarrow> string \<Rightarrow> injection \<Rightarrow> injection" where
  "request_of k namespace ij = (if ij_SAN ij = [] then ij\<lparr>ij_SAN := workloadSAN k (ij_WorkloadID ij) namespace\<rparr> else ij)"

lemma case_patched:
  "(case r of Inl e \<Rightarrow> Errored (Some e) | Inr None \<Rightarrow> Allowed | Inr (Some p) \<Rightarrow> Patched p) = Patched p' \<longleftrightarrow> r = Inr (Some p')"
  by (auto split: sum.splits option.splits)

lemma case_opted: "(case x of None \<Rightarrow> Inr None | Some ij \<Rightarrow> F ij) = Inr (Some p) \<longleftrightarrow> (\<exists>ij. x = Some ij \<and> F ij = Inr (Some p))"
  by (auto split: option.splits)

lemma Handle_Patched:
  "webhook_Handle k cfg sub ns (Some pod) = Patched pod' \<longleftrightarrow>
     sub \<noteq> ''ephemeralcontainers'' \<and> validateWorkloadLabel pod = Inr () \<and>
     (\<exists>ij. parseAnnotations k (kp_Annotations pod) = Inr (Some ij) \<and> \<not> kp_HostNetwork pod \<and>
        (ss_Specs (ij_Secrets ij) \<noteq> [] \<or> vs_Specs (ij_Volumes ij) \<noteq> [] \<longrightarrow> wc_WorkloadClaimsHostDir cfg \<noteq> []) \<and> rejectReservedCertContainer pod = Inr () \<and>
        (if wc_GetCertImage cfg = [] then pod' = pod
         else rejectReservedCertVolume (cs_Volume (ij_Cert (injection_withDefaults cfg (request_of k ns ij)))) pod = Inr () \<and>
           rejectReservedSecretsVolume pod = Inr () \<and> rejectReservedVolumeVolume pod = Inr () \<and> pod' = mutatePod k (request_of k ns ij) cfg pod))"
proof -
  have "(case rejectEphemeralReservedMounts pod of Inl e \<Rightarrow> Errored (Some e) | Inr _ \<Rightarrow> Allowed) \<noteq> Patched pod'"
    by (simp split: sum.splits)
  thus ?thesis
    unfolding webhook_Handle_def option.case if_split_eq1 case_patched bindE_Inr_iff case_opted guardE_Inr_iff Let_def request_of_def length_greater_0_conv by fastforce
qed

end
