(* ===== verification/Webhook_Props.thy ===== *)
theory Webhook_Props
  imports Webhook
begin

text \<open>The theorems about the admission webhook, and a sample pod.\<close>

lemma volume_guard_ok: "volume_guard covers medium pod = Inr () \<longleftrightarrow> (\<forall>v\<in>set (kp_Volumes pod). covers (vo_Name v) \<longrightarrow> vo_EmptyDir v = Some medium)"
proof -
  have "volume_guard covers medium pod = Inr () \<longleftrightarrow> find (\<lambda>v. covers (vo_Name v) \<and> vo_EmptyDir v \<noteq> Some medium) (kp_Volumes pod) = None"
    by (simp add: volume_guard_def split: option.split)
  thus ?thesis by (auto simp: find_None_iff)
qed

lemma set_ensured: "set (ensured v vs) \<subseteq> insert v (set vs)"
  by (auto simp: ensured_def)

lemma set_replace: "set (replace_first v vs) \<subseteq> insert v (set vs)"
  by (induction vs) auto

lemma set_opened: "set (fold (\<lambda>name. replace_first (openedVolume name)) names vs) \<subseteq> set vs \<union> openedVolume ` set names"
proof (induction names arbitrary: vs)
  case (Cons a names)
  have "set (fold (\<lambda>name. replace_first (openedVolume name)) names (replace_first (openedVolume a) vs))
      \<subseteq> set (replace_first (openedVolume a) vs) \<union> openedVolume ` set names" by (rule Cons.IH)
  also have "\<dots> \<subseteq> set vs \<union> openedVolume ` set (a # names)" using set_replace[of "openedVolume a" vs] by auto
  finally show ?case by simp
qed simp

lemma pod_volumes_set:
  "set (pod_volumes eff vs) \<subseteq> set vs \<union> {certsVolume (cs_Volume (ij_Cert eff)), secretsVolume} \<union> range openedVolume"
proof -
  let ?vs = "(if ss_Specs (ij_Secrets eff) = [] then (\<lambda>x. x) else ensured secretsVolume) (ensured (certsVolume (cs_Volume (ij_Cert eff))) vs)"
  have "set ?vs \<subseteq> set vs \<union> {certsVolume (cs_Volume (ij_Cert eff)), secretsVolume}"
    using set_ensured[of "certsVolume (cs_Volume (ij_Cert eff))" vs] set_ensured[of secretsVolume "ensured (certsVolume (cs_Volume (ij_Cert eff))) vs"] by auto
  thus ?thesis using set_opened[of "opened_names eff" ?vs] unfolding pod_volumes_def by blast
qed

text \<open>The volumes of one name, step by step.\<close>

abbreviation volumes_of :: "string \<Rightarrow> k8s_Volume list \<Rightarrow> k8s_Volume list" where
  "volumes_of n \<equiv> filter (\<lambda>v. vo_Name v = n)"

lemma filter_ensured: "volumes_of n (ensured v vs) = (if n = vo_Name v \<and> volumes_of n vs = [] then [v] else volumes_of n vs)"
  by (auto simp: ensured_def find_None_iff filter_empty_conv)

lemma filter_replace: "volumes_of n (replace_first v vs) = (if n = vo_Name v then v # tl (volumes_of n vs) else volumes_of n vs)"
  by (induction vs) auto

lemma filter_opened:
  "map vo_EmptyDir (volumes_of n (fold (\<lambda>name. replace_first (openedVolume name)) names vs)) =
     (if n \<in> KubeVolumeName ` set names then Some StorageMediumDefault # map vo_EmptyDir (tl (volumes_of n vs)) else map vo_EmptyDir (volumes_of n vs))"
proof (induction names arbitrary: vs)
  case (Cons a names)
  thus ?case by (auto simp: filter_replace openedVolume_def)
qed simp

lemma cert_volume_config: "cs_Volume (ij_Cert (injection_withDefaults cfg ij)) = (if cs_Volume (ij_Cert ij) = [] then defaultCertVolumeName else cs_Volume (ij_Cert ij))"
  by (simp add: injection_withDefaults_def Let_def)

lemma request_cert [simp]: "ij_Cert (request_of k ns ij) = ij_Cert ij" "ij_WorkloadID (request_of k ns ij) = ij_WorkloadID ij"
  "ij_Secrets (request_of k ns ij) = ij_Secrets ij" "ij_Volumes (request_of k ns ij) = ij_Volumes ij"
  by (simp_all add: request_of_def)

lemma effective_cert: "cs_Volume (ij_Cert (injection_withDefaults cfg (request_of k ns ij))) = cs_Volume (ij_Cert (injection_withDefaults cfg ij))"
  by (simp add: cert_volume_config)

lemma parseAnnotations_cert: "parseAnnotations k a = Inr (Some ij) \<Longrightarrow> cs_Volume (ij_Cert ij) = map_get a AnnotationCertVolume"
  unfolding parseAnnotations_def Let_def by (auto simp only: bindE_Inr_iff if_split_eq1) simp

text \<open>The name of a certificate volume, if the pod gives one, is outside the names of opened volumes.\<close>

abbreviation cert_name_ok :: "k8s_Pod \<Rightarrow> bool" where
  "cert_name_ok pod \<equiv> \<not> HasPrefix (map_get (kp_Annotations pod) AnnotationCertVolume) KubeVolumePrefix"

lemma separate_request:
  assumes "parseAnnotations k (kp_Annotations pod) = Inr (Some ij)" and "cert_name_ok pod"
  shows "separate (effective cfg (request_of k ns ij))"
  using parseAnnotations_cert[OF assms(1)] assms(2)
  by (simp add: separate_def cert_volume_config HasPrefix_def KubeVolumePrefix_def)

lemma mutated_guards:
  assumes "separate (effective cfg ij)" and "rejectReservedCertVolume (cs_Volume (ij_Cert (effective cfg ij))) pod = Inr ()"
    and "rejectReservedSecretsVolume pod = Inr ()" and "rejectReservedVolumeVolume pod = Inr ()"
  shows "rejectReservedCertVolume (cs_Volume (ij_Cert (effective cfg ij))) (mutatePod k ij cfg pod) = Inr ()"
    and "rejectReservedSecretsVolume (mutatePod k ij cfg pod) = Inr ()" and "rejectReservedVolumeVolume (mutatePod k ij cfg pod) = Inr ()"
proof -
  let ?eff = "effective cfg ij"
  have vols: "v \<in> set (kp_Volumes pod) \<or> v = certsVolume (cs_Volume (ij_Cert ?eff)) \<or> v = secretsVolume \<or> (\<exists>n. v = openedVolume n)"
    if "v \<in> set (kp_Volumes (mutatePod k ij cfg pod))" for v
    using that pod_volumes_set[of ?eff "kp_Volumes pod"] by (auto simp: mutatePod_eq)
  have pre: "\<not> HasPrefix secretsVolumeName KubeVolumePrefix" "HasPrefix (KubeVolumeName n) KubeVolumePrefix" for n
    by (simp_all add: HasPrefix_def KubeVolumePrefix_def KubeVolumeName_def)
  show "rejectReservedCertVolume (cs_Volume (ij_Cert ?eff)) (mutatePod k ij cfg pod) = Inr ()"
    "rejectReservedSecretsVolume (mutatePod k ij cfg pod) = Inr ()" "rejectReservedVolumeVolume (mutatePod k ij cfg pod) = Inr ()"
    using assms(2-4) separate_names(1)[OF assms(1), symmetric] separate_names(2)[symmetric] assms(1) pre
    by (auto simp: rejectReservedCertVolume_def rejectReservedSecretsVolume_def rejectReservedVolumeVolume_def volume_guard_ok certsVolume_def secretsVolume_def
        openedVolume_def separate_def dest!: vols)
qed

lemma Handle_Errored:
  assumes "sub \<noteq> ''ephemeralcontainers''" and "parseAnnotations k (kp_Annotations pod) = Inr (Some ij)" and "\<And>q. webhook_Handle k cfg sub ns (Some pod) \<noteq> Patched q"
  shows "\<exists>e. webhook_Handle k cfg sub ns (Some pod) = Errored (Some e)"
proof -
  have case_errored: "(\<And>q. r \<noteq> Inr (Some q)) \<Longrightarrow> r \<noteq> Inr None \<Longrightarrow>
      \<exists>e. (case r of Inl e \<Rightarrow> Errored (Some e) | Inr None \<Rightarrow> Allowed | Inr (Some p) \<Rightarrow> Patched p) = Errored (Some e)" for r
    by (auto split: sum.splits option.splits)
  show ?thesis using assms(1,2) assms(3)[unfolded webhook_Handle_def]
    unfolding webhook_Handle_def option.case if_not_P[OF assms(1)] case_patched
    by (intro case_errored) (auto simp: bindE_Inr_iff Let_def split: if_splits)
qed

text \<open>The names of a pod's certificate volume and of opened volumes: one name for which the two checks ask for different media.\<close>

lemma prefixed_refused:
  assumes "v \<in> set (kp_Volumes pod)" and "vo_Name v = n" and "HasPrefix n KubeVolumePrefix"
  shows "\<not> (rejectReservedCertVolume n pod = Inr () \<and> rejectReservedVolumeVolume pod = Inr ())"
  using assms by (auto simp: rejectReservedCertVolume_def rejectReservedVolumeVolume_def volume_guard_ok)

lemma pod_volumes_cert: "\<exists>v\<in>set (pod_volumes eff vs). vo_Name v = cs_Volume (ij_Cert eff)"
  using pod_volumes_named(1)[of eff vs] by (auto simp: find_None_iff)

lemma handle_again_refused:
  assumes "webhook_Handle k cfg sub ns (Some pod) = Patched pod'" and "wc_GetCertImage cfg \<noteq> []" and "\<not> cert_name_ok pod"
  shows "\<exists>e. webhook_Handle k cfg sub ns (Some pod') = Errored (Some e)"
proof -
  from assms(1,2) obtain ij where ij: "sub \<noteq> ''ephemeralcontainers''" "parseAnnotations k (kp_Annotations pod) = Inr (Some ij)"
      "pod' = mutatePod k (request_of k ns ij) cfg pod"
    by (auto simp: Handle_Patched)
  have parse: "parseAnnotations k (kp_Annotations pod') = Inr (Some ij)" unfolding ij(3) mutatePod_eq using ij(2) by (simp add: parseAnnotations_injected)
  let ?cv = "cs_Volume (ij_Cert (injection_withDefaults cfg (request_of k ns ij)))"
  have "HasPrefix ?cv KubeVolumePrefix"
    using parseAnnotations_cert[OF ij(2)] assms(3) by (auto simp: cert_volume_config HasPrefix_def KubeVolumePrefix_def)
  moreover have "\<exists>v\<in>set (kp_Volumes pod'). vo_Name v = ?cv"
    unfolding ij(3) mutatePod_eq using pod_volumes_cert[of "effective cfg (request_of k ns ij)"] by (simp add: cert_volume_config)
  ultimately have refused: "\<not> (rejectReservedCertVolume ?cv pod' = Inr () \<and> rejectReservedVolumeVolume pod' = Inr ())" using prefixed_refused by blast
  show ?thesis
    by (rule Handle_Errored[OF ij(1) parse]) (use refused parse assms(2) in \<open>auto simp: Handle_Patched\<close>)
qed

lemma handle_again_kept:
  assumes "webhook_Handle k cfg sub ns (Some pod) = Patched pod'" and "cert_name_ok pod"
  shows "webhook_Handle k cfg sub ns (Some pod') = Patched pod'"
proof (cases "wc_GetCertImage cfg = []")
  case True
  thus ?thesis using assms(1) by (auto simp: Handle_Patched)
next
  case False
  from assms(1) obtain ij where ij: "sub \<noteq> ''ephemeralcontainers''" "parseAnnotations k (kp_Annotations pod) = Inr (Some ij)" "\<not> kp_HostNetwork pod"
      "ss_Specs (ij_Secrets ij) \<noteq> [] \<or> vs_Specs (ij_Volumes ij) \<noteq> [] \<longrightarrow> wc_WorkloadClaimsHostDir cfg \<noteq> []" "rejectReservedCertContainer pod = Inr ()"
      "rejectReservedCertVolume (cs_Volume (ij_Cert (injection_withDefaults cfg (request_of k ns ij)))) pod = Inr ()"
      "rejectReservedSecretsVolume pod = Inr ()" "rejectReservedVolumeVolume pod = Inr ()" "pod' = mutatePod k (request_of k ns ij) cfg pod"
    using False by (auto simp: Handle_Patched)
  let ?ij = "request_of k ns ij"
  have sep: "separate (effective cfg ?ij)" by (rule separate_request[OF ij(2) assms(2)])
  have same: "cs_Volume (ij_Cert (injection_withDefaults cfg ?ij)) = cs_Volume (ij_Cert (effective cfg ?ij))" by (simp add: cert_volume_config)
  have "parseAnnotations k (kp_Annotations pod') = Inr (Some ij)" unfolding ij(9) mutatePod_eq using ij(2) by (simp add: parseAnnotations_injected)
  moreover have "validateWorkloadLabel pod' = Inr ()"
    unfolding ij(9) mutatePod_eq using parseAnnotations_workload[OF ij(2)] by (simp add: validateWorkloadLabel_def injected_other guardE_def)
  moreover have "rejectReservedCertContainer pod' = Inr ()"
  proof -
    have "find P (map f xs) = None \<longleftrightarrow> find (P \<circ> f) xs = None" for P and f :: "k8s_Container \<Rightarrow> k8s_Container" and xs by (auto simp: find_None_iff)
    thus ?thesis using ij(5) unfolding ij(9) mutatePod_eq
      by (simp add: rejectReservedCertContainer_def find_append comp_def split: option.splits)
  qed
  moreover have "\<not> kp_HostNetwork pod'" unfolding ij(9) mutatePod_eq using ij(3) by simp
  moreover have "rejectReservedCertVolume (cs_Volume (ij_Cert (injection_withDefaults cfg (request_of k ns ij)))) pod' = Inr ()"
    "rejectReservedSecretsVolume pod' = Inr ()" "rejectReservedVolumeVolume pod' = Inr ()"
    unfolding same using mutated_guards[OF sep ij(6)[unfolded same] ij(7,8), of k, folded ij(9)] by blast+
  moreover have "pod' = mutatePod k (request_of k ns ij) cfg pod'" unfolding ij(9) mutatePod_idem[OF sep] ..
  ultimately show ?thesis unfolding Handle_Patched using ij(1,4) False by (intro conjI exI[of _ ij]) simp_all
qed

text \<open>C22: \<^bold>\<open>What mutating an admitted pod again does.\<close> If the webhook patches a pod, then handling the patched pod again, as the API server may do, admits it and
  leaves it exactly as it is, with one exception. A pod that names its certificate volume with the prefix reserved for opened volumes is patched
  the first time and refused the second: it now has a volume of that name, of which the two checks of predeclared volumes demand different media.\<close>

theorem handle_idempotent:
  assumes "webhook_Handle k cfg sub ns (Some pod) = Patched pod'"
  shows "if wc_GetCertImage cfg \<noteq> [] \<and> HasPrefix (map_get (kp_Annotations pod) AnnotationCertVolume) KubeVolumePrefix
    then (\<exists>e. webhook_Handle k cfg sub ns (Some pod') = Errored (Some e)) else webhook_Handle k cfg sub ns (Some pod') = Patched pod'"
proof (cases "wc_GetCertImage cfg = []")
  case True
  thus ?thesis using assms by (auto simp: Handle_Patched)
next
  case False
  thus ?thesis using handle_again_kept[OF assms] handle_again_refused[OF assms] by auto
qed

lemma Handle_mutated:
  assumes "webhook_Handle k cfg sub ns (Some pod) = Patched pod'" and "wc_GetCertImage cfg \<noteq> []"
  obtains ij where "parseAnnotations k (kp_Annotations pod) = Inr (Some ij)" "\<not> kp_HostNetwork pod" "rejectReservedCertContainer pod = Inr ()"
    "rejectReservedCertVolume (cs_Volume (ij_Cert (effective cfg (request_of k ns ij)))) pod = Inr ()"
    "rejectReservedSecretsVolume pod = Inr ()" "rejectReservedVolumeVolume pod = Inr ()" "pod' = mutatePod k (request_of k ns ij) cfg pod"
  using assms by (auto simp: Handle_Patched cert_volume_config)

lemma effective_specs [simp]: "ss_Specs (ij_Secrets (injection_withDefaults cfg ij)) = ss_Specs (ij_Secrets ij)"
  "vs_Specs (ij_Volumes (injection_withDefaults cfg ij)) = vs_Specs (ij_Volumes ij)"
  by (simp_all add: injection_withDefaults_def)

lemma cert_volumes:
  assumes "rejectReservedCertVolume (cs_Volume (ij_Cert eff)) pod = Inr ()" and "rejectReservedVolumeVolume pod = Inr ()"
  shows "vo_EmptyDir ` {v \<in> set (pod_volumes eff (kp_Volumes pod)). vo_Name v = cs_Volume (ij_Cert eff)} =
    {Some (if cs_Volume (ij_Cert eff) \<in> KubeVolumeName ` set (opened_names eff) then StorageMediumDefault else StorageMediumMemory)}"
proof -
  let ?cv = "cs_Volume (ij_Cert eff)" let ?vs = "volumes_of ?cv (ensured (certsVolume ?cv) (kp_Volumes pod))"
  have mem: "set (map vo_EmptyDir ?vs) = {Some StorageMediumMemory}"
    using assms(1) by (cases "volumes_of ?cv (kp_Volumes pod)")
      (auto simp: filter_ensured certsVolume_def rejectReservedCertVolume_def volume_guard_ok filter_eq_Cons_iff)
  have "tl ?vs = []" if "?cv = KubeVolumeName n" for n
  proof -
    have "volumes_of ?cv (kp_Volumes pod) = []"
      using prefixed_refused[of _ pod ?cv] assms that by (fastforce simp: filter_empty_conv KubeVolumeName_def HasPrefix_def)
    thus ?thesis by (simp add: filter_ensured certsVolume_def)
  qed
  moreover have "volumes_of ?cv ((if ss_Specs (ij_Secrets eff) = [] then (\<lambda>x. x) else ensured secretsVolume) (ensured (certsVolume ?cv) (kp_Volumes pod))) = ?vs"
    using mem filter_ensured[of ?cv secretsVolume "ensured (certsVolume ?cv) (kp_Volumes pod)"] by (cases "?vs = []") simp_all
  ultimately have "set (map vo_EmptyDir (volumes_of ?cv (pod_volumes eff (kp_Volumes pod)))) =
      {Some (if ?cv \<in> KubeVolumeName ` set (opened_names eff) then StorageMediumDefault else StorageMediumMemory)}"
    unfolding pod_volumes_def filter_opened using mem by auto
  thus ?thesis by simp
qed

lemma secret_volumes:
  assumes "rejectReservedSecretsVolume pod = Inr ()"
  shows "vo_EmptyDir ` {v \<in> set (pod_volumes eff (kp_Volumes pod)). vo_Name v = secretsVolumeName} \<subseteq> {Some StorageMediumMemory}"
proof -
  have "vo_EmptyDir v = Some StorageMediumMemory" if "v \<in> set (pod_volumes eff (kp_Volumes pod))" "vo_Name v = secretsVolumeName" for v
  proof -
    from that(1) pod_volumes_set consider "v \<in> set (kp_Volumes pod)" | "v = certsVolume (cs_Volume (ij_Cert eff))" | "v = secretsVolume" | n where "v = openedVolume n"
      by blast
    thus ?thesis
      using assms that(2) separate_names(2)[symmetric]
      by cases (auto simp: rejectReservedSecretsVolume_def volume_guard_ok certsVolume_def secretsVolume_def openedVolume_def)
  qed
  thus ?thesis by blast
qed

text \<open>C10: \<^bold>\<open>A patched pod keeps private material in memory and runs the operator's containers first.\<close> When the webhook patches a pod that opted in, the pod is not on the
  host's network, its init containers start with the ones the operator builds and none of the others has the name of one of these, and no regular container
  has a reserved name. It has a certificate volume, and every volume of that name is memory-backed, unless the pod names one of the encrypted volumes it asks for as its certificate
  volume (then every volume of the name is of the default medium). It has a secrets volume if it asked for secrets, and every volume of that name is memory-backed.
  It carries the label of its workload and the mark of injection.\<close>

theorem patched_private:
  assumes "webhook_Handle k cfg sub ns (Some pod) = Patched pod'" and "wc_GetCertImage cfg \<noteq> []"
  shows "\<exists>ij rest. parseAnnotations k (kp_Annotations pod) = Inr (Some ij) \<and> \<not> kp_HostNetwork pod' \<and>
    kp_InitContainers pod' = injected k (request_of k ns ij) cfg @ rest \<and>
    kc_Name ` set rest \<inter> kc_Name ` set (injected k (request_of k ns ij) cfg) = {} \<and> list_all (\<lambda>c. \<not> IsInjectedContainerName (kc_Name c)) (kp_Containers pod') \<and>
    (let cv = cs_Volume (ij_Cert (effective cfg ij)) in
       vo_EmptyDir ` {v \<in> set (kp_Volumes pod'). vo_Name v = cv} =
         {Some (if cv \<in> KubeVolumeName ` set (volumeNames (vs_Specs (ij_Volumes ij))) then StorageMediumDefault else StorageMediumMemory)}) \<and>
    vo_EmptyDir ` {v \<in> set (kp_Volumes pod'). vo_Name v = secretsVolumeName} \<subseteq> {Some StorageMediumMemory} \<and>
    (ss_Specs (ij_Secrets ij) = [] \<or> {v \<in> set (kp_Volumes pod'). vo_Name v = secretsVolumeName} \<noteq> {}) \<and>
    map_of (kp_Labels pod') LabelWorkload = Some (map_get (kp_Annotations pod) AnnotationWorkload) \<and> map_get (kp_Annotations pod') AnnotationInjected = ''true''"
proof -
  obtain ij where ij: "parseAnnotations k (kp_Annotations pod) = Inr (Some ij)" "\<not> kp_HostNetwork pod" "rejectReservedCertContainer pod = Inr ()"
    "rejectReservedCertVolume (cs_Volume (ij_Cert (effective cfg (request_of k ns ij)))) pod = Inr ()"
    "rejectReservedSecretsVolume pod = Inr ()" "rejectReservedVolumeVolume pod = Inr ()" "pod' = mutatePod k (request_of k ns ij) cfg pod"
    using assms(1,2) by (rule Handle_mutated)
  let ?ij = "request_of k ns ij" let ?eff = "effective cfg ?ij" let ?new = "injected k ?ij cfg"
  let ?rest = "filter (\<lambda>c. kc_Name c \<notin> kc_Name ` set ?new) (map (mounted ?eff) (kp_InitContainers pod))"
  have cv: "cs_Volume (ij_Cert ?eff) = cs_Volume (ij_Cert (effective cfg ij))" by (simp add: cert_volume_config)
  have "kp_InitContainers pod' = ?new @ ?rest" unfolding ij(7) mutatePod_eq by (simp add: injectInitContainers_def)
  moreover have "kc_Name ` set ?rest \<inter> kc_Name ` set ?new = {}" by auto
  moreover have "list_all (\<lambda>c. \<not> IsInjectedContainerName (kc_Name c)) (kp_Containers pod')"
    using ij(3) unfolding ij(7) mutatePod_eq
    by (auto simp: rejectReservedCertContainer_def find_append find_None_iff list_all_iff split: option.splits)
  moreover have "volume_named n (kp_Volumes pod') \<noteq> None \<Longrightarrow> {v \<in> set (kp_Volumes pod'). vo_Name v = n} \<noteq> {}" for n by (auto simp: find_None_iff)
  moreover have "ss_Specs (ij_Secrets ij) \<noteq> [] \<Longrightarrow> volume_named secretsVolumeName (kp_Volumes pod') \<noteq> None"
    using pod_volumes_named(2)[of ?eff "kp_Volumes pod"] unfolding ij(7) mutatePod_eq by simp
  moreover have vols: "kp_Volumes pod' = pod_volumes ?eff (kp_Volumes pod)" unfolding ij(7) mutatePod_eq by simp
  moreover note cert_volumes[OF ij(4,6)] secret_volumes[OF ij(5), of ?eff]
  moreover have "map_of (kp_Labels pod') LabelWorkload = Some (map_get (kp_Annotations pod) AnnotationWorkload)"
    "map_get (kp_Annotations pod') AnnotationInjected = ''true''" "\<not> kp_HostNetwork pod'"
    unfolding ij(7) mutatePod_eq using parseAnnotations_workload[OF ij(1)] ij(2) by (simp_all add: map_get_def)
  ultimately show ?thesis using ij(1) unfolding Let_def cv
    by (intro exI[of _ ij] exI[of _ ?rest]) (auto simp: opened_names_def)
qed

text \<open>The mounts of one volume in a container.\<close>

abbreviation mounts_of :: "string \<Rightarrow> k8s_Container \<Rightarrow> VolumeMount list" where
  "mounts_of n c \<equiv> filter (\<lambda>m. vm_Name m = n) (kc_VolumeMounts c)"

lemma filter_amend:
  assumes "\<And>m. vm_Name m = vm_Name mount \<Longrightarrow> vm_Name (f m) = vm_Name m"
  shows "filter (\<lambda>m. vm_Name m = n) (amend_mount f mount ms) =
    (if n = vm_Name mount then (case filter (\<lambda>m. vm_Name m = n) ms of [] \<Rightarrow> [mount] | m # rest \<Rightarrow> f m # rest) else filter (\<lambda>m. vm_Name m = n) ms)"
  using assms by (induction ms) auto

lemma filter_overwrites:
  "n \<notin> KubeVolumeName ` set names \<Longrightarrow>
     filter (\<lambda>m. vm_Name m = n) (fold (\<lambda>name. overwrite (opened_mount eff name)) names ms) = filter (\<lambda>m. vm_Name m = n) ms"
proof (induction names arbitrary: ms)
  case (Cons a names)
  have "filter (\<lambda>m. vm_Name m = n) (overwrite (opened_mount eff a) ms) = filter (\<lambda>m. vm_Name m = n) ms"
    using Cons.prems by (subst filter_amend) (auto simp: opened_mount_def)
  thus ?case using Cons by simp
qed simp

text \<open>C32: \<^bold>\<open>Who can write the secrets.\<close> In a patched pod that asked for secrets and whose certificate volume is another one, each authored regular container mounts the secrets volume: one that did not mount it gets
  the read-only mount, and one that did keeps its own mounts, the first of them now read-only. Only the first: a container that declares the volume twice keeps its
  further mounts as they were, and so can keep write access to the directory that other containers read their secrets from.\<close>

theorem secret_mounts_exact:
  assumes "webhook_Handle k cfg sub ns (Some pod) = Patched pod'" and "wc_GetCertImage cfg \<noteq> []"
    and "parseAnnotations k (kp_Annotations pod) = Inr (Some ij)" and "ss_Specs (ij_Secrets ij) \<noteq> []"
    and "cs_Volume (ij_Cert (effective cfg ij)) \<noteq> secretsVolumeName"
  shows "map (mounts_of secretsVolumeName) (kp_Containers pod') =
    map (\<lambda>c. case mounts_of secretsVolumeName c of [] \<Rightarrow> [secret_mount (effective cfg ij)] | m # rest \<Rightarrow> m\<lparr>vm_ReadOnly := True\<rparr> # rest) (kp_Containers pod)"
proof -
  have pod': "pod' = mutatePod k (request_of k ns ij) cfg pod" using assms(1,2,3) by (auto simp: Handle_Patched)
  let ?eff = "effective cfg (request_of k ns ij)"
  have dir: "secret_mount ?eff = secret_mount (effective cfg ij)" by (simp add: secret_mount_def injection_withDefaults_def)
  have "cs_Volume (ij_Cert ?eff) \<noteq> secretsVolumeName" using assms(5) unfolding effective_cert .
  have "mounts_of secretsVolumeName (mounted ?eff c) =
      (case mounts_of secretsVolumeName c of [] \<Rightarrow> [secret_mount ?eff] | m # rest \<Rightarrow> m\<lparr>vm_ReadOnly := True\<rparr> # rest)" for c
  proof -
    have "secretsVolumeName \<notin> KubeVolumeName ` set (opened_names ?eff)" using separate_names(2) by blast
    thus ?thesis using assms(4) \<open>cs_Volume (ij_Cert ?eff) \<noteq> secretsVolumeName\<close>
      by (simp add: mounted_def container_mounts_def filter_overwrites filter_amend secret_mount_def cert_mount_def split: list.split)
  qed
  from this[unfolded dir] show ?thesis unfolding pod' mutatePod_eq by simp
qed

text \<open>C17: \<^bold>\<open>A debug container cannot reach what was released.\<close> Take a pod that the webhook patched, and change its annotations, labels and ephemeral containers in any way,
  as an update of a running pod can. If the webhook then lets ephemeral containers be attached, none of them mounts the certificate volume that was injected,
  the secrets volume or an opened volume, or has the name of an injected container.\<close>

theorem ephemeral_harmless:
  assumes "webhook_Handle k cfg sub ns (Some pod) = Patched pod'" and "wc_GetCertImage cfg \<noteq> []"
    and "parseAnnotations k (kp_Annotations pod) = Inr (Some ij)" and "kp_InitContainers later = kp_InitContainers pod'"
    and "webhook_Handle k cfg ''ephemeralcontainers'' ns (Some later) = Allowed" and "c \<in> set (kp_EphemeralContainers later)"
  shows "\<not> IsInjectedContainerName (kc_Name c) \<and>
    vm_Name ` set (kc_VolumeMounts c) \<inter> ({cs_Volume (ij_Cert (effective cfg ij)), secretsVolumeName} \<union> range KubeVolumeName) = {}"
proof -
  have pod': "pod' = mutatePod k (request_of k ns ij) cfg pod" using assms(1,2,3) by (auto simp: Handle_Patched)
  let ?eff = "effective cfg (request_of k ns ij)"
  let ?cert = "certContainer k ?eff (config_withDefaults cfg)"
  have "?cert \<in> set (kp_InitContainers later)" unfolding assms(4) pod' mutatePod_eq by (simp add: injectInitContainers_def injected_def Let_def)
  moreover have "IsInjectedContainerName (kc_Name ?cert)" by (simp add: certContainer_def IsInjectedContainerName_def IsSidecarContainer_def)
  moreover have "cs_Volume (ij_Cert ?eff) \<in> vm_Name ` set (kc_VolumeMounts ?cert)" by (simp add: certContainer_def getCertVolumeMounts_def)
  ultimately have "cs_Volume (ij_Cert ?eff) \<in> set (reservedVolumeNames later)" by (force simp: reservedVolumeNames_def Let_def)
  hence res: "cs_Volume (ij_Cert (effective cfg ij)) \<in> set (reservedVolumeNames later)" "secretsVolumeName \<in> set (reservedVolumeNames later)"
    unfolding effective_cert by (blast, simp add: reservedVolumeNames_def Let_def)
  have loop: "ephemeral_loop reserved cs = Inr () \<Longrightarrow> c \<in> set cs \<Longrightarrow> \<not> IsInjectedContainerName (kc_Name c) \<and>
      (\<forall>m\<in>set (kc_VolumeMounts c). vm_Name m \<notin> set reserved \<and> \<not> HasPrefix (vm_Name m) KubeVolumePrefix)" for reserved cs
    by (induction cs) (auto simp: find_None_iff split: if_splits option.splits)
  have "ephemeral_loop (reservedVolumeNames later) (kp_EphemeralContainers later) = Inr ()"
    using assms(5) by (auto simp: webhook_Handle_def rejectEphemeralReservedMounts_def split: sum.splits)
  from loop[OF this assms(6)] show ?thesis using res by (auto simp: KubeVolumeName_def HasPrefix_def)
qed

text \<open>C33: \<^bold>\<open>A reserved name that the webhook does not use itself stays with the author.\<close> An init container that a pod declares under the name of the secret fetcher is
  dropped only if the pod asks for secrets. Otherwise it stays in the patched pod, with its image and arguments, under the name by which the node plugin
  mounts its socket directory into a container of a pod so marked.\<close>

theorem reserved_sidecar_kept:
  assumes "webhook_Handle k cfg sub ns (Some pod) = Patched pod'" and "wc_GetCertImage cfg \<noteq> []"
    and "parseAnnotations k (kp_Annotations pod) = Inr (Some ij)" and "c \<in> set (kp_InitContainers pod)" and "kc_Name c = SecretContainerName"
  shows "(\<exists>c'\<in>set (kp_InitContainers pod'). kc_Name c' = SecretContainerName \<and> kc_Image c' = kc_Image c \<and> kc_Args c' = kc_Args c \<and> IsSidecarContainer (kc_Name c') \<and>
      map_get (kp_Annotations pod') AnnotationInjected = ''true'') \<or> ss_Specs (ij_Secrets ij) \<noteq> []"
proof (cases "ss_Specs (ij_Secrets ij) = []")
  case True
  have pod': "pod' = mutatePod k (request_of k ns ij) cfg pod" using assms(1,2,3) by (auto simp: Handle_Patched)
  let ?eff = "effective cfg (request_of k ns ij)"
  have "kc_Name ` set (injected k (request_of k ns ij) cfg) \<subseteq> {CertContainerName, CertWaitContainerName, VolumeContainerName}"
    using True by (simp add: injected_def Let_def certContainer_def certWaitContainer_def volumeContainer_def)
  hence "SecretContainerName \<notin> kc_Name ` set (injected k (request_of k ns ij) cfg)"
    by (auto simp: CertContainerName_def VolumeContainerName_def SecretContainerName_def)
  hence "mounted ?eff c \<in> set (kp_InitContainers pod')" unfolding pod' mutatePod_eq using assms(4,5) by (simp add: injectInitContainers_def)
  thus ?thesis using assms(5) unfolding pod' mutatePod_eq
    by (intro disjI1 bexI[of _ "mounted ?eff c"]) (simp_all add: mounted_def IsSidecarContainer_def map_get_def)
qed simp


section \<open>A sample pod\<close>

text \<open>It asks for a secret, and its container mounts the secrets volume twice.\<close>

definition hook_rules :: k8s_rules where
  "hook_rules = \<lparr>kr_LabelValue = (\<lambda>_. True), kr_DNS1123Subdomain = (\<lambda>_. True), kr_DNS1035Label = (\<lambda>_. True), kr_ParseDuration = (\<lambda>_. None),
     kr_duration_String = (\<lambda>_. ''2h'')\<rparr>"

definition hook_config :: webhook_Config where
  "hook_config = \<lparr>wc_GetCertImage = ''c8s'', wc_CDSURL = ''https://cds'', wc_AttestationApiURL = ''http://api'', wc_CDSMeasurements = [], wc_CDSRTMRs = [],
     wc_CDSMeasurementsConfigJSON = [], wc_CertDir = [], wc_CertFSGroup = None, wc_CertRenewInterval = 0, wc_GetCertRunAsUser = None, wc_GetCertRunAsGroup = None,
     wc_GetCertRunAsNonRoot = None, wc_WorkloadClaimsHostDir = ''/run/s''\<rparr>"

abbreviation hook_mount :: "string \<Rightarrow> VolumeMount" where
  "hook_mount path \<equiv> \<lparr>vm_Name = secretsVolumeName, vm_MountPath = path, vm_ReadOnly = False, vm_MountPropagation = None, vm_Other = []\<rparr>"

abbreviation hook_container :: "string \<Rightarrow> VolumeMount list \<Rightarrow> k8s_Container" where
  "hook_container name ms \<equiv> \<lparr>kc_Name = name, kc_Image = ''app'', kc_ImagePullPolicy = [], kc_RestartPolicy = None, kc_Command = [], kc_Args = [], kc_Env = [],
     kc_VolumeMounts = ms, kc_SecurityContext = None, kc_Other = []\<rparr>"

definition hook_pod :: "(string \<times> string) list \<Rightarrow> k8s_Container list \<Rightarrow> k8s_Pod" where
  "hook_pod annotations inits = \<lparr>kp_Annotations = (AnnotationWorkload, ''web'') # annotations, kp_Labels = [], kp_HostNetwork = False, kp_ShareProcessNamespace = None,
     kp_SecurityContext = None, kp_Volumes = [], kp_Containers = [hook_container ''app'' [hook_mount ''/a'', hook_mount ''/b'']], kp_InitContainers = inits,
     kp_EphemeralContainers = []\<rparr>"

definition hook_injection :: "string list \<Rightarrow> injection" where
  "hook_injection specs = \<lparr>ij_WorkloadID = ''web'', ij_SAN = [], ij_Cert = \<lparr>cs_Volume = [], cs_Dir = [], cs_CertFile = [], cs_KeyFile = [], cs_CAFile = [],
     cs_RenewInterval = 0\<rparr>, ij_Reload = \<lparr>rl_Nginx = False, rl_WatchPaths = [], rl_WatchVolume = [], rl_WatchMountPath = []\<rparr>,
     ij_Discovery = \<lparr>di_Volume = [], di_MountPath = [], di_Out = [], di_CDSCertURL = [], di_MeshCAURL = [], di_PublicTLSMode = []\<rparr>,
     ij_Security = \<lparr>gs_RunAsUser = None, gs_RunAsGroup = None, gs_RunAsNonRoot = None\<rparr>, ij_Secrets = \<lparr>ss_Specs = specs, ss_Dir = []\<rparr>,
     ij_Volumes = \<lparr>vs_Specs = [], vs_Dir = []\<rparr>, ij_Verbose = False\<rparr>"

lemma hook_parsed:
  "parseAnnotations hook_rules (kp_Annotations (hook_pod [(AnnotationSecrets, ''db=/db'')] inits)) = Inr (Some (hook_injection [''db=/db'']))"
  "parseAnnotations hook_rules (kp_Annotations (hook_pod [] inits)) = Inr (Some (hook_injection []))"
  by code_simp+

lemma hook_patched:
  assumes "parseAnnotations hook_rules (kp_Annotations (hook_pod annotations inits)) = Inr (Some ij)"
  shows "\<exists>pod'. webhook_Handle hook_rules hook_config [] ''ns'' (Some (hook_pod annotations inits)) = Patched pod'"
proof -
  have "validateWorkloadLabel (hook_pod annotations inits) = Inr ()" "rejectReservedCertContainer (hook_pod annotations inits) = Inr ()"
    "volume_guard covers medium (hook_pod annotations inits) = Inr ()" "\<not> kp_HostNetwork (hook_pod annotations inits)" for covers medium
    by (simp_all add: hook_pod_def validateWorkloadLabel_def rejectReservedCertContainer_def volume_guard_def IsInjectedContainerName_def IsSidecarContainer_def
        CertContainerName_def SecretContainerName_def VolumeContainerName_def)
  thus ?thesis using assms unfolding Handle_Patched
    by (simp add: hook_config_def rejectReservedCertVolume_def rejectReservedSecretsVolume_def rejectReservedVolumeVolume_def)
qed

lemma hook_cert: "cert_name_ok (hook_pod [] inits)" "cert_name_ok (hook_pod [(AnnotationSecrets, v)] inits)" "wc_GetCertImage hook_config \<noteq> []"
  "cs_Volume (ij_Cert (effective cfg (hook_injection specs))) = defaultCertVolumeName"
  by (simp_all add: hook_pod_def map_get_def HasPrefix_def KubeVolumePrefix_def hook_config_def cert_volume_config hook_injection_def)

theorem patched_private_witness:
  "\<exists>pod'. webhook_Handle hook_rules hook_config [] ''ns'' (Some (hook_pod [] [])) = Patched pod' \<and> \<not> kp_HostNetwork pod' \<and>
     list_all (\<lambda>c. \<not> IsInjectedContainerName (kc_Name c)) (kp_Containers pod')"
  using hook_patched[OF hook_parsed(2), of "[]"] patched_private[OF _ hook_cert(3)] by blast

theorem secret_mounts_exact_witness:
  "\<exists>pod'. webhook_Handle hook_rules hook_config [] ''ns'' (Some (hook_pod [(AnnotationSecrets, ''db=/db'')] [])) = Patched pod' \<and>
     map (mounts_of secretsVolumeName) (kp_Containers pod') = [[(hook_mount ''/a'')\<lparr>vm_ReadOnly := True\<rparr>, hook_mount ''/b'']]"
proof -
  obtain pod' where p: "webhook_Handle hook_rules hook_config [] ''ns'' (Some (hook_pod [(AnnotationSecrets, ''db=/db'')] [])) = Patched pod'"
    using hook_patched[OF hook_parsed(1)] by blast
  from secret_mounts_exact[OF p hook_cert(3) hook_parsed(1)] p show ?thesis by (simp add: hook_cert(4)) (simp add: hook_injection_def hook_pod_def)
qed

theorem ephemeral_harmless_witness:
  "\<exists>pod'. webhook_Handle hook_rules hook_config [] ''ns'' (Some (hook_pod [] [])) = Patched pod' \<and>
     (let later = pod'\<lparr>kp_Annotations := [(AnnotationCertVolume, ''decoy'')], kp_EphemeralContainers := [hook_container ''debug'' []]\<rparr> in
      webhook_Handle hook_rules hook_config ''ephemeralcontainers'' ''ns'' (Some later) = Allowed \<and>
      vm_Name ` set (kc_VolumeMounts (hook_container ''debug'' [])) \<inter> ({defaultCertVolumeName, secretsVolumeName} \<union> range KubeVolumeName) = {})"
proof -
  obtain pod' where p: "webhook_Handle hook_rules hook_config [] ''ns'' (Some (hook_pod [] [])) = Patched pod'" using hook_patched[OF hook_parsed(2)] by blast
  let ?later = "pod'\<lparr>kp_Annotations := [(AnnotationCertVolume, ''decoy'')], kp_EphemeralContainers := [hook_container ''debug'' []]\<rparr>"
  have a: "webhook_Handle hook_rules hook_config ''ephemeralcontainers'' ''ns'' (Some ?later) = Allowed"
    by (simp add: webhook_Handle_def rejectEphemeralReservedMounts_def IsInjectedContainerName_def IsSidecarContainer_def CertContainerName_def
        SecretContainerName_def VolumeContainerName_def)
  from ephemeral_harmless[OF p hook_cert(3) hook_parsed(2) _ a, of "hook_container ''debug'' []"] p a show ?thesis unfolding Let_def hook_cert(4) by simp
qed

theorem reserved_sidecar_kept_witness:
  "\<exists>pod'. webhook_Handle hook_rules hook_config [] ''ns'' (Some (hook_pod [] [hook_container SecretContainerName []])) = Patched pod' \<and>
     (\<exists>c'\<in>set (kp_InitContainers pod'). kc_Name c' = SecretContainerName \<and> kc_Image c' = ''app'' \<and> IsSidecarContainer (kc_Name c'))"
proof -
  let ?pod = "hook_pod [] [hook_container SecretContainerName []]"
  obtain pod' where p: "webhook_Handle hook_rules hook_config [] ''ns'' (Some ?pod) = Patched pod'" using hook_patched[OF hook_parsed(2)] by blast
  have "hook_container SecretContainerName [] \<in> set (kp_InitContainers ?pod)" by (simp add: hook_pod_def)
  from reserved_sidecar_kept[OF p hook_cert(3) hook_parsed(2) this] p show ?thesis by (auto simp: hook_injection_def)
qed

abbreviation clash_pod :: k8s_Pod where
  "clash_pod \<equiv> hook_pod [(AnnotationCertVolume, ''c8s-volume-d''), (AnnotationVolumes, ''d=/db'')] []"

lemma clash_parsed:
  "map_sum id (map_option (\<lambda>ij. (cs_Volume (ij_Cert ij), vs_Specs (ij_Volumes ij)))) (parseAnnotations hook_rules (kp_Annotations clash_pod)) =
     Inr (Some (''c8s-volume-d'', [''d=/db'']))"
  by code_simp

theorem handle_idempotent_witness:
  "(\<exists>pod'. webhook_Handle hook_rules hook_config [] ''ns'' (Some (hook_pod [] [])) = Patched pod' \<and>
     webhook_Handle hook_rules hook_config [] ''ns'' (Some pod') = Patched pod') \<and>
   (\<exists>pod' e. webhook_Handle hook_rules hook_config [] ''ns'' (Some clash_pod) = Patched pod' \<and>
     webhook_Handle hook_rules hook_config [] ''ns'' (Some pod') = Errored (Some e))"
proof -
  obtain ij where "parseAnnotations hook_rules (kp_Annotations clash_pod) = Inr (Some ij)"
    using clash_parsed by (cases "parseAnnotations hook_rules (kp_Annotations clash_pod)") auto
  then obtain q where q: "webhook_Handle hook_rules hook_config [] ''ns'' (Some clash_pod) = Patched q" using hook_patched by blast
  have "HasPrefix (map_get (kp_Annotations clash_pod) AnnotationCertVolume) KubeVolumePrefix" by code_simp
  hence "\<exists>e. webhook_Handle hook_rules hook_config [] ''ns'' (Some q) = Errored (Some e)"
    using handle_idempotent[OF q] hook_cert(3) by simp
  moreover obtain p where p: "webhook_Handle hook_rules hook_config [] ''ns'' (Some (hook_pod [] [])) = Patched p" using hook_patched[OF hook_parsed(2)] by blast
  have "webhook_Handle hook_rules hook_config [] ''ns'' (Some p) = Patched p" using handle_idempotent[OF p] hook_cert(1) by simp
  ultimately show ?thesis using p q by blast
qed


end
