(* ===== verification/Spec2Isabelle.thy ===== *)
theory Spec2Isabelle
  imports Admission_History Go_Quote Cds_Sample Node_Evidence Nri_Validate Nri_Pull Webhook_Props
begin

text \<open>
  A verification development for c8s, a confidential-computing layer for Kubernetes. File names below are relative to \<^verbatim>\<open>src/\<close>.

  \<^bold>\<open>The program.\<close> CDS, the Certificate Distribution Service, is the trust root. It holds the allowlist (which containers, started how, make up a
  named workload, and which secrets a workload may read and write), issues certificates to attested callers, and releases secrets. On every node a
  plugin of the container runtime admits each container against the allowlist, which it pulls from CDS, and keeps an inventory of what it admitted in
  every pod sandbox. CDS asks that inventory, over the host an attested caller vouched for, what runs in a sandbox before it names the workload on a
  certificate or releases a secret. An admission webhook injects the containers that fetch certificates, secrets and volumes into the pods that opt in.

  \<^bold>\<open>The theories and what they model.\<close>
  \<^item> \<^verbatim>\<open>C8s_Prelude\<close>: errors as values (a Go pair of value and error is a sum, \<^const>\<open>Inl\<close> the error), Go maps as association lists, and the functions of
    Go's \<^verbatim>\<open>strings\<close> and \<^verbatim>\<open>path\<close> the sources call. \<^verbatim>\<open>Go_Json\<close>, \<^verbatim>\<open>Go_Quote\<close>, \<^verbatim>\<open>Go_Net\<close> and \<^verbatim>\<open>Http\<close> hold what is used of \<^verbatim>\<open>encoding/json\<close>
    (printing), \<^verbatim>\<open>strconv\<close>, \<^verbatim>\<open>net\<close> and \<^verbatim>\<open>net/http\<close>. Strings are lists of bytes.
  \<^item> \<^verbatim>\<open>Digest\<close>, \<^verbatim>\<open>Allowlist\<close>, \<^verbatim>\<open>Allowlist_Match\<close>, \<^verbatim>\<open>Allowlist_Normalize\<close>, \<^verbatim>\<open>Secret_Path\<close> (\<^verbatim>\<open>pkg/types\<close>, \<^verbatim>\<open>pkg/allowlist\<close>): the policy language. Records
    and datatypes follow the structs; one function per method. Shown: a sandbox matches at most one entry and only with every container accounted for; normalised
    documents are fixed points; the policy digest determines every decision; a grant covers whole path components.
  \<^item> \<^verbatim>\<open>Allowlist_Store\<close>, \<^verbatim>\<open>Allowlist_Handler\<close> (\<^verbatim>\<open>internal/allowlist\<close>): the store as a database state in which any statement may fail, and its API. Shown: the index
    and the document agree after any history, writes are atomic and authorised, and an entity tag names one document.
  \<^item> \<^verbatim>\<open>Challenges\<close>, \<^verbatim>\<open>Sandbox_Ledger\<close>, \<^verbatim>\<open>Rate_Limit\<close>, \<^verbatim>\<open>Secret_Store\<close>, \<^verbatim>\<open>Operator_Auth\<close> (\<^verbatim>\<open>internal/attestation\<close>, \<^verbatim>\<open>internal/sandboxledger\<close>,
    \<^verbatim>\<open>internal/issuer/ratelimit.go\<close>, \<^verbatim>\<open>internal/secrets/store.go\<close>, \<^verbatim>\<open>pkg/operatorauth\<close>): the bounded stores and the operator's token. Shown: a challenge is accepted
    once, a live binding is not taken over, holders are charged exactly, a token signed by a pinned key is bound to method, path and body.
  \<^item> \<^verbatim>\<open>Admission_History\<close>, \<^verbatim>\<open>Sandbox_Claims\<close>, \<^verbatim>\<open>Issuer\<close>, \<^verbatim>\<open>Attest\<close> (\<^verbatim>\<open>internal/admissionhistory\<close>, \<^verbatim>\<open>pkg/workloadclaims\<close>, \<^verbatim>\<open>pkg/ratls\<close>, \<^verbatim>\<open>internal/issuer\<close>,
    \<^verbatim>\<open>internal/cmds/cds/attest.go\<close>): sandbox identity and issuance, and the client that reads an inventory report:
    the JSON it arrives in leaves out the local source of a mount, an empty argv and an absent environment. Shown: what a certificate that names a sandbox or a workload stands for.
  \<^item> \<^verbatim>\<open>Secret_Policy\<close>, \<^verbatim>\<open>Secret_Release\<close>, \<^verbatim>\<open>Secret_Operator\<close> (\<^verbatim>\<open>internal/secrets\<close>): the release of secrets, the operator's writes and the diagnostic.
  \<^item> \<^verbatim>\<open>Cds_Service\<close>, \<^verbatim>\<open>Cds_Sample\<close> (\<^verbatim>\<open>internal/cmds/cds\<close>): start, routes and middleware, and the service as a run of events over one state; the properties over whole
    histories are in this theory.
  \<^item> \<^verbatim>\<open>Nri_Mounts\<close>, \<^verbatim>\<open>Nri_Sandbox\<close>, \<^verbatim>\<open>Nri_Config\<close>, \<^verbatim>\<open>Nri_Inventory\<close>, \<^verbatim>\<open>Nri_Exempt\<close>, \<^verbatim>\<open>Nri_Admission\<close>, \<^verbatim>\<open>Nri_Plugin\<close>, \<^verbatim>\<open>Nri_Node\<close>, \<^verbatim>\<open>Nri_Validate\<close>, \<^verbatim>\<open>Nri_Pull\<close>,
    \<^verbatim>\<open>Nri_Sample\<close> (\<^verbatim>\<open>internal/cmds/nri-image-policy\<close>, \<^verbatim>\<open>pkg/allowlistclient\<close>): the node plugin as a step relation whose labels are the calls of the runtime, pulls, restarts and
    reboots. Shown: exactly what may start, what a started container can reach, that the inventory implements a log of admissions, the boot gate, that the exemption stays
    frozen, that policies do not roll back, and that the plugin follows the document of CDS.
  \<^item> \<^verbatim>\<open>Node_Evidence\<close>: joins the two sides. What CDS matches at a release is what the node let start.
  \<^item> \<^verbatim>\<open>Webhook_Annotations\<close>, \<^verbatim>\<open>Webhook_Mutate\<close>, \<^verbatim>\<open>Webhook\<close>, \<^verbatim>\<open>Webhook_Props\<close> (\<^verbatim>\<open>internal/webhook/pod_mutator.go\<close>): the webhook. Pods carry the fields it reads or
    writes; what it only carries along is one opaque field of each object. Shown: what a patched pod guarantees, what patching it again does, and where the code falls short of its comments.

  \<^bold>\<open>Interfaces.\<close> Locales state what one part relies on of another: an admission index (\<^verbatim>\<open>admission\<close>), a versioned store (\<^verbatim>\<open>versioned_store\<close>, interpreted for the entity tag
  and for the generation counter), single-use nonces (\<^verbatim>\<open>nonce_source\<close>), a ledger where the first claim wins (\<^verbatim>\<open>first_claim\<close>), a secret backend (\<^verbatim>\<open>secret_backend\<close>) and a
  simulation (\<^verbatim>\<open>simulation\<close>). Each is interpreted on the definitions that model the code.

  \<^bold>\<open>Parameters.\<close> SHA-256 is a function \<open>H\<close>; where a property needs it, freedom from collisions on the strings at hand is a hypothesis. Also parameters are the attestation verdict,
  X.509 and JWT libraries, JSON and YAML decoders, regular expressions, the token bucket, label selectors and name rules of Kubernetes, the runtime's
  image store, and what the kernel reports of processes and mounts. Times are integers passed to each call.

  \<^bold>\<open>Bounds and loops.\<close> Policy versions on the node are 64-bit words (the version and the generation of the store are natural numbers); durations are nanoseconds as integers within the ranges the code checks. Loops are structural recursion
  or have a termination proof. Trimming of spaces takes a bound on its rounds and is called with the length of the string, which is enough since every round removes a byte.

  \<^bold>\<open>Concurrency.\<close> A method under a mutex is one step. A call that reads the store twice gets the store of two moments where a property depends on it (\<^verbatim>\<open>Secret_Policy\<close>,
  the policy snapshot in \<^verbatim>\<open>Attest\<close>, \<^verbatim>\<open>HandleList\<close> when the plugin polls). \<^verbatim>\<open>Cds_Service\<close> composes whole requests one after the other, and the
  node addresses that bound the inventory hosts are those of the start, while \<^verbatim>\<open>inventorynodes.go\<close> updates them as nodes come and go.

  \<^bold>\<open>Not modelled.\<close> Logging, metrics, audit records and the texts of errors. The mesh proxy (\<^verbatim>\<open>internal/cmds/ratlsmesh\<close>), the volume agent, the sidecars that fetch
  certificates and secrets, the router's over-encryption, launch configuration, credential release, controllers, the command-line tools and the installer: their
  substance is effects on kernels, files, sockets, processes and the Kubernetes API, or calls of cryptographic libraries, of which the definitions here would only restate assumptions. RA-TLS
  handshakes (\<^verbatim>\<open>pkg/ratls/tls.go\<close>) enter as the verdict on a caller. The CA bundle, CA rotator and node tracker of \<^verbatim>\<open>internal/issuer\<close> are built by tests only.
\<close>

section \<open>Properties of the whole service\<close>

text \<open>C1: \<^bold>\<open>A secret reaches the workload it is meant for, end to end.\<close> Start the service in any configuration over a consistent allowlist
  store, let it serve any requests and run its sweeps, and suppose a request for a secret is then answered 200. The answer is a
  value for the path of the request, and all of this holds. The caller proved its sandbox against a live challenge of the secrets
  pool, through the inventory the sandbox is bound to. That binding was recorded by an earlier request that passed every check of
  issuance: its body named a live challenge of the issuance pool, its caller attested against it, that inventory vouched for the sandbox under it, the allowlist
  admitted what the sandbox ran, and it was given a certificate, unless signing one failed. The allowlist that the store holds at this moment has exactly one entry for the containers the
  inventory reports, and that entry grants reading the path. And the value was stored there by an earlier request: an operator's, authorised for
  that path and value, or a workload's that was at its own time entitled to write the path.\<close>

theorem release_end_to_end:
  assumes "run_cds x cfg su = Inr (d, router, s0)" and "db_inv (st_db (su_store su))" and "decodes_maps x"
    and "s = cds_run x d router es s0" and "ServeCDS x d router m RSecrets r s = (Plain resp, s')" and "rs_Status resp = StatusOK"
  shows "\<exists>h path v sid host name w. dp_SecretsHandler d = Some h \<and> resp = writeValue v StatusOK \<and>
    entitled_now x h m r s path sid host name w \<and> Allows (w_Secrets w) path OpRead \<and>
    (\<exists>es1 e es2. es = es1 @ e # es2 \<and> binds x d router (cds_run x d router es1 s0) e sid host) \<and>
    (\<exists>es1 e es2. es = es1 @ e # es2 \<and> writes x d (cds_run x d router es1 s0) e path v)"
proof -
  note start = run_cds_Inr[OF assms(1)]
  have pol: "policy_ok (cx_H x) s0" by (rule run_cds_policy_ok[OF assms(1,2)])
  hence "policy_ok (cx_H x) s" unfolding assms(4) by (rule run_policy_ok[OF assms(3)])
  from this assms(5,6) obtain h path v sid host name w where v: "dp_SecretsHandler d = Some h" "resp = writeValue v StatusOK"
      "entitled_now x h m r s path sid host name w" "Allows (w_Secrets w) path OpRead" "ms_Get (cd_secrets s) path = Inr v"
    by (rule ServeCDS_value)
  have "\<exists>es1 e es2. es = es1 @ e # es2 \<and> writes x d (cds_run x d router es1 s0) e path v"
    using run_writes[OF assms(3) pol start(5)] v(5) assms(4) by blast
  moreover have "ledger_Lookup sid (cm_lookup m) (cd_bindings s) = Some host" using v(3) by (auto simp: entitled_now_def authentic_def)
  then obtain t where "ledger_owner (cd_bindings s) sid = Some (host, t)" by (auto simp: ledger_Lookup_owner split: option.splits if_splits)
  hence "\<exists>es1 e es2. es = es1 @ e # es2 \<and> binds x d router (cds_run x d router es1 s0) e sid host"
    using run_binds[OF _ start(3)] start(3) NewLedger_inv unfolding assms(4) by metis
  ultimately show ?thesis using v by blast
qed

theorem release_end_to_end_witness:
  "\<exists>h path v sid host name w. dp_SecretsHandler cds_d = Some h \<and> writeValue ''pw'' StatusOK = writeValue v StatusOK \<and>
    entitled_now cds_x h (cds_m 4) cds_get (cds_run cds_x cds_d cds_router cds_events cds_s0) path sid host name w \<and>
    (\<exists>es1 e es2. cds_events = es1 @ e # es2 \<and> binds cds_x cds_d cds_router (cds_run cds_x cds_d cds_router es1 cds_s0) e sid host)"
proof -
  obtain s' where sv: "ServeCDS cds_x cds_d cds_router (cds_m 4) RSecrets cds_get (cds_run cds_x cds_d cds_router cds_events cds_s0) =
    (Plain (writeValue ''pw'' StatusOK), s')" by (rule cds_served)
  have "db_inv (st_db (su_store cds_su))" by (simp add: cds_su_def cds_store_def db_inv_def entry_rows_def rel_workload_def)
  moreover have "decodes_maps cds_x" by (simp add: decodes_maps_def cds_x_def)
  moreover have "rs_Status (writeValue ''pw'' StatusOK) = StatusOK" by (simp add: writeValue_def)
  ultimately show ?thesis using release_end_to_end[OF cds_started(1) _ _ refl sv] by blast
qed

text \<open>C9: \<^bold>\<open>The inventory that vouched for a sandbox is the one releases go by.\<close> Suppose an issuance has bound a sandbox to an inventory, and then anything is attested,
  served and swept until the binding expires. Suppose a caller whose certificate names that sandbox is now given a secret, or stores one. Then it showed
  a token that verifies under the key of that inventory and names the inventory and the sandbox, and the containers that were matched
  against the policy in force are those that this inventory reports. No other inventory's word counts for the sandbox.\<close>

theorem inventory_pinned:
  assumes "run_cds x cfg su = Inr (d, router, s0)" and "s = cds_run x d router es s0"
    and "ServeCDS x d router m RAttest r s = (resp, s1)" and "ledger_Record sid host (cm_record m) (cd_bindings s) = (True, cd_bindings s1)"
    and "ttl = CapTTL (cf_certTTL cfg) MaxLeafTTL"
    and "\<And>e now. e \<in> set es' \<Longrightarrow> ledger_time e = Some now \<Longrightarrow> cm_record m \<le> now \<and> now < cm_record m + ttl"
    and "cm_lookup m' < cm_record m + ttl"
    and "ServeCDS x d router m' RSecrets r' (cds_run x d router es' s1) = (Plain resp', s')"
    and "tr_TLS r' = Some t" and "tls_PeerCertificates t = leaf # rest" and "SandboxIDFromCert (x_ia5 (cx_release x)) leaf = Inr sid"
    and "rs_Status resp' \<in> {StatusOK, StatusCreated} \<or> cd_secrets s' \<noteq> cd_secrets (cds_run x d router es' s1)"
  shows "\<exists>h inventory ikey token tok report al name w. dp_SecretsHandler d = Some h \<and> sh_Inventory h = Some inventory \<and>
    is_InventoryKey inventory host = Some ikey \<and> parseToken (cx_release x) r' = Inr token \<and>
    x_verify (cx_release x) ikey (x_H (cx_release x) (sandboxTokenDomainSep @ st_Token token)) (st_Signature token) \<and>
    x_token (cx_release x) (st_Token token) = Some (tok, []) \<and> tk_InventoryHost tok = host \<and> tk_SandboxID tok = sid \<and>
    is_FetchSandbox inventory host sid = Some report \<and>
    fst (cached_Allowlist (policy_read_of m' (cds_run x d router es' s1)) (cd_policy (cds_run x d router es' s1))) = Inr al \<and>
    MatchWorkload (x_H (cx_release x)) al (WorkloadContainers al (sd_Containers report)) = Inr (name, w)"
proof -
  let ?s = "cds_run x d router es' s1"
  have "ledger_inv (cd_bindings s0)" "le_ttl (cd_bindings s0) = ttl" using run_cds_Inr(3)[OF assms(1)] assms(5) by (simp_all add: NewLedger_inv)
  hence s: "ledger_inv (cd_bindings s)" "le_ttl (cd_bindings s) = ttl" using run_ledger_inv unfolding assms(2) by metis+
  have s1: "ledger_inv (cd_bindings s1)" "le_ttl (cd_bindings s1) = ttl" "claims.holds sid host (cm_record m) (cd_bindings s1)"
    using ledger_Record_inv[OF s(1) assms(4)] ledger_Record_holds[OF assms(4)] s(2) by simp_all
  have "claims.holds sid host (cm_record m) (cd_bindings ?s)"
    by (rule run_holds[OF s1(1,3)]) (use assms(6) s1(2) in auto)
  moreover have "le_ttl (cd_bindings ?s) = ttl" using run_ledger_inv[OF s1(1)] s1(2) by metis
  ultimately obtain e where e: "ledger_owner (cd_bindings ?s) sid = Some (host, e)" "cm_record m + ttl \<le> e"
    by (auto simp: claims.holds_def)
  from assms(8,12) obtain h nonce sid' host' al name w where a: "dp_SecretsHandler d = Some h"
      "authentic (cx_release x) h (Some (cd_bindings ?s)) (cm_lookup m') r' nonce sid' host'" "entitled (cx_release x) h al sid' host' name w"
      "fst (cached_Allowlist (policy_read_of m' ?s) (cd_policy ?s)) = Inr al"
    by (rule ServeCDS_identified)
  have "sid' = sid" using a(2) assms(9-11) by (auto simp: authentic_def)
  moreover have "ledger_Lookup sid' (cm_lookup m') (cd_bindings ?s) = Some host'" using a(2) by (auto simp: authentic_def)
  ultimately have "sid' = sid" "host' = host" using e assms(7) by (auto simp: ledger_Lookup_owner split: if_splits)
  with a obtain inventory ikey token tok report where "sh_Inventory h = Some inventory" "is_InventoryKey inventory host = Some ikey"
      "parseToken (cx_release x) r' = Inr token"
      "x_verify (cx_release x) ikey (x_H (cx_release x) (sandboxTokenDomainSep @ st_Token token)) (st_Signature token)"
      "x_token (cx_release x) (st_Token token) = Some (tok, [])" "tk_InventoryHost tok = host" "tk_SandboxID tok = sid"
      "is_FetchSandbox inventory host sid = Some report"
      "MatchWorkload (x_H (cx_release x)) al (WorkloadContainers al (sd_Containers report)) = Inr (name, w)"
    by (auto simp: authentic_def entitled_def)
  thus ?thesis using a(1,4) by blast
qed

theorem inventory_pinned_witness:
  "\<exists>h inventory ikey token tok report al name w. dp_SecretsHandler cds_d = Some h \<and> sh_Inventory h = Some inventory \<and>
    is_InventoryKey inventory sample_host = Some ikey \<and> parseToken (cx_release cds_x) cds_get = Inr token \<and>
    x_verify (cx_release cds_x) ikey (x_H (cx_release cds_x) (sandboxTokenDomainSep @ st_Token token)) (st_Signature token) \<and>
    x_token (cx_release cds_x) (st_Token token) = Some (tok, []) \<and> tk_InventoryHost tok = sample_host \<and> tk_SandboxID tok = ''sbx'' \<and>
    is_FetchSandbox inventory sample_host ''sbx'' = Some report \<and>
    MatchWorkload (x_H (cx_release cds_x)) al (WorkloadContainers al (sd_Containers report)) = Inr (name, w)"
proof -
  let ?s = "cds_run cds_x cds_d cds_router [Serve RAuthenticate (cds_m 0) cds_get] cds_s0"
  let ?es = "[Serve RSecretPut (cds_m 2) op_request, Serve RSecretChallenge (cds_m 3) cds_get]"
  obtain resp s1 where a: "ServeCDS cds_x cds_d cds_router (cds_m 1) RAttest cds_get ?s = (resp, s1)" by fastforce
  have run: "cds_run cds_x cds_d cds_router cds_events cds_s0 = cds_run cds_x cds_d cds_router ?es s1"
    using a by (simp add: cds_events_def)
  have "cd_bindings ?s = NewLedger 60 9"
    using step_quiet[of "Serve RAuthenticate (cds_m 0) cds_get" cds_x cds_d cds_router cds_s0] run_cds_Inr(3)[OF cds_started(1)]
    by (simp add: ledger_time_def cds_cfg_def CapTTL_def MaxLeafTTL_def)
  moreover have "cd_bindings (cds_run cds_x cds_d cds_router ?es s1) = cd_bindings s1"
    by (simp add: step_quiet ledger_time_def del: cds_step.simps)
  moreover have "cd_bindings (cds_run cds_x cds_d cds_router cds_events cds_s0) = cds_ledger" by (rule cds_run_ends) simp
  moreover have "fst (ledger_Record ''sbx'' sample_host 0 (NewLedger 60 9))" by (simp add: ledger_Record_def NewLedger_def sample_host_def)
  ultimately have rec: "ledger_Record ''sbx'' sample_host (cm_record (cds_m 1)) (cd_bindings ?s) = (True, cd_bindings s1)"
    using run by (simp add: cds_m_def prod_eq_iff)
  obtain s' where sv: "ServeCDS cds_x cds_d cds_router (cds_m 4) RSecrets cds_get (cds_run cds_x cds_d cds_router ?es s1) =
    (Plain (writeValue ''pw'' StatusOK), s')" using cds_served unfolding run by blast
  have time: "cm_record (cds_m 1) \<le> now \<and> now < cm_record (cds_m 1) + CapTTL (cf_certTTL cds_cfg) MaxLeafTTL"
    if "e \<in> set ?es" "ledger_time e = Some now" for e now using that by (auto simp: ledger_time_def)
  have look: "cm_lookup (cds_m 4) < cm_record (cds_m 1) + CapTTL (cf_certTTL cds_cfg) MaxLeafTTL"
    by (simp add: cds_m_def cds_cfg_def CapTTL_def MaxLeafTTL_def)
  have x: "cx_release cds_x = rel_external" by (simp add: cds_x_def cds_attest_def rel_external_def external.truncate_def)
  let ?leaf = "\<lparr>ct_PublicKey = (), ct_Extensions = [(OIDSandboxID, [])]\<rparr>"
  have sid: "SandboxIDFromCert (x_ia5 (cx_release cds_x)) ?leaf = Inr ''sbx''"
    unfolding x by (simp add: SandboxIDFromCert_def rel_external_def ValidateSandboxID_def sandbox_id_char_def name_byte_def)
  have tls: "tr_TLS cds_get = Some \<lparr>tls_PeerCertificates = [?leaf], tls_VerifiedChains = 1\<rparr>" by (simp add: cds_get_def rel_request_def)
  have peer: "tls_PeerCertificates \<lparr>tls_PeerCertificates = [?leaf], tls_VerifiedChains = 1\<rparr> = ?leaf # []" by simp
  have ok: "rs_Status (writeValue ''pw'' StatusOK) \<in> {StatusOK, StatusCreated} \<or>
      cd_secrets s' \<noteq> cd_secrets (cds_run cds_x cds_d cds_router ?es s1)" by (simp add: writeValue_def)
  show ?thesis
  proof (rule revcut_rl[OF inventory_pinned[OF cds_started(1) refl a rec refl _ look sv tls peer sid ok]], goal_cases)
    case (1 e now)
    thus ?case by (rule time)
  next
    case 2
    thus ?case by (elim exE conjE) (intro exI conjI; assumption)
  qed
qed

text \<open>C15: \<^bold>\<open>The two challenge pools do not mix.\<close> A nonce that the secrets route never handed out is no good for a secret, even if
  \<^verbatim>\<open>/authenticate\<close> did hand it out: the answer is an error and nothing but a limiter changes. Likewise a nonce that
  \<^verbatim>\<open>/authenticate\<close> never handed out gets no certificate, even if the secrets route did.\<close>

theorem challenge_pools_separate:
  fixes x :: "('p, 'k, 'e, 'v, 'i, 'l) cds_external"
  assumes "run_cds x cfg su = Inr (d, router, s0)" and "s = cds_run x d router es s0"
  shows "(\<forall>m r n. request_nonce r = Some n \<longrightarrow> n \<notin> handed_out RSecretChallenge es \<longrightarrow>
      (\<exists>st s'. ServeCDS x d router m RSecrets r s = (Plain (status st), s') \<and> st \<in> {StatusBadRequest, StatusNotFound, StatusTooManyRequests} \<and>
         attest_view s' = attest_view s \<and> secret_view s' = secret_view s \<and> cd_allowlist s' = cd_allowlist s)) \<and>
    (\<forall>m r req n. ax_body (cx_attest x) (fst (rq_Body r)) = Some req \<longrightarrow> StdDecode (ab_Challenge req) = Some n \<longrightarrow>
       n \<notin> handed_out RAuthenticate es \<longrightarrow>
       HandleAttest (cx_attest x) (dp_AttestHandler d) m r (attest_view s) = (Inl (StatusBadRequest, InvalidChallenge), attest_view s))"
proof -
  note start = run_cds_Inr[OF assms(1)]
  have "live (cd_challenges s) \<subseteq> handed_out RAuthenticate es" "live (cd_secret_challenges s) \<subseteq> handed_out RSecretChallenge es"
    using run_pools[OF start(6,7)] unfolding assms(2) by blast+
  hence out: "n \<notin> handed_out RAuthenticate es \<Longrightarrow> n \<notin> live (cd_challenges s)"
    "n \<notin> handed_out RSecretChallenge es \<Longrightarrow> n \<notin> live (cd_secret_challenges s)" for n by blast+
  show ?thesis
  proof (intro conjI allI impI)
    fix m and r :: "'p tls_request" and n
    assume "request_nonce r = Some n" "n \<notin> handed_out RSecretChallenge es"
    from ServeCDS_unissued[OF this(1) out(2)[OF this(2)] surjective_pairing, of x d router m]
    obtain st where "fst (ServeCDS x d router m RSecrets r s) = Plain (status st)" "st \<in> {StatusBadRequest, StatusNotFound, StatusTooManyRequests}"
      "attest_view (snd (ServeCDS x d router m RSecrets r s)) = attest_view s" "secret_view (snd (ServeCDS x d router m RSecrets r s)) = secret_view s"
      "cd_allowlist (snd (ServeCDS x d router m RSecrets r s)) = cd_allowlist s" by blast
    thus "\<exists>st s'. ServeCDS x d router m RSecrets r s = (Plain (status st), s') \<and> st \<in> {StatusBadRequest, StatusNotFound, StatusTooManyRequests} \<and>
         attest_view s' = attest_view s \<and> secret_view s' = secret_view s \<and> cd_allowlist s' = cd_allowlist s"
      by (intro exI[of _ st] exI[of _ "snd (ServeCDS x d router m RSecrets r s)"]) (simp add: prod_eq_iff)
  next
    fix m and r :: request and req n
    assume a: "ax_body (cx_attest x) (fst (rq_Body r)) = Some req" "StdDecode (ab_Challenge req) = Some n" "n \<notin> handed_out RAuthenticate es"
    show "HandleAttest (cx_attest x) (dp_AttestHandler d) m r (attest_view s) = (Inl (StatusBadRequest, InvalidChallenge), attest_view s)"
      by (rule HandleAttest_unissued[OF a(1,2)]) (use out(1)[OF a(3)] in simp)
  qed
qed

theorem challenge_pools_separate_witness:
  "\<exists>st s'. ServeCDS cds_x cds_d cds_router (cds_m 4) RSecrets cds_get
     (cds_run cds_x cds_d cds_router [Serve RAuthenticate (cds_m 0) cds_get] cds_s0) = (Plain (status st), s')"
proof -
  have "request_nonce cds_get = Some rel_nonce" by (simp add: request_nonce_def cds_get_def rel_header rel_nonce_coded)
  moreover have "rel_nonce \<notin> handed_out RSecretChallenge [Serve RAuthenticate (cds_m 0) cds_get]" by (simp add: handed_out_def)
  ultimately show ?thesis
    using challenge_pools_separate[OF cds_started(1) refl, of "[Serve RAuthenticate (cds_m 0) cds_get]"] by blast
qed

section \<open>From the node to the release\<close>

text \<open>C2: \<^bold>\<open>Whatever was let start in a sandbox is covered by the entry its secrets are released under.\<close> A node's plugin resolves the image of a container to a
  digest and lets the container start; it keeps running without a restart and the sandbox is not removed. Suppose CDS now finds the sandbox entitled under an entry,
  with the report that the client read from this node's inventory over JSON, and the strings of the container are valid UTF-8. Then the container, with the digest,
  arguments, environment and mounts it was let start with, is one the entry admits, or is one of the injected helpers. So one container
  that the entry does not describe, even one that has exited, denies the sandbox every secret.\<close>

theorem started_covered:
  assumes "plugin_run e (newPlugin e file marker) ls0 p" and "StartContainer e ou pod ctr p = (Inr (), p1)" and "plugin_run e p1 ls p2"
    and "no_restart ls" and "\<And>pod'. LRemovePod pod' \<in> set ls \<Longrightarrow> pd_Id pod' \<noteq> ct_PodSandboxId ctr"
    and "ct_Id ctr \<noteq> []" and "ct_PodSandboxId ctr \<noteq> []" and "filed_digest p ou ctr \<noteq> []" and "pg_inventory p2 = Some b"
    and "entitled x h al (ct_PodSandboxId ctr) host name w" and "x_H x = en_H e" and "sh_Inventory h = Some inventory"
    and "is_FetchSandbox inventory = FetchSandbox get" and "get host (ct_PodSandboxId ctr) = Some (serve_digests (en_pr e) b (ct_PodSandboxId ctr))"
    and "valid_json (reported_json (admitted_container (filed_digest p ou ctr) (Some (ct_Args ctr)) (containerEnv (en_H e) ctr)
        (Some (mounts_Observe (en_H e) (en_storage e) pod ctr))))"
  shows "isInjected al (admitted_container (filed_digest p ou ctr) (Some (ct_Args ctr)) (containerEnv (en_H e) ctr)
        (Some (mounts_Observe (en_H e) (en_storage e) pod ctr))) \<or>
    (\<exists>k\<in>set (w_containers w). container_admits (en_H e) k
       \<lparr>rc_Digest = filed_digest p ou ctr, rc_Argv = ct_Args ctr, rc_Mounts = Some (mounts_Observe (en_H e) (en_storage e) pod ctr),
        rc_Env = containerEnv (en_H e) ctr\<rparr>)"
proof -
  let ?a = "admitted_container (filed_digest p ou ctr) (Some (ct_Args ctr)) (containerEnv (en_H e) ctr) (Some (mounts_Observe (en_H e) (en_storage e) pod ctr))"
  from assms(10,12-14) obtain resp report where r: "serve_digests (en_pr e) b (ct_PodSandboxId ctr) = Inr resp"
      "is_FetchSandbox inventory host (ct_PodSandboxId ctr) = Some report" "sd_Containers report = map reported_read (sd_Containers resp)"
    by (rule entitled_reads)
  then obtain c where c: "c \<in> set (sd_Containers resp)" "evidence c = evidence ?a" using reported_after_start[OF assms(1-9)] by auto
  have "reported_read c \<in> set (sd_Containers report)" using r(3) c(1) by simp
  note covers = entitled_covers[OF assms(10,12) r(2) this]
  have ev: "evidence (reported_read c) = evidence ?a"
    unfolding reported_read_evidence[OF c(2)] by (rule evidence_reported_read[OF assms(15)])
  show ?thesis using covers policy_evidence(1)[OF ev] policy_evidence(2)[OF ev] assms(11) by auto
qed

theorem started_covered_witness:
  "isInjected node_doc node_reported \<or>
   (\<exists>k\<in>set (w_containers rel_workload). container_admits (\<lambda>s. s) k
      \<lparr>rc_Digest = node_image, rc_Argv = [''run''], rc_Mounts = Some data_mounts, rc_Env = containerEnv (\<lambda>s. s) node_ctr\<rparr>)"
proof -
  obtain p1 where p1: "StartContainer node_env node_out (node_pod ''default'') data_ctr node_p0 = (Inr (), p1)" using data_started by blast
  have pr: "en_pr node_env = (\<lambda>_. True)" "en_H node_env = (\<lambda>s. s)" "en_storage node_env = (\<lambda>_. [])" "x_H rel_external = (\<lambda>s. s)"
    by (simp_all add: node_env_def rel_external_def)
  have fd: "filed_digest node_p0 node_out data_ctr = node_image" by (simp add: filed_digest_def)
  show ?thesis
    using started_covered[OF plugin_run.nil p1 plugin_run.nil _ _ _ _ _ node_started_inv[OF p1], where x=rel_external and h=node_handler and al=node_doc
        and name="''web''" and w=rel_workload and host="[]" and inventory="the (sh_Inventory node_handler)" and get=node_get] node_entitled node_valid
    by (simp add: fd pr node_handler_def node_get_def)
qed

end
